(* ===== verification/Prelude.thy ===== *)
theory Prelude
  imports Main "HOL-Library.Code_Target_Numeral"
begin

text \<open>
  Shared vocabulary of the development: JavaScript strings as lists of UTF-16 code units, the
  string methods the voice code uses, results of code that may throw, and a state-and-exception
  monad for the code that mutates storage and may throw halfway.
\<close>

section \<open>Collections of facts\<close>

named_theorems js_str \<open>evaluation and algebra of the string methods\<close>
named_theorems proc_simps \<open>unfolding of the state-and-exception combinators\<close>

section \<open>Strings\<close>

text \<open>A JavaScript string is a finite sequence of 16-bit code units, here natural numbers.\<close>

type_synonym jsstr = "nat list"

definition js :: "string \<Rightarrow> jsstr" where
  "js s = map of_char s"

text \<open>The \<open>WhiteSpace\<close> and \<open>LineTerminator\<close> code units: what \<open>trim\<close> strips and what \<open>\\s\<close> matches.\<close>

definition js_space :: "nat \<Rightarrow> bool" where
  "js_space c \<longleftrightarrow> (9 \<le> c \<and> c \<le> 13) \<or> c = 32 \<or> c = 160 \<or> c = 5760 \<or> (8192 \<le> c \<and> c \<le> 8202)
     \<or> c = 8232 \<or> c = 8233 \<or> c = 8239 \<or> c = 8287 \<or> c = 12288 \<or> c = 65279"

definition ltrim :: "jsstr \<Rightarrow> jsstr" where
  "ltrim s = dropWhile js_space s"

definition rtrim :: "jsstr \<Rightarrow> jsstr" where
  "rtrim s = rev (dropWhile js_space (rev s))"

definition trim :: "jsstr \<Rightarrow> jsstr" where
  "trim s = rtrim (ltrim s)"

definition is_digit :: "nat \<Rightarrow> bool" where
  "is_digit c \<longleftrightarrow> 48 \<le> c \<and> c \<le> 57"

definition is_upper :: "nat \<Rightarrow> bool" where
  "is_upper c \<longleftrightarrow> 65 \<le> c \<and> c \<le> 90"

definition is_lower :: "nat \<Rightarrow> bool" where
  "is_lower c \<longleftrightarrow> 97 \<le> c \<and> c \<le> 122"

definition is_alpha :: "nat \<Rightarrow> bool" where
  "is_alpha c \<longleftrightarrow> is_upper c \<or> is_lower c"

definition is_alnum :: "nat \<Rightarrow> bool" where
  "is_alnum c \<longleftrightarrow> is_alpha c \<or> is_digit c"

text \<open>\<open>\\w\<close>: ASCII letters, digits and the underscore.\<close>

definition is_word :: "nat \<Rightarrow> bool" where
  "is_word c \<longleftrightarrow> is_alnum c \<or> c = 95"

definition starts_with :: "jsstr \<Rightarrow> jsstr \<Rightarrow> bool" where
  "starts_with s p \<longleftrightarrow> take (length p) s = p"

definition ends_with :: "jsstr \<Rightarrow> jsstr \<Rightarrow> bool" where
  "ends_with s p \<longleftrightarrow> length p \<le> length s \<and> drop (length s - length p) s = p"

fun str_includes :: "jsstr \<Rightarrow> jsstr \<Rightarrow> bool" where
  "str_includes [] p = (p = [])"
| "str_includes (c # s) p = (starts_with (c # s) p \<or> str_includes s p)"

text \<open>\<open>s.slice(a, b)\<close> for bounds already clamped to natural numbers.\<close>

definition slice :: "'a list \<Rightarrow> nat \<Rightarrow> nat \<Rightarrow> 'a list" where
  "slice s a b = take (b - a) (drop a s)"

text \<open>\<open>s.split(c)\<close> for a one-unit separator.\<close>

fun split_char :: "nat \<Rightarrow> jsstr \<Rightarrow> jsstr list" where
  "split_char c [] = [[]]"
| "split_char c (x # xs) =
     (if x = c then [] # split_char c xs
      else (case split_char c xs of [] \<Rightarrow> [[x]] | p # ps \<Rightarrow> (x # p) # ps))"

text \<open>\<open>s.split(sep)\<close> for a separator string that is not empty; \<open>acc\<close> is the piece being read.\<close>

function split_str :: "jsstr \<Rightarrow> jsstr \<Rightarrow> jsstr \<Rightarrow> jsstr list" where
  "split_str sep acc [] = [acc]"
| "split_str sep acc (x # xs) =
     (if sep \<noteq> [] \<and> starts_with (x # xs) sep
      then acc # split_str sep [] (drop (length sep) (x # xs))
      else split_str sep (acc @ [x]) xs)"
  by pat_completeness auto
termination
  by (relation "measure (\<lambda>(sep, acc, s). length s)") (auto simp: length_greater_0_conv)

fun join_with :: "jsstr \<Rightarrow> jsstr list \<Rightarrow> jsstr" where
  "join_with sep [] = []"
| "join_with sep [x] = x"
| "join_with sep (x # y # ys) = x @ sep @ join_with sep (y # ys)"

text \<open>\<open>s.split(tok).join(rep)\<close>: every occurrence of a token replaced.\<close>

definition replace_token :: "jsstr \<Rightarrow> jsstr \<Rightarrow> jsstr \<Rightarrow> jsstr" where
  "replace_token tok rep s = join_with rep (split_str tok [] s)"

text \<open>ASCII lower case. Enough for the comparisons the code makes after \<open>toLowerCase\<close>: the strings compared
  with are ASCII, and no character outside ASCII has one of their letters as its lower case.\<close>

definition lower :: "jsstr \<Rightarrow> jsstr" where
  "lower s = map (\<lambda>c. if is_upper c then c + 32 else c) s"

text \<open>Decimal digits of a number, as a template literal prints it.\<close>

fun nat_str :: "nat \<Rightarrow> jsstr" where
  "nat_str n = (if n < 10 then [48 + n] else nat_str (n div 10) @ [48 + n mod 10])"

declare nat_str.simps [simp del]

text \<open>\<open>for (const ch of s)\<close>: a surrogate pair is one character.\<close>

definition high_surrogate :: "nat \<Rightarrow> bool" where
  "high_surrogate c \<longleftrightarrow> 55296 \<le> c \<and> c \<le> 56319"

definition low_surrogate :: "nat \<Rightarrow> bool" where
  "low_surrogate c \<longleftrightarrow> 56320 \<le> c \<and> c \<le> 57343"

definition code_point :: "nat \<Rightarrow> nat \<Rightarrow> nat" where
  "code_point h l = 65536 + (h - 55296) * 1024 + (l - 56320)"

fun code_points :: "jsstr \<Rightarrow> jsstr list" where
  "code_points [] = []"
| "code_points [c] = [[c]]"
| "code_points (c # d # s) =
     (if high_surrogate c \<and> low_surrogate d then [c, d] # code_points s
      else [c] # code_points (d # s))"

text \<open>The code point a one- or two-unit character stands for.\<close>

fun char_code :: "jsstr \<Rightarrow> nat" where
  "char_code [] = 0"
| "char_code [c] = c"
| "char_code (c # d # _) = code_point c d"

section \<open>Results of code that may throw\<close>

text \<open>
  What the modelled code throws: an \<open>Error\<close> with its message, a \<open>TypeError\<close> (a property read or
  call on \<open>undefined\<close> or \<open>null\<close>), a \<open>ReferenceError\<close> for an undeclared name, a \<open>RangeError\<close>, a
  \<open>URIError\<close>, a \<open>DOMException\<close> by its name, and the host's cancellation error, which carries the code
  \<open>BROWSER_ONNX_CANCELLED\<close>.
\<close>

datatype js_error =
    Error jsstr
  | TypeError
  | ReferenceError jsstr
  | RangeError
  | DomException jsstr
  | URIError
  | Cancelled

type_synonym 'a result = "js_error + 'a"

fun bindR :: "'a result \<Rightarrow> ('a \<Rightarrow> 'b result) \<Rightarrow> 'b result" where
  "bindR (Inl e) f = Inl e"
| "bindR (Inr x) f = f x"

text \<open>Running a step over a list from the left, stopping at the first throw.\<close>

fun foldR :: "('s \<Rightarrow> 'a \<Rightarrow> 's result) \<Rightarrow> 's \<Rightarrow> 'a list \<Rightarrow> 's result" where
  "foldR f s [] = Inr s"
| "foldR f s (x # xs) = bindR (f s x) (\<lambda>s'. foldR f s' xs)"

section \<open>State and exceptions\<close>

text \<open>
  A procedure takes the state, and returns its result or what it throws together with the state it
  leaves behind: what was written before a throw stays written.
\<close>

type_synonym ('s, 'a) proc = "'s \<Rightarrow> 'a result \<times> 's"

definition retP :: "'a \<Rightarrow> ('s, 'a) proc" where
  "retP x s = (Inr x, s)"

definition throwP :: "js_error \<Rightarrow> ('s, 'a) proc" where
  "throwP e s = (Inl e, s)"

definition bindP :: "('s, 'a) proc \<Rightarrow> ('a \<Rightarrow> ('s, 'b) proc) \<Rightarrow> ('s, 'b) proc" where
  "bindP m f s = (case m s of (Inl e, s') \<Rightarrow> (Inl e, s') | (Inr x, s') \<Rightarrow> f x s')"

definition liftP :: "'a result \<Rightarrow> ('s, 'a) proc" where
  "liftP r s = (r, s)"

definition catchP :: "('s, 'a) proc \<Rightarrow> (js_error \<Rightarrow> ('s, 'a) proc) \<Rightarrow> ('s, 'a) proc" where
  "catchP m h s = (case m s of (Inl e, s') \<Rightarrow> h e s' | (Inr x, s') \<Rightarrow> (Inr x, s'))"

definition modifyP :: "('s \<Rightarrow> 's) \<Rightarrow> ('s, unit) proc" where
  "modifyP f s = (Inr (), f s)"

fun forP :: "'a list \<Rightarrow> ('a \<Rightarrow> ('s, unit) proc) \<Rightarrow> ('s, unit) proc" where
  "forP [] f = retP ()"
| "forP (x # xs) f = bindP (f x) (\<lambda>_. forP xs f)"

lemmas proc_defs [proc_simps] =
  retP_def throwP_def bindP_def liftP_def catchP_def modifyP_def

section \<open>Lemmas\<close>

lemma js_eq [simp]: "js a = js b \<longleftrightarrow> a = b"
  unfolding js_def by (rule inj_map_eq_map) (simp add: inj_def of_char_eq_iff)

lemma js_Nil_iff [simp]: "js a = [] \<longleftrightarrow> a = []"
  by (simp add: js_def)

lemma nth_update_any: "j < length xs \<Longrightarrow> xs[i := v] ! j = (if i = j then v else xs ! j)"
  by (cases "i = j") simp_all

lemma rtrim_Nil [simp]: "rtrim [] = []"
  by (simp add: rtrim_def)

lemma rtrim_snoc: "rtrim (xs @ [x]) = (if js_space x then rtrim xs else xs @ [x])"
  by (simp add: rtrim_def)

lemma ltrim_Nil [simp]: "ltrim [] = []"
  by (simp add: ltrim_def)

lemma ltrim_Cons: "ltrim (x # xs) = (if js_space x then ltrim xs else x # xs)"
  by (simp add: ltrim_def)

lemma trim_Nil [simp]: "trim [] = []"
  by (simp add: trim_def)

lemma set_dropWhile_subset: "set (dropWhile P xs) \<subseteq> set xs"
  by (meson set_dropWhileD subsetI)

lemma set_ltrim: "set (ltrim s) \<subseteq> set s"
  by (simp add: ltrim_def set_dropWhile_subset)

lemma set_rtrim: "set (rtrim s) \<subseteq> set s"
  unfolding rtrim_def using set_dropWhile_subset [of js_space "rev s"] by simp

lemma set_trim: "set (trim s) \<subseteq> set s"
  unfolding trim_def using set_rtrim set_ltrim by blast

lemma length_rtrim: "length (rtrim s) \<le> length s"
  unfolding rtrim_def using length_dropWhile_le [of js_space "rev s"] by simp

lemma length_trim: "length (trim s) \<le> length s"
  unfolding trim_def ltrim_def
  using length_rtrim [of "dropWhile js_space s"] length_dropWhile_le [of js_space s] by linarith

lemma trim_decomp: "\<exists>a b. s = a @ trim s @ b \<and> (\<forall>c\<in>set a. js_space c) \<and> (\<forall>c\<in>set b. js_space c)"
proof -
  define t where "t = ltrim s"
  have s: "s = takeWhile js_space s @ t"
    by (simp add: t_def ltrim_def)
  have "rev t = takeWhile js_space (rev t) @ dropWhile js_space (rev t)"
    by simp
  then have t: "t = rtrim t @ rev (takeWhile js_space (rev t))"
    by (metis rev_append rev_rev_ident rtrim_def)
  have a: "\<forall>c\<in>set (takeWhile js_space s). js_space c"
    by (meson set_takeWhileD)
  have b: "\<forall>c\<in>set (rev (takeWhile js_space (rev t))). js_space c"
    by (auto dest: set_takeWhileD)
  have "s = takeWhile js_space s @ trim s @ rev (takeWhile js_space (rev t))"
    using s t by (simp add: trim_def t_def)
  then show ?thesis using a b by blast
qed

lemma rtrim_last: "rtrim s \<noteq> [] \<Longrightarrow> \<not> js_space (last (rtrim s))"
  unfolding rtrim_def by (simp add: last_rev hd_dropWhile)

lemma rtrim_hd: "rtrim s \<noteq> [] \<Longrightarrow> hd (rtrim s) = hd s"
proof (induction s rule: rev_induct)
  case (snoc x xs)
  show ?case using snoc rtrim_snoc [of xs x] by (cases xs) (auto split: if_splits)
qed simp

lemma ltrim_hd: "ltrim s \<noteq> [] \<Longrightarrow> \<not> js_space (hd (ltrim s))"
  unfolding ltrim_def by (rule hd_dropWhile)

lemma trim_hd: "trim s \<noteq> [] \<Longrightarrow> \<not> js_space (hd (trim s))"
  unfolding trim_def by (metis ltrim_hd rtrim_Nil rtrim_hd)

lemma trim_last: "trim s \<noteq> [] \<Longrightarrow> \<not> js_space (last (trim s))"
  unfolding trim_def by (rule rtrim_last)

lemma ltrim_id: "(s = [] \<or> \<not> js_space (hd s)) \<Longrightarrow> ltrim s = s"
  by (cases s) (auto simp: ltrim_Cons)

lemma rtrim_id: "(s = [] \<or> \<not> js_space (last s)) \<Longrightarrow> rtrim s = s"
  by (cases s rule: rev_cases) (auto simp: rtrim_snoc)

lemma trim_id: "(s = [] \<or> (\<not> js_space (hd s) \<and> \<not> js_space (last s))) \<Longrightarrow> trim s = s"
  unfolding trim_def by (metis ltrim_id rtrim_id)

lemma trim_idem [simp]: "trim (trim s) = trim s"
  using trim_hd trim_last by (intro trim_id) blast

lemma trim_Nil_iff: "trim s = [] \<longleftrightarrow> (\<forall>c\<in>set s. js_space c)"
proof
  assume "trim s = []"
  then show "\<forall>c\<in>set s. js_space c" using trim_decomp [of s] by (metis Un_iff append_Nil set_append)
next
  assume "\<forall>c\<in>set s. js_space c"
  then have "ltrim s = []" by (simp add: ltrim_def)
  then show "trim s = []" by (simp add: trim_def)
qed

lemma length_slice: "length (slice s a b) = min (b - a) (length s - a)"
  by (simp add: slice_def)

lemma slice_full [simp]: "slice s 0 (length s) = s"
  by (simp add: slice_def)

lemma set_slice: "set (slice s a b) \<subseteq> set s"
  unfolding slice_def by (meson set_drop_subset set_take_subset subset_trans)

lemma slice_append: "a \<le> b \<Longrightarrow> b \<le> c \<Longrightarrow> slice s a b @ slice s b c = slice s a c"
proof -
  assume ab: "a \<le> b" and bc: "b \<le> c"
  have "take (c - a) (drop a s) = take (b - a) (drop a s) @ take (c - b) (drop (b - a) (drop a s))"
    using take_add [of "b - a" "c - b" "drop a s"] ab bc by simp
  then show ?thesis using ab by (simp add: slice_def)
qed

lemma split_char_not_Nil [simp]: "split_char c s \<noteq> []"
  by (induction s) (auto split: list.splits)

lemma join_split_char: "join_with [c] (split_char c s) = s"
proof (induction s)
  case (Cons x xs)
  then show ?case
    by (cases "split_char c xs"; cases "tl (split_char c xs)") (auto simp: neq_Nil_conv split: list.splits)
qed simp

lemma split_char_pieces: "p \<in> set (split_char c s) \<Longrightarrow> c \<notin> set p"
proof (induction s arbitrary: p)
  case (Cons x xs)
  show ?case
  proof (cases "x = c")
    case True
    then show ?thesis using Cons by auto
  next
    case False
    obtain q qs where q: "split_char c xs = q # qs"
      by (meson neq_Nil_conv split_char_not_Nil)
    then show ?thesis using False Cons.prems Cons.IH by auto
  qed
qed simp

lemma set_split_char: "p \<in> set (split_char c s) \<Longrightarrow> set p \<subseteq> set s"
proof (induction s arbitrary: p)
  case (Cons x xs)
  obtain q qs where q: "split_char c xs = q # qs"
    by (meson neq_Nil_conv split_char_not_Nil)
  then show ?case using Cons.prems Cons.IH [of q] Cons.IH by (fastforce split: if_splits)
qed simp

lemma split_char_plain: "c \<notin> set p \<Longrightarrow> split_char c p = [p]"
  by (induction p) auto

lemma split_char_append:
  "c \<notin> set p \<Longrightarrow> split_char c (p @ c # s) = p # split_char c s"
  by (induction p) auto

lemma split_join_char:
  "ps \<noteq> [] \<Longrightarrow> \<forall>p\<in>set ps. c \<notin> set p \<Longrightarrow> split_char c (join_with [c] ps) = ps"
proof (induction ps)
  case (Cons p ps)
  then show ?case
    by (cases ps) (auto simp: split_char_plain split_char_append)
qed simp

lemma nat_str_not_Nil [simp]: "nat_str n \<noteq> []"
  by (subst nat_str.simps) simp

lemma concat_code_points: "concat (code_points s) = s"
  by (induction s rule: code_points.induct) auto

lemma bindR_Inr: "bindR m f = Inr y \<longleftrightarrow> (\<exists>x. m = Inr x \<and> f x = Inr y)"
  by (cases m) auto

lemma bindR_Inl: "bindR m f = Inl e \<longleftrightarrow> m = Inl e \<or> (\<exists>x. m = Inr x \<and> f x = Inl e)"
  by (cases m) auto

lemma bindP_Inr:
  "bindP m f s = (Inr y, t) \<longleftrightarrow> (\<exists>x s'. m s = (Inr x, s') \<and> f x s' = (Inr y, t))"
  by (auto simp: bindP_def split: prod.splits sum.splits)

lemma bindP_Inl:
  "bindP m f s = (Inl e, t) \<longleftrightarrow>
     m s = (Inl e, t) \<or> (\<exists>x s'. m s = (Inr x, s') \<and> f x s' = (Inl e, t))"
  by (auto simp: bindP_def split: prod.splits sum.splits)

lemma retP_Inr [simp]: "retP x s = (Inr y, t) \<longleftrightarrow> y = x \<and> t = s"
  by (auto simp: retP_def)

end
