(* ===== verification/Host.thy ===== *)
theory Host
  imports Prelude "HOL-Library.AList"
begin

text \<open>
  The MOSS host page (\<open>browser_onnx_host.js\<close>): it receives requests from the client, keeps one state per
  synthesis in flight, posts audio chunks and waits for the client's acknowledgement of each.

  An \<open>async\<close> handler runs until it awaits; other events run in between. The state holds, for every
  synthesis handler, its request object and where it waits; a run of the page is a sequence of steps,
  each the synchronous piece of code between two awaits. What the awaited calls of the runtime and of the
  model store return is left open: a step exists for every outcome. Request objects and promises have
  identity, so they are addressed by their position in a list; the map of active requests holds
  addresses, as the code's map holds references.
\<close>

section \<open>State and messages\<close>

definition HOST_SOURCE :: jsstr where
  "HOST_SOURCE = js ''nano-reader-browser-onnx-host''"

definition CLIENT_SOURCE :: jsstr where
  "CLIENT_SOURCE = js ''nano-reader-browser-onnx-client''"

text \<open>\<open>pendingChunkAcks\<close> maps a chunk id to the resolve function of a promise, here the promise's address.\<close>

record request_state =
  cancelled :: bool
  chunkCounter :: nat
  pendingChunkAcks :: "(jsstr \<times> nat) list"

record audio_chunk =
  sampleRate :: nat
  channels :: nat
  isPause :: bool
  buffers :: "nat list list"

record synthesis_result =
  textChunks :: "jsstr list"
  outputFrames :: "nat list"

record summary =
  textChunkCount :: nat
  outputCount :: nat
  totalFrames :: nat

datatype response_data =
    Prepared jsstr
  | CancelledStatus
  | CancelledSummary summary
  | Completed summary
  | Failed js_error

text \<open>What the host posts to its parent; \<open>HOST_SOURCE\<close> is added to every message.\<close>

datatype host_message =
    Ready
  | Progress jsstr
  | PreparedText jsstr jsstr
  | AudioChunk jsstr jsstr audio_chunk
  | Response jsstr bool response_data

text \<open>Where a synthesis handler is: loading the models, inside the runtime, waiting for the promise of a
  chunk, leaving with what was thrown, or done.\<close>

datatype phase = Loading | Running | AwaitingAck jsstr nat | Throwing js_error | Finished

record task =
  taskRequestId :: jsstr
  taskPhase :: phase

record host =
  runtimeCreated :: bool
  activeSynthesisRequests :: "jsstr \<rightharpoonup> nat"
  requests :: "request_state list"
  tasks :: "task list"
  promises :: "bool option list"
  warmups :: "(jsstr \<times> bool) list"
  posted :: "(jsstr \<times> host_message) list"

record client_message =
  msgSource :: jsstr
  action :: jsstr
  requestId :: jsstr
  chunkId :: jsstr
  accepted :: "bool option"
  targetRequestId :: jsstr

section \<open>Operations\<close>

definition postToParent :: "host_message \<Rightarrow> host \<Rightarrow> host" where
  "postToParent m h = h\<lparr>posted := posted h @ [(HOST_SOURCE, m)]\<rparr>"

text \<open>\<open>createCancelledError\<close> makes the error that carries \<open>BROWSER_ONNX_CANCELLED\<close>.\<close>

definition createCancelledError :: js_error where
  "createCancelledError = Cancelled"

definition getActiveRequest :: "jsstr \<Rightarrow> host \<Rightarrow> nat option" where
  "getActiveRequest rid h = activeSynthesisRequests h rid"

text \<open>Resolving a promise counts the first time only.\<close>

definition resolve_promise :: "nat \<Rightarrow> bool \<Rightarrow> bool option list \<Rightarrow> bool option list" where
  "resolve_promise p v ps = (if p < length ps \<and> ps ! p = None then ps[p := Some v] else ps)"

definition set_request :: "nat \<Rightarrow> request_state \<Rightarrow> host \<Rightarrow> host" where
  "set_request i r h = h\<lparr>requests := (requests h)[i := r]\<rparr>"

definition set_phase :: "nat \<Rightarrow> phase \<Rightarrow> host \<Rightarrow> host" where
  "set_phase i p h = h\<lparr>tasks := (tasks h)[i := (tasks h ! i)\<lparr>taskPhase := p\<rparr>]\<rparr>"

definition resolvePendingChunkAcks :: "nat \<Rightarrow> bool \<Rightarrow> host \<Rightarrow> host" where
  "resolvePendingChunkAcks i acc h =
     (let r = requests h ! i
      in set_request i (r\<lparr>pendingChunkAcks := []\<rparr>)
           (h\<lparr>promises := foldl (\<lambda>ps kp. resolve_promise (snd kp) acc ps) (promises h) (pendingChunkAcks r)\<rparr>))"

definition cancelActiveRequest :: "jsstr \<Rightarrow> host \<Rightarrow> host" where
  "cancelActiveRequest rid h =
     (case getActiveRequest rid h of
        None \<Rightarrow> h
      | Some i \<Rightarrow> resolvePendingChunkAcks i False
          (set_request i ((requests h ! i)\<lparr>cancelled := True\<rparr>) h))"

definition chunk_id :: "jsstr \<Rightarrow> nat \<Rightarrow> jsstr" where
  "chunk_id rid n = rid @ js '':chunk:'' @ nat_str n"

text \<open>\<open>postAudioChunkAndWaitAck\<close> up to its \<open>await\<close>, and after it.\<close>

definition postAudioChunk :: "nat \<Rightarrow> audio_chunk \<Rightarrow> host \<Rightarrow> host" where
  "postAudioChunk i chunk h =
     (let r = requests h ! i; rid = taskRequestId (tasks h ! i)
      in if cancelled r then set_phase i (Throwing createCancelledError) h
         else
           (let n = Suc (chunkCounter r); cid = chunk_id rid n; p = length (promises h)
            in set_phase i (AwaitingAck cid p)
                 (postToParent (AudioChunk rid cid chunk)
                   (set_request i (r\<lparr>chunkCounter := n, pendingChunkAcks := AList.update cid p (pendingChunkAcks r)\<rparr>)
                     (h\<lparr>promises := promises h @ [None]\<rparr>)))))"

definition resumeAfterAck :: "nat \<Rightarrow> jsstr \<Rightarrow> bool \<Rightarrow> host \<Rightarrow> host" where
  "resumeAfterAck i cid acc h =
     (let r = (requests h ! i)\<lparr>pendingChunkAcks := AList.delete cid (pendingChunkAcks (requests h ! i))\<rparr>
      in if acc then set_phase i Running (set_request i r h)
         else set_phase i (Throwing createCancelledError) (set_request i (r\<lparr>cancelled := True\<rparr>) h))"

text \<open>\<open>ensurePrepared\<close>, given what its awaited calls return; the result is the managed path.\<close>

definition ensurePrepared :: "bool \<Rightarrow> jsstr result \<Rightarrow> unit result \<Rightarrow> unit result \<Rightarrow> jsstr result" where
  "ensurePrepared storePresent ensured configured warmed =
     (if \<not> storePresent then Inl (Error (js ''MOSS browser model store is unavailable.''))
      else bindR ensured (\<lambda>managedPath. bindR configured (\<lambda>_. bindR warmed (\<lambda>_. Inr managedPath))))"

text \<open>The end of a warmup: the response of \<open>handleWarmup\<close>, or the one of the dispatcher's \<open>catch\<close>.\<close>

definition handleWarmup :: "nat \<Rightarrow> jsstr result \<Rightarrow> host \<Rightarrow> host" where
  "handleWarmup w prepared h =
     (let rid = fst (warmups h ! w)
      in postToParent
           (case prepared of Inr managedPath \<Rightarrow> Response rid True (Prepared managedPath)
            | Inl e \<Rightarrow> Response rid False (Failed e))
           (h\<lparr>warmups := (warmups h)[w := (rid, True)]\<rparr>))"

text \<open>\<open>getRuntime\<close> creates the one runtime on the first call.\<close>

definition getRuntime :: "host \<Rightarrow> host" where
  "getRuntime h = h\<lparr>runtimeCreated := True\<rparr>"

text \<open>\<open>handleSynthesize\<close>: the part before its first \<open>await\<close>, and the part after the runtime returned or
  something threw, with the \<open>finally\<close> block.\<close>

definition handleSynthesize_start :: "jsstr \<Rightarrow> host \<Rightarrow> host" where
  "handleSynthesize_start rid h =
     getRuntime (h\<lparr>activeSynthesisRequests := (activeSynthesisRequests h)(rid \<mapsto> length (requests h)),
       requests := requests h @ [\<lparr>cancelled = False, chunkCounter = 0, pendingChunkAcks = []\<rparr>],
       tasks := tasks h @ [\<lparr>taskRequestId = rid, taskPhase = Loading\<rparr>]\<rparr>)"

definition make_summary :: "synthesis_result \<Rightarrow> summary" where
  "make_summary res = \<lparr>textChunkCount = length (textChunks res), outputCount = length (outputFrames res),
     totalFrames = foldl (+) 0 (outputFrames res)\<rparr>"

definition synthesis_response :: "bool \<Rightarrow> synthesis_result result \<Rightarrow> jsstr \<Rightarrow> host_message" where
  "synthesis_response wasCancelled outcome rid =
     (case outcome of
        Inr res \<Rightarrow> Response rid True
          (if wasCancelled then CancelledSummary (make_summary res) else Completed (make_summary res))
      | Inl e \<Rightarrow>
          (if wasCancelled \<or> e = Cancelled then Response rid True CancelledStatus
           else Response rid False (Failed e)))"

definition handleSynthesize_end :: "nat \<Rightarrow> synthesis_result result \<Rightarrow> host \<Rightarrow> host" where
  "handleSynthesize_end i outcome h =
     (let rid = taskRequestId (tasks h ! i);
          h1 = postToParent (synthesis_response (cancelled (requests h ! i)) outcome rid) h;
          h2 = resolvePendingChunkAcks i False h1
      in set_phase i Finished
           (h2\<lparr>activeSynthesisRequests := (activeSynthesisRequests h2)(rid := None)\<rparr>))"

definition handleChunkAck :: "client_message \<Rightarrow> host \<Rightarrow> host" where
  "handleChunkAck m h =
     (case getActiveRequest (requestId m) h of
        None \<Rightarrow> h
      | Some i \<Rightarrow>
          (let r = requests h ! i in
           case map_of (pendingChunkAcks r) (chunkId m) of
             None \<Rightarrow> h
           | Some p \<Rightarrow>
               set_request i (r\<lparr>pendingChunkAcks := AList.delete (chunkId m) (pendingChunkAcks r)\<rparr>)
                 (h\<lparr>promises := resolve_promise p (accepted m \<noteq> Some False) (promises h)\<rparr>)))"

definition handleIncomingRequest :: "client_message \<Rightarrow> host \<Rightarrow> host" where
  "handleIncomingRequest m h =
     (let rid = requestId m in
      if rid = [] then h
      else if action m = js ''chunk-ack'' then handleChunkAck m h
      else if action m = js ''cancel''
        then postToParent (Response rid True CancelledStatus) (cancelActiveRequest (targetRequestId m) h)
      else if action m = js ''warmup'' then h\<lparr>warmups := warmups h @ [(rid, False)]\<rparr>
      else if action m = js ''synthesize'' then handleSynthesize_start rid h
      else postToParent
        (Response rid False (Failed (Error (js ''Unsupported host action: '' @ action m)))) h)"

definition onMessage :: "client_message \<Rightarrow> host \<Rightarrow> host" where
  "onMessage m h = (if msgSource m \<noteq> CLIENT_SOURCE then h else handleIncomingRequest m h)"

definition initial_host :: host where
  "initial_host = postToParent Ready \<lparr>runtimeCreated = False, activeSynthesisRequests = Map.empty,
     requests = [], tasks = [], promises = [], warmups = [], posted = []\<rparr>"

section \<open>Runs\<close>

definition phase_of :: "host \<Rightarrow> nat \<Rightarrow> phase" where
  "phase_of h i = taskPhase (tasks h ! i)"

text \<open>A step of the page other than the arrival of a message.\<close>

inductive host_step :: "host \<Rightarrow> host \<Rightarrow> bool" where
  loaded: "i < length (tasks h) \<Longrightarrow> phase_of h i = Loading \<Longrightarrow> host_step h (set_phase i Running h)"
| load_failed: "i < length (tasks h) \<Longrightarrow> phase_of h i = Loading \<Longrightarrow>
    host_step h (handleSynthesize_end i (Inl e) h)"
| prepared_text: "i < length (tasks h) \<Longrightarrow> phase_of h i = Running \<Longrightarrow>
    host_step h (postToParent (PreparedText (taskRequestId (tasks h ! i)) t) h)"
| audio: "i < length (tasks h) \<Longrightarrow> phase_of h i = Running \<Longrightarrow> host_step h (postAudioChunk i chunk h)"
| acked: "i < length (tasks h) \<Longrightarrow> phase_of h i = AwaitingAck cid p \<Longrightarrow> p < length (promises h) \<Longrightarrow>
    promises h ! p = Some acc \<Longrightarrow> host_step h (resumeAfterAck i cid acc h)"
| thrown: "i < length (tasks h) \<Longrightarrow> phase_of h i = Throwing e \<Longrightarrow>
    host_step h (handleSynthesize_end i (Inl e) h)"
| finished: "i < length (tasks h) \<Longrightarrow> phase_of h i = Running \<Longrightarrow>
    host_step h (handleSynthesize_end i outcome h)"
| progress: "w < length (warmups h) \<Longrightarrow> warmups h ! w = (rid, False) \<Longrightarrow>
    host_step h (postToParent (Progress t) h)"
| warmup_runtime: "w < length (warmups h) \<Longrightarrow> warmups h ! w = (rid, False) \<Longrightarrow> host_step h (getRuntime h)"
| warmup_done: "w < length (warmups h) \<Longrightarrow> warmups h ! w = (rid, False) \<Longrightarrow>
    host_step h (handleWarmup w (ensurePrepared storePresent ensured configured warmed) h)"

text \<open>A run from the start of the page, with the messages received so far.\<close>

inductive host_run :: "client_message list \<Rightarrow> host \<Rightarrow> bool" where
  run_start: "host_run [] initial_host"
| run_receive: "host_run ms h \<Longrightarrow> host_run (ms @ [m]) (onMessage m h)"
| run_step: "host_run ms h \<Longrightarrow> host_step h h' \<Longrightarrow> host_run ms h'"

inductive_cases host_stepE: "host_step h h'"


section \<open>What each operation touches\<close>

named_theorems host_simps \<open>fields of the state after an operation\<close>

lemma set_request_fields [host_simps]:
  "tasks (set_request i r h) = tasks h" "warmups (set_request i r h) = warmups h"
  "posted (set_request i r h) = posted h" "promises (set_request i r h) = promises h"
  "requests (set_request i r h) = (requests h)[i := r]"
  "activeSynthesisRequests (set_request i r h) = activeSynthesisRequests h"
  by (simp_all add: set_request_def)

lemma set_phase_fields [host_simps]:
  "tasks (set_phase i p h) = (tasks h)[i := (tasks h ! i)\<lparr>taskPhase := p\<rparr>]"
  "warmups (set_phase i p h) = warmups h" "posted (set_phase i p h) = posted h"
  "promises (set_phase i p h) = promises h" "requests (set_phase i p h) = requests h"
  "activeSynthesisRequests (set_phase i p h) = activeSynthesisRequests h"
  by (simp_all add: set_phase_def)

lemma postToParent_fields [host_simps]:
  "tasks (postToParent m h) = tasks h" "warmups (postToParent m h) = warmups h"
  "posted (postToParent m h) = posted h @ [(HOST_SOURCE, m)]" "promises (postToParent m h) = promises h"
  "requests (postToParent m h) = requests h"
  "activeSynthesisRequests (postToParent m h) = activeSynthesisRequests h"
  by (simp_all add: postToParent_def)

lemma getRuntime_fields [host_simps]:
  "tasks (getRuntime h) = tasks h" "warmups (getRuntime h) = warmups h"
  "posted (getRuntime h) = posted h" "promises (getRuntime h) = promises h"
  "requests (getRuntime h) = requests h" "activeSynthesisRequests (getRuntime h) = activeSynthesisRequests h"
  by (simp_all add: getRuntime_def)

definition resolve_all :: "(jsstr \<times> nat) list \<Rightarrow> bool \<Rightarrow> bool option list \<Rightarrow> bool option list" where
  "resolve_all acks acc ps = foldl (\<lambda>ps kp. resolve_promise (snd kp) acc ps) ps acks"

lemma resolvePending_fields [host_simps]:
  "tasks (resolvePendingChunkAcks i a h) = tasks h" "warmups (resolvePendingChunkAcks i a h) = warmups h"
  "posted (resolvePendingChunkAcks i a h) = posted h"
  "requests (resolvePendingChunkAcks i a h) = (requests h)[i := (requests h ! i)\<lparr>pendingChunkAcks := []\<rparr>]"
  "activeSynthesisRequests (resolvePendingChunkAcks i a h) = activeSynthesisRequests h"
  "promises (resolvePendingChunkAcks i a h) = resolve_all (pendingChunkAcks (requests h ! i)) a (promises h)"
  by (simp_all add: resolvePendingChunkAcks_def resolve_all_def Let_def set_request_def)

lemma cancelActiveRequest_fields [host_simps]:
  "tasks (cancelActiveRequest rid h) = tasks h" "warmups (cancelActiveRequest rid h) = warmups h"
  "posted (cancelActiveRequest rid h) = posted h"
  "activeSynthesisRequests (cancelActiveRequest rid h) = activeSynthesisRequests h"
  by (simp_all add: cancelActiveRequest_def host_simps split: option.splits)

lemma handleChunkAck_fields [host_simps]:
  "tasks (handleChunkAck m h) = tasks h" "warmups (handleChunkAck m h) = warmups h"
  "posted (handleChunkAck m h) = posted h"
  "activeSynthesisRequests (handleChunkAck m h) = activeSynthesisRequests h"
  by (simp_all add: handleChunkAck_def Let_def host_simps split: option.splits)

lemma handleSynthesize_end_fields [host_simps]:
  "tasks (handleSynthesize_end i r h) = (tasks h)[i := (tasks h ! i)\<lparr>taskPhase := Finished\<rparr>]"
  "warmups (handleSynthesize_end i r h) = warmups h"
  "posted (handleSynthesize_end i r h) = posted h @ [(HOST_SOURCE,
     synthesis_response (cancelled (requests h ! i)) r (taskRequestId (tasks h ! i)))]"
  "requests (handleSynthesize_end i r h) = (requests h)[i := (requests h ! i)\<lparr>pendingChunkAcks := []\<rparr>]"
  "promises (handleSynthesize_end i r h) = resolve_all (pendingChunkAcks (requests h ! i)) False (promises h)"
  "activeSynthesisRequests (handleSynthesize_end i r h) =
     (activeSynthesisRequests h)(taskRequestId (tasks h ! i) := None)"
  by (simp_all add: handleSynthesize_end_def Let_def host_simps)

lemma handleSynthesize_start_fields [host_simps]:
  "tasks (handleSynthesize_start rid h) = tasks h @ [\<lparr>taskRequestId = rid, taskPhase = Loading\<rparr>]"
  "warmups (handleSynthesize_start rid h) = warmups h" "posted (handleSynthesize_start rid h) = posted h"
  "requests (handleSynthesize_start rid h) =
     requests h @ [\<lparr>cancelled = False, chunkCounter = 0, pendingChunkAcks = []\<rparr>]"
  "promises (handleSynthesize_start rid h) = promises h"
  "activeSynthesisRequests (handleSynthesize_start rid h) =
     (activeSynthesisRequests h)(rid \<mapsto> length (requests h))"
  by (simp_all add: handleSynthesize_start_def host_simps)

section \<open>Every request is answered once\<close>

definition is_response :: "jsstr \<Rightarrow> jsstr \<times> host_message \<Rightarrow> bool" where
  "is_response rid pm = (case snd pm of Response r _ _ \<Rightarrow> r = rid | _ \<Rightarrow> False)"

definition responses :: "jsstr \<Rightarrow> host \<Rightarrow> nat" where
  "responses rid h = length (filter (is_response rid) (posted h))"

definition open_task :: "jsstr \<Rightarrow> task \<Rightarrow> bool" where
  "open_task rid t \<longleftrightarrow> taskRequestId t = rid \<and> taskPhase t \<noteq> Finished"

definition open_handlers :: "jsstr \<Rightarrow> host \<Rightarrow> nat" where
  "open_handlers rid h = length (filter (open_task rid) (tasks h)) + length (filter (\<lambda>w. w = (rid, False)) (warmups h))"

text \<open>The messages that ask for a response: those of the client, with a request id, except acknowledgements.\<close>

definition expects_reply :: "jsstr \<Rightarrow> client_message \<Rightarrow> bool" where
  "expects_reply rid m \<longleftrightarrow>
     msgSource m = CLIENT_SOURCE \<and> requestId m = rid \<and> rid \<noteq> [] \<and> action m \<noteq> js ''chunk-ack''"

lemma length_filter_update:
  "i < length xs \<Longrightarrow> length (filter P (xs[i := x])) + of_bool (P (xs ! i)) = length (filter P xs) + of_bool (P x)"
proof (induction xs arbitrary: i)
  case (Cons y ys)
  then show ?case by (cases i) auto
qed simp

lemma open_tasks_update:
  assumes "i < length (tasks h)" and "phase_of h i \<noteq> Finished"
  shows "length (filter (open_task rid) ((tasks h)[i := (tasks h ! i)\<lparr>taskPhase := p\<rparr>]))
      + of_bool (p = Finished \<and> taskRequestId (tasks h ! i) = rid)
    = length (filter (open_task rid) (tasks h))"
  using length_filter_update [OF assms(1), of "open_task rid" "(tasks h ! i)\<lparr>taskPhase := p\<rparr>"] assms
  by (auto simp: open_task_def phase_of_def split: if_splits)

lemma open_tasks_same:
  "i < length (tasks h) \<Longrightarrow> phase_of h i \<noteq> Finished \<Longrightarrow> p \<noteq> Finished \<Longrightarrow>
     length (filter (open_task rid) ((tasks h)[i := (tasks h ! i)\<lparr>taskPhase := p\<rparr>]))
       = length (filter (open_task rid) (tasks h))"
  using open_tasks_update [of i h rid p] by simp

lemma is_response_synthesis: "is_response rid (s, synthesis_response c r rid') \<longleftrightarrow> rid' = rid"
  by (auto simp: is_response_def synthesis_response_def split: sum.splits if_splits)

lemma end_conserves:
  "i < length (tasks h) \<Longrightarrow> phase_of h i \<noteq> Finished \<Longrightarrow>
     responses rid (handleSynthesize_end i r h) + open_handlers rid (handleSynthesize_end i r h)
       = responses rid h + open_handlers rid h"
  using open_tasks_update [of i h rid Finished]
  by (auto simp: responses_def open_handlers_def host_simps is_response_synthesis)

lemmas conserve_simps = responses_def open_handlers_def host_simps open_tasks_same is_response_def

lemma step_conserves:
  assumes "host_step h h'"
  shows "responses rid h' + open_handlers rid h' = responses rid h + open_handlers rid h"
  using assms
proof cases
  case (audio i chunk)
  then show ?thesis by (simp add: postAudioChunk_def Let_def conserve_simps)
next
  case (acked i cid p acc)
  then show ?thesis by (simp add: resumeAfterAck_def Let_def conserve_simps)
next
  case (warmup_done w rid' sp en co wa)
  then show ?thesis
    using length_filter_update [of w "warmups h" "\<lambda>w. w = (rid, False)" "(rid', True)"]
    by (auto simp: handleWarmup_def Let_def conserve_simps split: sum.splits if_splits)
qed (simp_all add: end_conserves, simp_all add: conserve_simps)

lemma receive_conserves:
  "responses rid (onMessage m h) + open_handlers rid (onMessage m h)
     = responses rid h + open_handlers rid h + of_bool (expects_reply rid m)"
  by (auto simp: onMessage_def handleIncomingRequest_def Let_def responses_def open_handlers_def host_simps
      is_response_def expects_reply_def open_task_def)

text \<open>C1: Every request is answered exactly once. In every run of the host, for every request id, the
  responses posted for the id and the handlers still in flight for it together number the requests
  received with it: no request is dropped and none is answered twice, whatever fails or is cancelled.\<close>

theorem host_answers_once:
  assumes "host_run ms h"
  shows "responses rid h + open_handlers rid h = length (filter (expects_reply rid) ms)"
  using assms
proof induction
  case run_start
  then show ?case
    by (simp add: initial_host_def responses_def open_handlers_def host_simps is_response_def)
next
  case (run_receive ms h m)
  then show ?case using receive_conserves [of rid m h] by simp
next
  case (run_step ms h h')
  then show ?case using step_conserves [of h h' rid] by simp
qed


section \<open>Acknowledgements are never lost\<close>

lemma length_resolve_promise [simp]: "length (resolve_promise p v ps) = length ps"
  by (simp add: resolve_promise_def)

lemma resolve_promise_nth:
  "q < length ps \<Longrightarrow> resolve_promise p v ps ! q = (if q = p \<and> ps ! q = None then Some v else ps ! q)"
  by (auto simp: resolve_promise_def nth_list_update)

lemma length_resolve_all [simp]: "length (resolve_all acks v ps) = length ps"
  unfolding resolve_all_def by (induction acks arbitrary: ps) simp_all

lemma resolve_all_nth:
  "q < length ps \<Longrightarrow>
     resolve_all acks v ps ! q = (if q \<in> snd ` set acks \<and> ps ! q = None then Some v else ps ! q)"
proof (induction acks arbitrary: ps)
  case (Cons a acks)
  then show ?case
    using Cons.IH [of "resolve_promise (snd a) v ps"]
    by (auto simp: resolve_all_def resolve_promise_nth)
qed (simp add: resolve_all_def)

text \<open>A handler's pending acknowledgements are exactly the unresolved promise it waits for.\<close>

definition waits_well :: "bool option list \<Rightarrow> phase \<Rightarrow> (jsstr \<times> nat) list \<Rightarrow> bool" where
  "waits_well ps ph acks \<longleftrightarrow>
     (\<forall>cp\<in>set acks. ph = AwaitingAck (fst cp) (snd cp)) \<and>
     (\<forall>cid p. ph = AwaitingAck cid p \<longrightarrow> p < length ps \<and> (ps ! p = None \<longrightarrow> (cid, p) \<in> set acks))"

definition awaited :: "host \<Rightarrow> nat \<Rightarrow> bool" where
  "awaited h p \<longleftrightarrow> (\<exists>i<length (tasks h). \<exists>cid. phase_of h i = AwaitingAck cid p)"

definition host_ok :: "host \<Rightarrow> bool" where
  "host_ok h \<longleftrightarrow> length (requests h) = length (tasks h)
     \<and> (\<forall>i<length (tasks h). waits_well (promises h) (phase_of h i) (pendingChunkAcks (requests h ! i)))
     \<and> (\<forall>p<length (promises h). promises h ! p = None \<longrightarrow> awaited h p)
     \<and> (\<forall>rid i. activeSynthesisRequests h rid = Some i \<longrightarrow> i < length (tasks h) \<and> taskRequestId (tasks h ! i) = rid)"

lemma waits_well_Nil: "(\<And>cid p. ph \<noteq> AwaitingAck cid p) \<Longrightarrow> waits_well ps ph []"
  by (simp add: waits_well_def)

text \<open>Resolving promises, and adding new ones, keeps other handlers well.\<close>

lemma waits_well_resolved:
  "waits_well ps ph acks \<Longrightarrow> length ps \<le> length ps' \<Longrightarrow>
     (\<And>q. q < length ps \<Longrightarrow> ps' ! q = None \<Longrightarrow> ps ! q = None) \<Longrightarrow> waits_well ps' ph acks"
  unfolding waits_well_def by fastforce

lemma phase_of_set [simp]:
  "i < length (tasks h) \<Longrightarrow> phase_of (set_phase i p h) j = (if j = i then p else phase_of h j)"
  by (auto simp: phase_of_def host_simps nth_list_update)

text \<open>The operations on one handler: it gets a new request object and phase, promises may be resolved or
  added, entries of the active map may go.\<close>

lemma host_ok_update:
  assumes ok: "host_ok h" and i: "i < length (tasks h)"
    and rs: "requests h' = (requests h)[i := r]"
    and ts: "tasks h' = (tasks h)[i := (tasks h ! i)\<lparr>taskPhase := ph\<rparr>]"
    and act: "\<And>rid j. activeSynthesisRequests h' rid = Some j \<Longrightarrow> activeSynthesisRequests h rid = Some j"
    and len: "length (promises h) \<le> length (promises h')"
    and res: "\<And>q. q < length (promises h) \<Longrightarrow> promises h' ! q = None \<Longrightarrow> promises h ! q = None"
    and w: "waits_well (promises h') ph (pendingChunkAcks r)"
    and new: "\<And>q. q < length (promises h') \<Longrightarrow> promises h' ! q = None \<Longrightarrow>
       (\<exists>cid. ph = AwaitingAck cid q) \<or> q < length (promises h) \<and> (\<forall>cid. phase_of h i \<noteq> AwaitingAck cid q)"
  shows "host_ok h'"
proof -
  have ph: "phase_of h' j = (if j = i then ph else phase_of h j)" if "j < length (tasks h)" for j
    using that by (simp add: phase_of_def ts)
  have waits: "waits_well (promises h') (phase_of h' j) (pendingChunkAcks (requests h' ! j))"
    if "j < length (tasks h)" for j
  proof (cases "j = i")
    case True
    then show ?thesis using that ph w rs ok by (simp add: host_ok_def)
  next
    case False
    have "waits_well (promises h) (phase_of h j) (pendingChunkAcks (requests h ! j))"
      using ok that by (simp add: host_ok_def)
    then show ?thesis using waits_well_resolved [OF _ len res] False ph [OF that] rs by simp
  qed
  have aw: "awaited h' q" if "q < length (promises h')" "promises h' ! q = None" for q
  proof (cases "\<exists>cid. ph = AwaitingAck cid q")
    case True
    then show ?thesis using i ph [OF i] by (auto simp: awaited_def ts)
  next
    case False
    then have q: "q < length (promises h)" "\<forall>cid. phase_of h i \<noteq> AwaitingAck cid q" using new that by blast+
    then have "awaited h q" using ok res that by (simp add: host_ok_def)
    then obtain j cid where j: "j < length (tasks h)" "phase_of h j = AwaitingAck cid q" by (auto simp: awaited_def)
    then have "j \<noteq> i" using q(2) by auto
    then show ?thesis using j ph [OF j(1)] by (auto simp: awaited_def ts)
  qed
  have "length (requests h') = length (tasks h')" using ok rs ts by (simp add: host_ok_def)
  moreover have "j < length (tasks h') \<and> taskRequestId (tasks h' ! j) = rid"
    if "activeSynthesisRequests h' rid = Some j" for rid j
    using ok act [OF that] i by (cases "j = i") (auto simp: host_ok_def ts)
  ultimately show ?thesis using waits aw by (simp add: host_ok_def ts)
qed

lemma host_ok_waits:
  "host_ok h \<Longrightarrow> i < length (tasks h) \<Longrightarrow> waits_well (promises h) (phase_of h i) (pendingChunkAcks (requests h ! i))"
  by (simp add: host_ok_def)

lemma host_ok_not_awaiting:
  "host_ok h \<Longrightarrow> i < length (tasks h) \<Longrightarrow> (\<And>cid p. phase_of h i \<noteq> AwaitingAck cid p) \<Longrightarrow>
     pendingChunkAcks (requests h ! i) = []"
  using host_ok_waits [of h i] by (cases "pendingChunkAcks (requests h ! i)") (auto simp: waits_well_def)

lemma host_ok_same:
  "host_ok h \<Longrightarrow> requests h' = requests h \<Longrightarrow> tasks h' = tasks h \<Longrightarrow> promises h' = promises h \<Longrightarrow>
     activeSynthesisRequests h' = activeSynthesisRequests h \<Longrightarrow> host_ok h'"
  by (simp add: host_ok_def awaited_def phase_of_def)

lemma same_phase: "(tasks h)[i := (tasks h ! i)\<lparr>taskPhase := phase_of h i\<rparr>] = tasks h"
  by (simp add: phase_of_def)

lemma ok_set_phase:
  assumes "host_ok h" and "i < length (tasks h)" and "\<And>cid p. phase_of h i \<noteq> AwaitingAck cid p"
    and "\<And>cid p. ph \<noteq> AwaitingAck cid p"
  shows "host_ok (set_phase i ph h)"
  using assms host_ok_not_awaiting [OF assms(1-3)]
  by (intro host_ok_update [OF assms(1,2), of _ "requests h ! i" ph]) (simp_all add: host_simps waits_well_Nil)

lemma ok_end:
  assumes "host_ok h" and "i < length (tasks h)" and "\<And>cid p. phase_of h i \<noteq> AwaitingAck cid p"
  shows "host_ok (handleSynthesize_end i r h)"
  using assms host_ok_not_awaiting [OF assms]
  by (intro host_ok_update [OF assms(1,2), of _ "(requests h ! i)\<lparr>pendingChunkAcks := []\<rparr>" Finished])
    (auto simp: host_simps waits_well_Nil resolve_all_def split: if_splits)

lemma ok_cancel:
  assumes "host_ok h"
  shows "host_ok (cancelActiveRequest rid h)"
proof (cases "activeSynthesisRequests h rid")
  case None
  then show ?thesis using assms by (simp add: cancelActiveRequest_def getActiveRequest_def)
next
  case (Some i)
  let ?r = "(requests h ! i)\<lparr>cancelled := True, pendingChunkAcks := []\<rparr>"
  let ?acks = "pendingChunkAcks (requests h ! i)"
  have i: "i < length (tasks h)" "i < length (requests h)" using assms Some by (auto simp: host_ok_def)
  note w = host_ok_waits [OF assms i(1)]
  let ?h' = "cancelActiveRequest rid h"
  have f: "requests ?h' = (requests h)[i := ?r]" "tasks ?h' = (tasks h)[i := (tasks h ! i)\<lparr>taskPhase := phase_of h i\<rparr>]"
      "promises ?h' = resolve_all ?acks False (promises h)"
    using Some i by (simp_all add: cancelActiveRequest_def getActiveRequest_def host_simps same_phase)
  have pend: "resolve_all ?acks False (promises h) ! q = None \<longleftrightarrow> q \<notin> snd ` set ?acks \<and> promises h ! q = None"
    if "q < length (promises h)" for q using that by (auto simp: resolve_all_nth)
  have none: "promises ?h' ! q \<noteq> None" if "phase_of h i = AwaitingAck cid q" for cid q
    using w that pend by (fastforce simp: waits_well_def f)
  have w': "waits_well (promises ?h') (phase_of h i) []"
    using w none by (auto simp: waits_well_def f)
  show ?thesis
    by (rule host_ok_update [OF assms i(1) f(1,2)])
      (use w' none pend in \<open>auto simp: host_simps f(3)\<close>)
qed

lemma ok_chunk_ack:
  assumes "host_ok h"
  shows "host_ok (handleChunkAck m h)"
proof (cases "activeSynthesisRequests h (requestId m)")
  case None
  then show ?thesis using assms by (simp add: handleChunkAck_def getActiveRequest_def)
next
  case act: (Some i)
  let ?acks = "pendingChunkAcks (requests h ! i)"
  let ?r = "(requests h ! i)\<lparr>pendingChunkAcks := AList.delete (chunkId m) ?acks\<rparr>"
  have i: "i < length (tasks h)" "i < length (requests h)" using assms act by (auto simp: host_ok_def)
  note w = host_ok_waits [OF assms i(1)]
  show ?thesis
  proof (cases "map_of ?acks (chunkId m)")
    case None
    then show ?thesis using assms act by (simp add: handleChunkAck_def getActiveRequest_def Let_def)
  next
    case (Some p)
    then have ph: "phase_of h i = AwaitingAck (chunkId m) p" using w by (auto simp: waits_well_def dest: map_of_SomeD)
    let ?h' = "handleChunkAck m h"
    have f: "requests ?h' = (requests h)[i := ?r]"
        "tasks ?h' = (tasks h)[i := (tasks h ! i)\<lparr>taskPhase := phase_of h i\<rparr>]"
        "promises ?h' = resolve_promise p (accepted m \<noteq> Some False) (promises h)"
      using Some act by (simp_all add: handleChunkAck_def getActiveRequest_def Let_def host_simps same_phase)
    have p: "p < length (promises h)" using w ph by (simp add: waits_well_def)
    have none: "promises ?h' ! p \<noteq> None" using p by (simp add: f resolve_promise_nth)
    have w': "waits_well (promises ?h') (phase_of h i) (AList.delete (chunkId m) ?acks)"
      using w ph none p by (auto simp: waits_well_def f(3) AList.delete_eq)
    show ?thesis
      by (rule host_ok_update [OF assms i(1) f(1,2)])
        (use w' none p ph in \<open>auto simp: host_simps f(3) resolve_promise_nth split: if_splits\<close>)
  qed
qed

lemma ok_audio:
  assumes "host_ok h" and i: "i < length (tasks h)" and ph: "phase_of h i = Running"
  shows "host_ok (postAudioChunk i chunk h)"
proof (cases "cancelled (requests h ! i)")
  case True
  then show ?thesis using assms by (simp add: postAudioChunk_def Let_def ok_set_phase)
next
  case False
  have acks: "pendingChunkAcks (requests h ! i) = []" using host_ok_not_awaiting [OF assms(1) i] ph by simp
  let ?n = "Suc (chunkCounter (requests h ! i))"
  let ?cid = "chunk_id (taskRequestId (tasks h ! i)) ?n"
  let ?r = "(requests h ! i)\<lparr>chunkCounter := ?n, pendingChunkAcks := [(?cid, length (promises h))]\<rparr>"
  show ?thesis
    by (rule host_ok_update [OF assms(1) i, of _ ?r "AwaitingAck ?cid (length (promises h))"])
      (use False ph acks in \<open>auto simp: postAudioChunk_def Let_def host_simps nth_append waits_well_def
        split: if_splits\<close>)
qed

lemma ok_resume:
  assumes "host_ok h" and i: "i < length (tasks h)" and ph: "phase_of h i = AwaitingAck cid p"
    and res: "promises h ! p = Some acc"
  shows "host_ok (resumeAfterAck i cid acc h)"
proof -
  have acks: "AList.delete cid (pendingChunkAcks (requests h ! i)) = []"
    using host_ok_waits [OF assms(1) i] ph by (auto simp: waits_well_def AList.delete_eq filter_empty_conv)
  let ?r = "(requests h ! i)\<lparr>pendingChunkAcks := [], cancelled := cancelled (requests h ! i) \<or> \<not> acc\<rparr>"
  have f: "requests (resumeAfterAck i cid acc h) = (requests h)[i := ?r]"
      "tasks (resumeAfterAck i cid acc h) = (tasks h)[i := (tasks h ! i)\<lparr>taskPhase :=
         (if acc then Running else Throwing createCancelledError)\<rparr>]"
      "promises (resumeAfterAck i cid acc h) = promises h"
      "activeSynthesisRequests (resumeAfterAck i cid acc h) = activeSynthesisRequests h"
    using acks by (simp_all add: resumeAfterAck_def Let_def host_simps)
  show ?thesis
    by (rule host_ok_update [OF assms(1) i f(1,2)]) (use ph res in \<open>auto simp: f waits_well_def\<close>)
qed

lemma ok_start:
  assumes "host_ok h"
  shows "host_ok (handleSynthesize_start rid h)"
proof -
  let ?h' = "handleSynthesize_start rid h"
  have ph: "phase_of ?h' j = phase_of h j" if "j < length (tasks h)" for j
    using that by (simp add: phase_of_def host_simps nth_append)
  have new: "phase_of ?h' (length (tasks h)) = Loading" by (simp add: phase_of_def host_simps)
  have waits: "waits_well (promises ?h') (phase_of ?h' j) (pendingChunkAcks (requests ?h' ! j))"
    if "j < length (tasks ?h')" for j
    using that assms ph new by (cases "j = length (tasks h)")
      (auto simp: host_simps host_ok_def nth_append waits_well_Nil less_Suc_eq)
  have "awaited ?h' p" if "p < length (promises h)" "promises h ! p = None" for p
  proof -
    have "awaited h p" using assms that by (simp add: host_ok_def)
    then obtain j cid where "j < length (tasks h)" "phase_of h j = AwaitingAck cid p" by (auto simp: awaited_def)
    then show ?thesis using ph unfolding awaited_def by (auto simp: host_simps intro!: exI [of _ j])
  qed
  then show ?thesis
    using assms waits by (fastforce simp: host_ok_def host_simps nth_append split: if_splits)
qed

lemma ok_step:
  assumes "host_ok h" and "host_step h h'"
  shows "host_ok h'"
  using assms(2)
proof cases
  case (warmup_done w rid sp en co wa)
  then show ?thesis using assms(1) by (intro host_ok_same [OF assms(1)]) (simp_all add: handleWarmup_def Let_def host_simps)
qed (use assms(1) in \<open>auto intro!: ok_set_phase ok_end ok_audio ok_resume simp: phase_of_def\<close>,
    auto intro!: host_ok_same [OF assms(1)] simp: host_simps)

lemma ok_receive: "host_ok h \<Longrightarrow> host_ok (onMessage m h)"
  unfolding onMessage_def handleIncomingRequest_def Let_def
  by (auto intro: ok_chunk_ack ok_start)
    (auto intro: host_ok_same [OF ok_cancel] host_ok_same simp: host_simps)

theorem host_run_ok: "host_run ms h \<Longrightarrow> host_ok h"
proof (induction rule: host_run.induct)
  case run_start
  then show ?case by (simp add: initial_host_def host_ok_def host_simps)
qed (auto intro: ok_step ok_receive)


section \<open>Cancellation\<close>

text \<open>What the rest of the page sees of one request: whether it is cancelled and how many audio chunks it
  has posted.\<close>

definition quiet :: "host \<Rightarrow> host \<Rightarrow> nat \<Rightarrow> bool" where
  "quiet h h' i \<longleftrightarrow> cancelled (requests h' ! i) \<and> chunkCounter (requests h' ! i) = chunkCounter (requests h ! i)"

definition is_audio :: "jsstr \<times> host_message \<Rightarrow> bool" where
  "is_audio pm = (case snd pm of AudioChunk _ _ _ \<Rightarrow> True | _ \<Rightarrow> False)"

definition audio_count :: "host \<Rightarrow> nat" where
  "audio_count h = length (filter is_audio (posted h))"

lemma step_quiet:
  assumes "host_step h h'" and "i < length (requests h)" and "cancelled (requests h ! i)"
    and "length (requests h) = length (tasks h)"
  shows "quiet h h' i \<and> length (requests h') = length (requests h)"
  using assms(1)
  by cases (use assms(2-4) in \<open>auto simp: quiet_def host_simps nth_list_update postAudioChunk_def
      resumeAfterAck_def handleWarmup_def Let_def\<close>)

lemma receive_quiet:
  assumes "i < length (requests h)" and "cancelled (requests h ! i)"
  shows "quiet h (onMessage m h) i"
proof -
  have ack: "quiet h (handleChunkAck m h) i"
    using assms by (auto simp: quiet_def handleChunkAck_def Let_def host_simps nth_update_any split: option.splits)
  have cancel: "quiet h (cancelActiveRequest rid h) i" for rid
    using assms by (auto simp: quiet_def cancelActiveRequest_def host_simps nth_update_any split: option.splits)
  have start: "quiet h (handleSynthesize_start rid h) i" for rid
    using assms by (auto simp: quiet_def host_simps nth_append)
  have "quiet h h i" using assms by (simp add: quiet_def)
  then show ?thesis using ack cancel start
    by (auto simp: onMessage_def handleIncomingRequest_def Let_def) (simp_all add: quiet_def host_simps)
qed


definition host_moves :: "host \<Rightarrow> host \<Rightarrow> bool" where
  "host_moves h h' \<longleftrightarrow> host_step h h' \<or> (\<exists>m. h' = onMessage m h)"

lemma moves_ok: "host_ok h \<Longrightarrow> host_moves h h' \<Longrightarrow> host_ok h'"
  by (auto simp: host_moves_def intro: ok_step ok_receive)

text \<open>Request ids of handlers stay, handlers are only added, and what is posted stays posted.\<close>

definition extends :: "host \<Rightarrow> host \<Rightarrow> bool" where
  "extends h h' \<longleftrightarrow> (\<exists>ids. map taskRequestId (tasks h') = map taskRequestId (tasks h) @ ids)
     \<and> (\<exists>ms. posted h' = posted h @ ms)"

lemma same_ids: "i < length ts \<Longrightarrow> (map taskRequestId ts)[i := taskRequestId (ts ! i)] = map taskRequestId ts"
  by (metis length_map list_update_id nth_map)

lemma step_extends: "host_step h h' \<Longrightarrow> extends h h'"
  by (erule host_stepE)
    (auto simp: extends_def host_simps map_update same_ids postAudioChunk_def resumeAfterAck_def
      handleWarmup_def Let_def)

lemma receive_extends: "extends h (onMessage m h)"
  by (simp add: extends_def host_simps onMessage_def handleIncomingRequest_def Let_def)

lemma extends_nth:
  "extends h h' \<Longrightarrow> i < length (tasks h) \<Longrightarrow>
     i < length (tasks h') \<and> taskRequestId (tasks h' ! i) = taskRequestId (tasks h ! i)"
proof -
  assume e: "extends h h'" and i: "i < length (tasks h)"
  then obtain ids where ids: "map taskRequestId (tasks h') = map taskRequestId (tasks h) @ ids"
    by (auto simp: extends_def)
  then have "length (tasks h) \<le> length (tasks h')" by (metis length_append length_map le_add1)
  moreover have "map taskRequestId (tasks h') ! i = taskRequestId (tasks h ! i)"
    using ids i by (simp add: nth_append)
  ultimately show ?thesis using i by simp
qed

lemma moves_extends: "host_moves h h' \<Longrightarrow> extends h h'"
  by (auto simp: host_moves_def step_extends receive_extends)

text \<open>The audio messages of an id.\<close>

definition is_audio_of :: "jsstr \<Rightarrow> jsstr \<times> host_message \<Rightarrow> bool" where
  "is_audio_of rid pm = (case snd pm of AudioChunk r _ _ \<Rightarrow> r = rid | _ \<Rightarrow> False)"

definition audio_messages :: "jsstr \<Rightarrow> host \<Rightarrow> (jsstr \<times> host_message) list" where
  "audio_messages rid h = filter (is_audio_of rid) (posted h)"

lemma audio_of_response [simp]: "\<not> is_audio_of rid (s, synthesis_response c r rid')"
  by (auto simp: is_audio_of_def synthesis_response_def split: sum.splits if_splits)

lemma receive_no_audio: "audio_messages rid (onMessage m h) = audio_messages rid h"
  by (simp add: audio_messages_def is_audio_of_def host_simps onMessage_def handleIncomingRequest_def Let_def)

lemma step_audio_silent:
  assumes "host_step h h'" and i: "i < length (tasks h)" and c: "cancelled (requests h ! i)"
    and d: "distinct (map taskRequestId (tasks h))"
  shows "audio_messages (taskRequestId (tasks h ! i)) h' = audio_messages (taskRequestId (tasks h ! i)) h"
  using assms(1)
proof cases
  case (audio j chunk)
  then have "j \<noteq> i \<Longrightarrow> taskRequestId (tasks h ! j) \<noteq> taskRequestId (tasks h ! i)"
    using nth_eq_iff_index_eq [OF d, of j i] i by simp
  then show ?thesis
    using audio c by (cases "j = i") (auto simp: audio_messages_def is_audio_of_def postAudioChunk_def Let_def host_simps)
next
  case (load_failed j e)
  then show ?thesis by (simp add: audio_messages_def host_simps)
next
  case (thrown j e)
  then show ?thesis by (simp add: audio_messages_def host_simps)
next
  case (finished j r)
  then show ?thesis by (simp add: audio_messages_def host_simps)
qed (auto simp: audio_messages_def is_audio_of_def host_simps resumeAfterAck_def handleWarmup_def Let_def split: sum.splits)

lemma extends_distinct: "extends h h' \<Longrightarrow> distinct (map taskRequestId (tasks h')) \<Longrightarrow> distinct (map taskRequestId (tasks h))"
  unfolding extends_def by (metis distinct_append)

lemma moves_quiet:
  "host_moves h h' \<Longrightarrow> host_ok h \<Longrightarrow> i < length (tasks h) \<Longrightarrow> cancelled (requests h ! i) \<Longrightarrow> quiet h h' i"
  using step_quiet [of h h' i] receive_quiet [of i h] by (auto simp: host_moves_def host_ok_def)

definition cancelled_reply :: "jsstr \<Rightarrow> host \<Rightarrow> bool" where
  "cancelled_reply rid h \<longleftrightarrow> (HOST_SOURCE, Response rid True CancelledStatus) \<in> set (posted h)
     \<or> (\<exists>sm. (HOST_SOURCE, Response rid True (CancelledSummary sm)) \<in> set (posted h))"

lemma receive_phase: "i < length (tasks h) \<Longrightarrow> phase_of (onMessage m h) i = phase_of h i"
  by (simp add: phase_of_def onMessage_def handleIncomingRequest_def Let_def host_simps nth_append)

lemma end_reply: "cancelled (requests h ! i) \<Longrightarrow> cancelled_reply (taskRequestId (tasks h ! i)) (handleSynthesize_end i r h)"
  by (auto simp: cancelled_reply_def host_simps synthesis_response_def split: sum.splits)

lemma step_finish_reply:
  assumes "host_step h h'" and i: "i < length (tasks h)" and c: "cancelled (requests h ! i)"
    and nf: "phase_of h i \<noteq> Finished" and f: "phase_of h' i = Finished"
  shows "cancelled_reply (taskRequestId (tasks h ! i)) h'"
proof -
  have other: "phase_of (handleSynthesize_end j r h) i = Finished \<Longrightarrow> j = i" if "j < length (tasks h)" for j r
    using nf i by (cases "j = i") (simp_all add: phase_of_def host_simps)
  from assms(1) show ?thesis
  proof cases
    case (load_failed j e)
    then show ?thesis using other f end_reply c by metis
  next
    case (thrown j e)
    then show ?thesis using other f end_reply c by metis
  next
    case (finished j r)
    then show ?thesis using other f end_reply c by metis
  qed (use nf f i in \<open>auto simp: phase_of_def host_simps nth_update_any postAudioChunk_def resumeAfterAck_def
      handleWarmup_def Let_def split: if_splits\<close>)
qed

text \<open>C11: A cancelled request stays cancelled and silent. From any reachable state in which a request is
  marked cancelled, whatever the page does and receives afterwards, the request stays marked and its
  chunk counter stands still; as long as no two handlers have the same id, not one further audio message
  of its id is posted; and if its handler finishes it answers with the status \<open>cancelled\<close> and
  \<open>ok: true\<close>, also when the runtime had thrown or had completed.\<close>

theorem host_cancelled_stays_silent:
  assumes run: "host_run ms h" and i: "i < length (tasks h)" and c: "cancelled (requests h ! i)"
    and moves: "host_moves\<^sup>*\<^sup>* h h'"
  shows "cancelled (requests h' ! i) \<and> chunkCounter (requests h' ! i) = chunkCounter (requests h ! i)
    \<and> (distinct (map taskRequestId (tasks h')) \<longrightarrow>
         audio_messages (taskRequestId (tasks h ! i)) h' = audio_messages (taskRequestId (tasks h ! i)) h)
    \<and> (phase_of h i \<noteq> Finished \<and> phase_of h' i = Finished \<longrightarrow> cancelled_reply (taskRequestId (tasks h ! i)) h')"
proof -
  let ?rid = "taskRequestId (tasks h ! i)"
  from moves have "host_ok h' \<and> quiet h h' i \<and> i < length (tasks h') \<and> taskRequestId (tasks h' ! i) = ?rid
     \<and> (distinct (map taskRequestId (tasks h')) \<longrightarrow> audio_messages ?rid h' = audio_messages ?rid h)
     \<and> (phase_of h i \<noteq> Finished \<and> phase_of h' i = Finished \<longrightarrow> cancelled_reply ?rid h')"
  proof (induction rule: rtranclp_induct)
    case base
    then show ?case using host_run_ok [OF run] i c by (simp add: quiet_def)
  next
    case (step h1 h2)
    then have ok: "host_ok h1" and q: "quiet h h1 i" and i1: "i < length (tasks h1)"
      and id1: "taskRequestId (tasks h1 ! i) = ?rid"
      and aud: "distinct (map taskRequestId (tasks h1)) \<Longrightarrow> audio_messages ?rid h1 = audio_messages ?rid h"
      and rep: "phase_of h i \<noteq> Finished \<Longrightarrow> phase_of h1 i = Finished \<Longrightarrow> cancelled_reply ?rid h1" by blast+
    have c1: "cancelled (requests h1 ! i)" using q by (simp add: quiet_def)
    note e = moves_extends [OF step.hyps(2)]
    have keep: "cancelled_reply ?rid h1 \<Longrightarrow> cancelled_reply ?rid h2"
      using e by (auto simp: extends_def cancelled_reply_def)
    have reply: "cancelled_reply ?rid h2" if "phase_of h i \<noteq> Finished" "phase_of h2 i = Finished"
    proof (cases "phase_of h1 i = Finished")
      case True
      then show ?thesis using rep that keep by blast
    next
      case False
      then have "host_step h1 h2"
        using step.hyps(2) that receive_phase [OF i1] by (auto simp: host_moves_def)
      from step_finish_reply [OF this i1 c1 False that(2)] show ?thesis by (simp add: id1)
    qed
    have "audio_messages ?rid h2 = audio_messages ?rid h" if "distinct (map taskRequestId (tasks h2))"
    proof -
      have d: "distinct (map taskRequestId (tasks h1))" by (rule extends_distinct [OF e that])
      have "audio_messages ?rid h2 = audio_messages ?rid h1"
        using step.hyps(2) step_audio_silent [OF _ i1 c1 d] receive_no_audio
        unfolding host_moves_def id1 by metis
      then show ?thesis using aud d by simp
    qed
    moreover have "quiet h h2 i"
      using moves_quiet [OF step.hyps(2) ok i1 c1] q by (simp add: quiet_def)
    ultimately show ?case using moves_ok [OF ok step.hyps(2)] extends_nth [OF e i1] id1 reply by simp
  qed
  then show ?thesis by (simp add: quiet_def)
qed


section \<open>Cancelling reaches the request\<close>

text \<open>The ids of the syntheses asked for.\<close>

definition asks_synthesis :: "client_message \<Rightarrow> bool" where
  "asks_synthesis m \<longleftrightarrow> msgSource m = CLIENT_SOURCE \<and> requestId m \<noteq> [] \<and> action m = js ''synthesize''"

definition synthesis_ids :: "client_message list \<Rightarrow> jsstr list" where
  "synthesis_ids ms = map requestId (filter asks_synthesis ms)"

definition reachable_by_id :: "host \<Rightarrow> bool" where
  "reachable_by_id h \<longleftrightarrow> (\<forall>i<length (tasks h). phase_of h i \<noteq> Finished \<longrightarrow>
     activeSynthesisRequests h (taskRequestId (tasks h ! i)) = Some i)"

lemma step_ids: "host_step h h' \<Longrightarrow> map taskRequestId (tasks h') = map taskRequestId (tasks h)"
  by (erule host_stepE)
    (auto simp: host_simps map_update same_ids postAudioChunk_def resumeAfterAck_def handleWarmup_def Let_def)

lemma receive_ids:
  "map taskRequestId (tasks (onMessage m h)) = map taskRequestId (tasks h) @ synthesis_ids [m]"
  by (simp add: synthesis_ids_def asks_synthesis_def host_simps onMessage_def handleIncomingRequest_def Let_def)

lemma reachable_by_id_end:
  assumes r: "reachable_by_id h" and d: "distinct (map taskRequestId (tasks h))" and j: "j < length (tasks h)"
  shows "reachable_by_id (handleSynthesize_end j out h)"
proof -
  have "taskRequestId (tasks h ! i) \<noteq> taskRequestId (tasks h ! j)" if "i < length (tasks h)" "i \<noteq> j" for i
    using nth_eq_iff_index_eq [OF d, of i j] j that by simp
  then show ?thesis
    using r j unfolding reachable_by_id_def
    by (auto simp: phase_of_def host_simps nth_list_update split: if_splits)
qed

lemma reachable_by_id_phase:
  assumes "reachable_by_id h" and "activeSynthesisRequests h' = activeSynthesisRequests h"
    and "map taskRequestId (tasks h') = map taskRequestId (tasks h)"
    and "\<And>i. i < length (tasks h) \<Longrightarrow> phase_of h i = Finished \<Longrightarrow> phase_of h' i = Finished"
  shows "reachable_by_id h'"
proof -
  have l: "length (tasks h') = length (tasks h)" using assms(3) by (metis length_map)
  then have "taskRequestId (tasks h' ! i) = taskRequestId (tasks h ! i)" if "i < length (tasks h)" for i
    using assms(3) that by (metis nth_map)
  then show ?thesis using assms l by (auto simp: reachable_by_id_def)
qed

lemma step_reachable_by_id:
  assumes "host_step h h'" and r: "reachable_by_id h" and d: "distinct (map taskRequestId (tasks h))"
  shows "reachable_by_id h'"
  using assms(1)
proof cases
  case (load_failed i e)
  then show ?thesis using reachable_by_id_end [OF r d] by simp
next
  case (thrown i e)
  then show ?thesis using reachable_by_id_end [OF r d] by simp
next
  case (finished i out)
  then show ?thesis using reachable_by_id_end [OF r d] by simp
qed (rule reachable_by_id_phase [OF r _ step_ids [OF assms(1)]];
    auto simp: phase_of_def host_simps nth_update_any postAudioChunk_def resumeAfterAck_def handleWarmup_def Let_def
      split: if_splits)+

lemma run_ids: "host_run ms h \<Longrightarrow> map taskRequestId (tasks h) = synthesis_ids ms"
proof (induction rule: host_run.induct)
  case (run_receive ms h m)
  then show ?case by (simp add: receive_ids) (simp add: synthesis_ids_def)
qed (simp_all add: initial_host_def host_simps synthesis_ids_def step_ids)

lemma receive_reachable_by_id:
  assumes r: "reachable_by_id h" and ok: "length (requests h) = length (tasks h)"
    and d: "distinct (map taskRequestId (tasks (onMessage m h)))"
  shows "reachable_by_id (onMessage m h)"
proof (cases "asks_synthesis m")
  case True
  then have h': "onMessage m h = handleSynthesize_start (requestId m) h"
    by (simp add: asks_synthesis_def onMessage_def handleIncomingRequest_def Let_def)
  have new: "taskRequestId (tasks h ! i) \<noteq> requestId m" if "i < length (tasks h)" for i
  proof -
    have "requestId m \<notin> taskRequestId ` set (tasks h)" using d by (simp add: h' host_simps)
    moreover have "taskRequestId (tasks h ! i) \<in> taskRequestId ` set (tasks h)" using that by simp
    ultimately show ?thesis by metis
  qed
  then show ?thesis
    using r ok unfolding reachable_by_id_def
    by (auto simp: h' phase_of_def host_simps nth_append less_Suc_eq)
next
  case False
  then have "map taskRequestId (tasks (onMessage m h)) = map taskRequestId (tasks h)"
    using receive_ids [of m h] by (simp add: synthesis_ids_def)
  then show ?thesis
    using False by (intro reachable_by_id_phase [OF r])
      (auto simp: phase_of_def asks_synthesis_def onMessage_def handleIncomingRequest_def Let_def host_simps)
qed

lemma run_reachable_by_id: "host_run ms h \<Longrightarrow> distinct (synthesis_ids ms) \<Longrightarrow> reachable_by_id h"
proof (induction rule: host_run.induct)
  case run_start
  then show ?case by (simp add: reachable_by_id_def initial_host_def host_simps)
next
  case (run_receive ms h m)
  have "map taskRequestId (tasks (onMessage m h)) = synthesis_ids (ms @ [m])"
    using run_ids [OF run_receive.hyps] receive_ids [of m h] by (simp add: synthesis_ids_def)
  then show ?case
    using run_receive host_run_ok [OF run_receive.hyps]
    by (intro receive_reachable_by_id) (auto simp: synthesis_ids_def host_ok_def)
next
  case (run_step ms h h')
  then show ?case using step_reachable_by_id run_ids by metis
qed

lemma waits_well_map_of:
  "waits_well ps (AwaitingAck cid p) acks \<Longrightarrow> p < length ps \<Longrightarrow> ps ! p = None \<Longrightarrow> map_of acks cid = Some p"
  unfolding waits_well_def by (cases acks) auto

text \<open>The two messages that settle a promise.\<close>

lemma acked_resolves:
  assumes "activeSynthesisRequests h rid = Some i"
    and "waits_well (promises h) (AwaitingAck cid p) (pendingChunkAcks (requests h ! i))"
    and "p < length (promises h)" "promises h ! p = None" and "rid \<noteq> []"
  shows "\<forall>m. msgSource m = CLIENT_SOURCE \<and> action m = js ''chunk-ack'' \<and> requestId m = rid \<and> chunkId m = cid
    \<longrightarrow> promises (onMessage m h) ! p = Some (accepted m \<noteq> Some False)"
  using assms waits_well_map_of [OF assms(2-4)]
  by (auto simp: onMessage_def handleIncomingRequest_def handleChunkAck_def getActiveRequest_def Let_def host_simps
      resolve_promise_nth)

lemma cancel_resolves:
  assumes "activeSynthesisRequests h rid = Some i"
    and w: "waits_well (promises h) (AwaitingAck cid p) (pendingChunkAcks (requests h ! i))"
    and p: "p < length (promises h)" "promises h ! p = None"
  shows "\<forall>m. msgSource m = CLIENT_SOURCE \<and> action m = js ''cancel'' \<and> requestId m \<noteq> [] \<and> targetRequestId m = rid
    \<longrightarrow> promises (onMessage m h) ! p = Some False"
proof -
  have "promises (cancelActiveRequest rid h) = resolve_all (pendingChunkAcks (requests h ! i)) False (promises h)"
    using assms(1) by (cases "i < length (requests h)")
      (simp_all add: cancelActiveRequest_def getActiveRequest_def host_simps list_update_beyond)
  moreover have "(cid, p) \<in> set (pendingChunkAcks (requests h ! i))" using w p by (simp add: waits_well_def)
  then have "p \<in> snd ` set (pendingChunkAcks (requests h ! i))" by force
  ultimately have "promises (cancelActiveRequest rid h) ! p = Some False" using p by (simp add: resolve_all_nth)
  then show ?thesis by (auto simp: onMessage_def handleIncomingRequest_def Let_def host_simps)
qed

lemma run_named:
  assumes "host_run ms h" and "i < length (tasks h)"
  shows "taskRequestId (tasks h ! i) \<noteq> []"
proof -
  have "taskRequestId (tasks h ! i) \<in> set (map taskRequestId (tasks h))" using assms(2) by simp
  then show ?thesis unfolding run_ids [OF assms(1)] by (auto simp: synthesis_ids_def asks_synthesis_def)
qed

text \<open>C12: No acknowledgement is ever waited for in vain: when the syntheses asked for have different ids, in every
  reachable state each unresolved promise belongs to a handler that is waiting for exactly that promise;
  the client's acknowledgement with the handler's request id and the awaited chunk's id resolves it, to
  \<open>false\<close> only if it says \<open>accepted: false\<close>, and so does a cancel for the request, to \<open>false\<close>; a
  handler that has finished leaves no resolver behind.\<close>

theorem host_no_lost_ack:
  assumes run: "host_run ms h" and ids: "distinct (synthesis_ids ms)"
  shows "(\<forall>p<length (promises h). promises h ! p = None \<longrightarrow>
      (\<exists>i<length (tasks h). \<exists>cid. phase_of h i = AwaitingAck cid p
        \<and> (\<forall>m. msgSource m = CLIENT_SOURCE \<and> action m = js ''chunk-ack''
              \<and> requestId m = taskRequestId (tasks h ! i) \<and> chunkId m = cid
              \<longrightarrow> promises (onMessage m h) ! p = Some (accepted m \<noteq> Some False))
        \<and> (\<forall>m. msgSource m = CLIENT_SOURCE \<and> action m = js ''cancel'' \<and> requestId m \<noteq> []
              \<and> targetRequestId m = taskRequestId (tasks h ! i)
              \<longrightarrow> promises (onMessage m h) ! p = Some False)))
    \<and> (\<forall>i<length (tasks h). phase_of h i = Finished \<longrightarrow> pendingChunkAcks (requests h ! i) = [])"
proof -
  have ok: "host_ok h" by (rule host_run_ok [OF run])
  have "\<exists>i<length (tasks h). \<exists>cid. phase_of h i = AwaitingAck cid p
      \<and> (\<forall>m. msgSource m = CLIENT_SOURCE \<and> action m = js ''chunk-ack''
            \<and> requestId m = taskRequestId (tasks h ! i) \<and> chunkId m = cid
            \<longrightarrow> promises (onMessage m h) ! p = Some (accepted m \<noteq> Some False))
      \<and> (\<forall>m. msgSource m = CLIENT_SOURCE \<and> action m = js ''cancel'' \<and> requestId m \<noteq> []
            \<and> targetRequestId m = taskRequestId (tasks h ! i)
            \<longrightarrow> promises (onMessage m h) ! p = Some False)"
    if p: "p < length (promises h)" "promises h ! p = None" for p
  proof -
    obtain i cid where i: "i < length (tasks h)" "phase_of h i = AwaitingAck cid p"
      using ok p by (auto simp: host_ok_def awaited_def)
    have act: "activeSynthesisRequests h (taskRequestId (tasks h ! i)) = Some i"
      using run_reachable_by_id [OF run ids] i by (simp add: reachable_by_id_def)
    have w: "waits_well (promises h) (AwaitingAck cid p) (pendingChunkAcks (requests h ! i))"
      using host_ok_waits [OF ok i(1)] i(2) by simp
    have named: "taskRequestId (tasks h ! i) \<noteq> []" by (rule run_named [OF run i(1)])
    show ?thesis
      using acked_resolves [OF act w p named] cancel_resolves [OF act w p] i by blast
  qed
  then show ?thesis using host_ok_not_awaiting [OF ok] by simp
qed

text \<open>C38: A cancel message reaches its request. When the syntheses asked for have different ids, a client's
  cancel for the id of a handler that has not finished marks that handler's request cancelled, drops its
  resolvers and settles the promise it waits for, if any, so that the handler goes on.\<close>

theorem host_cancel_reaches:
  assumes run: "host_run ms h" and ids: "distinct (synthesis_ids ms)"
    and i: "i < length (tasks h)" and unfinished: "phase_of h i \<noteq> Finished"
    and m: "msgSource m = CLIENT_SOURCE" "requestId m \<noteq> []" "action m = js ''cancel''"
      "targetRequestId m = taskRequestId (tasks h ! i)"
  shows "cancelled (requests (onMessage m h) ! i) \<and> pendingChunkAcks (requests (onMessage m h) ! i) = []
    \<and> (\<forall>cid p. phase_of h i = AwaitingAck cid p \<longrightarrow> promises (onMessage m h) ! p \<noteq> None)"
proof -
  have act: "activeSynthesisRequests h (taskRequestId (tasks h ! i)) = Some i"
    using run_reachable_by_id [OF run ids] i unfinished by (simp add: reachable_by_id_def)
  have ok: "host_ok h" by (rule host_run_ok [OF run])
  then have il: "i < length (requests h)" using i by (simp add: host_ok_def)
  have h': "onMessage m h = postToParent (Response (requestId m) True CancelledStatus)
      (cancelActiveRequest (taskRequestId (tasks h ! i)) h)"
    using m by (simp add: onMessage_def handleIncomingRequest_def Let_def)
  have "\<forall>cid p. phase_of h i = AwaitingAck cid p \<longrightarrow>
      resolve_all (pendingChunkAcks (requests h ! i)) False (promises h) ! p \<noteq> None"
  proof (intro allI impI)
    fix cid p
    assume ph: "phase_of h i = AwaitingAck cid p"
    then have p: "p < length (promises h)"
      and n: "promises h ! p = None \<Longrightarrow> (cid, p) \<in> set (pendingChunkAcks (requests h ! i))"
      using host_ok_waits [OF ok i] by (simp_all add: waits_well_def)
    show "resolve_all (pendingChunkAcks (requests h ! i)) False (promises h) ! p \<noteq> None"
    proof (cases "promises h ! p")
      case None
      then have "p \<in> snd ` set (pendingChunkAcks (requests h ! i))" using n by (metis image_eqI snd_conv)
      then show ?thesis using None by (simp add: resolve_all_nth [OF p])
    qed (simp add: resolve_all_nth [OF p])
  qed
  moreover have "requests (onMessage m h) ! i = (requests h ! i)\<lparr>cancelled := True, pendingChunkAcks := []\<rparr>"
    using il unfolding h' by (simp add: host_simps cancelActiveRequest_def getActiveRequest_def act)
  moreover have "promises (onMessage m h) = resolve_all (pendingChunkAcks (requests h ! i)) False (promises h)"
    using il unfolding h' by (simp add: host_simps cancelActiveRequest_def getActiveRequest_def act)
  ultimately show ?thesis by (simp only:) simp
qed

text \<open>Audio messages are counted by the requests' chunk counters.\<close>

lemma sum_list_update_nat: "i < length xs \<Longrightarrow> sum_list (xs[i := v]) + xs ! i = sum_list xs + (v :: nat)"
proof (induction xs arbitrary: i)
  case (Cons x xs)
  then show ?case by (cases i) (auto simp: add_ac)
qed simp

definition chunk_total :: "host \<Rightarrow> nat" where
  "chunk_total h = sum_list (map chunkCounter (requests h))"

lemma chunk_total_same:
  "map chunkCounter (requests h') = map chunkCounter (requests h) \<Longrightarrow> chunk_total h' = chunk_total h"
  by (simp add: chunk_total_def)

lemma same_counter: "chunkCounter r = chunkCounter (rs ! i) \<Longrightarrow> map chunkCounter (rs[i := r]) = map chunkCounter rs"
proof (cases "i < length rs")
  case True
  assume "chunkCounter r = chunkCounter (rs ! i)"
  then show ?thesis using True by (metis length_map list_update_id map_update nth_map)
qed (simp add: list_update_beyond)

lemma audio_synthesis_response [simp]: "\<not> is_audio (s, synthesis_response c r rid)"
  by (auto simp: is_audio_def synthesis_response_def split: sum.splits if_splits)

text \<open>The host posts audio only through the acknowledged path: in every reachable state the number of
  audio messages posted is the sum of the chunk counters of all requests, so that a request whose
  counter stands still posts nothing.\<close>

theorem host_audio_counted:
  assumes "host_run ms h"
  shows "audio_count h = chunk_total h"
  using assms
proof (induction rule: host_run.induct)
  case run_start
  then show ?case by (simp add: initial_host_def audio_count_def chunk_total_def host_simps is_audio_def)
next
  case (run_receive ms h m)
  have "map chunkCounter (requests (handleChunkAck m h)) = map chunkCounter (requests h)"
    by (simp add: handleChunkAck_def Let_def host_simps same_counter split: option.splits)
  moreover have "map chunkCounter (requests (cancelActiveRequest rid h)) = map chunkCounter (requests h)" for rid
  proof (cases "getActiveRequest rid h")
    case (Some j)
    then show ?thesis
      by (cases "j < length (requests h)")
        (simp_all add: cancelActiveRequest_def host_simps same_counter list_update_beyond)
  qed (simp add: cancelActiveRequest_def)
  ultimately show ?case
    using run_receive.IH unfolding onMessage_def handleIncomingRequest_def Let_def
    by (auto simp: audio_count_def chunk_total_def host_simps is_audio_def)
next
  case (run_step ms h h')
  have ok: "host_ok h" by (rule host_run_ok [OF run_step.hyps(1)])
  from run_step.hyps(2) show ?case
  proof cases
    case (audio i chunk)
    have il: "i < length (map chunkCounter (requests h))" using ok audio by (simp add: host_ok_def)
    show ?thesis
      using audio run_step.IH sum_list_update_nat [OF il, of "Suc (chunkCounter (requests h ! i))"] il
      by (auto simp: postAudioChunk_def Let_def audio_count_def chunk_total_def host_simps is_audio_def map_update)
  qed (use run_step.IH in \<open>auto simp: audio_count_def chunk_total_def host_simps same_counter
        resumeAfterAck_def handleWarmup_def Let_def\<close>, auto simp: is_audio_def split: sum.splits)
qed


section \<open>A run\<close>

text \<open>A client asks for a synthesis, the host loads, posts a chunk and waits; the client cancels; the
  handler resumes, throws and answers.\<close>

definition ask :: client_message where
  "ask = \<lparr>msgSource = CLIENT_SOURCE, action = js ''synthesize'', requestId = js ''r'', chunkId = [],
     accepted = None, targetRequestId = []\<rparr>"

definition ask_cancel :: client_message where
  "ask_cancel = \<lparr>msgSource = CLIENT_SOURCE, action = js ''cancel'', requestId = js ''c'', chunkId = [],
     accepted = None, targetRequestId = js ''r''\<rparr>"

definition beep :: audio_chunk where
  "beep = \<lparr>sampleRate = 48000, channels = 1, isPause = False, buffers = [[0]]\<rparr>"

definition waiting_host :: host where
  "waiting_host = postAudioChunk 0 beep (set_phase 0 Running (onMessage ask initial_host))"

lemmas run_simps = ask_def ask_cancel_def beep_def onMessage_def handleIncomingRequest_def Let_def host_simps
  initial_host_def phase_of_def postAudioChunk_def

lemma waiting_host_run: "host_run [ask] waiting_host"
proof -
  have "host_run [ask] (onMessage ask initial_host)" using run_receive [OF run_start, of ask] by simp
  then have "host_run [ask] (set_phase 0 Running (onMessage ask initial_host))"
    by (rule run_step) (rule loaded; simp add: run_simps)
  then show ?thesis
    unfolding waiting_host_def by (rule run_step) (rule audio; simp add: run_simps)
qed

lemma waiting_host_phase:
  "length (tasks waiting_host) = 1 \<and> taskRequestId (tasks waiting_host ! 0) = js ''r''
   \<and> phase_of waiting_host 0 = AwaitingAck (js ''r:chunk:1'') 0 \<and> promises waiting_host = [None]"
proof -
  have "chunk_id (js ''r'') 1 = js ''r:chunk:1''" by code_simp
  then show ?thesis by (simp add: waiting_host_def run_simps)
qed

lemma cancelled_run: "host_run [ask, ask_cancel] (onMessage ask_cancel waiting_host)"
  using run_receive [OF waiting_host_run, of ask_cancel] by simp

theorem host_answers_once_witness:
  "responses (js ''r'') waiting_host + open_handlers (js ''r'') waiting_host = 1"
proof -
  have "length (filter (expects_reply (js ''r'')) [ask]) = 1"
    by (simp add: expects_reply_def ask_def)
  then show ?thesis using host_answers_once [OF waiting_host_run, of "js ''r''"] by simp
qed

definition ask_ack :: client_message where
  "ask_ack = \<lparr>msgSource = CLIENT_SOURCE, action = js ''chunk-ack'', requestId = js ''r'', chunkId = js ''r:chunk:1'',
     accepted = Some True, targetRequestId = []\<rparr>"

theorem host_no_lost_ack_witness:
  "promises (onMessage ask_ack waiting_host) ! 0 = Some True"
proof -
  have d: "distinct (synthesis_ids [ask])" by (simp add: synthesis_ids_def asks_synthesis_def ask_def)
  note w = waiting_host_phase
  obtain i cid where i: "i < length (tasks waiting_host)" "phase_of waiting_host i = AwaitingAck cid 0"
    and a: "\<forall>m. msgSource m = CLIENT_SOURCE \<and> action m = js ''chunk-ack''
        \<and> requestId m = taskRequestId (tasks waiting_host ! i) \<and> chunkId m = cid
        \<longrightarrow> promises (onMessage m waiting_host) ! 0 = Some (accepted m \<noteq> Some False)"
    using host_no_lost_ack [OF waiting_host_run d] w by (metis length_Cons nth_Cons_0 zero_less_Suc)
  have "i = 0" "cid = js ''r:chunk:1''" using i w by auto
  then show ?thesis using a [rule_format, of ask_ack] w by (simp add: ask_ack_def)
qed

theorem host_cancel_reaches_witness:
  "cancelled (requests (onMessage ask_cancel waiting_host) ! 0)
   \<and> promises (onMessage ask_cancel waiting_host) ! 0 \<noteq> None"
proof -
  have d: "distinct (synthesis_ids [ask])" by (simp add: synthesis_ids_def asks_synthesis_def ask_def)
  have c: "msgSource ask_cancel = CLIENT_SOURCE" "requestId ask_cancel \<noteq> []" "action ask_cancel = js ''cancel''"
    "targetRequestId ask_cancel = taskRequestId (tasks waiting_host ! 0)"
    using waiting_host_phase by (simp_all add: ask_cancel_def)
  show ?thesis
    using host_cancel_reaches [OF waiting_host_run d _ _ c] waiting_host_phase by simp
qed

theorem host_cancelled_stays_silent_witness:
  "audio_messages (js ''r'') (onMessage ask_ack (onMessage ask_cancel waiting_host))
     = audio_messages (js ''r'') (onMessage ask_cancel waiting_host)"
proof -
  let ?h = "onMessage ask_cancel waiting_host"
  have t: "tasks ?h = tasks waiting_host" "tasks (onMessage ask_ack ?h) = tasks waiting_host"
    by (simp_all add: ask_ack_def run_simps)
  have "cancelled (requests ?h ! 0)"
    by (simp add: waiting_host_def run_simps cancelActiveRequest_def getActiveRequest_def)
  moreover have "host_moves\<^sup>*\<^sup>* ?h (onMessage ask_ack ?h)"
    by (rule r_into_rtranclp) (auto simp: host_moves_def)
  moreover have "distinct (map taskRequestId (tasks (onMessage ask_ack ?h)))" "0 < length (tasks ?h)"
    "taskRequestId (tasks ?h ! 0) = js ''r''"
    using waiting_host_phase unfolding t by (cases "tasks waiting_host"; simp)+
  ultimately show ?thesis using host_cancelled_stays_silent [OF cancelled_run, of 0] by metis
qed

theorem host_audio_counted_witness: "audio_count waiting_host = 1"
proof -
  have "chunk_total waiting_host = 1" by (simp add: waiting_host_def run_simps chunk_total_def)
  then show ?thesis using host_audio_counted [OF waiting_host_run] by simp
qed

end
