(* ===== verification/TokenizerSandbox.thy ===== *)
theory TokenizerSandbox
  imports Prelude
begin

text \<open>
  The tokenizer runs in an iframe. The runtime (\<open>ensureTokenizerSandboxFrame\<close>,
  \<open>postTokenizerSandboxRequest\<close> and the message listener of \<open>browser_onnx_runtime.js\<close>) posts requests to
  it, and \<open>tokenizer_sandbox_main.js\<close> (the last part of \<open>tokenizer_sandbox.js\<close>) answers. The two sides are
  modelled together: calls made by the runtime, the messages under way in each direction, and the loads
  of tokenizer models that have not finished. SentencePiece is a parameter: \<open>load_model\<close> is
  \<open>loadFromB64StringModel\<close> and \<open>encode_ids\<close> is \<open>encodeIds\<close>; \<open>message_of\<close> is the text of an error.
\<close>

section \<open>State\<close>

definition TOKENIZER_SANDBOX_SOURCE :: jsstr where
  "TOKENIZER_SANDBOX_SOURCE = js ''nano-reader-tokenizer-sandbox''"

datatype tok_action =
    LoadTokenizer jsstr jsstr
  | EncodeText jsstr jsstr
  | OtherAction jsstr

datatype tok_data = Loaded | TokenIds "int list"

text \<open>A message: the fields the receivers look at.\<close>

record 'd tok_message =
  tm_source :: jsstr
  tm_type :: jsstr
  tm_requestId :: jsstr
  tm_body :: 'd

type_synonym tok_request = "tok_action tok_message"
type_synonym tok_response = "(jsstr + tok_data) tok_message"

text \<open>A call of \<open>postTokenizerSandboxRequest\<close>: waiting for the frame, waiting for the reply, or settled.\<close>

datatype call_phase = WaitFrame | AwaitReply jsstr | Settled "tok_data result"

record tok_client =
  sandboxFrame :: bool
  sandboxReadyPromise :: bool
  frameInDocument :: bool
  requestCounter :: nat
  pendingRequests :: "jsstr \<rightharpoonup> nat"
  tok_calls :: "(tok_action \<times> call_phase) list"

record 'p tok_sandbox =
  processors :: "jsstr \<rightharpoonup> 'p"
  loading :: "(jsstr \<times> jsstr \<times> jsstr) list"

record 'p tok_system =
  client :: tok_client
  sandbox :: "'p tok_sandbox"
  to_sandbox :: "tok_request list"
  to_client :: "tok_response list"
  navigating :: bool
  takenOver :: bool

text \<open>\<open>frameInDocument\<close>: the document holds an iframe with the sandbox's id. \<open>navigating\<close>: the address of an
  iframe that was there has been assigned again and its new page has not loaded yet; \<open>takenOver\<close>
  remembers that this has happened.\<close>

section \<open>The runtime's side\<close>

definition set_call :: "nat \<Rightarrow> call_phase \<Rightarrow> tok_client \<Rightarrow> tok_client" where
  "set_call i p c = c\<lparr>tok_calls := (tok_calls c)[i := (fst (tok_calls c ! i), p)]\<rparr>"

text \<open>A call starts by asking for the frame. Without one, and with no creation under way, an iframe that is in
  the document already (one whose loading failed stays there) is given its address once more, which
  sends it to a new page, and is taken at once, before that page has loaded; otherwise an iframe is
  created and waited for.\<close>

definition takes_over :: "tok_client \<Rightarrow> bool" where
  "takes_over c \<longleftrightarrow> \<not> sandboxFrame c \<and> \<not> sandboxReadyPromise c \<and> frameInDocument c"

definition ensureTokenizerSandboxFrame :: "tok_client \<Rightarrow> tok_client" where
  "ensureTokenizerSandboxFrame c =
     (if sandboxFrame c \<or> sandboxReadyPromise c then c
      else if frameInDocument c then c\<lparr>sandboxFrame := True\<rparr>
      else c\<lparr>sandboxReadyPromise := True, frameInDocument := True\<rparr>)"

definition start_call :: "tok_action \<Rightarrow> tok_client \<Rightarrow> tok_client" where
  "start_call a c = ensureTokenizerSandboxFrame (c\<lparr>tok_calls := tok_calls c @ [(a, WaitFrame)]\<rparr>)"

definition frame_load :: "tok_client \<Rightarrow> tok_client" where
  "frame_load c = c\<lparr>sandboxFrame := True, sandboxReadyPromise := False\<rparr>"

definition frame_error :: "tok_client \<Rightarrow> tok_client" where
  "frame_error c =
     c\<lparr>sandboxReadyPromise := False,
       tok_calls := map (\<lambda>(a, p). (a, if p = WaitFrame
         then Settled (Inl (Error (js ''Failed to load tokenizer sandbox iframe.''))) else p)) (tok_calls c)\<rparr>"

definition request_id :: "nat \<Rightarrow> nat \<Rightarrow> jsstr" where
  "request_id now n = js ''tokenizer-'' @ nat_str now @ [45] @ nat_str n"

text \<open>The rest of \<open>postTokenizerSandboxRequest\<close>, once the frame is there.\<close>

definition postTokenizerSandboxRequest :: "nat \<Rightarrow> nat \<Rightarrow> tok_client \<Rightarrow> tok_client \<times> tok_request" where
  "postTokenizerSandboxRequest now i c =
     (let n = Suc (requestCounter c); rid = request_id now n
      in (set_call i (AwaitReply rid) (c\<lparr>requestCounter := n, pendingRequests := (pendingRequests c)(rid \<mapsto> i)\<rparr>),
          \<lparr>tm_source = TOKENIZER_SANDBOX_SOURCE, tm_type = js ''request'', tm_requestId = rid,
           tm_body = fst (tok_calls c ! i)\<rparr>))"

definition settle :: "jsstr + tok_data \<Rightarrow> tok_data result" where
  "settle b = (case b of Inr d \<Rightarrow> Inr d
     | Inl m \<Rightarrow> Inl (Error (if m = [] then js ''Tokenizer sandbox request failed.'' else m)))"

definition onSandboxMessage :: "bool \<Rightarrow> tok_response \<Rightarrow> tok_client \<Rightarrow> tok_client" where
  "onSandboxMessage from_frame m c =
     (if \<not> from_frame then c
      else if tm_source m \<noteq> TOKENIZER_SANDBOX_SOURCE \<or> tm_type m \<noteq> js ''response'' then c
      else
        (case pendingRequests c (tm_requestId m) of
           None \<Rightarrow> c
         | Some i \<Rightarrow> set_call i (Settled (settle (tm_body m)))
             (c\<lparr>pendingRequests := (pendingRequests c)(tm_requestId m := None)\<rparr>)))"

section \<open>The sandbox's side\<close>

definition sandbox_reply :: "jsstr \<Rightarrow> jsstr + tok_data \<Rightarrow> tok_response" where
  "sandbox_reply rid b =
     \<lparr>tm_source = TOKENIZER_SANDBOX_SOURCE, tm_type = js ''response'', tm_requestId = rid, tm_body = b\<rparr>"

text \<open>What \<open>ensureProcessor\<close> does at once: the processor that is there, an error without a model, or a load
  that has to be waited for.\<close>

datatype 'p ensured = Ready 'p | Missing js_error | MustLoad

definition ensureProcessor :: "jsstr \<Rightarrow> jsstr \<Rightarrow> 'p tok_sandbox \<Rightarrow> 'p ensured" where
  "ensureProcessor modelKey tokenizerBase64 s =
     (case processors s modelKey of
        Some p \<Rightarrow> Ready p
      | None \<Rightarrow>
          if tokenizerBase64 = [] then Missing (Error (js ''Tokenizer model is not loaded: '' @ modelKey))
          else MustLoad)"

definition onTokenizerRequest ::
  "('p \<Rightarrow> jsstr \<Rightarrow> int list result) \<Rightarrow> (js_error \<Rightarrow> jsstr) \<Rightarrow> tok_request \<Rightarrow> 'p tok_sandbox
    \<Rightarrow> 'p tok_sandbox \<times> tok_response list" where
  "onTokenizerRequest encode_ids message_of m s =
     (if tm_source m \<noteq> TOKENIZER_SANDBOX_SOURCE \<or> tm_type m \<noteq> js ''request'' then (s, [])
      else
        (let rid = tm_requestId m in
         case tm_body m of
           LoadTokenizer modelKey tokenizerBase64 \<Rightarrow>
             (case ensureProcessor modelKey tokenizerBase64 s of
                Ready p \<Rightarrow> (s, [sandbox_reply rid (Inr Loaded)])
              | Missing e \<Rightarrow> (s, [sandbox_reply rid (Inl (message_of e))])
              | MustLoad \<Rightarrow> (s\<lparr>loading := loading s @ [(rid, modelKey, tokenizerBase64)]\<rparr>, []))
         | EncodeText modelKey t \<Rightarrow>
             (case ensureProcessor modelKey [] s of
                Ready p \<Rightarrow>
                  (case encode_ids p t of
                     Inr ids \<Rightarrow> (s, [sandbox_reply rid (Inr (TokenIds ids))])
                   | Inl e \<Rightarrow> (s, [sandbox_reply rid (Inl (message_of e))]))
              | Missing e \<Rightarrow> (s, [sandbox_reply rid (Inl (message_of e))])
              | MustLoad \<Rightarrow> (s, []))
         | OtherAction a \<Rightarrow>
             (s, [sandbox_reply rid (Inl (message_of
                (Error (js ''Unsupported tokenizer sandbox action: '' @ a))))])))"

text \<open>The rest of \<open>ensureProcessor\<close> and of the handler, when the awaited load is over.\<close>

definition finish_load ::
  "(jsstr \<Rightarrow> 'p result) \<Rightarrow> (js_error \<Rightarrow> jsstr) \<Rightarrow> nat \<Rightarrow> 'p tok_sandbox \<Rightarrow> 'p tok_sandbox \<times> tok_response" where
  "finish_load load_model message_of i s =
     (case loading s ! i of (rid, modelKey, b64) \<Rightarrow>
        (let s' = s\<lparr>loading := take i (loading s) @ drop (Suc i) (loading s)\<rparr> in
         case load_model b64 of
           Inr p \<Rightarrow> (s'\<lparr>processors := (processors s')(modelKey \<mapsto> p)\<rparr>, sandbox_reply rid (Inr Loaded))
         | Inl e \<Rightarrow> (s', sandbox_reply rid (Inl (message_of e)))))"

section \<open>Runs\<close>

definition new_sandbox :: "'p tok_sandbox" where
  "new_sandbox = \<lparr>processors = Map.empty, loading = []\<rparr>"

definition tok_init :: "'p tok_system" where
  "tok_init =
     \<lparr>client = \<lparr>sandboxFrame = False, sandboxReadyPromise = False, frameInDocument = False, requestCounter = 0,
        pendingRequests = Map.empty, tok_calls = []\<rparr>,
      sandbox = new_sandbox, to_sandbox = [], to_client = [], navigating = False, takenOver = False\<rparr>"

text \<open>Messages in one direction arrive in the order they were posted; loads finish in any order. While an
  iframe that was taken over changes its page, a request may be lost on the page that goes away
  (\<open>dropped\<close>); when the new page has loaded (\<open>navigated\<close>), it starts without processors, and what was
  posted to the old page is gone with it. The document starts without the iframe: a second copy of the
  module in the same document, which would install no listener, is not modelled.\<close>

inductive tok_step ::
  "(jsstr \<Rightarrow> 'p result) \<Rightarrow> ('p \<Rightarrow> jsstr \<Rightarrow> int list result) \<Rightarrow> (js_error \<Rightarrow> jsstr) \<Rightarrow> 'p tok_system \<Rightarrow> 'p tok_system \<Rightarrow> bool"
  for load_model encode_ids message_of where
  call: "tok_step load_model encode_ids message_of s
    (s\<lparr>client := start_call a (client s), navigating := navigating s \<or> takes_over (client s),
       takenOver := takenOver s \<or> takes_over (client s)\<rparr>)"
| dropped: "navigating s \<Longrightarrow> to_sandbox s = m # ms
    \<Longrightarrow> tok_step load_model encode_ids message_of s (s\<lparr>to_sandbox := ms\<rparr>)"
| navigated: "navigating s
    \<Longrightarrow> tok_step load_model encode_ids message_of s (s\<lparr>sandbox := new_sandbox, to_sandbox := [], navigating := False\<rparr>)"
| frame_ok: "sandboxReadyPromise (client s)
    \<Longrightarrow> tok_step load_model encode_ids message_of s (s\<lparr>client := frame_load (client s)\<rparr>)"
| frame_bad: "sandboxReadyPromise (client s)
    \<Longrightarrow> tok_step load_model encode_ids message_of s (s\<lparr>client := frame_error (client s)\<rparr>)"
| post: "i < length (tok_calls (client s)) \<Longrightarrow> snd (tok_calls (client s) ! i) = WaitFrame \<Longrightarrow> sandboxFrame (client s)
    \<Longrightarrow> postTokenizerSandboxRequest now i (client s) = (c, m)
    \<Longrightarrow> tok_step load_model encode_ids message_of s (s\<lparr>client := c, to_sandbox := to_sandbox s @ [m]\<rparr>)"
| request: "to_sandbox s = m # ms \<Longrightarrow> onTokenizerRequest encode_ids message_of m (sandbox s) = (b, rs)
    \<Longrightarrow> tok_step load_model encode_ids message_of s (s\<lparr>sandbox := b, to_sandbox := ms, to_client := to_client s @ rs\<rparr>)"
| loaded: "i < length (loading (sandbox s)) \<Longrightarrow> finish_load load_model message_of i (sandbox s) = (b, r)
    \<Longrightarrow> tok_step load_model encode_ids message_of s (s\<lparr>sandbox := b, to_client := to_client s @ [r]\<rparr>)"
| response: "to_client s = m # ms
    \<Longrightarrow> tok_step load_model encode_ids message_of s (s\<lparr>client := onSandboxMessage True m (client s), to_client := ms\<rparr>)"
| foreign: "tok_step load_model encode_ids message_of s (s\<lparr>client := onSandboxMessage False m (client s)\<rparr>)"

inductive tok_reach ::
  "(jsstr \<Rightarrow> 'p result) \<Rightarrow> ('p \<Rightarrow> jsstr \<Rightarrow> int list result) \<Rightarrow> (js_error \<Rightarrow> jsstr) \<Rightarrow> 'p tok_system \<Rightarrow> bool"
  for load_model encode_ids message_of where
  tok_start: "tok_reach load_model encode_ids message_of tok_init"
| tok_next: "tok_reach load_model encode_ids message_of s \<Longrightarrow> tok_step load_model encode_ids message_of s t
    \<Longrightarrow> tok_reach load_model encode_ids message_of t"

inductive_cases tok_stepE: "tok_step load_model encode_ids message_of s t"

section \<open>Request ids\<close>

lemma nth_update_cases: "xs[i := x] ! j = (if i = j \<and> i < length xs then x else xs ! j)"
  by (metis list_update_beyond not_le_imp_less nth_list_update_eq nth_list_update_neq)

lemma in_set_update_other: "x \<in> set (xs[i := y]) \<Longrightarrow> x = y \<or> x \<in> set xs"
  using set_update_subset_insert by fastforce


lemma nat_str_digits: "c \<in> set (nat_str n) \<Longrightarrow> is_digit c"
proof (induction n arbitrary: c rule: nat_str.induct)
  case (1 n)
  then show ?case by (subst (asm) nat_str.simps) (auto simp: is_digit_def split: if_splits)
qed

lemma nat_str_value: "foldl (\<lambda>v c. 10 * v + (c - 48)) 0 (nat_str n) = n"
proof (induction n rule: nat_str.induct)
  case (1 n)
  then show ?case by (subst nat_str.simps) auto
qed

lemma nat_str_inj: "nat_str m = nat_str n \<Longrightarrow> m = n"
  by (metis nat_str_value)

lemma request_id_counter: "request_id a m = request_id b n \<Longrightarrow> m = n"
proof -
  assume eq: "request_id a m = request_id b n"
  have "45 \<notin> set (nat_str k)" for k using nat_str_digits [of 45 k] by (auto simp: is_digit_def)
  then have "last (split_char 45 (nat_str k @ [45] @ nat_str l)) = nat_str l" for k l
    using split_char_append [of 45 "nat_str k" "nat_str l"] by (simp add: split_char_plain)
  then have "nat_str m = nat_str n" using eq unfolding request_id_def by (metis same_append_eq)
  then show ?thesis by (rule nat_str_inj)
qed

section \<open>Invariant\<close>

text \<open>The request ids under way: posted, being loaded, or answered.\<close>

definition carriers :: "'p tok_system \<Rightarrow> jsstr list" where
  "carriers s = map tm_requestId (to_sandbox s) @ map fst (loading (sandbox s)) @ map tm_requestId (to_client s)"

definition pending_action :: "tok_client \<Rightarrow> jsstr \<Rightarrow> tok_action option" where
  "pending_action c rid = map_option (\<lambda>i. fst (tok_calls c ! i)) (pendingRequests c rid)"

text \<open>The loads that have been answered with success, and those with such an answer among \<open>ms\<close>.\<close>

definition announced :: "tok_client \<Rightarrow> tok_response list \<Rightarrow> tok_action set" where
  "announced c ms = {a. (a, Settled (Inr Loaded)) \<in> set (tok_calls c)}
     \<union> {a. \<exists>m\<in>set ms. tm_body m = Inr Loaded \<and> pending_action c (tm_requestId m) = Some a}"

text \<open>The answer a call may get, when \<open>L\<close> holds the loads that came before it: the token ids are those of a
  loaded model with the same key.\<close>

definition proper_answer ::
  "(jsstr \<Rightarrow> 'p result) \<Rightarrow> ('p \<Rightarrow> jsstr \<Rightarrow> int list result) \<Rightarrow> tok_action set \<Rightarrow> tok_action \<Rightarrow> tok_data \<Rightarrow> bool" where
  "proper_answer load_model encode_ids L a d \<longleftrightarrow>
     (case a of
        LoadTokenizer k _ \<Rightarrow> d = Loaded \<and> (\<exists>b p. LoadTokenizer k b \<in> L \<and> load_model b = Inr p)
      | EncodeText k t \<Rightarrow> (\<exists>b p ids. LoadTokenizer k b \<in> L \<and> load_model b = Inr p \<and> encode_ids p t = Inr ids \<and> d = TokenIds ids)
      | OtherAction _ \<Rightarrow> False)"

definition calls_ok :: "tok_client \<Rightarrow> bool" where
  "calls_ok c \<longleftrightarrow>
     (\<forall>rid i. pendingRequests c rid = Some i \<longleftrightarrow> i < length (tok_calls c) \<and> snd (tok_calls c ! i) = AwaitReply rid)
     \<and> (\<forall>rid\<in>dom (pendingRequests c). \<exists>now n. n \<le> requestCounter c \<and> rid = request_id now n)"

definition response_ok ::
  "(jsstr \<Rightarrow> 'p result) \<Rightarrow> ('p \<Rightarrow> jsstr \<Rightarrow> int list result) \<Rightarrow> tok_client \<Rightarrow> tok_response list \<Rightarrow> tok_response \<Rightarrow> bool" where
  "response_ok load_model encode_ids c xs m \<longleftrightarrow>
     tm_source m = TOKENIZER_SANDBOX_SOURCE \<and> tm_type m = js ''response''
     \<and> (\<exists>a. pending_action c (tm_requestId m) = Some a
        \<and> (\<forall>d. tm_body m = Inr d \<longrightarrow> proper_answer load_model encode_ids (announced c (xs @ [m])) a d))"

definition wires_ok :: "(jsstr \<Rightarrow> 'p result) \<Rightarrow> ('p \<Rightarrow> jsstr \<Rightarrow> int list result) \<Rightarrow> 'p tok_system \<Rightarrow> bool" where
  "wires_ok load_model encode_ids s \<longleftrightarrow>
     (\<forall>m\<in>set (to_sandbox s). tm_source m = TOKENIZER_SANDBOX_SOURCE \<and> tm_type m = js ''request''
        \<and> pending_action (client s) (tm_requestId m) = Some (tm_body m))
     \<and> (\<forall>(rid, k, b)\<in>set (loading (sandbox s)). pending_action (client s) rid = Some (LoadTokenizer k b))
     \<and> (\<forall>xs m ys. to_client s = xs @ m # ys \<longrightarrow> response_ok load_model encode_ids (client s) xs m)"

definition answers_ok :: "(jsstr \<Rightarrow> 'p result) \<Rightarrow> ('p \<Rightarrow> jsstr \<Rightarrow> int list result) \<Rightarrow> 'p tok_system \<Rightarrow> bool" where
  "answers_ok load_model encode_ids s \<longleftrightarrow>
     (\<forall>k p. processors (sandbox s) k = Some p
        \<longrightarrow> (\<exists>b. LoadTokenizer k b \<in> announced (client s) (to_client s) \<and> load_model b = Inr p))
     \<and> (\<forall>a d. (a, Settled (Inr d)) \<in> set (tok_calls (client s))
        \<longrightarrow> proper_answer load_model encode_ids (announced (client s) []) a d)"

definition tok_inv :: "(jsstr \<Rightarrow> 'p result) \<Rightarrow> ('p \<Rightarrow> jsstr \<Rightarrow> int list result) \<Rightarrow> 'p tok_system \<Rightarrow> bool" where
  "tok_inv load_model encode_ids s \<longleftrightarrow>
     calls_ok (client s) \<and> distinct (carriers s) \<and> set (carriers s) \<subseteq> dom (pendingRequests (client s))
     \<and> (\<not> takenOver s \<longrightarrow> \<not> navigating s \<and> dom (pendingRequests (client s)) \<subseteq> set (carriers s))
     \<and> wires_ok load_model encode_ids s \<and> answers_ok load_model encode_ids s"

lemma proper_answer_mono:
  "proper_answer l e as a d \<Longrightarrow> as \<subseteq> bs \<Longrightarrow> proper_answer l e bs a d"
  unfolding proper_answer_def by (auto split: tok_action.splits)

lemma announced_mono: "set xs \<subseteq> set ys \<Longrightarrow> announced c xs \<subseteq> announced c ys"
  unfolding announced_def by auto

lemma announced_trans:
  "(\<And>a. (a, Settled (Inr Loaded)) \<in> set (tok_calls c) \<Longrightarrow> (a, Settled (Inr Loaded)) \<in> set (tok_calls c'))
    \<Longrightarrow> (\<And>m. m \<in> set xs \<Longrightarrow> pending_action c' (tm_requestId m) = pending_action c (tm_requestId m))
    \<Longrightarrow> announced c xs \<subseteq> announced c' xs"
  unfolding announced_def by auto

lemma response_ok_mono:
  "response_ok l e c xs m \<Longrightarrow> pending_action c' (tm_requestId m) = pending_action c (tm_requestId m)
    \<Longrightarrow> announced c (xs @ [m]) \<subseteq> announced c' (ys @ [m]) \<Longrightarrow> response_ok l e c' ys m"
  unfolding response_ok_def using proper_answer_mono by fastforce

lemma set_mid: "xs = as @ m # bs \<Longrightarrow> m \<in> set xs \<and> set (as @ [m]) \<subseteq> set xs"
  by auto

text \<open>A step that leaves the pending calls and the wires alone, and settles calls with errors at most.\<close>

lemma tok_inv_client:
  assumes inv: "tok_inv l e s" and c: "client t = c"
    and rest: "sandbox t = sandbox s" "to_sandbox t = to_sandbox s" "to_client t = to_client s"
    and flags: "takenOver s \<Longrightarrow> takenOver t" "navigating t \<Longrightarrow> navigating s \<or> takenOver t"
    and p: "pendingRequests c = pendingRequests (client s)" "requestCounter c = requestCounter (client s)"
    and act: "\<And>i. i < length (tok_calls (client s)) \<Longrightarrow> i < length (tok_calls c) \<and> fst (tok_calls c ! i) = fst (tok_calls (client s) ! i)"
    and ph: "\<And>i rid. i < length (tok_calls c) \<and> snd (tok_calls c ! i) = AwaitReply rid
      \<longleftrightarrow> i < length (tok_calls (client s)) \<and> snd (tok_calls (client s) ! i) = AwaitReply rid"
    and settled: "\<And>a d. (a, Settled (Inr d)) \<in> set (tok_calls c) \<longleftrightarrow> (a, Settled (Inr d)) \<in> set (tok_calls (client s))"
  shows "tok_inv l e t"
proof -
  have co: "calls_ok c" using inv ph p unfolding tok_inv_def calls_ok_def by simp
  have pa: "pending_action c rid = pending_action (client s) rid" for rid
  proof (cases "pendingRequests (client s) rid")
    case (Some i)
    then have "i < length (tok_calls (client s))" using inv unfolding tok_inv_def calls_ok_def by blast
    then show ?thesis using Some p act by (simp add: pending_action_def)
  qed (simp add: pending_action_def p)
  have an: "announced c ms = announced (client s) ms" for ms by (simp add: announced_def pa settled)
  have ro: "response_ok l e c xs m = response_ok l e (client s) xs m" for xs m by (simp add: response_ok_def pa an)
  have "wires_ok l e t" using inv pa ro rest c unfolding tok_inv_def wires_ok_def by simp
  moreover have "answers_ok l e t"
    using inv settled an rest c unfolding tok_inv_def answers_ok_def by simp
  ultimately show ?thesis using inv co p rest c flags unfolding tok_inv_def carriers_def by auto
qed

lemma tok_inv_call:
  "tok_inv l e s \<Longrightarrow> tok_inv l e (s\<lparr>client := start_call a (client s), navigating := navigating s \<or> takes_over (client s),
     takenOver := takenOver s \<or> takes_over (client s)\<rparr>)"
  by (erule tok_inv_client [OF _ refl])
    (auto simp: start_call_def ensureTokenizerSandboxFrame_def nth_append split: if_splits)

lemma tok_inv_frame_load: "tok_inv l e s \<Longrightarrow> tok_inv l e (s\<lparr>client := frame_load (client s)\<rparr>)"
  by (erule tok_inv_client [OF _ refl]) (auto simp: frame_load_def tok_inv_def)

lemma tok_inv_frame_error: "tok_inv l e s \<Longrightarrow> tok_inv l e (s\<lparr>client := frame_error (client s)\<rparr>)"
  by (erule tok_inv_client [OF _ refl])
    (auto simp: frame_error_def split_beta image_iff split: if_splits intro!: bexI)

text \<open>A page that goes away takes requests and processors with it.\<close>

lemma tok_inv_lost:
  assumes inv: "tok_inv l e s" and nav: "navigating s"
    and t: "client t = client s" "to_client t = to_client s" "takenOver t = takenOver s"
    and sub: "set (to_sandbox t) \<subseteq> set (to_sandbox s)" "set (loading (sandbox t)) \<subseteq> set (loading (sandbox s))"
      "processors (sandbox t) \<subseteq>\<^sub>m processors (sandbox s)"
    and dst: "distinct (carriers s) \<Longrightarrow> distinct (carriers t)"
  shows "tok_inv l e t"
proof -
  have "takenOver t" using inv nav t by (auto simp: tok_inv_def)
  moreover have "set (carriers t) \<subseteq> set (carriers s)" using sub t by (auto simp: carriers_def)
  moreover have "wires_ok l e s" "answers_ok l e s" using inv by (simp_all add: tok_inv_def)
  then have "wires_ok l e t" using sub(1,2) t unfolding wires_ok_def by (simp add: subset_eq split_beta)
  moreover have "processors (sandbox t) k = Some p \<Longrightarrow> processors (sandbox s) k = Some p" for k p
    using sub(3) unfolding map_le_def by (metis domI)
  then have "answers_ok l e t" using \<open>answers_ok l e s\<close> t(1,2) unfolding answers_ok_def by simp
  ultimately show ?thesis using inv dst t unfolding tok_inv_def by auto
qed

lemma tok_inv_dropped:
  "tok_inv l e s \<Longrightarrow> navigating s \<Longrightarrow> to_sandbox s = m # ms \<Longrightarrow> tok_inv l e (s\<lparr>to_sandbox := ms\<rparr>)"
  by (erule tok_inv_lost) (auto simp: carriers_def)

lemma tok_inv_navigated:
  "tok_inv l e s \<Longrightarrow> navigating s \<Longrightarrow> tok_inv l e (s\<lparr>sandbox := new_sandbox, to_sandbox := [], navigating := False\<rparr>)"
  by (erule tok_inv_lost) (auto simp: carriers_def new_sandbox_def)

lemma tok_inv_foreign: "onSandboxMessage False m c = c"
  by (simp add: onSandboxMessage_def)

lemma tok_inv_post:
  assumes inv: "tok_inv l e s" and i: "i < length (tok_calls (client s))" "snd (tok_calls (client s) ! i) = WaitFrame"
    and post: "postTokenizerSandboxRequest now i (client s) = (c, m)"
  shows "tok_inv l e (s\<lparr>client := c, to_sandbox := to_sandbox s @ [m]\<rparr>)" (is "tok_inv l e ?t")
proof -
  let ?c = "client s"
  define rid where "rid = request_id now (Suc (requestCounter ?c))"
  have c: "c = set_call i (AwaitReply rid) (?c\<lparr>requestCounter := Suc (requestCounter ?c), pendingRequests := (pendingRequests ?c)(rid \<mapsto> i)\<rparr>)"
    and m: "m = \<lparr>tm_source = TOKENIZER_SANDBOX_SOURCE, tm_type = js ''request'', tm_requestId = rid, tm_body = fst (tok_calls ?c ! i)\<rparr>"
    using post by (auto simp: postTokenizerSandboxRequest_def Let_def rid_def)
  have co: "calls_ok ?c" using inv by (simp add: tok_inv_def)
  have fresh: "rid \<notin> dom (pendingRequests ?c)"
  proof
    assume "rid \<in> dom (pendingRequests ?c)"
    then obtain now' n where "n \<le> requestCounter ?c" "rid = request_id now' n" using co unfolding calls_ok_def by blast
    then show False using request_id_counter [of now "Suc (requestCounter ?c)" now' n] by (simp add: rid_def)
  qed
  have len: "length (tok_calls c) = length (tok_calls ?c)" and f: "fst (tok_calls c ! j) = fst (tok_calls ?c ! j)" for j
    using i(1) by (auto simp: c set_call_def nth_update_cases)
  have set_c: "(a, Settled (Inr d)) \<in> set (tok_calls c) \<longleftrightarrow> (a, Settled (Inr d)) \<in> set (tok_calls ?c)" for a d
  proof
    assume "(a, Settled (Inr d)) \<in> set (tok_calls ?c)"
    then obtain j where j: "j < length (tok_calls ?c)" "tok_calls ?c ! j = (a, Settled (Inr d))"
      unfolding in_set_conv_nth by blast
    then have "i \<noteq> j" using i(2) by auto
    then have "tok_calls c ! j = (a, Settled (Inr d))" using j by (simp add: c set_call_def)
    then show "(a, Settled (Inr d)) \<in> set (tok_calls c)" using j(1) len by (metis nth_mem)
  qed (auto simp: c set_call_def dest!: in_set_update_other)
  have pa: "pending_action c r = (if r = rid then Some (tm_body m) else pending_action ?c r)" for r
    using f by (auto simp: pending_action_def c m set_call_def nth_update_cases)
  have "calls_ok c"
    unfolding calls_ok_def
  proof (intro conjI allI ballI)
    fix r j
    show "pendingRequests c r = Some j \<longleftrightarrow> j < length (tok_calls c) \<and> snd (tok_calls c ! j) = AwaitReply r"
      using co i fresh unfolding calls_ok_def c set_call_def by (auto simp: nth_update_cases)
  next
    fix r
    assume "r \<in> dom (pendingRequests c)"
    then have "r = rid \<or> r \<in> dom (pendingRequests ?c)" by (auto simp: c set_call_def split: if_splits)
    then obtain now' n where "n \<le> Suc (requestCounter ?c)" "r = request_id now' n"
      using co unfolding calls_ok_def rid_def by (metis le_SucI le_refl)
    then show "\<exists>now n. n \<le> requestCounter c \<and> r = request_id now n" by (auto simp: c set_call_def)
  qed
  moreover have "distinct (carriers ?t)" "set (carriers ?t) \<subseteq> dom (pendingRequests c)"
    "\<not> takenOver ?t \<longrightarrow> \<not> navigating ?t \<and> dom (pendingRequests c) \<subseteq> set (carriers ?t)"
    using inv fresh by (auto simp: tok_inv_def carriers_def m c set_call_def)
  moreover have "wires_ok l e ?t"
  proof -
    have "r \<noteq> rid" if "r \<in> set (carriers s)" for r using that fresh inv by (auto simp: tok_inv_def)
    then have old: "pending_action c r = pending_action ?c r" if "r \<in> set (carriers s)" for r using that pa by auto
    have old1: "pending_action c (tm_requestId x) = pending_action ?c (tm_requestId x)" if "x \<in> set (to_sandbox s)" for x
      using that by (intro old) (simp add: carriers_def)
    have old2: "pending_action c (tm_requestId x) = pending_action ?c (tm_requestId x)" if "x \<in> set (to_client s)" for x
      using that by (intro old) (simp add: carriers_def)
    have old3: "pending_action c r = pending_action ?c r" if "(r, k, b) \<in> set (loading (sandbox s))" for r k b
      using that by (intro old) (force simp: carriers_def)
    have ro: "response_ok l e c xs x" if "to_client s = xs @ x # ys" for xs x ys
    proof (rule response_ok_mono)
      show "response_ok l e ?c xs x" using inv that unfolding tok_inv_def wires_ok_def by blast
      show "announced ?c (xs @ [x]) \<subseteq> announced c (xs @ [x])"
        using set_c old2 set_mid [OF that] by (intro announced_trans) auto
    qed (use old2 set_mid [OF that] in auto)
    show ?thesis using inv old1 ro old3 pa [of rid] unfolding tok_inv_def wires_ok_def
      by (auto simp: m split_beta)
  qed
  moreover have "answers_ok l e ?t"
  proof -
    have old2: "pending_action c (tm_requestId x) = pending_action ?c (tm_requestId x)" if "x \<in> set (to_client s)" for x
      using that fresh inv pa by (auto simp: tok_inv_def carriers_def)
    have "announced ?c [] \<subseteq> announced c []" "announced ?c (to_client s) \<subseteq> announced c (to_client s)"
      using set_c old2 by (intro announced_trans; auto)+
    then show ?thesis using inv set_c proper_answer_mono unfolding tok_inv_def answers_ok_def by simp blast
  qed
  ultimately show ?thesis unfolding tok_inv_def by simp
qed


lemma sandbox_reply_inject [simp]: "sandbox_reply r x = sandbox_reply q y \<longleftrightarrow> r = q \<and> x = y"
  by (auto simp: sandbox_reply_def)

lemma snoc_mid: "as @ [r] = xs @ m # ys \<Longrightarrow> xs = as \<and> m = r \<or> (\<exists>zs. as = xs @ m # zs)"
  by (cases ys rule: rev_cases) auto

text \<open>The sandbox's steps pass a request id on: from the queue to the loads or the replies.\<close>

lemma tok_inv_sandbox:
  assumes inv: "tok_inv l e s" and t: "client t = client s"
    and perm: "distinct (carriers s) \<Longrightarrow> distinct (carriers t)" "set (carriers t) = set (carriers s)"
    and req: "set (to_sandbox t) \<subseteq> set (to_sandbox s)"
    and lds: "\<And>r k b. (r, k, b) \<in> set (loading (sandbox t)) \<Longrightarrow> pending_action (client s) r = Some (LoadTokenizer k b)"
    and res: "to_client t = to_client s @ rs" "rs = [] \<or> (\<exists>a r b. rs = [sandbox_reply r b]
      \<and> pending_action (client s) r = Some a
      \<and> (\<forall>d. b = Inr d \<longrightarrow> proper_answer l e (announced (client s) (to_client t)) a d))"
    and flags: "takenOver t = takenOver s" "navigating t = navigating s"
    and procs: "\<And>k p. processors (sandbox t) k = Some p
      \<Longrightarrow> \<exists>b. LoadTokenizer k b \<in> announced (client s) (to_client t) \<and> l b = Inr p"
  shows "tok_inv l e t"
proof -
  have "response_ok l e (client t) xs m" if eq: "to_client t = xs @ m # ys" for xs m ys
  proof -
    consider zs where "to_client s = xs @ m # zs" | "xs = to_client s" "rs = [m]"
      using eq res snoc_mid [of "to_client s" "hd rs" xs m ys] by (cases rs) auto
    then show ?thesis
    proof cases
      case 1
      then show ?thesis using inv t unfolding tok_inv_def wires_ok_def by metis
    next
      case 2
      then show ?thesis using res t by (auto simp: response_ok_def sandbox_reply_def)
    qed
  qed
  then have "wires_ok l e t" using inv req lds t unfolding tok_inv_def wires_ok_def by auto
  moreover have "answers_ok l e t" using inv procs t unfolding tok_inv_def answers_ok_def by simp
  ultimately show ?thesis using inv perm t flags unfolding tok_inv_def by simp
qed

lemma tok_inv_request:
  assumes inv: "tok_inv l e s" and q: "to_sandbox s = m # ms"
    and h: "onTokenizerRequest e message_of m (sandbox s) = (b, rs)"
  shows "tok_inv l e (s\<lparr>sandbox := b, to_sandbox := ms, to_client := to_client s @ rs\<rparr>)" (is "tok_inv l e ?t")
proof -
  let ?rid = "tm_requestId m" and ?sb = "sandbox s"
  have m: "tm_source m = TOKENIZER_SANDBOX_SOURCE" "tm_type m = js ''request''"
    "pending_action (client s) ?rid = Some (tm_body m)"
    using inv q by (auto simp: tok_inv_def wires_ok_def)
  have proc: "\<exists>b. LoadTokenizer k b \<in> announced (client s) (to_client s @ rs) \<and> l b = Inr p"
    if "processors ?sb k = Some p" for k p
  proof -
    have "\<exists>b. LoadTokenizer k b \<in> announced (client s) (to_client s) \<and> l b = Inr p"
      using inv that by (auto simp: tok_inv_def answers_ok_def)
    then show ?thesis using announced_mono [of "to_client s" "to_client s @ rs" "client s"] by auto
  qed
  have lds: "pending_action (client s) r = Some (LoadTokenizer k b)" if "(r, k, b) \<in> set (loading ?sb)" for r k b
    using inv that by (auto simp: tok_inv_def wires_ok_def)
  have enc: "proper_answer l e (announced (client s) (to_client s @ rs)) (EncodeText k t) (TokenIds ids)"
    if "processors ?sb k = Some p" "e p t = Inr ids" for k p t ids
    using proc [OF that(1)] that(2) by (auto simp: proper_answer_def)
  have lod: "proper_answer l e (announced (client s) (to_client s @ rs)) (LoadTokenizer k b) Loaded"
    if "processors ?sb k = Some p" for k p b
    using proc [OF that(1)] by (auto simp: proper_answer_def)
  consider (load) k b64 where "tm_body m = LoadTokenizer k b64" "b = ?sb\<lparr>loading := loading ?sb @ [(?rid, k, b64)]\<rparr>" "rs = []"
    | (reply) x where "b = ?sb" "rs = [sandbox_reply ?rid x]"
        "\<forall>d. x = Inr d \<longrightarrow> proper_answer l e (announced (client s) (to_client s @ rs)) (tm_body m) d"
    using h m(1,2) enc lod
    by (auto simp: onTokenizerRequest_def Let_def ensureProcessor_def
        split: tok_action.splits option.splits if_splits sum.splits)
  then show ?thesis
  proof cases
    case load
    show ?thesis
    proof (rule tok_inv_sandbox [OF inv])
      show "distinct (carriers ?t)" if "distinct (carriers s)" using that by (auto simp: carriers_def load q)
      show "set (carriers ?t) = set (carriers s)" by (auto simp: carriers_def load q)
    qed (use load q m(3) lds proc in auto)
  next
    case reply
    show ?thesis
    proof (rule tok_inv_sandbox [OF inv])
      show "distinct (carriers ?t)" if "distinct (carriers s)" using that by (auto simp: carriers_def reply q sandbox_reply_def)
      show "set (carriers ?t) = set (carriers s)" by (auto simp: carriers_def reply q sandbox_reply_def)
    qed (use reply q m(3) lds proc in auto)
  qed
qed

lemma tok_inv_loaded:
  assumes inv: "tok_inv l e s" and i: "i < length (loading (sandbox s))"
    and h: "finish_load l message_of i (sandbox s) = (b, r)"
  shows "tok_inv l e (s\<lparr>sandbox := b, to_client := to_client s @ [r]\<rparr>)" (is "tok_inv l e ?t")
proof -
  let ?sb = "sandbox s"
  obtain rid k b64 where it: "loading ?sb ! i = (rid, k, b64)" by (cases "loading ?sb ! i")
  define A where "A = take i (loading ?sb)"
  define B where "B = drop (Suc i) (loading ?sb)"
  have split: "loading ?sb = A @ (rid, k, b64) # B"
    using i it unfolding A_def B_def by (metis id_take_nth_drop)
  have lds: "pending_action (client s) r = Some (LoadTokenizer k b)" if "(r, k, b) \<in> set (loading ?sb)" for r k b
    using inv that by (auto simp: tok_inv_def wires_ok_def)
  have pa: "pending_action (client s) rid = Some (LoadTokenizer k b64)" using lds i it nth_mem by metis
  have ld: "loading b = A @ B"
    using h it by (auto simp: finish_load_def Let_def A_def B_def split: sum.splits)
  let ?an = "announced (client s) (to_client s @ [r])"
  have an: "announced (client s) (to_client s) \<subseteq> ?an" by (rule announced_mono) auto
  obtain x where x: "r = sandbox_reply rid x" using h it by (auto simp: finish_load_def Let_def split: sum.splits)
  have new: "LoadTokenizer k b64 \<in> ?an" if "x = Inr Loaded"
    using pa that by (auto simp: announced_def x sandbox_reply_def)
  have pb: "\<exists>b. LoadTokenizer k' b \<in> ?an \<and> l b = Inr p" if "processors b k' = Some p" for k' p
  proof -
    have old: "\<exists>b. LoadTokenizer k' b \<in> ?an \<and> l b = Inr p" if "processors ?sb k' = Some p"
      using inv that an unfolding tok_inv_def answers_ok_def by blast
    show ?thesis
      using that h it new x old by (auto simp: finish_load_def Let_def split: sum.splits if_splits)
  qed
  have ans: "\<forall>d. x = Inr d \<longrightarrow> proper_answer l e ?an (LoadTokenizer k b64) d"
    using h it x new by (auto simp: finish_load_def Let_def proper_answer_def split: sum.splits)
  have c: "distinct (map fst (loading ?sb)) = distinct (rid # map fst (loading b))"
    "set (map fst (loading ?sb)) = set (rid # map fst (loading b))"
    unfolding split ld by auto
  show ?thesis
  proof (rule tok_inv_sandbox [OF inv])
    show "distinct (carriers ?t)" if "distinct (carriers s)" using that c by (auto simp: carriers_def x sandbox_reply_def)
    show "set (carriers ?t) = set (carriers s)" using c by (auto simp: carriers_def x sandbox_reply_def)
    show "pending_action (client s) r = Some (LoadTokenizer k b)" if "(r, k, b) \<in> set (loading (sandbox ?t))" for r k b
      using that lds ld split by simp
  qed (use x ans pa pb in auto)
qed


lemma tok_inv_response:
  assumes inv: "tok_inv l e s" and q: "to_client s = m # ms"
  shows "tok_inv l e (s\<lparr>client := onSandboxMessage True m (client s), to_client := ms\<rparr>)" (is "tok_inv l e ?t")
proof -
  let ?c = "client s" and ?rid = "tm_requestId m"
  obtain a where m: "tm_source m = TOKENIZER_SANDBOX_SOURCE" "tm_type m = js ''response''"
    and pa: "pending_action ?c ?rid = Some a"
    and ans: "\<forall>d. tm_body m = Inr d \<longrightarrow> proper_answer l e (announced ?c [m]) a d"
  proof -
    have "response_ok l e ?c [] m" using inv q by (simp add: tok_inv_def wires_ok_def)
    then show ?thesis using that by (auto simp: response_ok_def)
  qed
  then obtain i where i: "pendingRequests ?c ?rid = Some i" and a: "fst (tok_calls ?c ! i) = a"
    by (auto simp: pending_action_def)
  have co: "calls_ok ?c" and dst: "distinct (carriers s)" and dom: "set (carriers s) \<subseteq> dom (pendingRequests ?c)"
    using inv by (auto simp: tok_inv_def)
  have il: "i < length (tok_calls ?c)" "snd (tok_calls ?c ! i) = AwaitReply ?rid" using co i unfolding calls_ok_def by blast+
  define c where "c = onSandboxMessage True m ?c"
  have c: "c = set_call i (Settled (settle (tm_body m))) (?c\<lparr>pendingRequests := (pendingRequests ?c)(?rid := None)\<rparr>)"
    using m i by (simp add: c_def onSandboxMessage_def)
  have f: "fst (tok_calls c ! j) = fst (tok_calls ?c ! j)" for j by (auto simp: c set_call_def nth_update_cases)
  have len: "length (tok_calls c) = length (tok_calls ?c)" by (simp add: c set_call_def)
  have car: "set (carriers ?t) = set (carriers s) - {?rid}" using dst q by (auto simp: carriers_def)
  have pend: "pendingRequests c = (pendingRequests ?c)(?rid := None)" by (simp add: c set_call_def)
  have uniq: "j = i" if "j < length (tok_calls ?c)" "snd (tok_calls ?c ! j) = AwaitReply ?rid" for j
    using co that i unfolding calls_ok_def by (metis option.inject)
  have co': "calls_ok c"
    unfolding calls_ok_def
  proof (intro conjI allI ballI)
    fix r j
    have iff: "pendingRequests ?c r = Some j \<longleftrightarrow> j < length (tok_calls ?c) \<and> snd (tok_calls ?c ! j) = AwaitReply r"
      using co unfolding calls_ok_def by blast
    show "pendingRequests c r = Some j \<longleftrightarrow> j < length (tok_calls c) \<and> snd (tok_calls c ! j) = AwaitReply r"
    proof (cases "j = i")
      case True
      then show ?thesis using iff il i by (auto simp: c set_call_def)
    next
      case False
      then show ?thesis using iff uniq [of j] i by (auto simp: c set_call_def)
    qed
  next
    fix r
    assume "r \<in> dom (pendingRequests c)"
    then have "r \<in> dom (pendingRequests ?c)" by (auto simp: pend split: if_splits)
    then show "\<exists>now n. n \<le> requestCounter c \<and> r = request_id now n" using co unfolding calls_ok_def by (simp add: c set_call_def)
  qed
  moreover have dist: "distinct (carriers ?t)" using dst q by (auto simp: carriers_def)
  have sub: "set (carriers ?t) \<subseteq> dom (pendingRequests c)"
    "\<not> takenOver ?t \<longrightarrow> \<not> navigating ?t \<and> dom (pendingRequests c) \<subseteq> set (carriers ?t)"
    unfolding car using inv dom by (auto simp: tok_inv_def pend split: if_splits)
  have old: "pending_action c r = pending_action ?c r" if "r \<in> set (carriers ?t)" for r
    using that car f by (auto simp: pending_action_def pend)
  have kept: "(x, Settled (Inr d)) \<in> set (tok_calls c)" if "(x, Settled (Inr d)) \<in> set (tok_calls ?c)" for x d
  proof -
    obtain j where j: "j < length (tok_calls ?c)" "tok_calls ?c ! j = (x, Settled (Inr d))"
      using \<open>(x, Settled (Inr d)) \<in> set (tok_calls ?c)\<close> unfolding in_set_conv_nth by blast
    then have "i \<noteq> j" using il(2) by auto
    then have "tok_calls c ! j = (x, Settled (Inr d))" using j by (simp add: c set_call_def)
    then show ?thesis using j(1) len by (metis nth_mem)
  qed
  have here: "(a, Settled (settle (tm_body m))) \<in> set (tok_calls c)"
    using il a by (auto simp: c set_call_def set_update_memI)
  have an: "announced ?c (m # xs) \<subseteq> announced c xs" if "set xs \<subseteq> set ms" for xs
  proof -
    have o: "pending_action c (tm_requestId x) = pending_action ?c (tm_requestId x)" if "x \<in> set xs" for x
      using that \<open>set xs \<subseteq> set ms\<close> by (intro old) (auto simp: carriers_def)
    show ?thesis
      using o kept here pa unfolding announced_def by (auto simp: settle_def)
  qed
  moreover have "wires_ok l e ?t"
  proof -
    have old1: "pending_action c (tm_requestId x) = pending_action ?c (tm_requestId x)" if "x \<in> set (to_sandbox s)" for x
      using that by (intro old) (simp add: carriers_def)
    have old2: "pending_action c (tm_requestId x) = pending_action ?c (tm_requestId x)" if "x \<in> set ms" for x
      using that by (intro old) (simp add: carriers_def)
    have old3: "pending_action c r = pending_action ?c r" if "(r, k, b) \<in> set (loading (sandbox s))" for r k b
      using that by (intro old) (force simp: carriers_def)
    have "response_ok l e c xs x" if "ms = xs @ x # ys" for xs x ys
    proof (rule response_ok_mono)
      show "response_ok l e ?c (m # xs) x" using inv q that unfolding tok_inv_def wires_ok_def by (metis append_Cons)
      show "announced ?c ((m # xs) @ [x]) \<subseteq> announced c (xs @ [x])" using an [of "xs @ [x]"] that by auto
    qed (use old2 that in auto)
    then show ?thesis using inv old1 old3 q unfolding tok_inv_def wires_ok_def c_def [symmetric]
      by (auto simp: split_beta)
  qed
  moreover have "answers_ok l e ?t"
  proof -
    have "proper_answer l e (announced c []) x d" if "(x, Settled (Inr d)) \<in> set (tok_calls c)" for x d
    proof -
      consider "x = a" "tm_body m = Inr d" | "(x, Settled (Inr d)) \<in> set (tok_calls ?c)"
        using \<open>(x, Settled (Inr d)) \<in> set (tok_calls c)\<close> a
        by (auto simp: c set_call_def settle_def split: sum.splits dest!: in_set_update_other)
      then show ?thesis
      proof cases
        case 1
        then show ?thesis using ans an [of "[]"] proper_answer_mono by auto
      next
        case 2
        then have "proper_answer l e (announced ?c []) x d" using inv by (auto simp: tok_inv_def answers_ok_def)
        moreover have "announced ?c [] \<subseteq> announced c []" using kept by (auto simp: announced_def)
        ultimately show ?thesis using proper_answer_mono by blast
      qed
    qed
    moreover have "\<exists>b. LoadTokenizer k b \<in> announced c ms \<and> l b = Inr p" if "processors (sandbox s) k = Some p" for k p
      using inv that an [of ms] q unfolding tok_inv_def answers_ok_def by (metis subset_iff order_refl)
    ultimately show ?thesis unfolding answers_ok_def c_def [symmetric] by simp
  qed
  ultimately show ?thesis using co' dist sub unfolding tok_inv_def c_def [symmetric] by simp
qed

lemma tok_inv_init: "tok_inv l e tok_init"
  by (auto simp: tok_inv_def tok_init_def new_sandbox_def calls_ok_def carriers_def wires_ok_def answers_ok_def)

lemma tok_inv_step: "tok_inv l e s \<Longrightarrow> tok_step l e msg s t \<Longrightarrow> tok_inv l e t"
  by (erule tok_stepE)
    (auto simp: tok_inv_foreign intro: tok_inv_call tok_inv_dropped tok_inv_navigated tok_inv_frame_load tok_inv_frame_error
      tok_inv_post tok_inv_request tok_inv_loaded tok_inv_response)

lemma tok_inv_reach: "tok_reach l e msg s \<Longrightarrow> tok_inv l e s"
  by (induction rule: tok_reach.induct) (auto intro: tok_inv_init tok_inv_step)

section \<open>Properties\<close>

lemma count_list_distinct: "distinct xs \<Longrightarrow> x \<in> set xs \<Longrightarrow> count_list xs x = 1"
  by (induction xs) (auto simp: count_list_0_iff)

text \<open>C14: In every run of the runtime and the tokenizer frame in which no iframe that was there already has been
  taken over, a call that waits for its reply is under way exactly once: its request is on the way, its
  model is being loaded, or its reply is on the way. So a posted call is never forgotten and never
  answered twice, and when nothing is under way no call waits for a reply.\<close>

theorem tokenizer_call_carried_once:
  assumes "tok_reach load_model encode_ids message_of s" and "\<not> takenOver s"
    and "i < length (tok_calls (client s))" and "snd (tok_calls (client s) ! i) = AwaitReply rid"
  shows "count_list (carriers s) rid = 1 \<and> pendingRequests (client s) rid = Some i"
proof -
  have inv: "tok_inv load_model encode_ids s" by (rule tok_inv_reach [OF assms(1)])
  then have p: "pendingRequests (client s) rid = Some i" using assms(3,4) unfolding tok_inv_def calls_ok_def by blast
  then have "rid \<in> set (carriers s)" using inv assms(2) by (auto simp: tok_inv_def)
  then show ?thesis using inv p by (simp add: tok_inv_def count_list_distinct)
qed

text \<open>C13: Answers are right, in every run: when a call for the tokens of a text has been settled with success, its
  answer is the encoding of exactly that text by a model which a call under the same key sent, and that
  call has been answered with the load before; a call that loads a model is only ever answered with the
  load, and then a load under its key has been done; a call with another action never succeeds.\<close>

theorem tokenizer_answers_own_text:
  assumes "tok_reach load_model encode_ids message_of s"
    and "(a, Settled (Inr d)) \<in> set (tok_calls (client s))"
  shows "case a of
      EncodeText key t \<Rightarrow> \<exists>b p ids. (LoadTokenizer key b, Settled (Inr Loaded)) \<in> set (tok_calls (client s))
        \<and> load_model b = Inr p \<and> encode_ids p t = Inr ids \<and> d = TokenIds ids
    | LoadTokenizer key b \<Rightarrow> d = Loaded
        \<and> (\<exists>b' p. (LoadTokenizer key b', Settled (Inr Loaded)) \<in> set (tok_calls (client s)) \<and> load_model b' = Inr p)
    | OtherAction x \<Rightarrow> False"
proof -
  have "proper_answer load_model encode_ids (announced (client s) []) a d"
    using tok_inv_reach [OF assms(1)] assms(2) unfolding tok_inv_def answers_ok_def by blast
  then show ?thesis unfolding proper_answer_def by (cases a) (simp_all add: announced_def)
qed


section \<open>A run\<close>

text \<open>The steps as functions.\<close>

definition do_call :: "tok_action \<Rightarrow> 'p tok_system \<Rightarrow> 'p tok_system" where
  "do_call a s = s\<lparr>client := start_call a (client s), navigating := navigating s \<or> takes_over (client s),
     takenOver := takenOver s \<or> takes_over (client s)\<rparr>"

definition do_post :: "nat \<Rightarrow> 'p tok_system \<Rightarrow> 'p tok_system" where
  "do_post i s = (case postTokenizerSandboxRequest 5 i (client s) of (c, m) \<Rightarrow> s\<lparr>client := c, to_sandbox := to_sandbox s @ [m]\<rparr>)"

definition do_request :: "('p \<Rightarrow> jsstr \<Rightarrow> int list result) \<Rightarrow> (js_error \<Rightarrow> jsstr) \<Rightarrow> 'p tok_system \<Rightarrow> 'p tok_system" where
  "do_request e msg s = (case onTokenizerRequest e msg (hd (to_sandbox s)) (sandbox s) of (b, rs) \<Rightarrow>
     s\<lparr>sandbox := b, to_sandbox := tl (to_sandbox s), to_client := to_client s @ rs\<rparr>)"

definition do_loaded :: "(jsstr \<Rightarrow> 'p result) \<Rightarrow> (js_error \<Rightarrow> jsstr) \<Rightarrow> 'p tok_system \<Rightarrow> 'p tok_system" where
  "do_loaded l msg s = (case finish_load l msg 0 (sandbox s) of (b, r) \<Rightarrow> s\<lparr>sandbox := b, to_client := to_client s @ [r]\<rparr>)"

definition do_response :: "'p tok_system \<Rightarrow> 'p tok_system" where
  "do_response s = s\<lparr>client := onSandboxMessage True (hd (to_client s)) (client s), to_client := tl (to_client s)\<rparr>"

definition do_frame :: "bool \<Rightarrow> 'p tok_system \<Rightarrow> 'p tok_system" where
  "do_frame ok s = s\<lparr>client := (if ok then frame_load else frame_error) (client s)\<rparr>"

definition do_dropped :: "'p tok_system \<Rightarrow> 'p tok_system" where
  "do_dropped s = s\<lparr>to_sandbox := tl (to_sandbox s)\<rparr>"

lemma reach_frame: "tok_reach l e msg s \<Longrightarrow> sandboxReadyPromise (client s) \<Longrightarrow> tok_reach l e msg (do_frame ok s)"
  unfolding do_frame_def by (auto intro: tok_next tok_step.frame_ok tok_step.frame_bad)

lemma reach_dropped:
  "tok_reach l e msg s \<Longrightarrow> navigating s \<and> to_sandbox s \<noteq> [] \<Longrightarrow> tok_reach l e msg (do_dropped s)"
  unfolding do_dropped_def by (cases "to_sandbox s") (auto intro: tok_next tok_step.dropped)

lemma reach_call: "tok_reach l e msg s \<Longrightarrow> tok_reach l e msg (do_call a s)"
  unfolding do_call_def by (rule tok_next [OF _ tok_step.call])

lemma reach_post:
  "tok_reach l e msg s \<Longrightarrow> i < length (tok_calls (client s)) \<and> snd (tok_calls (client s) ! i) = WaitFrame \<and> sandboxFrame (client s)
    \<Longrightarrow> tok_reach l e msg (do_post i s)"
  unfolding do_post_def by (auto split: prod.split intro: tok_next tok_step.post)

lemma reach_request: "tok_reach l e msg s \<Longrightarrow> to_sandbox s \<noteq> [] \<Longrightarrow> tok_reach l e msg (do_request e msg s)"
  unfolding do_request_def by (cases "to_sandbox s") (auto split: prod.split intro: tok_next tok_step.request)

lemma reach_loaded: "tok_reach l e msg s \<Longrightarrow> loading (sandbox s) \<noteq> [] \<Longrightarrow> tok_reach l e msg (do_loaded l msg s)"
  unfolding do_loaded_def by (auto split: prod.split intro: tok_next tok_step.loaded)

lemma reach_response: "tok_reach l e msg s \<Longrightarrow> to_client s \<noteq> [] \<Longrightarrow> tok_reach l e msg (do_response s)"
  unfolding do_response_def by (cases "to_client s") (auto intro: tok_next tok_step.response)

definition demo_load :: "jsstr \<Rightarrow> nat result" where
  "demo_load b = Inr (length b)"

definition demo_encode :: "nat \<Rightarrow> jsstr \<Rightarrow> int list result" where
  "demo_encode p t = Inr (map int t)"

definition demo_message :: "js_error \<Rightarrow> jsstr" where
  "demo_message e = []"

theorem tokenizer_call_carried_once_witness:
  "\<exists>s :: nat tok_system. snd (tok_calls (client s) ! 0) = AwaitReply (request_id 5 1)
    \<and> count_list (carriers s) (request_id 5 1) = 1 \<and> pendingRequests (client s) (request_id 5 1) = Some 0"
proof -
  define s1 where "s1 = do_frame True (do_call (EncodeText [1] [2]) (tok_init :: nat tok_system))"
  have r1: "tok_reach demo_load demo_encode demo_message s1"
    unfolding s1_def by (rule reach_frame [OF reach_call [OF tok_start]]) code_simp
  have r2: "tok_reach demo_load demo_encode demo_message (do_post 0 s1)"
    by (rule reach_post [OF r1]) (unfold s1_def, code_simp)
  have "\<not> takenOver (do_post 0 s1)" "0 < length (tok_calls (client (do_post 0 s1)))"
    "snd (tok_calls (client (do_post 0 s1)) ! 0) = AwaitReply (request_id 5 1)"
    unfolding s1_def by code_simp+
  from tokenizer_call_carried_once [OF r2 this] this(3) show ?thesis by blast
qed

theorem tokenizer_answers_own_text_witness:
  "\<exists>(s :: nat tok_system) d. (EncodeText [1] [7, 8], Settled (Inr d)) \<in> set (tok_calls (client s))
    \<and> (\<exists>b p ids. (LoadTokenizer [1] b, Settled (Inr Loaded)) \<in> set (tok_calls (client s)) \<and> demo_load b = Inr p
       \<and> demo_encode p [7, 8] = Inr ids \<and> d = TokenIds ids)"
proof -
  let ?r = "tok_reach demo_load demo_encode demo_message"
  let ?req = "do_request demo_encode demo_message"
  define s1 where "s1 = do_call (LoadTokenizer [1] [9]) (tok_init :: nat tok_system)"
  define s2 where "s2 = do_frame True (do_call (EncodeText [1] [7, 8]) s1)"
  define s3 where "s3 = do_post 0 s2"
  define s4 where "s4 = do_loaded demo_load demo_message (?req s3)"
  define s5 where "s5 = ?req (do_post 1 s4)"
  define s6 where "s6 = do_response (do_response s5)"
  note d = s1_def s2_def s3_def s4_def s5_def
  have "?r (do_call (EncodeText [1] [7, 8]) s1)" unfolding s1_def by (intro reach_call tok_start)
  then have "?r s2" unfolding s2_def by (rule reach_frame) (unfold d, code_simp)
  then have r3: "?r s3" unfolding s3_def by (rule reach_post) (unfold d, code_simp)
  have "?r (?req s3)" by (rule reach_request [OF r3]) (unfold d, code_simp)
  then have r4: "?r s4" unfolding s4_def by (rule reach_loaded) (unfold d, code_simp)
  have "?r (do_post 1 s4)" by (rule reach_post [OF r4]) (unfold d, code_simp)
  then have r5: "?r s5" unfolding s5_def by (rule reach_request) (unfold d, code_simp)
  have "?r (do_response s5)" by (rule reach_response [OF r5]) (unfold d, code_simp)
  then have r6: "?r s6" unfolding s6_def by (rule reach_response) (unfold d, code_simp)
  have "(EncodeText [1] [7, 8], Settled (Inr (TokenIds [7, 8]))) \<in> set (tok_calls (client s6))"
    unfolding s6_def d by code_simp
  from tokenizer_answers_own_text [OF r6 this] this show ?thesis by (simp only: tok_action.case) blast
qed

text \<open>After the frame has failed to load once, the iframe stays in the document, and the next call takes it over
  while its address is assigned again: a request posted at once can go to the page that disappears. The
  call then waits, and nothing is under way for it.\<close>

lemma tokenizer_call_lost:
  "\<exists>s :: nat tok_system. tok_reach demo_load demo_encode demo_message s \<and> takenOver s
    \<and> tok_calls (client s) ! 1 = (LoadTokenizer [1] [9], AwaitReply (request_id 5 1)) \<and> carriers s = []"
proof -
  let ?r = "tok_reach demo_load demo_encode demo_message"
  define s1 where "s1 = do_frame False (do_call (LoadTokenizer [1] [9]) (tok_init :: nat tok_system))"
  define s2 where "s2 = do_post 1 (do_call (LoadTokenizer [1] [9]) s1)"
  have "?r s1" unfolding s1_def by (rule reach_frame [OF reach_call [OF tok_start]]) code_simp
  then have "?r (do_call (LoadTokenizer [1] [9]) s1)" by (rule reach_call)
  then have "?r s2" unfolding s2_def by (rule reach_post) (unfold s1_def, code_simp)
  then have "?r (do_dropped s2)" by (rule reach_dropped) (unfold s2_def s1_def, code_simp)
  moreover have "takenOver (do_dropped s2)"
    "tok_calls (client (do_dropped s2)) ! 1 = (LoadTokenizer [1] [9], AwaitReply (request_id 5 1))"
    "carriers (do_dropped s2) = []"
    unfolding s2_def s1_def by code_simp+
  ultimately show ?thesis by blast
qed

end
