(* ===== verification/ProcLogic.thy ===== *)
theory ProcLogic
  imports Prelude
begin

text \<open>
  Rules for procedures that may throw: a triple with a postcondition for a normal end and one for a throw.
  The rules follow the combinators, so that a proof about a method goes through it step by step.
\<close>

definition validE ::
  "('s \<Rightarrow> bool) \<Rightarrow> ('s, 'a) proc \<Rightarrow> ('a \<Rightarrow> 's \<Rightarrow> bool) \<Rightarrow> ('s \<Rightarrow> bool) \<Rightarrow> bool" where
  "validE P m Q E \<longleftrightarrow> (\<forall>s. P s \<longrightarrow> (case m s of (Inr x, s') \<Rightarrow> Q x s' | (Inl e, s') \<Rightarrow> E s'))"

text \<open>Reading the state.\<close>

definition getsP :: "('s \<Rightarrow> 'a) \<Rightarrow> ('s, 'a) proc" where
  "getsP f s = (Inr (f s), s)"

text \<open>Reading a property of a value that may be null.\<close>

definition needP :: "('s \<Rightarrow> 'a option) \<Rightarrow> ('s, 'a) proc" where
  "needP f s = (case f s of None \<Rightarrow> (Inl TypeError, s) | Some x \<Rightarrow> (Inr x, s))"

text \<open>A procedure keeps a predicate when it holds afterwards, thrown or not.\<close>

definition keeps :: "('s \<Rightarrow> bool) \<Rightarrow> ('s, 'a) proc \<Rightarrow> bool" where
  "keeps I m \<longleftrightarrow> validE I m (\<lambda>_. I) I"

named_theorems keeps_rules \<open>rules for the predicate \<open>keeps\<close>\<close>

lemma validE_I: "(\<And>s x s'. P s \<Longrightarrow> m s = (Inr x, s') \<Longrightarrow> Q x s') \<Longrightarrow> (\<And>s e s'. P s \<Longrightarrow> m s = (Inl e, s') \<Longrightarrow> E s')
  \<Longrightarrow> validE P m Q E"
  unfolding validE_def by (auto split: prod.splits sum.splits)

lemma validE_Inr: "validE P m Q E \<Longrightarrow> P s \<Longrightarrow> m s = (Inr x, s') \<Longrightarrow> Q x s'"
  unfolding validE_def by (metis (mono_tags, lifting) case_prod_conv old.sum.simps(6))

lemma validE_Inl: "validE P m Q E \<Longrightarrow> P s \<Longrightarrow> m s = (Inl e, s') \<Longrightarrow> E s'"
  unfolding validE_def by (metis (mono_tags, lifting) case_prod_conv old.sum.simps(5))

lemma validE_bind:
  assumes "validE P m R E" and "\<And>x. validE (R x) (f x) Q E"
  shows "validE P (bindP m f) Q E"
proof (rule validE_I)
  fix s y t
  assume "P s" "bindP m f s = (Inr y, t)"
  then obtain x s1 where x: "m s = (Inr x, s1)" "f x s1 = (Inr y, t)" by (auto simp: bindP_Inr)
  show "Q y t" using validE_Inr [OF assms(2) validE_Inr [OF assms(1) \<open>P s\<close> x(1)] x(2)] .
next
  fix s e t
  assume p: "P s" "bindP m f s = (Inl e, t)"
  then consider "m s = (Inl e, t)" | x s1 where "m s = (Inr x, s1)" "f x s1 = (Inl e, t)" by (auto simp: bindP_Inl)
  then show "E t"
  proof cases
    case 1
    then show ?thesis using validE_Inl [OF assms(1) p(1)] by blast
  next
    case (2 x s1)
    then show ?thesis using validE_Inl [OF assms(2) validE_Inr [OF assms(1) p(1) 2(1)] 2(2)] by blast
  qed
qed

lemma validE_weaken: "validE P m Q E \<Longrightarrow> (\<And>s. P' s \<Longrightarrow> P s) \<Longrightarrow> (\<And>x s. Q x s \<Longrightarrow> Q' x s) \<Longrightarrow> (\<And>s. E s \<Longrightarrow> E' s)
  \<Longrightarrow> validE P' m Q' E'"
  by (rule validE_I) (blast dest: validE_Inr validE_Inl)+

lemma keeps_validE: "keeps I m \<Longrightarrow> validE I m (\<lambda>_. I) I"
  by (simp add: keeps_def)

lemma keepsD: "keeps I m \<Longrightarrow> I s \<Longrightarrow> m s = (r, s') \<Longrightarrow> I s'"
  unfolding keeps_def validE_def by (cases r) fastforce+

lemma keepsI: "(\<And>s r s'. I s \<Longrightarrow> m s = (r, s') \<Longrightarrow> I s') \<Longrightarrow> keeps I m"
  unfolding keeps_def by (rule validE_I) blast+

lemma keeps_ret [keeps_rules, intro]: "keeps I (retP x)"
  by (rule keepsI) (simp add: retP_def)

lemma keeps_throw [keeps_rules, intro]: "keeps I (throwP e)"
  by (rule keepsI) (simp add: throwP_def)

lemma keeps_lift [keeps_rules, intro]: "keeps I (liftP r)"
  by (rule keepsI) (simp add: liftP_def)

lemma keeps_modify: "(\<And>s. I s \<Longrightarrow> I (f s)) \<Longrightarrow> keeps I (modifyP f)"
  by (rule keepsI) (auto simp: modifyP_def)

lemma keeps_bind [keeps_rules]: "keeps I m \<Longrightarrow> (\<And>x. keeps I (f x)) \<Longrightarrow> keeps I (bindP m f)"
  unfolding keeps_def by (rule validE_bind)

lemma keeps_catch [keeps_rules]:
  assumes "keeps I m" and "\<And>e. keeps I (h e)"
  shows "keeps I (catchP m h)"
proof (rule keepsI)
  fix s r s'
  assume "I s" and c: "catchP m h s = (r, s')"
  show "I s'"
  proof (cases "m s")
    case (Pair x t)
    then have "I t" using keepsD [OF assms(1) \<open>I s\<close>] by blast
    then show ?thesis using c Pair keepsD [OF assms(2), of t] by (cases x) (auto simp: catchP_def)
  qed
qed

lemma keeps_for [keeps_rules]: "(\<And>x. x \<in> set xs \<Longrightarrow> keeps I (f x)) \<Longrightarrow> keeps I (forP xs f)"
  by (induction xs) (auto intro: keeps_bind)

lemma keeps_if [keeps_rules]: "(b \<Longrightarrow> keeps I m) \<Longrightarrow> (\<not> b \<Longrightarrow> keeps I n) \<Longrightarrow> keeps I (if b then m else n)"
  by simp

lemma keeps_option [keeps_rules]:
  "keeps I m \<Longrightarrow> (\<And>x. keeps I (f x)) \<Longrightarrow> keeps I (case opt of None \<Rightarrow> m | Some x \<Rightarrow> f x)"
  by (cases opt) auto

lemma keeps_prod [keeps_rules]: "(\<And>a b. keeps I (f a b)) \<Longrightarrow> keeps I (case p of (a, b) \<Rightarrow> f a b)"
  by (cases p) auto

lemma keeps_Let [keeps_rules]: "(\<And>x. keeps I (f x)) \<Longrightarrow> keeps I (Let a f)"
  by (simp add: Let_def)

lemma keeps_gets [keeps_rules, intro]: "keeps I (getsP f)"
  by (rule keepsI) (simp add: getsP_def)

lemma keeps_need [keeps_rules, intro]: "keeps I (needP f)"
  by (rule keepsI) (auto simp: needP_def split: option.splits)

lemma validE_modify: "(\<And>s. P s \<Longrightarrow> Q () (f s)) \<Longrightarrow> validE P (modifyP f) Q E"
  by (rule validE_I) (auto simp: modifyP_def)

lemma keeps_any: "keeps I m \<Longrightarrow> validE I m (\<lambda>_. I) (\<lambda>_. True)"
  by (rule validE_weaken [OF keeps_validE]) auto

lemma validE_prod: "(\<And>a b. validE P (f a b) Q E) \<Longrightarrow> validE P (case p of (a, b) \<Rightarrow> f a b) Q E"
  by (cases p) simp

lemma validE_True: "validE P m (\<lambda>_ _. True) (\<lambda>_. True)"
  by (rule validE_I) auto

text \<open>The steps of a procedure that returned.\<close>

named_theorems proc_Inr \<open>equations for procedures that returned\<close>

lemma needP_Inr [proc_Inr]: "needP f s = (Inr x, s') \<longleftrightarrow> f s = Some x \<and> s' = s"
  by (auto simp: needP_def split: option.splits)

lemma getsP_Inr [proc_Inr]: "getsP f s = (Inr x, s') \<longleftrightarrow> x = f s \<and> s' = s"
  by (auto simp: getsP_def)

lemma liftP_Inr [proc_Inr]: "liftP r s = (Inr x, s') \<longleftrightarrow> r = Inr x \<and> s' = s"
  by (auto simp: liftP_def)

lemma retP_returned [proc_Inr]: "retP y s = (Inr x, s') \<longleftrightarrow> x = y \<and> s' = s"
  by (auto simp: retP_def)

lemma throwP_Inr [proc_Inr]: "throwP e s = (Inr x, s') \<longleftrightarrow> False"
  by (simp add: throwP_def)

lemma modifyP_Inr [proc_Inr]: "modifyP f s = (Inr x, s') \<longleftrightarrow> s' = f s"
  by (auto simp: modifyP_def)

lemmas bindP_returned [proc_Inr] = bindP_Inr

lemma Inr_of_fst: "fst (m s) = Inr x \<Longrightarrow> m s = (Inr x, snd (m s))"
  by (metis prod.collapse)

end
