(* ===== verification/JsRegex.thy ===== *)
theory JsRegex
  imports Prelude
begin

text \<open>
  The regular expressions of the language, as far as the voice code uses them: a backtracking
  matcher that returns every way a pattern can match at a position, best first, and on top of it
  the global and single \<open>replace\<close>, \<open>test\<close> and \<open>split\<close>. A pattern is compiled by hand from the
  literal in the source; character classes are predicates on code points. The flag \<open>u\<close> is an
  argument: with it, a surrogate pair is read as one character.

  The lemmas give the matcher's general laws (it never moves left or past the end, and the bound on
  the iterations of a quantifier is generous) and the reference description of the one pattern shape
  the code leans on most, a greedy run of one class: replacing its matches is replacing the maximal
  runs.
\<close>

section \<open>Patterns and the matcher\<close>

type_synonym caps = "nat \<Rightarrow> (nat \<times> nat) option"

type_synonym mstate = "nat \<times> caps"

datatype rx =
    RxEps
  | RxCls "nat \<Rightarrow> bool"
  | RxSeq rx rx
  | RxAlt rx rx
  | RxRep bool nat "nat option" rx
  | RxGrp nat rx
  | RxAhead bool rx
  | RxNotBehind "(nat \<Rightarrow> bool) list"
  | RxBol
  | RxEol
  | RxWordB

text \<open>The character at an index and the index after it.\<close>

definition read_char :: "bool \<Rightarrow> jsstr \<Rightarrow> nat \<Rightarrow> (nat \<times> nat) option" where
  "read_char u s i =
     (if i < length s
      then (if u \<and> Suc i < length s \<and> high_surrogate (s ! i) \<and> low_surrogate (s ! Suc i)
            then Some (code_point (s ! i) (s ! Suc i), i + 2)
            else Some (s ! i, Suc i))
      else None)"

definition advance :: "bool \<Rightarrow> jsstr \<Rightarrow> nat \<Rightarrow> nat" where
  "advance u s i = (case read_char u s i of None \<Rightarrow> Suc i | Some (c, j) \<Rightarrow> j)"

fun rx_groups :: "rx \<Rightarrow> nat list" where
  "rx_groups (RxSeq a b) = rx_groups a @ rx_groups b"
| "rx_groups (RxAlt a b) = rx_groups a @ rx_groups b"
| "rx_groups (RxRep g mn mx r) = rx_groups r"
| "rx_groups (RxGrp k r) = k # rx_groups r"
| "rx_groups (RxAhead p r) = rx_groups r"
| "rx_groups _ = []"

definition clear_caps :: "nat list \<Rightarrow> mstate \<Rightarrow> mstate" where
  "clear_caps ks st = (fst st, \<lambda>k. if k \<in> set ks then None else snd st k)"

text \<open>
  \<open>RepeatMatcher\<close> of the language definition: an iteration beyond the minimum that consumes nothing
  is refused, so the number of iterations is at most the minimum plus what is left of the input.
\<close>

primrec rx_rep ::
  "nat \<Rightarrow> (mstate \<Rightarrow> mstate list) \<Rightarrow> bool \<Rightarrow> nat \<Rightarrow> nat option \<Rightarrow> mstate \<Rightarrow> mstate list" where
  "rx_rep 0 m g mn mx st = []"
| "rx_rep (Suc fuel) m g mn mx st =
     (if mx = Some 0 then [st]
      else
        (let more = concat (map (\<lambda>st'. if mn = 0 \<and> fst st' = fst st then []
                       else rx_rep fuel m g (mn - 1) (map_option (\<lambda>x. x - 1) mx) st') (m st))
         in if 0 < mn then more else if g then more @ [st] else st # more))"

definition behind :: "(nat \<Rightarrow> bool) list \<Rightarrow> jsstr \<Rightarrow> nat \<Rightarrow> bool" where
  "behind ps s i \<longleftrightarrow> length ps \<le> i \<and> list_all2 (\<lambda>p c. p c) ps (slice s (i - length ps) i)"

definition word_at :: "jsstr \<Rightarrow> nat \<Rightarrow> bool" where
  "word_at s i \<longleftrightarrow> i < length s \<and> is_word (s ! i)"

definition word_boundary :: "jsstr \<Rightarrow> nat \<Rightarrow> bool" where
  "word_boundary s i \<longleftrightarrow> ((0 < i \<and> word_at s (i - 1)) \<noteq> word_at s i)"

primrec rx_m :: "bool \<Rightarrow> jsstr \<Rightarrow> rx \<Rightarrow> mstate \<Rightarrow> mstate list" where
  "rx_m u s RxEps st = [st]"
| "rx_m u s (RxCls P) st =
     (case read_char u s (fst st) of None \<Rightarrow> []
      | Some (c, j) \<Rightarrow> if P c then [(j, snd st)] else [])"
| "rx_m u s (RxSeq a b) st = concat (map (rx_m u s b) (rx_m u s a st))"
| "rx_m u s (RxAlt a b) st = rx_m u s a st @ rx_m u s b st"
| "rx_m u s (RxRep g mn mx r) st =
     rx_rep (Suc (length s - fst st + mn)) (\<lambda>st'. rx_m u s r (clear_caps (rx_groups r) st')) g mn mx st"
| "rx_m u s (RxGrp k r) st =
     map (\<lambda>st'. (fst st', (snd st')(k := Some (fst st, fst st')))) (rx_m u s r st)"
| "rx_m u s (RxAhead pos r) st =
     (case rx_m u s r st of
        [] \<Rightarrow> (if pos then [] else [st])
      | st' # _ \<Rightarrow> (if pos then [(fst st, snd st')] else []))"
| "rx_m u s (RxNotBehind ps) st = (if behind ps s (fst st) then [] else [st])"
| "rx_m u s RxBol st = (if fst st = 0 then [st] else [])"
| "rx_m u s RxEol st = (if fst st = length s then [st] else [])"
| "rx_m u s RxWordB st = (if word_boundary s (fst st) then [st] else [])"

text \<open>One attempt at a position: the end of the match and its captures.\<close>

definition rx_exec :: "bool \<Rightarrow> rx \<Rightarrow> jsstr \<Rightarrow> nat \<Rightarrow> mstate option" where
  "rx_exec u r s i = (case rx_m u s r (i, \<lambda>_. None) of [] \<Rightarrow> None | st # _ \<Rightarrow> Some st)"

section \<open>Searching, replacing and splitting\<close>

type_synonym rmatch = "nat \<times> nat \<times> caps"

lemma advance_gt: "i < advance u s i"
  by (auto simp: advance_def read_char_def)

text \<open>All matches from an index on; after an empty match the search moves one character.\<close>

function rx_all :: "bool \<Rightarrow> rx \<Rightarrow> jsstr \<Rightarrow> nat \<Rightarrow> rmatch list" where
  "rx_all u r s i =
     (if length s < i then []
      else (case rx_exec u r s i of
              None \<Rightarrow> rx_all u r s (advance u s i)
            | Some (e, c) \<Rightarrow> (i, e, c) # rx_all u r s (if e \<le> i then advance u s i else e)))"
  by pat_completeness auto
termination
proof (relation "measure (\<lambda>(u, r, s, i). Suc (length s) - i)", goal_cases)
  case 1
  show ?case by simp
next
  case (2 u r s i)
  then show ?case using advance_gt [of i u s] by simp
next
  case (3 u r s i x e c)
  then show ?case using advance_gt [of i u s] by auto
qed

declare rx_all.simps [simp del]

definition m_text :: "jsstr \<Rightarrow> rmatch \<Rightarrow> jsstr" where
  "m_text s m = slice s (fst m) (fst (snd m))"

definition m_cap :: "jsstr \<Rightarrow> rmatch \<Rightarrow> nat \<Rightarrow> jsstr option" where
  "m_cap s m k = (case snd (snd m) k of None \<Rightarrow> None | Some (a, b) \<Rightarrow> Some (slice s a b))"

text \<open>\<open>$k\<close> in a replacement: a group that took no part is the empty string.\<close>

definition m_dollar :: "jsstr \<Rightarrow> rmatch \<Rightarrow> nat \<Rightarrow> jsstr" where
  "m_dollar s m k = (case m_cap s m k of None \<Rightarrow> [] | Some t \<Rightarrow> t)"

fun subst_matches :: "jsstr \<Rightarrow> (rmatch \<Rightarrow> jsstr) \<Rightarrow> nat \<Rightarrow> rmatch list \<Rightarrow> jsstr" where
  "subst_matches s f p [] = drop p s"
| "subst_matches s f p (m # ms) =
     slice s p (fst m) @ f m @ subst_matches s f (fst (snd m)) ms"

text \<open>\<open>s.replace(/r/g, f)\<close>, \<open>s.replace(/r/, f)\<close> and \<open>/r/.test(s)\<close>.\<close>

definition rx_replace :: "bool \<Rightarrow> rx \<Rightarrow> (jsstr \<Rightarrow> rmatch \<Rightarrow> jsstr) \<Rightarrow> jsstr \<Rightarrow> jsstr" where
  "rx_replace u r f s = subst_matches s (f s) 0 (rx_all u r s 0)"

definition rx_replace1 :: "bool \<Rightarrow> rx \<Rightarrow> (jsstr \<Rightarrow> rmatch \<Rightarrow> jsstr) \<Rightarrow> jsstr \<Rightarrow> jsstr" where
  "rx_replace1 u r f s = subst_matches s (f s) 0 (take 1 (rx_all u r s 0))"

definition rx_test :: "bool \<Rightarrow> rx \<Rightarrow> jsstr \<Rightarrow> bool" where
  "rx_test u r s \<longleftrightarrow> rx_all u r s 0 \<noteq> []"

text \<open>
  \<open>s.split(/r/)\<close>: \<open>p\<close> is where the current piece starts and \<open>q\<close> where the search goes on; \<open>ks\<close> are
  the pattern's groups, whose texts the result interleaves. No pattern the code splits on matches
  the empty string, so a match that ends where it starts is passed over like a failure.
\<close>

function rx_split_from :: "bool \<Rightarrow> rx \<Rightarrow> nat list \<Rightarrow> jsstr \<Rightarrow> nat \<Rightarrow> nat \<Rightarrow> jsstr list" where
  "rx_split_from u r ks s p q =
     (if length s \<le> q then [drop p s]
      else (case rx_exec u r s q of
              None \<Rightarrow> rx_split_from u r ks s p (advance u s q)
            | Some (e, c) \<Rightarrow>
                if e \<le> p \<or> e \<le> q then rx_split_from u r ks s p (advance u s q)
                else slice s p q # map (\<lambda>k. m_dollar s (q, e, c) k) ks @ rx_split_from u r ks s e e))"
  by pat_completeness auto
termination
proof (relation "measure (\<lambda>(u, r, ks, s, p, q). Suc (length s) - q)", goal_cases)
  case 1
  show ?case by simp
qed (insert advance_gt, auto simp: not_le less_diff_conv2 intro: diff_less_mono2 less_SucI)

declare rx_split_from.simps [simp del]

definition rx_split :: "bool \<Rightarrow> rx \<Rightarrow> jsstr \<Rightarrow> jsstr list" where
  "rx_split u r s =
     (if s = [] then (if rx_exec u r s 0 = None then [s] else [])
      else rx_split_from u r (rx_groups r) s 0 0)"

section \<open>Pattern abbreviations\<close>

definition rx_lit :: "jsstr \<Rightarrow> rx" where
  "rx_lit s = foldr (\<lambda>c r. RxSeq (RxCls (\<lambda>x. x = c)) r) s RxEps"

definition rx_seq :: "rx list \<Rightarrow> rx" where
  "rx_seq rs = foldr RxSeq rs RxEps"

fun rx_alts :: "rx list \<Rightarrow> rx" where
  "rx_alts [] = RxAhead False RxEps"
| "rx_alts [r] = r"
| "rx_alts (r # rs) = RxAlt r (rx_alts rs)"

definition rx_star :: "rx \<Rightarrow> rx" where
  "rx_star r = RxRep True 0 None r"

definition rx_plus :: "rx \<Rightarrow> rx" where
  "rx_plus r = RxRep True 1 None r"

definition rx_opt :: "rx \<Rightarrow> rx" where
  "rx_opt r = RxRep True 0 (Some 1) r"

definition rx_plus_lazy :: "rx \<Rightarrow> rx" where
  "rx_plus_lazy r = RxRep False 1 None r"

definition one_of :: "nat list \<Rightarrow> nat \<Rightarrow> bool" where
  "one_of cs c \<longleftrightarrow> c \<in> set cs"

definition none_of :: "nat list \<Rightarrow> nat \<Rightarrow> bool" where
  "none_of cs c \<longleftrightarrow> c \<notin> set cs"

definition is_char :: "nat \<Rightarrow> nat \<Rightarrow> bool" where
  "is_char a c \<longleftrightarrow> c = a"

text \<open>Replacement texts: a fixed text, or a group with something around it.\<close>

definition to_text :: "jsstr \<Rightarrow> jsstr \<Rightarrow> rmatch \<Rightarrow> jsstr" where
  "to_text t s m = t"

definition to_group :: "jsstr \<Rightarrow> jsstr \<Rightarrow> nat \<Rightarrow> jsstr \<Rightarrow> rmatch \<Rightarrow> jsstr" where
  "to_group pre post k s m = pre @ m_dollar s m k @ post"

lemmas rx_pattern_defs = rx_lit_def rx_seq_def rx_star_def rx_plus_def rx_opt_def rx_plus_lazy_def

section \<open>Laws of the matcher\<close>

text \<open>Positions only grow, and stay inside the input.\<close>

definition fwd :: "jsstr \<Rightarrow> mstate \<Rightarrow> mstate \<Rightarrow> bool" where
  "fwd s st st' \<longleftrightarrow> fst st \<le> fst st' \<and> (fst st \<le> length s \<longrightarrow> fst st' \<le> length s)"

lemma fwd_refl [simp, intro]: "fwd s st st"
  by (simp add: fwd_def)

lemma fwd_trans [trans]: "fwd s a b \<Longrightarrow> fwd s b c \<Longrightarrow> fwd s a c"
  by (auto simp: fwd_def)

definition forward :: "jsstr \<Rightarrow> (mstate \<Rightarrow> mstate list) \<Rightarrow> bool" where
  "forward s m \<longleftrightarrow> (\<forall>st. \<forall>st'\<in>set (m st). fwd s st st')"

lemma forwardI: "(\<And>st st'. st' \<in> set (m st) \<Longrightarrow> fwd s st st') \<Longrightarrow> forward s m"
  unfolding forward_def by blast

lemma forwardD: "forward s m \<Longrightarrow> st' \<in> set (m st) \<Longrightarrow> fwd s st st'"
  unfolding forward_def by blast

lemma set_rx_rep_Suc:
  "set (rx_rep (Suc fuel) m g mn mx st) \<subseteq>
     insert st (\<Union>st'\<in>set (m st). set (rx_rep fuel m g (mn - 1) (map_option (\<lambda>x. x - 1) mx) st'))"
  by (simp add: Let_def del: split_paired_All) (auto split: if_splits)

lemma forward_rep: "forward s m \<Longrightarrow> forward s (rx_rep fuel m g mn mx)"
proof (induction fuel arbitrary: mn mx)
  case 0
  show ?case by (rule forwardI) simp
next
  case (Suc fuel)
  show ?case
  proof (rule forwardI)
    fix st st' assume "st' \<in> set (rx_rep (Suc fuel) m g mn mx st)"
    then consider "st' = st" | x where "x \<in> set (m st)"
        "st' \<in> set (rx_rep fuel m g (mn - 1) (map_option (\<lambda>x. x - 1) mx) x)"
      using set_rx_rep_Suc by blast
    then show "fwd s st st'"
      by cases (auto intro: fwd_trans dest: forwardD [OF Suc.prems] forwardD [OF Suc.IH [OF Suc.prems]])
  qed
qed

lemma fwd_clear [simp]: "fwd s (clear_caps ks st) st' = fwd s st st'"
  by (simp add: fwd_def clear_caps_def)

lemma forward_rx_m: "forward s (rx_m u s r)"
proof (induction r)
  case (RxCls P)
  show ?case by (rule forwardI) (auto simp: fwd_def read_char_def split: option.splits if_splits)
next
  case (RxSeq a b)
  show ?case
    by (rule forwardI) (auto intro: fwd_trans dest: forwardD [OF RxSeq.IH(1)] forwardD [OF RxSeq.IH(2)])
next
  case (RxAlt a b)
  show ?case
    by (rule forwardI) (auto dest: forwardD [OF RxAlt.IH(1)] forwardD [OF RxAlt.IH(2)])
next
  case (RxRep g mn mx r)
  have "forward s (\<lambda>st'. rx_m u s r (clear_caps (rx_groups r) st'))"
    by (rule forwardI) (use forwardD [OF RxRep.IH] in fastforce)
  then show ?case
    by (intro forwardI) (simp only: rx_m.simps, blast dest: forwardD [OF forward_rep])
next
  case (RxGrp k r)
  show ?case
    by (rule forwardI) (auto simp: fwd_def dest!: forwardD [OF RxGrp.IH])
qed (auto intro!: forwardI simp: fwd_def split: list.splits if_splits)

lemma rx_exec_bounds:
  "rx_exec u r s i = Some (e, c) \<Longrightarrow> i \<le> e \<and> (i \<le> length s \<longrightarrow> e \<le> length s)"
  using forwardD [OF forward_rx_m, of "(e, c)" u s r "(i, \<lambda>_. None)"]
  by (auto simp: rx_exec_def fwd_def split: list.splits)

text \<open>
  The bound on iterations is enough: with any larger bound the matches are the same. An iteration
  beyond the minimum consumes at least one code unit.
\<close>

lemma rx_rep_fuel:
  assumes "forward s m" and "fst st \<le> length s"
    and "length s - fst st + mn < fuel" and "length s - fst st + mn < fuel'"
  shows "rx_rep fuel m g mn mx st = rx_rep fuel' m g mn mx st"
  using assms(2-)
proof (induction fuel arbitrary: fuel' mn mx st)
  case 0
  then show ?case by simp
next
  case (Suc fuel)
  obtain f' where f': "fuel' = Suc f'"
    using Suc.prems by (cases fuel') auto
  have step: "(if mn = 0 \<and> fst st' = fst st then []
        else rx_rep fuel m g (mn - 1) mx' st')
      = (if mn = 0 \<and> fst st' = fst st then [] else rx_rep f' m g (mn - 1) mx' st')"
    if "st' \<in> set (m st)" for st' mx'
  proof (cases "mn = 0 \<and> fst st' = fst st")
    case False
    have le: "fst st \<le> fst st'" "fst st' \<le> length s"
      using forwardD [OF assms(1) that] Suc.prems(1) by (auto simp: fwd_def)
    then have b: "length s - fst st' + (mn - 1) < fuel \<and> length s - fst st' + (mn - 1) < f'"
      using False Suc.prems f' by auto
    from Suc.IH [OF le(2) conjunct1 [OF b] conjunct2 [OF b]] show ?thesis by simp
  qed simp
  then have "concat (map (\<lambda>st'. if mn = 0 \<and> fst st' = fst st then []
        else rx_rep fuel m g (mn - 1) mx' st') (m st))
      = concat (map (\<lambda>st'. if mn = 0 \<and> fst st' = fst st then []
        else rx_rep f' m g (mn - 1) mx' st') (m st))" for mx'
    by (intro arg_cong [where f = concat] map_cong) auto
  then show ?case by (simp add: f' Let_def)
qed

section \<open>Runs of one class\<close>

text \<open>
  A class that holds of no surrogate and of nothing outside the basic plane reads the same with and
  without the flag \<open>u\<close>.
\<close>

definition plain :: "(nat \<Rightarrow> bool) \<Rightarrow> bool" where
  "plain P \<longleftrightarrow> (\<forall>c. P c \<longrightarrow> c < 55296 \<or> (57343 < c \<and> c < 65536))"

lemma plain_high: "plain P \<Longrightarrow> high_surrogate c \<Longrightarrow> \<not> P c"
  by (auto simp: plain_def high_surrogate_def)

lemma plain_low: "plain P \<Longrightarrow> low_surrogate c \<Longrightarrow> \<not> P c"
  by (auto simp: plain_def low_surrogate_def)

lemma plain_code_point: "plain P \<Longrightarrow> \<not> P (code_point h l)"
  by (auto simp: plain_def code_point_def)

lemma rx_m_cls:
  assumes "plain P"
  shows "rx_m u s (RxCls P) (i, c) = (if i < length s \<and> P (s ! i) then [(Suc i, c)] else [])"
  using plain_high [OF assms] plain_code_point [OF assms] by (auto simp: read_char_def)

text \<open>The length of the maximal run from a position.\<close>

definition run_len :: "(nat \<Rightarrow> bool) \<Rightarrow> jsstr \<Rightarrow> nat \<Rightarrow> nat" where
  "run_len P s i = length (takeWhile P (drop i s))"

lemma run_len_step:
  "run_len P s i = (if i < length s \<and> P (s ! i) then Suc (run_len P s (Suc i)) else 0)"
proof (cases "i < length s")
  case True
  then show ?thesis by (simp add: run_len_def Cons_nth_drop_Suc [symmetric])
qed (simp add: run_len_def)

lemma run_len_bound: "run_len P s i \<le> length s - i"
  unfolding run_len_def by (metis length_drop length_takeWhile_le)

text \<open>Greedy: the ends of the matches, longest run first, never below the minimum.\<close>

lemma rx_rep_cls:
  assumes "plain P" and "length s - i + mn < fuel"
  shows "rx_rep fuel (\<lambda>st. rx_m u s (RxCls P) (clear_caps [] st)) True mn None (i, c)
    = (if run_len P s i < mn then [] else map (\<lambda>j. (i + j, c)) (rev [mn..<Suc (run_len P s i)]))"
  using assms(2)
proof (induction fuel arbitrary: i mn)
  case 0
  then show ?case by simp
next
  case (Suc fuel)
  have cls: "rx_m u s (RxCls P) (clear_caps [] (i, c)) =
      (if i < length s \<and> P (s ! i) then [(Suc i, c)] else [])"
    by (simp add: clear_caps_def rx_m_cls [OF assms(1)] del: rx_m.simps)
  show ?case
  proof (cases "i < length s \<and> P (s ! i)")
    case False
    then have "run_len P s i = 0" by (subst run_len_step) simp
    with False show ?thesis by (simp only: rx_rep.simps cls Let_def if_False) simp
  next
    case True
    define k where "k = run_len P s (Suc i)"
    have k: "run_len P s i = Suc k" using True by (subst run_len_step) (simp add: k_def)
    have IH: "rx_rep fuel (\<lambda>st. rx_m u s (RxCls P) (clear_caps [] st)) True (mn - 1) None (Suc i, c)
        = (if k < mn - 1 then [] else map (\<lambda>j. (Suc i + j, c)) (rev [mn - 1..<Suc k]))"
      unfolding k_def using Suc.prems True by (intro Suc.IH) auto
    have shift: "map (\<lambda>j. (Suc i + j, c)) (rev [a..<Suc b]) = map (\<lambda>j. (i + j, c)) (rev [Suc a..<Suc (Suc b)])"
      for a b
    proof -
      have "map (\<lambda>j. (i + j, c)) (rev (map Suc [a..<Suc b])) = map (\<lambda>j. (Suc i + j, c)) (rev [a..<Suc b])"
        by (simp add: rev_map [symmetric])
      then show ?thesis by (simp only: map_Suc_upt)
    qed
    show ?thesis
    proof (cases mn)
      case 0
      then show ?thesis
        using True IH k shift [of 0 k] upt_conv_Cons [of 0 "Suc (Suc k)"]
        by (simp add: cls Let_def del: rx_m.simps upt_Suc)
    next
      case (Suc n)
      then show ?thesis
        using True IH k shift [of n k]
        by (simp add: cls Let_def del: rx_m.simps upt_Suc)
    qed
  qed
qed

lemma rx_exec_run:
  assumes "plain P"
  shows "rx_exec u (RxRep True n None (RxCls P)) s i =
    (if run_len P s i < n then None else Some (i + run_len P s i, \<lambda>_. None))"
  unfolding rx_exec_def
  using rx_rep_cls [OF assms, of s i n "Suc (length s - i + n)" u]
  by (simp del: upt_Suc rx_rep.simps) (simp add: upt_Suc)

text \<open>The reference description of a global replace of such a pattern.\<close>

function replace_runs :: "(nat \<Rightarrow> bool) \<Rightarrow> nat \<Rightarrow> (jsstr \<Rightarrow> jsstr) \<Rightarrow> jsstr \<Rightarrow> jsstr" where
  "replace_runs P n f [] = []"
| "replace_runs P n f (x # xs) =
     (if P x
      then (let run = takeWhile P (x # xs) in if n \<le> length run then f run else run)
             @ replace_runs P n f (dropWhile P xs)
      else x # replace_runs P n f xs)"
  by pat_completeness auto
termination
  by (relation "measure (\<lambda>(P, n, f, s). length s)") (auto simp: le_imp_less_Suc length_dropWhile_le)

declare replace_runs.simps [simp del]

lemma replace_runs_Nil [simp]: "replace_runs P n f [] = []"
  by (simp add: replace_runs.simps)

lemma replace_runs_skip: "\<not> P x \<Longrightarrow> replace_runs P n f (x # xs) = x # replace_runs P n f xs"
  by (simp add: replace_runs.simps)

lemma replace_runs_short:
  assumes "length (takeWhile P (x # xs)) < n"
  shows "replace_runs P n f (x # xs) = x # replace_runs P n f xs"
proof (cases "P x \<and> xs \<noteq> [] \<and> P (hd xs)")
  case True
  then obtain y ys where "xs = y # ys" "P y" by (cases xs) auto
  then show ?thesis using True assms by (simp add: replace_runs.simps)
next
  case False
  then show ?thesis using assms by (cases xs) (auto simp: replace_runs.simps)
qed

lemma replace_runs_long:
  assumes "n \<le> length (takeWhile P s)" and "0 < n"
  shows "replace_runs P n f s = f (takeWhile P s) @ replace_runs P n f (dropWhile P s)"
  using assms by (cases s) (auto simp: replace_runs.simps split: if_splits)

lemma drop_run_len: "drop (i + run_len P s i) s = dropWhile P (drop i s)"
  by (simp add: run_len_def dropWhile_eq_drop add.commute)

lemma slice_run_len: "slice s i (i + run_len P s i) = takeWhile P (drop i s)"
  by (simp add: run_len_def slice_def takeWhile_eq_take [symmetric])

lemma slice_Suc: "p \<le> i \<Longrightarrow> i < length s \<Longrightarrow> slice s p (Suc i) = slice s p i @ [s ! i]"
  by (simp add: slice_def Suc_diff_le take_Suc_conv_app_nth)

lemma replace_runs_advance:
  assumes "plain P" and "i < length s" and "run_len P s i < n" and "p \<le> i"
  shows "slice s p (advance u s i) @ replace_runs P n f (drop (advance u s i) s)
       = slice s p i @ replace_runs P n f (drop i s) \<and> advance u s i \<le> length s"
proof -
  have one: "slice s p (Suc i) @ replace_runs P n f (drop (Suc i) s)
       = slice s p i @ replace_runs P n f (drop i s)"
    using assms replace_runs_short [of P "s ! i" "drop (Suc i) s" n f]
    by (simp add: slice_Suc run_len_def Cons_nth_drop_Suc)
  show ?thesis
  proof (cases "u \<and> Suc i < length s \<and> high_surrogate (s ! i) \<and> low_surrogate (s ! Suc i)")
    case True
    then have adv: "advance u s i = Suc (Suc i)" by (simp add: advance_def read_char_def)
    have "slice s p (Suc (Suc i)) @ replace_runs P n f (drop (Suc (Suc i)) s)
        = slice s p (Suc i) @ replace_runs P n f (drop (Suc i) s)"
      using True assms(4) plain_low [OF assms(1)]
        replace_runs_skip [of P "s ! Suc i" n f "drop (Suc (Suc i)) s"]
      by (simp add: slice_Suc Cons_nth_drop_Suc)
    then show ?thesis using one True adv by auto
  next
    case False
    then have "advance u s i = Suc i" using assms(2) by (auto simp: advance_def read_char_def)
    then show ?thesis using one assms(2) by auto
  qed
qed

lemma subst_runs:
  assumes "plain P" and "0 < n" and "i \<le> length s" and "p \<le> i"
  shows "subst_matches s (\<lambda>m. f (m_text s m)) p (rx_all u (RxRep True n None (RxCls P)) s i)
    = slice s p i @ replace_runs P n f (drop i s)"
  using assms(3,4)
proof (induction "length s - i" arbitrary: i p rule: less_induct)
  case less
  let ?r = "RxRep True n None (RxCls P)"
  let ?k = "run_len P s i"
  show ?case
  proof (cases "?k < n")
    case True
    have all: "rx_all u ?r s i = rx_all u ?r s (advance u s i)"
      using True less.prems by (subst rx_all.simps) (simp add: rx_exec_run [OF assms(1)])
    show ?thesis
    proof (cases "i = length s")
      case True
      then have "rx_all u ?r s (advance u s i) = []"
        using advance_gt [of i u s] by (subst rx_all.simps) simp
      then show ?thesis using all True less.prems by (simp add: slice_def)
    next
      case False
      then have lt: "i < length s" using less.prems by simp
      note adv = replace_runs_advance [OF assms(1) lt True less.prems(2), of u f]
      show ?thesis
        unfolding all using less.hyps [of "advance u s i" p] adv lt less.prems advance_gt [of i u s]
        by auto
    qed
  next
    case False
    have le: "i + ?k \<le> length s" using run_len_bound [of P s i] less.prems by simp
    have all: "rx_all u ?r s i = (i, i + ?k, \<lambda>_. None) # rx_all u ?r s (i + ?k)"
      using False assms(2) less.prems by (subst rx_all.simps) (simp add: rx_exec_run [OF assms(1)])
    have IH: "subst_matches s (\<lambda>m. f (m_text s m)) (i + ?k) (rx_all u ?r s (i + ?k))
        = replace_runs P n f (dropWhile P (drop i s))"
      using less.hyps [of "i + ?k" "i + ?k"] False assms(2) le
      by (simp add: drop_run_len slice_def)
    show ?thesis
      using False assms(2) IH all replace_runs_long [of n P "drop i s" f]
      by (simp add: m_text_def slice_run_len) (simp add: run_len_def)
  qed
qed

theorem rx_replace_runs:
  assumes "plain P" and "0 < n"
  shows "rx_replace u (RxRep True n None (RxCls P)) (\<lambda>s m. f (m_text s m)) s = replace_runs P n f s"
  using subst_runs [OF assms, of 0 s 0 f u] by (simp add: rx_replace_def slice_def)

text \<open>A character kept by a replacement comes from the input or from a replacement text.\<close>

lemma set_replace_runs:
  "set (replace_runs P n f s) \<subseteq> set s \<union> (\<Union>r. set (f r))"
proof (induction P n f s rule: replace_runs.induct)
  case (2 P n f x xs)
  show ?case
  proof (cases "P x")
    case True
    have d: "set (replace_runs P n f (dropWhile P xs)) \<subseteq> set xs \<union> (\<Union>r. set (f r))"
      using 2(1) [OF True] set_dropWhile_subset [of P xs] by blast
    have t: "set (takeWhile P (x # xs)) \<subseteq> set (x # xs)" by (meson set_takeWhileD subsetI)
    show ?thesis using True d t by (auto simp: replace_runs.simps Let_def split: if_splits)
  next
    case False
    then show ?thesis using 2(2) by (auto simp: replace_runs.simps)
  qed
qed simp

text \<open>
  Collapsing runs of at least two of a class to one character of that class leaves no two of the
  class side by side.
\<close>

fun no_adjacent :: "(nat \<Rightarrow> bool) \<Rightarrow> jsstr \<Rightarrow> bool" where
  "no_adjacent P (x # y # xs) = ((\<not> P x \<or> \<not> P y) \<and> no_adjacent P (y # xs))"
| "no_adjacent P _ = True"

lemma no_adjacent_Cons:
  "no_adjacent P (x # xs) \<longleftrightarrow> (xs = [] \<or> \<not> P x \<or> \<not> P (hd xs)) \<and> no_adjacent P xs"
  by (cases xs) auto

lemma no_adjacent_append:
  "no_adjacent P (xs @ ys) \<longleftrightarrow> no_adjacent P xs \<and> no_adjacent P ys
     \<and> (xs = [] \<or> ys = [] \<or> \<not> P (last xs) \<or> \<not> P (hd ys))"
  by (induction xs) (auto simp: no_adjacent_Cons)

lemma no_adjacent_rev: "no_adjacent P (rev xs) = no_adjacent P xs"
  by (induction xs) (auto simp: no_adjacent_append no_adjacent_Cons last_rev)

lemma no_adjacent_dropWhile: "no_adjacent P xs \<Longrightarrow> no_adjacent P (dropWhile Q xs)"
  by (metis no_adjacent_append takeWhile_dropWhile_id)

lemma no_adjacent_trim: "no_adjacent P xs \<Longrightarrow> no_adjacent P (trim xs)"
  unfolding trim_def rtrim_def ltrim_def
  by (metis no_adjacent_dropWhile no_adjacent_rev)

lemma hd_replace_runs:
  "\<not> P (hd s) \<or> s = [] \<Longrightarrow> replace_runs P n f s \<noteq> [] \<Longrightarrow> \<not> P (hd (replace_runs P n f s))"
  by (cases s) (auto simp: replace_runs.simps)

lemma no_adjacent_collapse: "no_adjacent P (replace_runs P 2 (\<lambda>_. [c]) s)"
proof (induction P "2::nat" "\<lambda>_::jsstr. [c]" s rule: replace_runs.induct)
  case (2 P x xs)
  show ?case
  proof (cases "P x")
    case False
    then show ?thesis using 2(2) by (simp add: replace_runs.simps no_adjacent_Cons)
  next
    case True
    let ?t = "replace_runs P 2 (\<lambda>_. [c]) (dropWhile P xs)"
    have hd: "?t = [] \<or> \<not> P (hd ?t)"
      using hd_replace_runs [of P "dropWhile P xs" 2 "\<lambda>_. [c]"] hd_dropWhile [of P xs] by blast
    have IH: "no_adjacent P ?t" using 2(1) [OF True] by simp
    have short: "\<not> 2 \<le> length (takeWhile P (x # xs)) \<Longrightarrow> takeWhile P (x # xs) = [x]"
      using True by (cases "takeWhile P xs") auto
    show ?thesis
    proof (cases "2 \<le> length (takeWhile P (x # xs))")
      case t2: True
      then have "replace_runs P 2 (\<lambda>_. [c]) (x # xs) = c # ?t" using True by (simp add: replace_runs.simps)
      then show ?thesis using IH hd by (simp add: no_adjacent_Cons)
    next
      case False
      then have "replace_runs P 2 (\<lambda>_. [c]) (x # xs) = x # ?t"
        using True short by (simp add: replace_runs.simps)
      then show ?thesis using IH hd by (simp add: no_adjacent_Cons)
    qed
  qed
qed simp

lemma no_adjacent_replace_other:
  assumes "no_adjacent P s" and "\<And>c. P c \<Longrightarrow> \<not> Q c" and "\<And>r. f r \<noteq> [] \<and> (\<forall>c\<in>set (f r). \<not> P c)"
  shows "no_adjacent P (replace_runs Q n f s)
    \<and> (s \<noteq> [] \<longrightarrow> replace_runs Q n f s \<noteq> [] \<and> (P (hd (replace_runs Q n f s)) \<longrightarrow> P (hd s)))"
  using assms(1)
proof (induction "length s" arbitrary: s rule: less_induct)
  case less
  show ?case
  proof (cases s)
    case (Cons x xs)
    let ?k = "replace_runs Q n f"
    have tail: "no_adjacent P (?k t) \<and> (t \<noteq> [] \<longrightarrow> ?k t \<noteq> [] \<and> (P (hd (?k t)) \<longrightarrow> P (hd t)))"
      if "\<exists>a. xs = a @ t" for t
      using less.hyps [of t] less.prems Cons that by (auto simp: no_adjacent_append no_adjacent_Cons)
    show ?thesis
    proof (cases "Q x")
      case False
      then show ?thesis
        using Cons less.prems tail [of xs] by (cases xs) (auto simp: replace_runs.simps no_adjacent_Cons)
    next
      case True
      let ?h = "let run = takeWhile Q (x # xs) in if n \<le> length run then f run else run"
      have np: "\<forall>c\<in>set ?h. \<not> P c"
        using assms(2,3) True by (auto simp: Let_def dest: set_takeWhileD)
      have ne: "?h \<noteq> []" using assms(3) True by (auto simp: Let_def)
      have h: "no_adjacent P ?h" if "\<forall>c\<in>set t. \<not> P c" "t = ?h" for t
        using that(1) unfolding that(2) [symmetric]
        by (induction t) (auto simp: no_adjacent_Cons)
      have eq: "?k s = ?h @ ?k (dropWhile Q xs)" using Cons True by (simp add: replace_runs.simps)
      have sfx: "\<exists>a. xs = a @ dropWhile Q xs" by (metis takeWhile_dropWhile_id)
      have "no_adjacent P (?k s)"
        unfolding eq no_adjacent_append using tail [OF sfx] h [OF np refl] np ne
        by (metis last_in_set)
      then show ?thesis using eq np ne Cons by (metis append_is_Nil_conv hd_append2 hd_in_set)
    qed
  qed simp
qed

text \<open>A global replace of a single character by a fixed text.\<close>

lemma subst_cls:
  assumes "plain P" and "i \<le> length s" and "p \<le> i"
  shows "subst_matches s (\<lambda>m. t) p (rx_all u (RxCls P) s i)
    = slice s p i @ concat (map (\<lambda>c. if P c then t else [c]) (drop i s))"
  using assms(2,3)
proof (induction "length s - i" arbitrary: i p rule: less_induct)
  case less
  have ex: "rx_exec u (RxCls P) s i = (if i < length s \<and> P (s ! i) then Some (Suc i, \<lambda>_. None) else None)"
    by (simp add: rx_exec_def rx_m_cls [OF assms(1)] del: rx_m.simps)
  show ?case
  proof (cases "i = length s")
    case True
    have "rx_all u (RxCls P) s (advance u s i) = []"
      using True advance_gt [of i u s] by (subst rx_all.simps) simp
    then have "rx_all u (RxCls P) s i = []"
      using True ex by (subst rx_all.simps) simp
    then show ?thesis using True less.prems by (simp add: slice_def)
  next
    case False
    then have lt: "i < length s" using less.prems by simp
    have dr: "drop i s = s ! i # drop (Suc i) s" using lt by (simp add: Cons_nth_drop_Suc)
    show ?thesis
    proof (cases "P (s ! i)")
      case True
      have all: "rx_all u (RxCls P) s i = (i, Suc i, \<lambda>_. None) # rx_all u (RxCls P) s (Suc i)"
        using True lt by (subst rx_all.simps) (simp add: ex)
      show ?thesis using True lt less.hyps [of "Suc i" "Suc i"] by (simp add: all dr slice_def)
    next
      case nP: False
      have all: "rx_all u (RxCls P) s i = rx_all u (RxCls P) s (advance u s i)"
        using nP lt by (subst rx_all.simps) (simp add: ex)
      show ?thesis
      proof (cases "u \<and> Suc i < length s \<and> high_surrogate (s ! i) \<and> low_surrogate (s ! Suc i)")
        case True
        then have adv: "advance u s i = Suc (Suc i)" by (simp add: advance_def read_char_def)
        have dr2: "drop (Suc i) s = s ! Suc i # drop (Suc (Suc i)) s" using True by (simp add: Cons_nth_drop_Suc)
        have low: "\<not> P (s ! Suc i)" using True plain_low [OF assms(1)] by blast
        have "subst_matches s (\<lambda>m. t) p (rx_all u (RxCls P) s (Suc (Suc i))) =
            slice s p (Suc (Suc i)) @ concat (map (\<lambda>c. if P c then t else [c]) (drop (Suc (Suc i)) s))"
          using True lt less.prems by (intro less.hyps) auto
        then show ?thesis
          unfolding all adv using True lt nP low less.prems by (simp add: dr dr2 slice_Suc)
      next
        case False
        then have adv: "advance u s i = Suc i" using lt by (auto simp: advance_def read_char_def)
        show ?thesis
          using lt nP less.prems less.hyps [of "Suc i" p] by (simp add: all adv dr slice_Suc)
      qed
    qed
  qed
qed

theorem rx_replace_cls:
  assumes "plain P"
  shows "rx_replace u (RxCls P) (\<lambda>s m. t) s = concat (map (\<lambda>c. if P c then t else [c]) s)"
  using subst_cls [OF assms, of 0 s 0 t u] by (simp add: rx_replace_def slice_def)

lemma plain_one_of [simp]: "(\<forall>c\<in>set cs. c < 55296 \<or> (57343 < c \<and> c < 65536)) \<Longrightarrow> plain (one_of cs)"
  by (auto simp: plain_def one_of_def)

lemma plain_is_char [simp]: "a < 55296 \<or> (57343 < a \<and> a < 65536) \<Longrightarrow> plain (is_char a)"
  by (auto simp: plain_def is_char_def)

lemma rx_replace_to_text_runs:
  "plain P \<Longrightarrow> 0 < n \<Longrightarrow>
     rx_replace u (RxRep True n None (RxCls P)) (to_text t) s = replace_runs P n (\<lambda>_. t) s"
  using rx_replace_runs [of P n u "\<lambda>_. t" s] by (simp add: to_text_def [abs_def])

lemma rx_replace_to_text_cls:
  "plain P \<Longrightarrow> rx_replace u (RxCls P) (to_text t) s = concat (map (\<lambda>c. if P c then t else [c]) s)"
  using rx_replace_cls [of P u t s] by (simp add: to_text_def [abs_def])

end
