(* ===== verification/TtsNormalizer.thy ===== *)
theory TtsNormalizer
  imports JsRegex
begin

text \<open>
  The robust text normaliser of the MOSS voice runtime (the module \<open>tts_robust_normalizer.js\<close>, bundled
  at the head of \<open>browser_onnx_runtime.js\<close>): cleanup of the raw text, Markdown and line handling, the
  protection of URLs, mail addresses, mentions, tags and file names by placeholder tokens, spacing and
  punctuation rules, and the restoration of the protected spans.

  The engine's Unicode tables (\<open>\\p{C}\<close> and \<open>\\p{P}\<close>) are parameters. Every argument is a string in
  every call the runtime makes, so \<open>String(text || "")\<close> is the identity.
\<close>

section \<open>Unicode tables and character classes\<close>

record ucd =
  ucd_C :: "nat \<Rightarrow> bool"
  ucd_P :: "nat \<Rightarrow> bool"

definition cjk :: "nat \<Rightarrow> bool" where
  "cjk c \<longleftrightarrow> (13312 \<le> c \<and> c \<le> 19903) \<or> (19968 \<le> c \<and> c \<le> 40959) \<or> (12352 \<le> c \<and> c \<le> 12543)"

definition filelike_char :: "nat \<Rightarrow> bool" where
  "filelike_char c \<longleftrightarrow> is_alnum c \<or> one_of [46, 95, 47, 43, 58, 45] c"

section \<open>Patterns\<close>

definition PROT :: rx where
  "PROT = rx_seq [rx_lit (js ''___PROT''), rx_plus (RxCls is_digit), rx_lit (js ''___'')]"

definition URL_RE :: rx where
  "URL_RE = rx_seq [rx_lit (js ''http''), rx_opt (RxCls (is_char 115)), rx_lit (js ''://''),
     rx_plus (RxCls (\<lambda>c. \<not> js_space c \<and> none_of [12288, 65292, 12290, 65281, 65311, 65307, 12289,
       65289, 12305, 12299, 12297, 12301, 12303] c))]"

definition EMAIL_RE :: rx where
  "EMAIL_RE = rx_seq [RxNotBehind [\<lambda>c. is_word c \<or> one_of [46, 43, 45] c],
     rx_plus (RxCls (\<lambda>c. is_alnum c \<or> one_of [46, 95, 37, 43, 45] c)),
     RxCls (is_char 64),
     rx_plus (RxCls (\<lambda>c. is_alnum c \<or> one_of [46, 45] c)),
     RxCls (is_char 46),
     RxRep True 2 None (RxCls is_alpha),
     RxAhead False (RxCls (\<lambda>c. is_word c \<or> one_of [46, 45] c))]"

definition MENTION_RE :: rx where
  "MENTION_RE = rx_seq [RxNotBehind [is_word], RxCls (is_char 64), RxRep True 1 (Some 32) (RxCls is_word)]"

definition REDDIT_RE :: rx where
  "REDDIT_RE = rx_seq [RxNotBehind [is_word], RxAlt (RxCls (is_char 117)) (RxCls (is_char 114)),
     RxCls (is_char 47), rx_plus (RxCls is_word)]"

definition HASHTAG_RE :: rx where
  "HASHTAG_RE = rx_seq [RxNotBehind [is_word], RxCls (is_char 35), RxAhead False (RxCls js_space),
     rx_plus (RxCls (\<lambda>c. \<not> js_space c \<and> c \<noteq> 35))]"

definition DOT_TOKEN_RE :: rx where
  "DOT_TOKEN_RE = rx_seq [RxNotBehind [is_word], RxCls (is_char 46),
     RxAhead True (rx_seq [rx_star (RxCls (\<lambda>c. is_alnum c \<or> one_of [46, 95, 45] c)), RxCls is_alnum]),
     rx_plus (RxCls (\<lambda>c. is_alnum c \<or> one_of [46, 95, 45] c))]"

definition FILELIKE_RE :: rx where
  "FILELIKE_RE = rx_seq [RxNotBehind [is_word],
     RxAhead True (rx_seq [rx_star (RxCls filelike_char), RxCls is_alpha]),
     RxAhead True (rx_seq [rx_star (RxCls filelike_char), RxCls (one_of [46, 47, 43, 58, 45])]),
     RxCls is_alnum, rx_star (RxCls filelike_char), RxAhead False (RxCls is_word)]"

definition LATINISH :: rx where
  "LATINISH = RxAlt PROT
     (rx_seq [RxAhead True (rx_seq [rx_star (RxCls filelike_char), RxCls is_alpha]),
        RxCls is_alnum, rx_star (RxCls filelike_char)])"

definition ZERO_WIDTH_RE :: rx where
  "ZERO_WIDTH_RE = RxCls (\<lambda>c. (8203 \<le> c \<and> c \<le> 8205) \<or> c = 65279)"

definition TRAILING_CLOSERS :: "nat list" where
  "TRAILING_CLOSERS = [34, 39, 41, 93, 125, 65289, 12305, 12299, 12297, 12301, 12303, 8221, 8217]"

definition CJK_SPACE_RE :: rx where
  "CJK_SPACE_RE = rx_seq [RxGrp 1 (RxCls cjk), rx_plus (RxCls js_space), RxAhead True (RxCls cjk)]"

definition CJK_DIGIT_SPACE_RE :: rx where
  "CJK_DIGIT_SPACE_RE = rx_seq [RxGrp 1 (RxCls cjk), rx_plus (RxCls js_space), RxAhead True (RxCls is_digit)]"

definition DIGIT_CJK_SPACE_RE :: rx where
  "DIGIT_CJK_SPACE_RE = rx_seq [RxGrp 1 (RxCls is_digit), rx_plus (RxCls js_space), RxAhead True (RxCls cjk)]"

definition CJK_LATINISH_SPACE_RE :: rx where
  "CJK_LATINISH_SPACE_RE = rx_seq [RxGrp 1 (RxCls cjk), RxAhead True (RxGrp 2 LATINISH)]"

definition LATINISH_CJK_SPACE_RE :: rx where
  "LATINISH_CJK_SPACE_RE = rx_seq [RxGrp 1 LATINISH, RxAhead True (RxCls cjk)]"

section \<open>Cleanup and terminal punctuation\<close>

definition isControlCharacter :: "ucd \<Rightarrow> jsstr \<Rightarrow> bool" where
  "isControlCharacter U ch = ucd_C U (char_code ch)"

definition isUnicodePunctuation :: "ucd \<Rightarrow> nat \<Rightarrow> bool" where
  "isUnicodePunctuation U c = ucd_P U c"

definition baseCleanup :: "ucd \<Rightarrow> jsstr \<Rightarrow> jsstr" where
  "baseCleanup U text =
     (let s1 = rx_replace False (rx_lit [13, 10]) (to_text [10]) text;
          s2 = rx_replace False (RxCls (is_char 13)) (to_text [10]) s1;
          normalized = rx_replace False (RxCls (is_char 12288)) (to_text [32]) s2;
          withoutZeroWidth = rx_replace True ZERO_WIDTH_RE (to_text []) normalized
      in concat (filter (\<lambda>ch. ch = [10] \<or> ch = [9] \<or> ch = [32] \<or> \<not> isControlCharacter U ch)
           (code_points withoutZeroWidth)))"

text \<open>
  The two index loops from the end: past blanks, then past closing quotes and brackets. What is left,
  reversed, starts with the character at \<open>index\<close>.
\<close>

definition skip_tail :: "jsstr \<Rightarrow> jsstr" where
  "skip_tail text = dropWhile (\<lambda>c. c \<in> set TRAILING_CLOSERS) (dropWhile js_space (rev text))"

definition ensureTerminalPunctuation :: "ucd \<Rightarrow> jsstr \<Rightarrow> jsstr" where
  "ensureTerminalPunctuation U text =
     (if text = [] then text
      else (case skip_tail text of
              c # _ \<Rightarrow> if isUnicodePunctuation U c then text else text @ [12290]
            | [] \<Rightarrow> text @ [12290]))"

definition ensureTerminalPunctuationByLine :: "ucd \<Rightarrow> jsstr \<Rightarrow> jsstr" where
  "ensureTerminalPunctuationByLine U text =
     (if text = [] then text
      else trim (join_with [10] (map (\<lambda>line. let trimmed = trim line in
             if trimmed \<noteq> [] then ensureTerminalPunctuation U trimmed else []) (split_char 10 text))))"

section \<open>Markdown and lines\<close>

definition MD_LINK_RE :: rx where
  "MD_LINK_RE = rx_seq [RxCls (is_char 91), RxGrp 1 (rx_plus_lazy (RxCls (none_of [91, 93]))),
     RxCls (is_char 93), RxCls (is_char 40),
     RxGrp 2 (rx_seq [rx_lit (js ''http''), rx_opt (RxCls (is_char 115)), rx_lit (js ''://''),
       rx_plus (RxCls (\<lambda>c. c \<noteq> 41 \<and> \<not> js_space c))]),
     RxCls (is_char 41)]"

definition strip_line_prefixes :: "jsstr \<Rightarrow> jsstr" where
  "strip_line_prefixes line =
     (let l1 = rx_replace1 True (rx_seq [RxBol, RxRep True 1 (Some 6) (RxCls (is_char 35)),
                 rx_plus (RxCls js_space)]) (to_text []) line;
          l2 = rx_replace1 True (rx_seq [RxBol, RxCls (is_char 62), rx_plus (RxCls js_space)]) (to_text []) l1;
          l3 = rx_replace1 True (rx_seq [RxBol, RxCls (one_of [45, 42, 43]), rx_plus (RxCls js_space)])
                 (to_text []) l2
      in rx_replace1 True (rx_seq [RxBol, rx_plus (RxCls is_digit), RxCls (one_of [46, 41]),
           rx_plus (RxCls js_space)]) (to_text []) l3)"

text \<open>\<open>merged\<close>: every line but the last is closed by terminal punctuation.\<close>

fun merge_lines :: "ucd \<Rightarrow> jsstr list \<Rightarrow> jsstr list" where
  "merge_lines U [] = []"
| "merge_lines U [l] = [l]"
| "merge_lines U (l # l' # ls) = ensureTerminalPunctuation U l # merge_lines U (l' # ls)"

definition normalizeMarkdownAndLines :: "ucd \<Rightarrow> jsstr \<Rightarrow> jsstr" where
  "normalizeMarkdownAndLines U text =
     (let normalized = rx_replace True MD_LINK_RE
            (\<lambda>s m. m_dollar s m 1 @ [32] @ m_dollar s m 2) text;
          lines = map strip_line_prefixes (filter (\<lambda>l. l \<noteq> []) (map trim (split_char 10 normalized)))
      in concat (merge_lines U lines))"

section \<open>Protected spans\<close>

definition prot_token :: "nat \<Rightarrow> jsstr" where
  "prot_token n = js ''___PROT'' @ nat_str n @ js ''___''"

definition protect_patterns :: "rx list" where
  "protect_patterns =
     [URL_RE, EMAIL_RE, MENTION_RE, REDDIT_RE, HASHTAG_RE, DOT_TOKEN_RE, FILELIKE_RE]"

text \<open>The replacer callback numbers the spans in the order it is called: left to right.\<close>

fun tokenize_matches :: "jsstr \<Rightarrow> nat \<Rightarrow> nat \<Rightarrow> rmatch list \<Rightarrow> jsstr" where
  "tokenize_matches s n p [] = drop p s"
| "tokenize_matches s n p (m # ms) =
     slice s p (fst m) @ prot_token n @ tokenize_matches s (Suc n) (fst (snd m)) ms"

definition protect_step :: "jsstr \<times> jsstr list \<Rightarrow> rx \<Rightarrow> jsstr \<times> jsstr list" where
  "protect_step st pattern =
     (let s = fst st; spans = snd st; ms = rx_all True pattern s 0
      in (tokenize_matches s (length spans) 0 ms, spans @ map (m_text s) ms))"

definition protectSpans :: "jsstr \<Rightarrow> jsstr \<times> jsstr list" where
  "protectSpans text = foldl protect_step (text, []) protect_patterns"

fun restore_from :: "nat \<Rightarrow> jsstr \<Rightarrow> jsstr list \<Rightarrow> jsstr" where
  "restore_from i text [] = text"
| "restore_from i text (sp # spans) = restore_from (Suc i) (replace_token (prot_token i) sp text) spans"

definition restoreSpans :: "jsstr \<Rightarrow> jsstr list \<Rightarrow> jsstr" where
  "restoreSpans text protectedSpans = restore_from 0 text protectedSpans"

definition normalizeVisibleUnderscores :: "jsstr \<Rightarrow> jsstr" where
  "normalizeVisibleUnderscores text =
     concat (map (\<lambda>part. if rx_test True (rx_seq [RxBol, PROT, RxEol]) part then part
                   else rx_replace True (RxCls (is_char 95)) (to_text [32]) part)
              (rx_split True (RxGrp 1 PROT) text))"

section \<open>Spacing and punctuation\<close>

definition FLOW_ARROW_RE :: rx where
  "FLOW_ARROW_RE = rx_seq [rx_star (RxCls js_space),
     rx_alts [rx_seq [RxCls (is_char 60), rx_plus (RxCls (one_of [45, 61])), RxCls (is_char 62)],
       rx_seq [rx_plus (RxCls (one_of [45, 61])), RxCls (is_char 62)],
       rx_seq [RxCls (is_char 60), rx_plus (RxCls (one_of [45, 61]))],
       RxCls (one_of [8594, 8592, 8596, 8658, 8656, 8660, 10230, 10229, 10231, 10233, 10232, 10234,
         8614, 8612, 8618, 8617])],
     rx_star (RxCls js_space)]"

definition normalizeFlowArrows :: "jsstr \<Rightarrow> jsstr" where
  "normalizeFlowArrows text = rx_replace True FLOW_ARROW_RE (to_text [65292]) text"

definition normalizeSpaces :: "jsstr \<Rightarrow> jsstr" where
  "normalizeSpaces text =
     (let s1 = rx_replace True (rx_plus (RxCls (one_of [32, 9, 13, 12, 11]))) (to_text [32]) text;
          s2 = rx_replace True CJK_SPACE_RE (to_group [] [] 1) s1;
          s3 = rx_replace True CJK_DIGIT_SPACE_RE (to_group [] [] 1) s2;
          s4 = rx_replace True DIGIT_CJK_SPACE_RE (to_group [] [] 1) s3;
          s5 = rx_replace True CJK_LATINISH_SPACE_RE (to_group [] [32] 1) s4;
          s6 = rx_replace True LATINISH_CJK_SPACE_RE (to_group [] [32] 1) s5;
          s7 = rx_replace True (RxRep True 2 None (RxCls (is_char 32))) (to_text [32]) s6;
          s8 = rx_replace True (rx_seq [rx_plus (RxCls js_space),
                 RxGrp 1 (RxCls (one_of [65292, 12290, 65281, 65311, 65307, 65306, 12289, 8221, 8217,
                   12301, 12303, 12305, 65289, 12299]))]) (to_group [] [] 1) s7;
          s9 = rx_replace True (rx_seq [RxGrp 1 (RxCls (one_of [65288, 12304, 12300, 12302, 12298,
                 8220, 8216])), rx_plus (RxCls js_space)]) (to_group [] [] 1) s8;
          s10 = rx_replace True (rx_seq [RxGrp 1 (RxCls (one_of [65292, 12290, 65281, 65311, 65307,
                 65306, 12289])), rx_star (RxCls js_space)]) (to_group [] [] 1) s9;
          s11 = rx_replace True (rx_seq [rx_plus (RxCls js_space),
                 RxGrp 1 (RxCls (one_of [44, 46, 59, 33, 63]))]) (to_group [] [] 1) s10
      in trim (rx_replace True (RxRep True 2 None (RxCls (is_char 32))) (to_text [32]) s11))"

text \<open>\<open>open\<close>, a lazy body without the closing characters, \<open>close\<close>, with blanks around the body dropped.\<close>

definition bracket_rx :: "nat list \<Rightarrow> nat list \<Rightarrow> nat list \<Rightarrow> rx" where
  "bracket_rx opens inner closes = rx_seq [RxCls (one_of opens), rx_star (RxCls js_space),
     RxGrp 1 (rx_plus_lazy (RxCls (none_of inner))), rx_star (RxCls js_space), RxCls (one_of closes)]"

definition BOOK_TITLE_RE :: rx where
  "BOOK_TITLE_RE = rx_seq [
     RxGrp 1 (RxAlt RxBol (rx_seq [RxCls (one_of [12290, 65281, 65311, 33, 63, 65307, 59]),
       rx_star (RxCls js_space)])),
     RxCls (is_char 12298), RxGrp 2 (rx_plus (RxCls (none_of [12299]))), RxCls (is_char 12299),
     RxAhead True (rx_seq [rx_star (RxCls js_space),
       rx_alts [PROT, RxRep True 2 None (RxCls (one_of [8212, 8211, 8213, 45])), RxEol,
         RxCls (one_of [12290, 65281, 65311, 33, 63, 65307, 59, 65292, 44])]])]"

definition normalizeStructuralPunctuation :: "jsstr \<Rightarrow> jsstr" where
  "normalizeStructuralPunctuation text =
     (let s1 = rx_replace True (bracket_rx [91] [91, 93] [93]) (to_group [34] [34] 1) text;
          s2 = rx_replace True (bracket_rx [123] [123, 125] [125]) (to_group [34] [34] 1) s1;
          s3 = rx_replace True (bracket_rx [12304, 12310, 12302, 12300] [12305, 12311, 12303, 12301]
                 [12305, 12311, 12303, 12301]) (to_group [34] [34] 1) s2;
          s4 = rx_replace True BOOK_TITLE_RE (\<lambda>s m. m_dollar s m 1 @ m_dollar s m 2) s3;
          s5 = normalizeFlowArrows s4
      in rx_replace True (rx_seq [rx_star (RxCls js_space),
           RxRep True 2 None (RxCls (one_of [8212, 8211, 8213, 45])), rx_star (RxCls js_space)])
           (to_text [12290]) s5)"

definition ELLIPSIS_RE :: rx where
  "ELLIPSIS_RE = rx_alts [RxRep True 3 None (RxCls (is_char 46)), RxRep True 2 None (RxCls (is_char 8230)),
     rx_seq [RxCls (is_char 8230), rx_plus (RxCls (is_char 8230))]]"

definition mixed_marks :: "jsstr \<Rightarrow> jsstr" where
  "mixed_marks match =
     (let hasQuestion = (\<exists>c\<in>set match. c = 63 \<or> c = 65311);
          hasExclamation = (\<exists>c\<in>set match. c = 33 \<or> c = 65281)
      in if hasQuestion \<and> hasExclamation then [65311, 65281]
         else if hasQuestion then [65311] else [65281])"

definition normalizeRepeatedPunctuation :: "jsstr \<Rightarrow> jsstr" where
  "normalizeRepeatedPunctuation text =
     (let s1 = rx_replace True ELLIPSIS_RE (to_text [12290]) text;
          s2 = rx_replace True (RxRep True 2 None (RxCls (one_of [12290, 65294]))) (to_text [12290]) s1;
          s3 = rx_replace True (RxRep True 2 None (RxCls (one_of [65292, 44]))) (to_text [65292]) s2;
          s4 = rx_replace True (RxRep True 2 None (RxCls (one_of [33, 65281]))) (to_text [65281]) s3;
          s5 = rx_replace True (RxRep True 2 None (RxCls (one_of [63, 65311]))) (to_text [65311]) s4
      in rx_replace True (RxRep True 2 None (RxCls (one_of [33, 63, 65281, 65311])))
           (\<lambda>s m. mixed_marks (m_text s m)) s5)"

section \<open>The whole normaliser\<close>

definition normalizeTtsText :: "ucd \<Rightarrow> jsstr \<Rightarrow> jsstr" where
  "normalizeTtsText U text =
     (let n1 = baseCleanup U text;
          n2 = normalizeMarkdownAndLines U n1;
          n3 = normalizeFlowArrows n2;
          (protectedText, protectedSpans) = protectSpans n3;
          n4 = normalizeVisibleUnderscores protectedText;
          n5 = normalizeSpaces n4;
          n6 = normalizeStructuralPunctuation n5;
          n7 = normalizeRepeatedPunctuation n6;
          n8 = normalizeSpaces n7;
          n9 = restoreSpans n8 protectedSpans
      in ensureTerminalPunctuationByLine U (trim n9))"

section \<open>Lemmas\<close>

subsection \<open>Terminal punctuation\<close>

text \<open>A line is closed when, past trailing blanks and closing quotes or brackets, it ends in punctuation.\<close>

definition closed_line :: "ucd \<Rightarrow> jsstr \<Rightarrow> bool" where
  "closed_line U line \<longleftrightarrow>
     (case skip_tail line of c # _ \<Rightarrow> ucd_P U c | [] \<Rightarrow> False)"

lemma ensureTerminalPunctuation_closed:
  assumes "ucd_P U 12290" and "line \<noteq> []"
  shows "closed_line U (ensureTerminalPunctuation U line)"
proof -
  have "closed_line U (line @ [12290])"
    using assms(1) by (simp add: closed_line_def skip_tail_def js_space_def TRAILING_CLOSERS_def)
  then show ?thesis
    using assms(2)
    by (auto simp: ensureTerminalPunctuation_def isUnicodePunctuation_def closed_line_def split: list.splits)
qed

lemma ensureTerminalPunctuation_id: "closed_line U line \<Longrightarrow> ensureTerminalPunctuation U line = line"
  by (auto simp: ensureTerminalPunctuation_def isUnicodePunctuation_def closed_line_def split: list.splits)

lemma ensureTerminalPunctuation_cases:
  "ensureTerminalPunctuation U line = line \<or> ensureTerminalPunctuation U line = line @ [12290]"
  by (auto simp: ensureTerminalPunctuation_def split: list.splits)

text \<open>Trimming lines that are trimmed already only removes empty lines at both ends.\<close>

definition trimmed :: "jsstr \<Rightarrow> bool" where
  "trimmed s \<longleftrightarrow> s = [] \<or> (\<not> js_space (hd s) \<and> \<not> js_space (last s))"

lemma trimmed_trim [simp]: "trimmed (trim s)"
  using trim_hd trim_last by (auto simp: trimmed_def)

lemma newline_space [simp]: "js_space 10"
  by (simp add: js_space_def)

lemma ltrim_lines:
  "\<forall>l\<in>set ls. trimmed l \<Longrightarrow> ltrim (join_with [10] ls) = join_with [10] (dropWhile (\<lambda>l. l = []) ls)"
proof (induction ls)
  case (Cons l ls)
  show ?case
  proof (cases l)
    case Nil
    then show ?thesis using Cons by (cases ls) (auto simp: ltrim_Cons)
  next
    case (Cons c cs)
    then show ?thesis using Cons.prems by (cases ls) (auto simp: ltrim_Cons trimmed_def)
  qed
qed simp

lemma join_with_snoc: "ls \<noteq> [] \<Longrightarrow> join_with sep (ls @ [l]) = join_with sep ls @ sep @ l"
proof (induction ls)
  case (Cons a ls)
  then show ?case by (cases ls) auto
qed simp

lemma rtrim_lines:
  "\<forall>l\<in>set ls. trimmed l \<Longrightarrow>
     rtrim (join_with [10] ls) = join_with [10] (rev (dropWhile (\<lambda>l. l = []) (rev ls)))"
proof (induction ls rule: rev_induct)
  case (snoc l ls)
  show ?case
  proof (cases "l = []")
    case True
    show ?thesis
    proof (cases "ls = []")
      case False
      then have "rtrim (join_with [10] (ls @ [l])) = rtrim (join_with [10] ls)"
        using True rtrim_snoc [of "join_with [10] ls" 10] by (simp add: join_with_snoc)
      then show ?thesis using True snoc by simp
    qed (simp add: True)
  next
    case False
    then obtain cs c where l: "l = cs @ [c]" by (cases l rule: rev_cases) auto
    then have c: "\<not> js_space c" using snoc.prems False by (auto simp: trimmed_def)
    obtain pre where pre: "join_with [10] (ls @ [l]) = pre @ [c]"
      by (cases "ls = []") (auto simp: join_with_snoc l)
    have "rtrim (join_with [10] (ls @ [l])) = join_with [10] (ls @ [l])"
      unfolding pre using c by (simp add: rtrim_snoc)
    then show ?thesis using False by simp
  qed
qed simp

lemma trim_lines_subset:
  assumes "\<forall>l\<in>set ls. trimmed l"
  shows "\<exists>ms. trim (join_with [10] ls) = join_with [10] ms \<and> set ms \<subseteq> set ls"
proof -
  let ?a = "dropWhile (\<lambda>l. l = []) ls"
  have a: "set ?a \<subseteq> set ls" by (rule set_dropWhile_subset)
  have "\<forall>l\<in>set ?a. trimmed l" using assms a by blast
  then have "trim (join_with [10] ls) = join_with [10] (rev (dropWhile (\<lambda>l. l = []) (rev ?a)))"
    unfolding trim_def using assms by (simp add: ltrim_lines rtrim_lines)
  moreover have "set (rev (dropWhile (\<lambda>l. l = []) (rev ?a))) \<subseteq> set ls"
    using set_dropWhile_subset [of "\<lambda>l. l = []" "rev ?a"] a by auto
  ultimately show ?thesis by blast
qed

lemma trimmed_ensureTerminalPunctuation: "trimmed l \<Longrightarrow> trimmed (ensureTerminalPunctuation U l)"
proof (cases "l = []")
  case True
  then show ?thesis by (simp add: ensureTerminalPunctuation_def trimmed_def)
next
  case False
  have "\<not> js_space 12290" by (simp add: js_space_def)
  assume "trimmed l"
  then show ?thesis
    using False \<open>\<not> js_space 12290\<close> ensureTerminalPunctuation_cases [of U l] by (auto simp: trimmed_def)
qed

lemma ensureTerminalPunctuation_newline: "10 \<notin> set l \<Longrightarrow> 10 \<notin> set (ensureTerminalPunctuation U l)"
  using ensureTerminalPunctuation_cases [of U l] by auto

definition close_line :: "ucd \<Rightarrow> jsstr \<Rightarrow> jsstr" where
  "close_line U line =
     (let trimmed = trim line in if trimmed \<noteq> [] then ensureTerminalPunctuation U trimmed else [])"

lemma close_line_facts:
  assumes "ucd_P U 12290" and "10 \<notin> set line"
  shows "trimmed (close_line U line) \<and> 10 \<notin> set (close_line U line)
    \<and> (close_line U line = [] \<or> closed_line U (close_line U line))"
proof (cases "trim line = []")
  case False
  have "10 \<notin> set (trim line)" using assms(2) set_trim by blast
  then show ?thesis
    using False ensureTerminalPunctuation_closed [OF assms(1) False]
      trimmed_ensureTerminalPunctuation [OF trimmed_trim] ensureTerminalPunctuation_newline
    by (simp add: close_line_def)
qed (simp add: close_line_def trimmed_def)

lemma byLine_closed:
  assumes "ucd_P U 12290"
    and "line \<in> set (split_char 10 (ensureTerminalPunctuationByLine U text))"
  shows "line = [] \<or> closed_line U line"
proof (cases "text = []")
  case True
  then show ?thesis using assms(2) by (simp add: ensureTerminalPunctuationByLine_def)
next
  case False
  let ?ls = "map (close_line U) (split_char 10 text)"
  have facts: "\<forall>l\<in>set ?ls. trimmed l \<and> 10 \<notin> set l \<and> (l = [] \<or> closed_line U l)"
    using close_line_facts [OF assms(1)] split_char_pieces by fastforce
  obtain ms where ms: "trim (join_with [10] ?ls) = join_with [10] ms" "set ms \<subseteq> set ?ls"
    using trim_lines_subset [of ?ls] facts by blast
  have eq: "ensureTerminalPunctuationByLine U text = join_with [10] ms"
    using False ms(1) by (simp add: ensureTerminalPunctuationByLine_def close_line_def [abs_def])
  show ?thesis
  proof (cases "ms = []")
    case True
    then show ?thesis using assms(2) eq by simp
  next
    case False
    then have "split_char 10 (join_with [10] ms) = ms"
      using facts ms(2) by (intro split_join_char) auto
    then show ?thesis using assms(2) eq facts ms(2) by auto
  qed
qed

lemma trimmed_byLine: "trimmed (ensureTerminalPunctuationByLine U text)"
  by (cases "text = []") (auto simp: ensureTerminalPunctuationByLine_def trimmed_def dest: trim_hd trim_last)

lemma collapse_other:
  "plain Q \<Longrightarrow> no_adjacent P s \<Longrightarrow> (\<And>c. P c \<Longrightarrow> \<not> Q c) \<Longrightarrow>
     (\<And>r. f r \<noteq> [] \<and> (\<forall>c\<in>set (f r). \<not> P c)) \<Longrightarrow>
     no_adjacent P (rx_replace u (RxRep True 2 None (RxCls Q)) (\<lambda>s m. f (m_text s m)) s)"
  using no_adjacent_replace_other [of P s Q f 2] by (simp add: rx_replace_runs)

lemma collapse_same:
  "plain P \<Longrightarrow> no_adjacent P (rx_replace u (RxRep True 2 None (RxCls P)) (to_text [c]) s)"
  by (simp add: rx_replace_to_text_runs no_adjacent_collapse)

lemma collapse_other_text:
  "plain Q \<Longrightarrow> no_adjacent P s \<Longrightarrow> (\<And>c. P c \<Longrightarrow> \<not> Q c) \<Longrightarrow> \<not> P c \<Longrightarrow>
     no_adjacent P (rx_replace u (RxRep True 2 None (RxCls Q)) (to_text [c]) s)"
  using collapse_other [of Q P s "\<lambda>_. [c]" u] by (simp add: to_text_def [abs_def])

lemma mixed_marks_facts: "mixed_marks r \<noteq> [] \<and> set (mixed_marks r) \<subseteq> {65311, 65281}"
  by (simp add: mixed_marks_def Let_def)

section \<open>Properties\<close>

text \<open>C37: Whatever the input, every non-empty line the normaliser returns ends in punctuation (past
  trailing closing quotes and brackets), so that the voice model sees complete sentences. The one fact
  used of the Unicode tables is that the ideographic full stop is punctuation.\<close>
theorem normalizeTtsText_lines_closed:
  assumes "ucd_P U 12290"
  shows "list_all (\<lambda>line. line = [] \<or> closed_line U line) (split_char 10 (normalizeTtsText U text))"
  unfolding normalizeTtsText_def Let_def case_prod_beta list_all_iff using byLine_closed [OF assms] by blast

text \<open>Tables for the ASCII range and the marks the code inserts.\<close>

definition basic_ucd :: ucd where
  "basic_ucd = \<lparr>ucd_C = (\<lambda>c. c < 32 \<or> c = 127),
     ucd_P = one_of [33, 34, 35, 37, 38, 39, 40, 41, 42, 44, 45, 46, 47, 58, 59, 63, 64, 91, 92, 93, 95,
       123, 125, 12290, 65281, 65292, 65311]\<rparr>"

theorem normalizeTtsText_lines_closed_witness:
  "ucd_P basic_ucd 12290 \<and>
     list_all (\<lambda>line. line = [] \<or> closed_line basic_ucd line)
       (split_char 10 (normalizeTtsText basic_ucd (js ''hi'')))"
proof -
  have h: "ucd_P basic_ucd 12290" by (simp add: basic_ucd_def one_of_def)
  show ?thesis using h normalizeTtsText_lines_closed [OF h] by blast
qed

text \<open>The spacing pass leaves no two spaces side by side and no blank at either end.\<close>
theorem normalizeSpaces_normal:
  "no_adjacent (is_char 32) (normalizeSpaces text) \<and> trim (normalizeSpaces text) = normalizeSpaces text"
  unfolding normalizeSpaces_def Let_def
  by (simp add: no_adjacent_trim collapse_same)

text \<open>The punctuation pass leaves no two full stops (ideographic or full-width) and no two commas
  side by side: the later rules of the pass do not bring back what the earlier ones collapsed.\<close>
theorem normalizeRepeatedPunctuation_collapsed:
  "no_adjacent (one_of [12290, 65294]) (normalizeRepeatedPunctuation text)
     \<and> no_adjacent (one_of [65292, 44]) (normalizeRepeatedPunctuation text)"
proof -
  define s2 where "s2 = rx_replace True (RxRep True 2 None (RxCls (one_of [12290, 65294]))) (to_text [12290])
    (rx_replace True ELLIPSIS_RE (to_text [12290]) text)"
  define s3 where "s3 = rx_replace True (RxRep True 2 None (RxCls (one_of [65292, 44]))) (to_text [65292]) s2"
  have step: "no_adjacent (one_of cs) (normalizeRepeatedPunctuation text)"
    if na: "no_adjacent (one_of cs) s3"
      and cs: "\<forall>c\<in>set cs. c \<notin> {33, 63, 65281, 65311}" for cs
  proof -
    have marks: "mixed_marks r \<noteq> [] \<and> (\<forall>c\<in>set (mixed_marks r). \<not> one_of cs c)" for r
      using mixed_marks_facts [of r] cs by (auto simp: one_of_def)
    have dis: "one_of cs c \<Longrightarrow> \<not> one_of ds c" if "set ds \<subseteq> {33, 63, 65281, 65311}" for ds c
      using cs that by (auto simp: one_of_def)
    have ins: "\<not> one_of cs 65281" "\<not> one_of cs 65311" using cs by (auto simp: one_of_def)
    have pl: "plain (one_of ds)" if "set ds \<subseteq> {33, 63, 65281, 65311}" for ds
      using that by (intro plain_one_of) auto
    have s4: "no_adjacent (one_of cs) (rx_replace True (RxRep True 2 None (RxCls (one_of [33, 65281])))
        (to_text [65281]) s3)" (is "no_adjacent _ ?s4")
      by (rule collapse_other_text [OF pl na dis ins(1)]) auto
    have s5: "no_adjacent (one_of cs) (rx_replace True (RxRep True 2 None (RxCls (one_of [63, 65311])))
        (to_text [65311]) ?s4)" (is "no_adjacent _ ?s5")
      by (rule collapse_other_text [OF pl s4 dis ins(2)]) auto
    have "no_adjacent (one_of cs) (rx_replace True (RxRep True 2 None (RxCls (one_of [33, 63, 65281, 65311])))
        (\<lambda>s m. mixed_marks (m_text s m)) ?s5)"
      by (rule collapse_other [OF pl s5 dis marks]) auto
    then show ?thesis by (simp add: normalizeRepeatedPunctuation_def Let_def s2_def s3_def)
  qed
  have "no_adjacent (one_of [12290, 65294]) s2"
    unfolding s2_def by (rule collapse_same) simp
  then have "no_adjacent (one_of [12290, 65294]) s3"
    unfolding s3_def by (intro collapse_other_text) (simp_all add: one_of_def, auto simp: one_of_def)
  moreover have "no_adjacent (one_of [65292, 44]) s3"
    unfolding s3_def by (rule collapse_same) simp
  ultimately show ?thesis using step by simp
qed

text \<open>Cleanup removes every carriage return, ideographic space, zero-width character and byte-order
  mark, for any Unicode tables.\<close>
theorem baseCleanup_clean:
  "list_all (\<lambda>c. c \<noteq> 13 \<and> c \<noteq> 12288 \<and> (c < 8203 \<or> 8205 < c) \<and> c \<noteq> 65279) (baseCleanup U text)"
proof -
  have plainZ: "plain (\<lambda>c. (8203 \<le> c \<and> c \<le> 8205) \<or> c = 65279)" by (auto simp: plain_def)
  have keep: "set (concat (filter Q (code_points t))) \<subseteq> set t" for Q t
  proof -
    have "set (concat (filter Q (code_points t))) \<subseteq> set (concat (code_points t))" by auto
    then show ?thesis by (simp only: concat_code_points)
  qed
  show ?thesis
    unfolding baseCleanup_def Let_def ZERO_WIDTH_RE_def list_all_iff
    by (rule ballI, drule subsetD [OF keep])
       (auto simp: rx_replace_to_text_cls plainZ is_char_def split: if_splits)
qed

text \<open>Restoring the protected spans does not always undo protecting them: a tag that contains a
  mention is protected as a span that itself contains a placeholder, and since placeholders are restored
  in ascending order the inner one stays. For the input \<open>#@b\<close> the text handed to the voice model is
  the bare placeholder \<open>#___PROT0___\<close>.\<close>
theorem normalizeTtsText_placeholder_leaks:
  "normalizeTtsText basic_ucd (js ''#@b'') = js ''#___PROT0___''"
  by code_simp

end
