(* ===== verification/Uri.thy ===== *)
theory Uri
  imports Prelude
begin

text \<open>
  \<open>encodeURIComponent\<close> and \<open>decodeURIComponent\<close> of the language, which the model store uses for managed
  paths and download addresses: percent-encoded UTF-8 of each character, with a \<open>URIError\<close> for a lone
  surrogate and for malformed input. The lemmas end in the round trip on well-formed strings.
\<close>

section \<open>Encoding\<close>

definition uri_unreserved :: "nat \<Rightarrow> bool" where
  "uri_unreserved c \<longleftrightarrow> is_alnum c \<or> c \<in> set [45, 95, 46, 33, 126, 42, 39, 40, 41]"

definition hex_digit :: "nat \<Rightarrow> nat" where
  "hex_digit n = (if n < 10 then 48 + n else 55 + n)"

definition pct :: "nat \<Rightarrow> jsstr" where
  "pct b = [37, hex_digit (b div 16), hex_digit (b mod 16)]"

definition utf8_bytes :: "nat \<Rightarrow> nat list" where
  "utf8_bytes c =
     (if c < 128 then [c]
      else if c < 2048 then [192 + c div 64, 128 + c mod 64]
      else if c < 65536 then [224 + c div 4096, 128 + (c div 64) mod 64, 128 + c mod 64]
      else [240 + c div 262144, 128 + (c div 4096) mod 64, 128 + (c div 64) mod 64, 128 + c mod 64])"

definition lone_surrogate :: "jsstr \<Rightarrow> bool" where
  "lone_surrogate ch \<longleftrightarrow> (case ch of [c] \<Rightarrow> high_surrogate c \<or> low_surrogate c | _ \<Rightarrow> False)"

definition uri_char :: "jsstr \<Rightarrow> jsstr" where
  "uri_char ch = (let c = char_code ch in if uri_unreserved c then [c] else concat (map pct (utf8_bytes c)))"

definition encodeURIComponent :: "jsstr \<Rightarrow> jsstr result" where
  "encodeURIComponent s =
     (if list_ex lone_surrogate (code_points s) then Inl URIError
      else Inr (concat (map uri_char (code_points s))))"

section \<open>Decoding\<close>

definition hex_val :: "nat \<Rightarrow> nat option" where
  "hex_val c =
     (if is_digit c then Some (c - 48)
      else if 65 \<le> c \<and> c \<le> 70 then Some (c - 55)
      else if 97 \<le> c \<and> c \<le> 102 then Some (c - 87)
      else None)"

text \<open>One \<open>%XX\<close> at the head of the input.\<close>

fun pct_byte :: "jsstr \<Rightarrow> (nat \<times> jsstr) option" where
  "pct_byte (p # a # b # s) =
     (if p = 37 then (case (hex_val a, hex_val b) of
          (Some x, Some y) \<Rightarrow> Some (16 * x + y, s) | _ \<Rightarrow> None)
      else None)"
| "pct_byte _ = None"

lemma pct_byte_length: "pct_byte s = Some (b, t) \<Longrightarrow> length t < length s"
  by (induction s rule: pct_byte.induct) (auto split: if_splits option.splits)

text \<open>A continuation byte \<open>10xxxxxx\<close>.\<close>

definition cont_byte :: "jsstr \<Rightarrow> (nat \<times> jsstr) option" where
  "cont_byte s = (case pct_byte s of
     Some (b, t) \<Rightarrow> if 128 \<le> b \<and> b < 192 then Some (b - 128, t) else None | None \<Rightarrow> None)"

lemma cont_byte_length: "cont_byte s = Some (b, t) \<Longrightarrow> length t < length s"
  by (auto simp: cont_byte_def split: option.splits if_splits dest: pct_byte_length)

fun cont_bytes :: "nat \<Rightarrow> nat \<Rightarrow> jsstr \<Rightarrow> (nat \<times> jsstr) option" where
  "cont_bytes 0 v s = Some (v, s)"
| "cont_bytes (Suc n) v s = (case cont_byte s of
     None \<Rightarrow> None | Some (b, t) \<Rightarrow> cont_bytes n (v * 64 + b) t)"

definition utf16_units :: "nat \<Rightarrow> jsstr" where
  "utf16_units c =
     (if c < 65536 then [c] else [55296 + (c - 65536) div 1024, 56320 + (c - 65536) mod 1024])"

text \<open>
  The character a percent sequence stands for: the lead byte gives the number of bytes; overlong forms,
  surrogates and values past \<open>10FFFF\<close> are malformed.
\<close>

definition decode_char :: "jsstr \<Rightarrow> (jsstr \<times> jsstr) option" where
  "decode_char s = (case pct_byte s of
     None \<Rightarrow> None
   | Some (b, t) \<Rightarrow>
       if b < 128 then Some ([b], t)
       else
         (let r = (if 192 \<le> b \<and> b < 224 then map_option (\<lambda>x. (128, x)) (cont_bytes 1 (b - 192) t)
                   else if 224 \<le> b \<and> b < 240 then map_option (\<lambda>x. (2048, x)) (cont_bytes 2 (b - 224) t)
                   else if 240 \<le> b \<and> b < 248 then map_option (\<lambda>x. (65536, x)) (cont_bytes 3 (b - 240) t)
                   else None)
          in case r of None \<Rightarrow> None
             | Some (least, c, u) \<Rightarrow>
                 if least \<le> c \<and> c \<le> 1114111 \<and> \<not> (55296 \<le> c \<and> c \<le> 57343)
                 then Some (utf16_units c, u) else None))"

lemma cont_bytes_length: "cont_bytes n v s = Some (c, t) \<Longrightarrow> length t \<le> length s"
proof (induction n arbitrary: v s)
  case (Suc n)
  then show ?case
    by (fastforce split: option.splits dest: cont_byte_length)
qed simp

lemma decode_char_length: "decode_char s = Some (u, t) \<Longrightarrow> length t < length s"
  by (auto simp: decode_char_def Let_def simp del: cont_bytes.simps One_nat_def
      split: option.splits if_splits dest!: pct_byte_length cont_bytes_length)

function decode_from :: "jsstr \<Rightarrow> jsstr result" where
  "decode_from [] = Inr []"
| "decode_from (c # s) =
     (if c = 37
      then (case decode_char (c # s) of None \<Rightarrow> Inl URIError
            | Some (u, t) \<Rightarrow> bindR (decode_from t) (\<lambda>r. Inr (u @ r)))
      else bindR (decode_from s) (\<lambda>r. Inr (c # r)))"
  by pat_completeness auto
termination
  by (relation "measure length") (auto dest: decode_char_length)

definition decodeURIComponent :: "jsstr \<Rightarrow> jsstr result" where
  "decodeURIComponent s = decode_from s"

declare decode_from.simps [simp del]

section \<open>Round trip\<close>

lemma hex_val_digit: "n < 16 \<Longrightarrow> hex_val (hex_digit n) = Some n"
  by (auto simp: hex_val_def hex_digit_def is_digit_def)

lemma pct_byte_pct: "b < 256 \<Longrightarrow> pct_byte (pct b @ s) = Some (b, s)"
  by (simp add: pct_def hex_val_digit div_less_iff_less_mult)

lemma cont_byte_pct: "x < 64 \<Longrightarrow> cont_byte (pct (128 + x) @ s) = Some (x, s)"
  by (simp add: cont_byte_def pct_byte_pct)

lemma cont_bytes_1: "x < 64 \<Longrightarrow> cont_bytes 1 v (pct (128 + x) @ s) = Some (v * 64 + x, s)"
  by (simp add: cont_byte_pct)

lemma cont_bytes_2:
  "x < 64 \<Longrightarrow> y < 64 \<Longrightarrow>
     cont_bytes 2 v (pct (128 + x) @ pct (128 + y) @ s) = Some ((v * 64 + x) * 64 + y, s)"
  by (simp add: cont_byte_pct numeral_2_eq_2)

lemma cont_bytes_3:
  "x < 64 \<Longrightarrow> y < 64 \<Longrightarrow> z < 64 \<Longrightarrow>
     cont_bytes 3 v (pct (128 + x) @ pct (128 + y) @ pct (128 + z) @ s)
       = Some (((v * 64 + x) * 64 + y) * 64 + z, s)"
  by (simp add: cont_byte_pct numeral_3_eq_3)

text \<open>A code point is the value of its UTF-8 digits in base 64.\<close>

lemma base64_split_2: "(c div 64) * 64 + c mod 64 = (c::nat)"
  by simp

lemma base64_split_3: "((c div 4096) * 64 + (c div 64) mod 64) * 64 + c mod 64 = (c::nat)"
proof -
  have "c div 4096 = c div 64 div 64" by (simp add: div_mult2_eq [symmetric])
  then show ?thesis by simp
qed

lemma base64_split_4:
  "(((c div 262144) * 64 + (c div 4096) mod 64) * 64 + (c div 64) mod 64) * 64 + c mod 64 = (c::nat)"
proof -
  have "c div 262144 = c div 4096 div 64" by (simp add: div_mult2_eq [symmetric])
  then have "(c div 262144) * 64 + (c div 4096) mod 64 = c div 4096" by simp
  then show ?thesis using base64_split_3 by simp
qed

lemma decode_char_utf8:
  assumes "c \<le> 1114111" and "\<not> (55296 \<le> c \<and> c \<le> 57343)"
  shows "decode_char (concat (map pct (utf8_bytes c)) @ s) = Some (utf16_units c, s)"
proof -
  consider "c < 128" | "128 \<le> c" "c < 2048" | "2048 \<le> c" "c < 65536" | "65536 \<le> c" by linarith
  then show ?thesis
  proof cases
    case 1
    then show ?thesis by (simp add: decode_char_def utf8_bytes_def pct_byte_pct utf16_units_def)
  next
    case 2
    have b: "192 + c div 64 < 224" using 2 by (simp add: div_less_iff_less_mult)
    have v: "cont_bytes 1 (c div 64) (pct (128 + c mod 64) @ s) = Some (c, s)"
      using cont_bytes_1 [of "c mod 64" "c div 64" s] by (simp only: base64_split_2 mod_less_divisor zero_less_numeral simp_thms)
    show ?thesis using 2 b v assms
      by (simp add: decode_char_def utf8_bytes_def pct_byte_pct Let_def)
  next
    case 3
    have b: "224 + c div 4096 < 240" using 3 by (simp add: div_less_iff_less_mult)
    have v: "cont_bytes 2 (c div 4096) (pct (128 + (c div 64) mod 64) @ pct (128 + c mod 64) @ s) = Some (c, s)"
      using cont_bytes_2 [of "(c div 64) mod 64" "c mod 64" "c div 4096" s]
      by (simp only: base64_split_3 mod_less_divisor zero_less_numeral simp_thms)
    show ?thesis using 3 b v assms
      by (simp add: decode_char_def utf8_bytes_def pct_byte_pct Let_def)
  next
    case 4
    have b: "240 + c div 262144 < 248" using 4 assms(1) by (simp add: div_less_iff_less_mult)
    have v: "cont_bytes 3 (c div 262144) (pct (128 + (c div 4096) mod 64) @ pct (128 + (c div 64) mod 64)
        @ pct (128 + c mod 64) @ s) = Some (c, s)"
      using cont_bytes_3 [of "(c div 4096) mod 64" "(c div 64) mod 64" "c mod 64" "c div 262144" s]
      by (simp only: base64_split_4 mod_less_divisor zero_less_numeral simp_thms)
    show ?thesis using 4 b v assms
      by (simp add: decode_char_def utf8_bytes_def pct_byte_pct Let_def)
  qed
qed

text \<open>A character of a string whose code units are 16 bits wide.\<close>

definition good_char :: "jsstr \<Rightarrow> bool" where
  "good_char ch \<longleftrightarrow>
     (case ch of [c] \<Rightarrow> c < 65536 \<and> \<not> high_surrogate c \<and> \<not> low_surrogate c
      | [c, d] \<Rightarrow> high_surrogate c \<and> low_surrogate d | _ \<Rightarrow> False)"

lemma good_char_code:
  assumes "good_char ch"
  shows "char_code ch \<le> 1114111 \<and> \<not> (55296 \<le> char_code ch \<and> char_code ch \<le> 57343)
    \<and> utf16_units (char_code ch) = ch"
proof -
  have pair: "utf16_units (code_point c d) = [c, d] \<and> 65536 \<le> code_point c d \<and> code_point c d \<le> 1114111"
    if "high_surrogate c" "low_surrogate d" for c d
  proof -
    define x y where xy: "x = c - 55296" "y = d - 56320"
    have x: "c = 55296 + x" "x < 1024" using that(1) by (auto simp: high_surrogate_def xy)
    have y: "d = 56320 + y" "y < 1024" using that(2) by (auto simp: low_surrogate_def xy)
    have "code_point c d = 65536 + (x * 1024 + y)" by (simp add: code_point_def x y)
    then show ?thesis using x y by (simp add: utf16_units_def)
  qed
  consider c where "ch = [c]" "c < 65536" "\<not> high_surrogate c" "\<not> low_surrogate c"
    | c d where "ch = [c, d]" "high_surrogate c" "low_surrogate d"
    using assms by (auto simp: good_char_def split: list.splits)
  then show ?thesis
  proof cases
    case 1
    then show ?thesis by (auto simp: utf16_units_def high_surrogate_def low_surrogate_def)
  next
    case 2
    then show ?thesis using pair [OF 2(2,3)] by simp
  qed
qed

lemma decode_pct_head:
  "decode_char s = Some (u, t) \<Longrightarrow> decode_from s = bindR (decode_from t) (\<lambda>r. Inr (u @ r))"
proof -
  assume d: "decode_char s = Some (u, t)"
  then obtain c s' where s: "s = c # s'" by (cases s) (auto simp: decode_char_def)
  with d have "c = 37"
    by (auto simp: decode_char_def split: option.splits elim!: pct_byte.elims split: if_splits)
  then show ?thesis using d s by (simp add: decode_from.simps)
qed

lemma decode_uri_char:
  assumes "good_char ch"
  shows "decode_from (uri_char ch @ s) = bindR (decode_from s) (\<lambda>r. Inr (ch @ r))"
proof (cases "uri_unreserved (char_code ch)")
  case True
  have code: "char_code ch < 128" and n37: "char_code ch \<noteq> 37"
    using True by (auto simp: uri_unreserved_def is_alnum_def is_alpha_def is_upper_def is_lower_def is_digit_def)
  have ch: "ch = [char_code ch]" using good_char_code [OF assms] code by (simp add: utf16_units_def)
  have "uri_char ch = [char_code ch]" using True by (simp add: uri_char_def)
  then have "decode_from (uri_char ch @ s) = bindR (decode_from s) (\<lambda>r. Inr ([char_code ch] @ r))"
    using n37 by (simp add: decode_from.simps)
  then show ?thesis using ch by simp
next
  case False
  then show ?thesis
    using good_char_code [OF assms] decode_pct_head [OF decode_char_utf8] by (simp add: uri_char_def)
qed

lemma decode_uri_chars: "\<forall>ch\<in>set chs. good_char ch \<Longrightarrow> decode_from (concat (map uri_char chs)) = Inr (concat chs)"
  by (induction chs) (auto simp: decode_uri_char decode_from.simps)

lemma good_code_points:
  "\<forall>c\<in>set s. c < 65536 \<Longrightarrow> \<not> list_ex lone_surrogate (code_points s) \<Longrightarrow> \<forall>ch\<in>set (code_points s). good_char ch"
  by (induction s rule: code_points.induct) (auto simp: good_char_def lone_surrogate_def split: if_splits)

theorem decode_encode:
  assumes "\<forall>c\<in>set s. c < 65536" and "encodeURIComponent s = Inr t"
  shows "decodeURIComponent t = Inr s"
  using assms decode_uri_chars [OF good_code_points [OF assms(1)]]
  by (auto simp: encodeURIComponent_def decodeURIComponent_def concat_code_points split: if_splits)

text \<open>The encoded text is printable ASCII without slashes or blanks.\<close>

lemma hex_digit_range: "n < 16 \<Longrightarrow> is_alnum (hex_digit n)"
  by (auto simp: hex_digit_def is_alnum_def is_alpha_def is_upper_def is_digit_def)

lemma utf8_bytes_byte: "c \<le> 1114111 \<Longrightarrow> \<forall>b\<in>set (utf8_bytes c). b < 256"
  by (auto simp: utf8_bytes_def div_less_iff_less_mult)

lemma pct_chars: "b < 256 \<Longrightarrow> c \<in> set (pct b) \<Longrightarrow> is_alnum c \<or> c = 37"
  by (auto simp: pct_def div_less_iff_less_mult intro: hex_digit_range)

lemma uri_char_chars: "good_char ch \<Longrightarrow> c \<in> set (uri_char ch) \<Longrightarrow> uri_unreserved c \<or> c = 37"
  using good_char_code [of ch] utf8_bytes_byte [of "char_code ch"] pct_chars
  by (fastforce simp: uri_char_def uri_unreserved_def Let_def split: if_splits)

lemma encode_chars:
  assumes "\<forall>c\<in>set s. c < 65536" and "encodeURIComponent s = Inr t" and "c \<in> set t"
  shows "uri_unreserved c \<or> c = 37"
  using assms good_code_points [OF assms(1)]
  by (auto simp: encodeURIComponent_def split: if_splits dest!: uri_char_chars [rotated])

end
