(* ===== verification/ModelStore.thy ===== *)
theory ModelStore
  imports JsRegex Uri
begin

text \<open>
  The browser model store (\<open>browser_model_store.js\<close>): managed keys and paths, the origin-private file
  system it keeps the ONNX models in, and the download of the model repositories.

  The file system is a tree of directories and files; a handle is the list of names that leads to a node
  from the origin's root. The network is a parameter: what the n-th request answers, given its address
  and authorisation. A download that throws leaves behind what it had written, so every operation
  returns the state with its result.
\<close>

section \<open>Constants\<close>

definition MANAGED_SCHEME :: jsstr where
  "MANAGED_SCHEME = js ''managed://''"

definition DEFAULT_EXTERNAL_MODEL_KEY :: jsstr where
  "DEFAULT_EXTERNAL_MODEL_KEY = js ''browser-onnx-external''"

definition INTERNAL_ROOT_DIR_NAME :: jsstr where
  "INTERNAL_ROOT_DIR_NAME = js ''nano-reader-browser-model-store''"

definition HF_API_BASE :: jsstr where
  "HF_API_BASE = js ''https://huggingface.co/api/models/''"

definition HF_RESOLVE_BASE :: jsstr where
  "HF_RESOLVE_BASE = js ''https://huggingface.co/''"

record repo_spec =
  repoId :: jsstr
  localDirName :: jsstr
  requiredFiles :: "jsstr list"

definition MODEL_REPOS :: "repo_spec list" where
  "MODEL_REPOS =
     [\<lparr>repoId = js ''OpenMOSS-Team/MOSS-TTS-Nano-100M-ONNX'',
       localDirName = js ''MOSS-TTS-Nano-100M-ONNX'',
       requiredFiles = map js [''browser_poc_manifest.json'', ''tts_browser_onnx_meta.json'',
         ''tokenizer.model'', ''moss_tts_prefill.onnx'', ''moss_tts_decode_step.onnx'',
         ''moss_tts_local_decoder.onnx'', ''moss_tts_local_cached_step.onnx'',
         ''moss_tts_local_fixed_sampled_frame.onnx'', ''moss_tts_global_shared.data'',
         ''moss_tts_local_shared.data'']\<rparr>,
      \<lparr>repoId = js ''OpenMOSS-Team/MOSS-Audio-Tokenizer-Nano-ONNX'',
       localDirName = js ''MOSS-Audio-Tokenizer-Nano-ONNX'',
       requiredFiles = map js [''codec_browser_onnx_meta.json'', ''moss_audio_tokenizer_encode.onnx'',
         ''moss_audio_tokenizer_encode.data'', ''moss_audio_tokenizer_decode_full.onnx'',
         ''moss_audio_tokenizer_decode_step.onnx'', ''moss_audio_tokenizer_decode_shared.data'']\<rparr>]"

section \<open>Paths and keys\<close>

text \<open>The loop that resolves \<open>.\<close> and \<open>..\<close>: a \<open>..\<close> with nothing to leave is dropped.\<close>

fun resolve_parts :: "jsstr list \<Rightarrow> jsstr list \<Rightarrow> jsstr list" where
  "resolve_parts resolved [] = resolved"
| "resolve_parts resolved (part # parts) =
     (if part = [46] then resolve_parts resolved parts
      else if part = [46, 46] then resolve_parts (butlast resolved) parts
      else resolve_parts (resolved @ [part]) parts)"

definition path_parts :: "jsstr \<Rightarrow> jsstr list" where
  "path_parts relativePath =
     (let s1 = rx_replace False (RxCls (is_char 92)) (to_text [47]) relativePath;
          s2 = rx_replace1 False (rx_seq [RxBol, rx_plus (RxCls (is_char 47))]) (to_text []) s1;
          s3 = rx_replace False (rx_plus (RxCls (is_char 47))) (to_text [47]) s2
      in filter (\<lambda>p. p \<noteq> []) (split_char 47 s3))"

definition normalizeRelativePath :: "jsstr \<Rightarrow> jsstr" where
  "normalizeRelativePath relativePath = join_with [47] (resolve_parts [] (path_parts relativePath))"

definition normalizeManagedKey :: "jsstr \<Rightarrow> jsstr" where
  "normalizeManagedKey key =
     (let normalized = trim (if key = [] then DEFAULT_EXTERNAL_MODEL_KEY else key)
      in if normalized = [] then DEFAULT_EXTERNAL_MODEL_KEY else normalized)"

definition getManagedDirectoryName :: "jsstr \<Rightarrow> jsstr" where
  "getManagedDirectoryName key =
     rx_replace False (rx_plus (RxCls (is_char 95))) (to_text [95])
       (rx_replace False (RxCls (\<lambda>c. \<not> (is_alnum c \<or> one_of [46, 95, 45] c))) (to_text [95])
         (normalizeManagedKey key))"

definition getManagedStorageLabel :: "jsstr \<Rightarrow> jsstr" where
  "getManagedStorageLabel key = js ''browser-managed:'' @ normalizeManagedKey key"

definition isManagedModelPath :: "jsstr \<Rightarrow> bool" where
  "isManagedModelPath pathValue = starts_with (lower (trim pathValue)) MANAGED_SCHEME"

definition createManagedModelPath :: "jsstr \<Rightarrow> jsstr result" where
  "createManagedModelPath key =
     bindR (encodeURIComponent (normalizeManagedKey key)) (\<lambda>t. Inr (MANAGED_SCHEME @ t))"

definition parseManagedModelKey :: "jsstr \<Rightarrow> jsstr option result" where
  "parseManagedModelKey pathValue =
     (if \<not> isManagedModelPath pathValue then Inr None
      else bindR (decodeURIComponent (drop (length MANAGED_SCHEME) (trim pathValue))) (\<lambda>k. Inr (Some k)))"

section \<open>The origin-private file system\<close>

datatype fsnode = FFile "nat list" | FDir "jsstr \<Rightarrow> fsnode option"

primrec tree_lookup :: "fsnode \<Rightarrow> jsstr list \<Rightarrow> fsnode option" where
  "tree_lookup (FFile b) p = (if p = [] then Some (FFile b) else None)"
| "tree_lookup (FDir m) p =
     (case p of [] \<Rightarrow> Some (FDir m)
      | n # ns \<Rightarrow> (case map_option tree_lookup (m n) of None \<Rightarrow> None | Some f \<Rightarrow> f ns))"

text \<open>The node at a path replaced, where its directory exists; nothing happens elsewhere.\<close>

fun tree_update :: "jsstr list \<Rightarrow> fsnode \<Rightarrow> fsnode \<Rightarrow> fsnode" where
  "tree_update [] x t = x"
| "tree_update (n # ns) x (FFile b) = FFile b"
| "tree_update (n # ns) x (FDir m) =
     (if ns = [] then FDir (m(n \<mapsto> x))
      else (case m n of None \<Rightarrow> FDir m | Some t \<Rightarrow> FDir (m(n \<mapsto> tree_update ns x t))))"

datatype progress =
    PhaseTree jsstr
  | PhaseDownload jsstr jsstr nat nat jsstr
  | PhaseReuse jsstr

record store =
  fs :: fsnode
  sent :: "(jsstr \<times> jsstr option) list"
  progressLog :: "progress list"

text \<open>A response body: a stream of chunks that ends or breaks off, or a buffer read in one go.\<close>

datatype body = Stream "nat list list" "js_error option" | Buffered "nat list result"

record response =
  ok :: bool
  status :: nat
  rbody :: body
  rjson :: "(jsstr \<times> jsstr) list option result"

record store_env =
  env_storage :: bool
  env_net :: "nat \<Rightarrow> jsstr \<Rightarrow> jsstr option \<Rightarrow> response result"
  env_write :: "nat list \<Rightarrow> js_error option"

type_synonym 'a store_proc = "(store, 'a) proc"

definition NotFoundError :: js_error where
  "NotFoundError = DomException (js ''NotFoundError'')"

definition TypeMismatchError :: js_error where
  "TypeMismatchError = DomException (js ''TypeMismatchError'')"

definition valid_name :: "jsstr \<Rightarrow> bool" where
  "valid_name n \<longleftrightarrow> n \<noteq> [] \<and> n \<noteq> [46] \<and> n \<noteq> [46, 46] \<and> 47 \<notin> set n \<and> 92 \<notin> set n"

text \<open>\<open>FileSystemDirectoryHandle.getDirectoryHandle\<close> and \<open>getFileHandle\<close>.\<close>

definition getDirectoryHandle :: "jsstr list \<Rightarrow> jsstr \<Rightarrow> bool \<Rightarrow> jsstr list store_proc" where
  "getDirectoryHandle dir name create st =
     (if \<not> valid_name name then (Inl TypeError, st)
      else case tree_lookup (fs st) dir of
        Some (FDir m) \<Rightarrow>
          (case m name of
             Some (FDir _) \<Rightarrow> (Inr (dir @ [name]), st)
           | Some (FFile _) \<Rightarrow> (Inl TypeMismatchError, st)
           | None \<Rightarrow> if create
               then (Inr (dir @ [name]), st\<lparr>fs := tree_update (dir @ [name]) (FDir Map.empty) (fs st)\<rparr>)
               else (Inl NotFoundError, st))
      | _ \<Rightarrow> (Inl NotFoundError, st))"

definition getFileHandle :: "jsstr list \<Rightarrow> jsstr \<Rightarrow> bool \<Rightarrow> jsstr list store_proc" where
  "getFileHandle dir name create st =
     (if \<not> valid_name name then (Inl TypeError, st)
      else case tree_lookup (fs st) dir of
        Some (FDir m) \<Rightarrow>
          (case m name of
             Some (FFile _) \<Rightarrow> (Inr (dir @ [name]), st)
           | Some (FDir _) \<Rightarrow> (Inl TypeMismatchError, st)
           | None \<Rightarrow> if create
               then (Inr (dir @ [name]), st\<lparr>fs := tree_update (dir @ [name]) (FFile []) (fs st)\<rparr>)
               else (Inl NotFoundError, st))
      | _ \<Rightarrow> (Inl NotFoundError, st))"

section \<open>Directories and files of the store\<close>

text \<open>\<open>storage.persist()\<close> is best effort: it changes nothing the store reads, and its failure is ignored.\<close>

definition getStorageRootDirectory :: "store_env \<Rightarrow> jsstr list store_proc" where
  "getStorageRootDirectory env =
     (if \<not> env_storage env
      then throwP (Error (js ''Browser-managed storage is not available in this browser context.''))
      else getDirectoryHandle [] INTERNAL_ROOT_DIR_NAME True)"

fun walk_segments :: "jsstr list \<Rightarrow> bool \<Rightarrow> jsstr list \<Rightarrow> jsstr list store_proc" where
  "walk_segments current create [] = retP current"
| "walk_segments current create (segment # segments) =
     bindP (getDirectoryHandle current segment create) (\<lambda>next. walk_segments next create segments)"

definition getDirectoryByRelativePath :: "jsstr list \<Rightarrow> jsstr \<Rightarrow> bool \<Rightarrow> jsstr list store_proc" where
  "getDirectoryByRelativePath root relativePath create =
     walk_segments root create
       (filter (\<lambda>p. p \<noteq> []) (split_char 47 (normalizeRelativePath relativePath)))"

definition getOptionalDirectoryHandleByRelativePath ::
  "jsstr list \<Rightarrow> jsstr \<Rightarrow> jsstr list option store_proc" where
  "getOptionalDirectoryHandleByRelativePath root relativePath =
     catchP (bindP (getDirectoryByRelativePath root relativePath False) (\<lambda>h. retP (Some h)))
       (\<lambda>e. if e = NotFoundError then retP None else throwP e)"

definition getManagedModelRootDirectory ::
  "store_env \<Rightarrow> jsstr \<Rightarrow> bool \<Rightarrow> jsstr list option store_proc" where
  "getManagedModelRootDirectory env key create =
     bindP (getStorageRootDirectory env) (\<lambda>root.
       if create
       then bindP (getDirectoryHandle root (getManagedDirectoryName key) True) (\<lambda>h. retP (Some h))
       else getOptionalDirectoryHandleByRelativePath root (getManagedDirectoryName key))"

record directory_record =
  rec_key :: jsstr
  rec_label :: jsstr
  rec_handle :: "jsstr list"

definition getDirectoryRecord :: "store_env \<Rightarrow> jsstr \<Rightarrow> directory_record option store_proc" where
  "getDirectoryRecord env key =
     (let normalizedKey = normalizeManagedKey key in
      bindP (getManagedModelRootDirectory env normalizedKey False) (\<lambda>handle.
        case handle of None \<Rightarrow> retP None
        | Some h \<Rightarrow> retP (Some \<lparr>rec_key = normalizedKey,
            rec_label = getManagedStorageLabel normalizedKey, rec_handle = h\<rparr>)))"

definition getStoredDirectoryHandle :: "store_env \<Rightarrow> jsstr \<Rightarrow> jsstr list option store_proc" where
  "getStoredDirectoryHandle env key = getManagedModelRootDirectory env (normalizeManagedKey key) False"

definition getDirectoryHandleByManagedPath :: "store_env \<Rightarrow> jsstr \<Rightarrow> bool \<Rightarrow> jsstr list store_proc" where
  "getDirectoryHandleByManagedPath env pathValue create =
     bindP (liftP (parseManagedModelKey pathValue)) (\<lambda>key.
       case key of
         None \<Rightarrow> throwP (Error (js ''Unsupported managed model path: '' @ pathValue))
       | Some k \<Rightarrow>
           if k = [] then throwP (Error (js ''Unsupported managed model path: '' @ pathValue))
           else bindP (getManagedModelRootDirectory env k create) (\<lambda>handle.
             case handle of
               None \<Rightarrow> throwP (Error (js ''Browser-managed ONNX model storage is not initialized yet.''))
             | Some h \<Rightarrow> retP h))"

definition getFileHandleByRelativePath :: "jsstr list \<Rightarrow> jsstr \<Rightarrow> bool \<Rightarrow> jsstr list store_proc" where
  "getFileHandleByRelativePath root relativePath create =
     (let normalized = normalizeRelativePath relativePath in
      if normalized = [] then throwP (Error (js ''Relative file path is empty.''))
      else
        (let segments = filter (\<lambda>p. p \<noteq> []) (split_char 47 normalized);
             fileName = last segments; dirs = butlast segments
         in bindP (if dirs \<noteq> [] then getDirectoryByRelativePath root (join_with [47] dirs) create
                   else retP root)
              (\<lambda>dir. getFileHandle dir fileName create)))"

definition fileExists :: "jsstr list \<Rightarrow> jsstr \<Rightarrow> bool store_proc" where
  "fileExists root relativePath =
     catchP (bindP (getFileHandleByRelativePath root relativePath False) (\<lambda>_. retP True))
       (\<lambda>e. if e = NotFoundError then retP False else throwP e)"

section \<open>Writing and reading\<close>

text \<open>
  What the writable's swap file holds once the body is consumed, or what reading or writing threw. The
  real file is untouched until \<open>close\<close>.
\<close>

fun write_chunks :: "store_env \<Rightarrow> nat list \<Rightarrow> nat list list \<Rightarrow> js_error option \<Rightarrow> nat list result" where
  "write_chunks env acc [] None = Inr acc"
| "write_chunks env acc [] (Some e) = Inl e"
| "write_chunks env acc (c # cs) e =
     (case env_write env c of Some err \<Rightarrow> Inl err | None \<Rightarrow> write_chunks env (acc @ c) cs e)"

definition consume_body :: "store_env \<Rightarrow> body \<Rightarrow> nat list result" where
  "consume_body env b =
     (case b of
        Stream chunks e \<Rightarrow> write_chunks env [] chunks e
      | Buffered r \<Rightarrow> bindR r (\<lambda>c. case env_write env c of Some err \<Rightarrow> Inl err | None \<Rightarrow> Inr c))"

definition writeResponseToFile :: "store_env \<Rightarrow> jsstr list \<Rightarrow> jsstr \<Rightarrow> response \<Rightarrow> unit store_proc" where
  "writeResponseToFile env root relativePath resp =
     bindP (getFileHandleByRelativePath root relativePath True) (\<lambda>file.
       bindP (liftP (consume_body env (rbody resp))) (\<lambda>content.
         modifyP (\<lambda>st. st\<lparr>fs := tree_update file (FFile content) (fs st)\<rparr>)))"

definition readBufferFromManagedPath :: "store_env \<Rightarrow> jsstr \<Rightarrow> jsstr \<Rightarrow> nat list store_proc" where
  "readBufferFromManagedPath env rootPath relativePath =
     bindP (getDirectoryHandleByManagedPath env rootPath False) (\<lambda>handle.
       bindP (getFileHandleByRelativePath handle relativePath False) (\<lambda>file.
         (\<lambda>st. case tree_lookup (fs st) file of
            Some (FFile b) \<Rightarrow> (Inr b, st) | _ \<Rightarrow> (Inl NotFoundError, st))))"

text \<open>\<open>file.text()\<close> decodes the bytes as UTF-8; the decoder is a parameter.\<close>

definition readTextFromManagedPath ::
  "store_env \<Rightarrow> (nat list \<Rightarrow> jsstr) \<Rightarrow> jsstr \<Rightarrow> jsstr \<Rightarrow> jsstr store_proc" where
  "readTextFromManagedPath env utf8 rootPath relativePath =
     bindP (readBufferFromManagedPath env rootPath relativePath) (\<lambda>b. retP (utf8 b))"

section \<open>Fetching repositories\<close>

definition fetchWithOptionalToken :: "store_env \<Rightarrow> jsstr \<Rightarrow> jsstr \<Rightarrow> response store_proc" where
  "fetchWithOptionalToken env url accessToken st =
     (let normalizedToken = trim accessToken;
          auth = (if normalizedToken = [] then None else Some (js ''Bearer '' @ normalizedToken))
      in (env_net env (length (sent st)) url auth, st\<lparr>sent := sent st @ [(url, auth)]\<rparr>))"

definition fetchRepoTree :: "store_env \<Rightarrow> jsstr \<Rightarrow> jsstr \<Rightarrow> (jsstr \<times> jsstr) list store_proc" where
  "fetchRepoTree env repo accessToken =
     bindP (fetchWithOptionalToken env (HF_API_BASE @ repo @ js ''/tree/main?recursive=1'') accessToken)
       (\<lambda>resp.
         if \<not> ok resp
         then throwP (Error (js ''Failed to fetch Hugging Face repo tree for '' @ repo @ js '' (status=''
                @ nat_str (status resp) @ js '').''))
         else bindP (liftP (rjson resp)) (\<lambda>data.
           case data of
             None \<Rightarrow> throwP (Error (js ''Unexpected Hugging Face repo tree response for '' @ repo @ js ''.''))
           | Some rows \<Rightarrow> retP rows))"

definition note_row :: "jsstr list \<Rightarrow> (jsstr \<rightharpoonup> jsstr) \<Rightarrow> jsstr \<times> jsstr \<Rightarrow> (jsstr \<rightharpoonup> jsstr)" where
  "note_row required fileMap row =
     (let pathValue = fst row in
      if pathValue = [] \<or> lower (snd row) = js ''directory'' then fileMap
      else
        (let fileName = last (split_char 47 pathValue) in
         if fileName \<notin> set required then fileMap
         else (case fileMap fileName of
                 None \<Rightarrow> fileMap(fileName \<mapsto> pathValue)
               | Some current \<Rightarrow>
                   if length pathValue < length current then fileMap(fileName \<mapsto> pathValue) else fileMap)))"

definition buildRemotePathMap ::
  "(jsstr \<times> jsstr) list \<Rightarrow> jsstr list \<Rightarrow> jsstr \<Rightarrow> (jsstr \<rightharpoonup> jsstr) result" where
  "buildRemotePathMap treeRows required repo =
     (let fileMap = foldl (note_row required) Map.empty treeRows in
      case filter (\<lambda>f. fileMap f = None) required of
        [] \<Rightarrow> Inr fileMap
      | f # _ \<Rightarrow> Inl (Error (js ''Required file '' @ f @ js '' was not found in Hugging Face repo ''
                   @ repo @ js ''.'')))"

definition buildResolveUrl :: "jsstr \<Rightarrow> jsstr \<Rightarrow> jsstr result" where
  "buildResolveUrl repo remotePath =
     bindR (foldR (\<lambda>acc p. bindR (encodeURIComponent p) (\<lambda>e. Inr (acc @ [e]))) []
              (split_char 47 (normalizeRelativePath remotePath)))
       (\<lambda>parts. Inr (HF_RESOLVE_BASE @ repo @ js ''/resolve/main/'' @ join_with [47] parts
          @ js ''?download=1''))"

definition notify :: "bool \<Rightarrow> progress \<Rightarrow> unit store_proc" where
  "notify onProgress p =
     modifyP (\<lambda>st. if onProgress then st\<lparr>progressLog := progressLog st @ [p]\<rparr> else st)"

definition download_file ::
  "store_env \<Rightarrow> jsstr list \<Rightarrow> repo_spec \<Rightarrow> bool \<Rightarrow> jsstr \<Rightarrow> (jsstr \<rightharpoonup> jsstr) \<Rightarrow> nat \<times> jsstr \<Rightarrow> unit store_proc"
where
  "download_file env destination spec onProgress accessToken remotePathMap item =
     (let index = fst item; fileName = snd item;
          remotePath = (case remotePathMap fileName of None \<Rightarrow> [] | Some p \<Rightarrow> p);
          destinationPath = localDirName spec @ [47] @ fileName
      in bindP (notify onProgress (PhaseDownload (repoId spec) fileName (Suc index)
                  (length (requiredFiles spec)) destinationPath)) (\<lambda>_.
         bindP (liftP (buildResolveUrl (repoId spec) remotePath)) (\<lambda>url.
         bindP (fetchWithOptionalToken env url accessToken) (\<lambda>resp.
           if \<not> ok resp
           then throwP (Error (js ''Failed to download '' @ fileName @ js '' from '' @ repoId spec
                  @ js '' (status='' @ nat_str (status resp) @ js '').''))
           else writeResponseToFile env destination destinationPath resp))))"

definition downloadRepoFiles ::
  "store_env \<Rightarrow> jsstr list \<Rightarrow> repo_spec \<Rightarrow> bool \<Rightarrow> jsstr \<Rightarrow> unit store_proc" where
  "downloadRepoFiles env destination spec onProgress accessToken =
     bindP (notify onProgress (PhaseTree (repoId spec))) (\<lambda>_.
     bindP (fetchRepoTree env (repoId spec) accessToken) (\<lambda>treeRows.
     bindP (liftP (buildRemotePathMap treeRows (requiredFiles spec) (repoId spec))) (\<lambda>remotePathMap.
       forP (enumerate 0 (requiredFiles spec))
         (download_file env destination spec onProgress accessToken remotePathMap))))"

text \<open>The local paths of all required files, in the order the code checks them.\<close>

definition required_paths :: "repo_spec list \<Rightarrow> jsstr list" where
  "required_paths specs =
     concat (map (\<lambda>spec. map (\<lambda>f. localDirName spec @ [47] @ f) (requiredFiles spec)) specs)"

fun all_exist :: "jsstr list \<Rightarrow> jsstr list \<Rightarrow> bool store_proc" where
  "all_exist root [] = retP True"
| "all_exist root (p # ps) =
     bindP (fileExists root p) (\<lambda>exists. if \<not> exists then retP False else all_exist root ps)"

definition hasCompleteExternalModelSet :: "jsstr list \<Rightarrow> bool store_proc" where
  "hasCompleteExternalModelSet root = all_exist root (required_paths MODEL_REPOS)"

record ensure_result =
  res_key :: jsstr
  res_label :: jsstr
  res_managedPath :: jsstr
  res_downloaded :: bool

definition ensureExternalBrowserOnnxModels ::
  "store_env \<Rightarrow> jsstr \<Rightarrow> bool \<Rightarrow> bool \<Rightarrow> jsstr \<Rightarrow> ensure_result store_proc" where
  "ensureExternalBrowserOnnxModels env key onProgress forceDownload accessToken =
     (let normalizedKey = normalizeManagedKey key in
      bindP (getManagedModelRootDirectory env normalizedKey True) (\<lambda>handle.
        case handle of
          None \<Rightarrow> throwP TypeError
        | Some root \<Rightarrow>
            bindP (if forceDownload then retP False else hasCompleteExternalModelSet root)
              (\<lambda>alreadyComplete.
               bindP (if \<not> alreadyComplete
                      then forP MODEL_REPOS (\<lambda>spec. downloadRepoFiles env root spec onProgress accessToken)
                      else notify onProgress (PhaseReuse normalizedKey)) (\<lambda>_.
               bindP (liftP (createManagedModelPath normalizedKey)) (\<lambda>managedPath.
                 retP \<lparr>res_key = normalizedKey, res_label = getManagedStorageLabel normalizedKey,
                   res_managedPath = managedPath, res_downloaded = \<not> alreadyComplete\<rparr>)))))"

section \<open>Path lemmas\<close>

definition part_ok :: "jsstr \<Rightarrow> bool" where
  "part_ok p \<longleftrightarrow> p \<noteq> [] \<and> 47 \<notin> set p \<and> 92 \<notin> set p"

lemma valid_name_iff: "valid_name p \<longleftrightarrow> part_ok p \<and> p \<noteq> [46] \<and> p \<noteq> [46, 46]"
  by (auto simp: valid_name_def part_ok_def)

lemma set_subst_matches: "set (subst_matches s f p ms) \<subseteq> set s \<union> (\<Union>m. set (f m))"
proof (induction ms arbitrary: p)
  case Nil
  then show ?case by (simp add: set_drop_subset le_supI1)
next
  case (Cons m ms)
  then show ?case using set_slice [of s p "fst m"] by auto
qed

lemma path_parts_ok: "p \<in> set (path_parts s) \<Longrightarrow> part_ok p"
proof -
  assume p: "p \<in> set (path_parts s)"
  define s1 where "s1 = rx_replace False (RxCls (is_char 92)) (to_text [47]) s"
  define s2 where "s2 = rx_replace1 False (rx_seq [RxBol, rx_plus (RxCls (is_char 47))]) (to_text []) s1"
  define s3 where "s3 = rx_replace False (rx_plus (RxCls (is_char 47))) (to_text [47]) s2"
  have "92 \<notin> set s1" unfolding s1_def by (auto simp: rx_replace_to_text_cls is_char_def)
  then have "92 \<notin> set s2"
    using set_subst_matches unfolding s2_def rx_replace1_def to_text_def by fastforce
  then have s3: "92 \<notin> set s3"
    using set_replace_runs [of "is_char 47" 1 "\<lambda>_. [47]" s2]
    unfolding s3_def rx_plus_def by (auto simp: rx_replace_to_text_runs)
  from p have sp: "p \<in> set (split_char 47 s3)" "p \<noteq> []"
    by (simp_all add: path_parts_def s1_def s2_def s3_def)
  have "set p \<subseteq> set s3" using set_split_char [OF sp(1)] .
  then show ?thesis using sp split_char_pieces [OF sp(1)] s3 by (auto simp: part_ok_def)
qed

lemma set_resolve_parts: "set (resolve_parts r ps) \<subseteq> set r \<union> {p \<in> set ps. p \<noteq> [46] \<and> p \<noteq> [46, 46]}"
proof (induction r ps rule: resolve_parts.induct)
  case (2 r part parts)
  then show ?case using in_set_butlastD [of _ r] by (auto split: if_splits)
qed simp

definition store_parts :: "jsstr \<Rightarrow> jsstr list" where
  "store_parts rel = resolve_parts [] (path_parts rel)"

lemma store_parts_valid: "p \<in> set (store_parts s) \<Longrightarrow> valid_name p"
  using set_resolve_parts [of "[]" "path_parts s"] path_parts_ok
  by (auto simp: store_parts_def valid_name_iff)

lemma store_parts_butlast_valid: "\<forall>n\<in>set (butlast (store_parts rel)). valid_name n"
  by (rule ballI) (erule store_parts_valid [OF in_set_butlastD])

lemma store_parts_last_valid: "store_parts rel \<noteq> [] \<Longrightarrow> valid_name (last (store_parts rel))"
  by (rule store_parts_valid [of _ rel]) simp

lemma normalizeRelativePath_parts: "normalizeRelativePath s = join_with [47] (store_parts s)"
  by (simp add: normalizeRelativePath_def store_parts_def)

lemma resolve_valid: "\<forall>p\<in>set ps. valid_name p \<Longrightarrow> resolve_parts r ps = r @ ps"
  by (induction ps arbitrary: r) (auto simp: valid_name_def)

lemma rx_all_none: "(\<And>j. i \<le> j \<Longrightarrow> rx_exec u r s j = None) \<Longrightarrow> rx_all u r s i = []"
proof (induction "Suc (length s) - i" arbitrary: i rule: less_induct)
  case less
  show ?case
  proof (cases "length s < i")
    case True
    then show ?thesis by (subst rx_all.simps) simp
  next
    case False
    have "rx_all u r s (advance u s i) = []"
      using False advance_gt [of i u s] by (intro less) (auto intro: order_trans)
    then show ?thesis using less.prems [of i] by (subst rx_all.simps) simp
  qed
qed

lemma leading_slashes_none:
  assumes "s = [] \<or> hd s \<noteq> 47"
  shows "rx_replace1 False (rx_seq [RxBol, rx_plus (RxCls (is_char 47))]) (to_text []) s = s"
proof -
  have zero: "rx_m u s (rx_plus (RxCls (is_char 47))) (0, c) = []" for u c
    using assms rx_rep_cls [of "is_char 47" s 0 1 "Suc (length s + 1)" u c]
    by (cases s) (auto simp: rx_plus_def run_len_def is_char_def simp del: rx_rep.simps upt_Suc)
  have "rx_exec False (rx_seq [RxBol, rx_plus (RxCls (is_char 47))]) s j = None" for j
    by (simp add: rx_exec_def rx_seq_def zero)
  then show ?thesis by (simp add: rx_replace1_def rx_all_none)
qed

lemma replace_runs_single:
  "no_adjacent P s \<Longrightarrow> (\<And>c. P c \<Longrightarrow> c = a) \<Longrightarrow> replace_runs P 1 (\<lambda>_. [a]) s = s"
proof (induction s)
  case (Cons x xs)
  then show ?case
    by (cases xs) (auto simp: replace_runs.simps no_adjacent_Cons)
qed simp

lemma no_adjacent_join:
  "\<forall>p\<in>set ps. part_ok p \<Longrightarrow>
     no_adjacent (is_char 47) (join_with [47] ps) \<and> (ps \<noteq> [] \<longrightarrow> join_with [47] ps \<noteq> [] \<and> hd (join_with [47] ps) \<noteq> 47)"
proof (induction ps)
  case (Cons p ps)
  have p: "p \<noteq> []" "47 \<notin> set p" using Cons.prems by (auto simp: part_ok_def)
  have na: "no_adjacent (is_char 47) t" if "47 \<notin> set t" for t
    using that by (induction t) (auto simp: no_adjacent_Cons is_char_def)
  have l: "\<not> is_char 47 (last p)" "hd p \<noteq> 47"
    using p by (metis is_char_def last_in_set, metis hd_in_set)
  have h: "\<not> is_char 47 c" if "c \<noteq> 47" for c using that by (simp add: is_char_def)
  show ?case
    using Cons p l na [OF p(2)] h
    by (cases ps) (auto simp: no_adjacent_append no_adjacent_Cons)
qed simp

lemma concat_if_none: "\<forall>c\<in>set s. \<not> P c \<Longrightarrow> concat (map (\<lambda>c. if P c then t else [c]) s) = s"
  by (induction s) auto

lemma path_parts_join:
  assumes "\<forall>p\<in>set ps. valid_name p"
  shows "path_parts (join_with [47] ps) = ps"
proof -
  let ?j = "join_with [47] ps"
  have ok: "\<forall>p\<in>set ps. part_ok p" using assms by (simp add: valid_name_iff)
  note nj = no_adjacent_join [OF ok]
  have set_j: "set (join_with [47] qs) \<subseteq> \<Union>(set ` set qs) \<union> {47}" for qs
    by (induction qs rule: induct_list012) auto
  have "92 \<notin> set ?j" using set_j [of ps] ok by (auto simp: part_ok_def)
  then have "\<forall>c\<in>set ?j. \<not> is_char 92 c" by (auto simp: is_char_def)
  then have s1: "rx_replace False (RxCls (is_char 92)) (to_text [47]) ?j = ?j"
    by (simp add: rx_replace_to_text_cls concat_if_none)
  have s2: "rx_replace1 False (rx_seq [RxBol, rx_plus (RxCls (is_char 47))]) (to_text []) ?j = ?j"
    using nj by (intro leading_slashes_none) auto
  have s3: "rx_replace False (rx_plus (RxCls (is_char 47))) (to_text [47]) ?j = ?j"
    unfolding rx_plus_def using nj replace_runs_single [of "is_char 47" ?j 47]
    by (simp add: rx_replace_to_text_runs is_char_def)
  have "filter (\<lambda>p. p \<noteq> []) (split_char 47 ?j) = ps"
  proof (cases "ps = []")
    case False
    then have "split_char 47 ?j = ps" using ok by (intro split_join_char) (auto simp: part_ok_def)
    then show ?thesis using ok by (simp add: part_ok_def)
  qed simp
  then show ?thesis by (simp add: path_parts_def s1 s2 s3)
qed

lemma store_parts_join: "\<forall>p\<in>set ps. valid_name p \<Longrightarrow> store_parts (join_with [47] ps) = ps"
  by (simp add: store_parts_def path_parts_join resolve_valid)

lemma split_normalized: "filter (\<lambda>p. p \<noteq> []) (split_char 47 (normalizeRelativePath s)) = store_parts s"
proof (cases "store_parts s = []")
  case False
  then have "split_char 47 (join_with [47] (store_parts s)) = store_parts s"
    using store_parts_valid by (intro split_join_char) (auto simp: valid_name_def)
  then show ?thesis
    using store_parts_valid by (auto simp: normalizeRelativePath_parts filter_id_conv valid_name_def)
qed (simp add: normalizeRelativePath_parts)

lemma normalizeRelativePath_Nil: "normalizeRelativePath s = [] \<longleftrightarrow> store_parts s = []"
  using no_adjacent_join [of "store_parts s"] store_parts_valid
  by (auto simp: normalizeRelativePath_parts valid_name_iff)

section \<open>Tree lemmas\<close>

lemma tree_lookup_Nil [simp]: "tree_lookup t [] = Some t"
  by (cases t) auto

lemma tree_lookup_FFile_Cons [simp]: "tree_lookup (FFile b) (n # ns) = None"
  by simp

lemma tree_lookup_FDir_Cons [simp]:
  "tree_lookup (FDir m) (n # ns) = (case m n of None \<Rightarrow> None | Some t \<Rightarrow> tree_lookup t ns)"
  by (simp split: option.splits)

declare tree_lookup.simps [simp del]

lemma tree_lookup_append:
  "tree_lookup t (p @ q) = (case tree_lookup t p of None \<Rightarrow> None | Some u \<Rightarrow> tree_lookup u q)"
proof (induction p arbitrary: t)
  case (Cons n ns)
  then show ?case by (cases t) (auto split: option.splits)
qed simp

lemma tree_lookup_snoc:
  "tree_lookup t (p @ [n]) = Some u \<longleftrightarrow> (\<exists>m. tree_lookup t p = Some (FDir m) \<and> m n = Some u)"
proof (cases "tree_lookup t p")
  case None
  then show ?thesis by (simp add: tree_lookup_append)
next
  case (Some v)
  then show ?thesis by (cases v) (auto simp: tree_lookup_append split: option.splits)
qed

lemma tree_lookup_update_same:
  "tree_lookup t p = Some (FDir m) \<Longrightarrow> tree_lookup (tree_update (p @ [n]) x t) (p @ [n]) = Some x"
proof (induction p arbitrary: t)
  case Nil
  then show ?case by simp
next
  case (Cons a p)
  then show ?case by (cases t) (auto split: option.splits)
qed

lemma tree_lookup_update_file:
  assumes "tree_lookup t q = Some (FFile c)" and "q \<noteq> p" and "\<forall>m. tree_lookup t p \<noteq> Some (FDir m)"
  shows "tree_lookup (tree_update p x t) q = Some (FFile c)"
  using assms
proof (induction p x t arbitrary: q rule: tree_update.induct)
  case (1 x t)
  then show ?case by (cases t; cases q) auto
next
  case (2 n ns x b)
  then show ?case by simp
next
  case (3 n ns x m)
  then obtain k ks where q: "q = k # ks" by (cases q) auto
  show ?case
  proof (cases "k = n")
    case False
    then show ?thesis using 3 q by (auto split: option.splits)
  next
    case True
    then obtain t where t: "m n = Some t" "tree_lookup t ks = Some (FFile c)"
      using 3 q by (auto split: option.splits)
    show ?thesis
    proof (cases ns)
      case Nil
      then have "\<forall>d. t \<noteq> FDir d" using 3 t by auto
      then have "t = FFile c \<and> ks = []" using t(2) by (cases t; cases ks) auto
      then show ?thesis using 3 q True Nil by simp
    next
      case (Cons a list)
      then have "tree_lookup (tree_update ns x t) ks = Some (FFile c)"
        using 3 q True t by (intro 3(1)) auto
      then show ?thesis using q True t Cons by simp
    qed
  qed
qed

text \<open>The content of the file at a path.\<close>

definition file_at :: "fsnode \<Rightarrow> jsstr list \<Rightarrow> nat list option" where
  "file_at t p = (case tree_lookup t p of Some (FFile c) \<Rightarrow> Some c | _ \<Rightarrow> None)"

definition is_dir :: "fsnode \<Rightarrow> jsstr list \<Rightarrow> bool" where
  "is_dir t p \<longleftrightarrow> (\<exists>m. tree_lookup t p = Some (FDir m))"

definition keeps_files :: "fsnode \<Rightarrow> fsnode \<Rightarrow> bool" where
  "keeps_files t t' \<longleftrightarrow> (\<forall>q c. file_at t q = Some c \<longrightarrow> file_at t' q = Some c)"

lemma keeps_files_refl [simp]: "keeps_files t t"
  by (simp add: keeps_files_def)

lemma keeps_files_trans: "keeps_files a b \<Longrightarrow> keeps_files b c \<Longrightarrow> keeps_files a c"
  by (auto simp: keeps_files_def)

lemma file_at_Some: "file_at t p = Some c \<longleftrightarrow> tree_lookup t p = Some (FFile c)"
  by (auto simp: file_at_def split: option.splits fsnode.splits)

lemma file_at_update_other:
  "file_at t q = Some c \<Longrightarrow> q \<noteq> p \<Longrightarrow> \<not> is_dir t p \<Longrightarrow> file_at (tree_update p x t) q = Some c"
  unfolding file_at_Some by (rule tree_lookup_update_file) (auto simp: is_dir_def)

lemma keeps_files_create:
  "tree_lookup t d = Some (FDir m) \<Longrightarrow> m n = None \<Longrightarrow> keeps_files t (tree_update (d @ [n]) x t)"
  unfolding keeps_files_def
  by (metis file_at_Some file_at_update_other is_dir_def option.distinct(1) tree_lookup_append
      tree_lookup_FDir_Cons option.simps(4,5))

section \<open>Handles\<close>

lemma getDirectoryHandle_ok:
  assumes "getDirectoryHandle d n cr st = (Inr h, st')"
  shows "h = d @ [n] \<and> is_dir (fs st') h \<and> keeps_files (fs st) (fs st') \<and> sent st' = sent st
    \<and> progressLog st' = progressLog st \<and> (\<not> cr \<longrightarrow> st' = st)"
proof -
  obtain m where m: "tree_lookup (fs st) d = Some (FDir m)"
    using assms by (auto simp: getDirectoryHandle_def split: if_splits option.splits fsnode.splits)
  show ?thesis
    using assms m keeps_files_create [OF m, of n] tree_lookup_update_same [OF m, of n]
    by (auto simp: getDirectoryHandle_def is_dir_def tree_lookup_append
        split: if_splits option.splits fsnode.splits)
qed

lemma getFileHandle_ok:
  assumes "getFileHandle d n cr st = (Inr h, st')"
  shows "h = d @ [n] \<and> is_dir (fs st) d \<and> file_at (fs st') h \<noteq> None \<and> keeps_files (fs st) (fs st')
    \<and> sent st' = sent st \<and> progressLog st' = progressLog st \<and> (\<not> cr \<longrightarrow> st' = st)
    \<and> (file_at (fs st) h = None \<longrightarrow> file_at (fs st') h = Some [])"
proof -
  obtain m where m: "tree_lookup (fs st) d = Some (FDir m)"
    using assms by (auto simp: getFileHandle_def split: if_splits option.splits fsnode.splits)
  show ?thesis
    using assms m keeps_files_create [OF m, of n] tree_lookup_update_same [OF m, of n]
    by (auto simp: getFileHandle_def is_dir_def file_at_def tree_lookup_append
        split: if_splits option.splits fsnode.splits)
qed

lemma walk_segments_ok:
  assumes "walk_segments cur cr segs st = (Inr h, st')"
  shows "h = cur @ segs \<and> keeps_files (fs st) (fs st') \<and> sent st' = sent st
    \<and> progressLog st' = progressLog st \<and> (\<not> cr \<longrightarrow> st' = st)"
  using assms
proof (induction cur cr segs arbitrary: st rule: walk_segments.induct)
  case (2 cur cr seg segs)
  then obtain h1 st1 where h1: "getDirectoryHandle cur seg cr st = (Inr h1, st1)"
    and w: "walk_segments h1 cr segs st1 = (Inr h, st')"
    by (auto simp: bindP_Inr)
  show ?case using getDirectoryHandle_ok [OF h1] 2(1) [OF w] keeps_files_trans by auto
qed auto

lemma getDirectoryByRelativePath_parts:
  "getDirectoryByRelativePath root rel cr = walk_segments root cr (store_parts rel)"
  by (simp add: getDirectoryByRelativePath_def split_normalized)

lemma getFileHandleByRelativePath_parts:
  "getFileHandleByRelativePath root rel cr =
     (if store_parts rel = [] then throwP (Error (js ''Relative file path is empty.''))
      else bindP (walk_segments root cr (butlast (store_parts rel)))
             (\<lambda>dir. getFileHandle dir (last (store_parts rel)) cr))"
proof -
  have dirs: "(if ds \<noteq> [] then getDirectoryByRelativePath root (join_with [47] ds) cr else retP root)
      = walk_segments root cr ds" if "\<forall>n\<in>set ds. valid_name n" for ds
    using store_parts_join [OF that] by (cases ds) (simp_all add: getDirectoryByRelativePath_parts)
  from dirs [OF store_parts_butlast_valid] show ?thesis
    unfolding getFileHandleByRelativePath_def Let_def normalizeRelativePath_Nil split_normalized
    by (simp only:)
qed

definition store_path :: "jsstr list \<Rightarrow> jsstr \<Rightarrow> jsstr list" where
  "store_path root rel = root @ store_parts rel"

lemma getFileHandleByRelativePath_ok:
  assumes "getFileHandleByRelativePath root rel cr st = (Inr h, st')"
  shows "h = store_path root rel \<and> file_at (fs st') h \<noteq> None \<and> keeps_files (fs st) (fs st')
    \<and> sent st' = sent st \<and> progressLog st' = progressLog st \<and> (\<not> cr \<longrightarrow> st' = st)"
proof -
  have ne: "store_parts rel \<noteq> []"
    using assms by (auto simp: getFileHandleByRelativePath_parts throwP_def)
  then obtain d st1 where w: "walk_segments root cr (butlast (store_parts rel)) st = (Inr d, st1)"
    and g: "getFileHandle d (last (store_parts rel)) cr st1 = (Inr h, st')"
    using assms by (auto simp: getFileHandleByRelativePath_parts bindP_Inr)
  show ?thesis
    using walk_segments_ok [OF w] getFileHandle_ok [OF g] ne keeps_files_trans
    by (auto simp: store_path_def)
qed

text \<open>Where the file is there, its handle is found without changing anything.\<close>

lemma walk_segments_found:
  assumes "\<forall>n\<in>set segs. valid_name n" and "is_dir (fs st) (cur @ segs)"
  shows "walk_segments cur cr segs st = (Inr (cur @ segs), st)"
  using assms
proof (induction cur cr segs rule: walk_segments.induct)
  case (2 cur cr seg segs)
  then have d: "is_dir (fs st) ((cur @ [seg]) @ segs)" by simp
  then obtain u where u: "tree_lookup (fs st) (cur @ [seg]) = Some u" and us: "is_dir u segs"
    unfolding is_dir_def tree_lookup_append [of _ "cur @ [seg]"] by (auto split: option.splits)
  then obtain m where um: "u = FDir m" by (cases u; cases segs) (auto simp: is_dir_def)
  have "getDirectoryHandle cur seg cr st = (Inr (cur @ [seg]), st)"
    using u um 2(2) by (auto simp: getDirectoryHandle_def tree_lookup_snoc)
  then show ?case using 2 d by (simp add: bindP_def)
qed (simp add: retP_def)

lemma getFileHandleByRelativePath_found:
  assumes "file_at (fs st) (store_path root rel) \<noteq> None" and "store_parts rel \<noteq> []"
  shows "getFileHandleByRelativePath root rel cr st = (Inr (store_path root rel), st)"
proof -
  let ?d = "root @ butlast (store_parts rel)" and ?n = "last (store_parts rel)"
  have path: "store_path root rel = ?d @ [?n]" using assms(2) by (simp add: store_path_def)
  obtain c where c: "tree_lookup (fs st) (?d @ [?n]) = Some (FFile c)"
    using assms(1) path by (auto simp: file_at_Some)
  then obtain m where m: "tree_lookup (fs st) ?d = Some (FDir m)" "m ?n = Some (FFile c)"
    unfolding tree_lookup_snoc by blast
  have vn: "valid_name ?n" by (rule store_parts_last_valid [OF assms(2)])
  have w: "walk_segments root cr (butlast (store_parts rel)) st = (Inr ?d, st)"
    using m(1) by (intro walk_segments_found store_parts_butlast_valid) (simp add: is_dir_def)
  show ?thesis
    using assms(2) vn m by (simp add: getFileHandleByRelativePath_parts bindP_def w getFileHandle_def path)
qed

lemma fileExists_found:
  assumes "file_at (fs st) (store_path root rel) \<noteq> None" and "store_parts rel \<noteq> []"
  shows "fileExists root rel st = (Inr True, st)"
  using getFileHandleByRelativePath_found [OF assms] by (simp add: fileExists_def proc_defs)

lemma fileExists_True:
  "fileExists root rel st = (Inr True, st') \<Longrightarrow> file_at (fs st) (store_path root rel) \<noteq> None \<and> st' = st"
  using getFileHandleByRelativePath_ok [of root rel False st]
  by (auto simp: fileExists_def proc_defs split: prod.splits sum.splits if_splits)

section \<open>The interface of the file space\<close>

text \<open>
  What the download loop relies on: after a file is written it is there with its content, and the files
  at other paths are what they were. A run of such writes to different paths then leaves every one of
  them in place.
\<close>

locale file_space =
  fixes lookup :: "'s \<Rightarrow> 'p \<Rightarrow> 'c option"
    and put :: "'p \<Rightarrow> 'c \<Rightarrow> 's \<Rightarrow> 's \<Rightarrow> bool"
  assumes put_same: "put p c s s' \<Longrightarrow> lookup s' p = Some c"
    and put_other: "put p c s s' \<Longrightarrow> q \<noteq> p \<Longrightarrow> lookup s q = Some d \<Longrightarrow> lookup s' q = Some d"
begin

inductive puts :: "('p \<times> 'c) list \<Rightarrow> 's \<Rightarrow> 's \<Rightarrow> bool" where
  puts_Nil: "puts [] s s"
| puts_Cons: "put p c s s1 \<Longrightarrow> puts ps s1 s2 \<Longrightarrow> puts ((p, c) # ps) s s2"

lemma puts_keep: "puts ps s s' \<Longrightarrow> p \<notin> fst ` set ps \<Longrightarrow> lookup s p = Some c \<Longrightarrow> lookup s' p = Some c"
  by (induction rule: puts.induct) (auto dest: put_other)

lemma puts_all:
  "puts ps s s' \<Longrightarrow> distinct (map fst ps) \<Longrightarrow> (p, c) \<in> set ps \<Longrightarrow> lookup s' p = Some c"
  by (induction rule: puts.induct) (auto dest: put_same puts_keep)

lemma puts_append: "puts ps s s1 \<Longrightarrow> puts qs s1 s2 \<Longrightarrow> puts (ps @ qs) s s2"
  by (induction rule: puts.induct) (auto intro: puts.intros)

lemma puts_kept_or_put:
  "puts ps s s' \<Longrightarrow> lookup s p \<noteq> None \<Longrightarrow> lookup s' p \<noteq> None"
proof (induction rule: puts.induct)
  case (puts_Cons q c s s1 ps s2)
  then have "lookup s1 p \<noteq> None" by (metis not_None_eq put_other put_same)
  then show ?case by (rule puts_Cons.IH)
qed simp

end

text \<open>A successful \<open>writeResponseToFile\<close>, as a step on the file system.\<close>

definition written :: "jsstr list \<Rightarrow> nat list \<Rightarrow> fsnode \<Rightarrow> fsnode \<Rightarrow> bool" where
  "written p c t t' \<longleftrightarrow> (\<exists>env root rel resp st st'.
     p = store_path root rel \<and> consume_body env (rbody resp) = Inr c \<and> fs st = t \<and> fs st' = t'
     \<and> writeResponseToFile env root rel resp st = (Inr (), st'))"

lemma writeResponseToFile_ok:
  assumes "writeResponseToFile env root rel resp st = (Inr (), st')"
  shows "\<exists>c st1. consume_body env (rbody resp) = Inr c \<and> keeps_files (fs st) (fs st1)
    \<and> file_at (fs st1) (store_path root rel) \<noteq> None
    \<and> st' = st1\<lparr>fs := tree_update (store_path root rel) (FFile c) (fs st1)\<rparr>
    \<and> sent st' = sent st \<and> progressLog st' = progressLog st"
proof -
  obtain h st1 c where g: "getFileHandleByRelativePath root rel True st = (Inr h, st1)"
    and c: "consume_body env (rbody resp) = Inr c"
    and st': "st' = st1\<lparr>fs := tree_update h (FFile c) (fs st1)\<rparr>"
    using assms by (auto simp: writeResponseToFile_def bindP_Inr liftP_def modifyP_def)
  show ?thesis using getFileHandleByRelativePath_ok [OF g] c st' by auto
qed

lemma file_at_update_same:
  "file_at t p \<noteq> None \<Longrightarrow> file_at (tree_update p (FFile c) t) p = Some c"
proof (cases p rule: rev_cases)
  case (snoc d n)
  assume "file_at t p \<noteq> None"
  then obtain m where "tree_lookup t d = Some (FDir m)"
    using snoc by (auto simp: file_at_Some tree_lookup_snoc)
  then show ?thesis using tree_lookup_update_same [of t d m n "FFile c"] snoc by (simp add: file_at_def)
qed (simp add: file_at_def)

interpretation opfs: file_space file_at written
proof
  fix p c t t'
  assume "written p c t t'"
  then show "file_at t' p = Some c"
    unfolding written_def by (fastforce dest!: writeResponseToFile_ok intro: file_at_update_same)
next
  fix p c t t' q d
  assume w: "written p c t t'" and ne: "q \<noteq> p" and q: "file_at t q = Some d"
  then obtain t1 where t1: "keeps_files t t1" "file_at t1 p \<noteq> None" "t' = tree_update p (FFile c) t1"
    unfolding written_def by (fastforce dest!: writeResponseToFile_ok)
  have "\<not> is_dir t1 p" using t1(2) by (auto simp: file_at_Some is_dir_def)
  moreover have "file_at t1 q = Some d" using t1(1) q by (auto simp: keeps_files_def)
  ultimately show "file_at t' q = Some d" using t1(3) ne file_at_update_other by blast
qed

text \<open>
  A content counts as fetched for a required file when it is the whole body of a good response to the request
  for a repository path that ends in the file's name.
\<close>

text \<open>All of a body: a stream that ended without an error, chunk after chunk, or a buffer that could be read.\<close>

definition whole_body :: "body \<Rightarrow> nat list \<Rightarrow> bool" where
  "whole_body b c \<longleftrightarrow> (case b of Stream chunks e \<Rightarrow> e = None \<and> c = concat chunks | Buffered r \<Rightarrow> r = Inr c)"

lemma write_chunks_whole: "write_chunks env acc cs e = Inr c \<Longrightarrow> e = None \<and> c = acc @ concat cs"
  by (induction env acc cs e rule: write_chunks.induct) (auto split: option.splits)

lemma consume_body_whole: "consume_body env b = Inr c \<Longrightarrow> whole_body b c"
  by (auto simp: consume_body_def whole_body_def bindR_Inr dest: write_chunks_whole split: body.splits option.splits)

definition fetched :: "store_env \<Rightarrow> repo_spec \<Rightarrow> jsstr \<Rightarrow> nat list \<Rightarrow> bool" where
  "fetched env spec fileName c \<longleftrightarrow> (\<exists>n remotePath url auth resp.
     last (split_char 47 remotePath) = fileName
     \<and> buildResolveUrl (repoId spec) remotePath = Inr url \<and> env_net env n url auth = Inr resp \<and> ok resp
     \<and> whole_body (rbody resp) c)"

lemma download_file_ok:
  assumes d: "download_file env root spec onP tok m item st = (Inr (), st')"
    and m: "m (snd item) = Some rp" and rp: "last (split_char 47 rp) = snd item"
  shows "\<exists>c. fetched env spec (snd item) c
    \<and> written (store_path root (localDirName spec @ [47] @ snd item)) c (fs st) (fs st')"
proof -
  let ?dest = "localDirName spec @ 47 # snd item"
  obtain u st1 where n: "notify onP (PhaseDownload (repoId spec) (snd item) (Suc (fst item))
        (length (requiredFiles spec)) ?dest) st = (Inr u, st1)"
    and r1: "bindP (liftP (buildResolveUrl (repoId spec) rp)) (\<lambda>url.
         bindP (fetchWithOptionalToken env url tok) (\<lambda>resp.
           if \<not> ok resp
           then throwP (Error (js ''Failed to download '' @ snd item @ js '' from '' @ repoId spec
                  @ js '' (status='' @ nat_str (status resp) @ js '').''))
           else writeResponseToFile env root ?dest resp)) st1 = (Inr (), st')"
    using d m by (auto simp: download_file_def Let_def bindP_Inr)
  have fs1: "fs st1 = fs st" using n by (auto simp: notify_def modifyP_def split: if_splits)
  obtain url st2 resp where url: "buildResolveUrl (repoId spec) rp = Inr url"
    and f: "fetchWithOptionalToken env url tok st1 = (Inr resp, st2)" and okr: "ok resp"
    and w: "writeResponseToFile env root ?dest resp st2 = (Inr (), st')"
    using r1 by (auto simp: bindP_Inr liftP_def throwP_def split: if_splits)
  have fs2: "fs st2 = fs st" using f fs1 by (auto simp: fetchWithOptionalToken_def Let_def)
  obtain n auth where net: "env_net env n url auth = Inr resp"
    using f by (auto simp: fetchWithOptionalToken_def Let_def)
  obtain c where c: "consume_body env (rbody resp) = Inr c" using writeResponseToFile_ok [OF w] by blast
  have "fetched env spec (snd item) c" unfolding fetched_def using rp url net okr consume_body_whole [OF c] by blast
  moreover have "written (store_path root ?dest) c (fs st) (fs st')"
    unfolding written_def using c w fs2 by metis
  ultimately show ?thesis by auto
qed

text \<open>The map of remote paths holds, for a file name, only paths that end in that name.\<close>

definition ends_in_name :: "(jsstr \<rightharpoonup> jsstr) \<Rightarrow> bool" where
  "ends_in_name fm \<longleftrightarrow> (\<forall>f p. fm f = Some p \<longrightarrow> last (split_char 47 p) = f)"

lemma note_row_ends: "ends_in_name fm \<Longrightarrow> ends_in_name (note_row req fm row)"
  by (auto simp: note_row_def ends_in_name_def Let_def split: if_splits option.splits)

lemma note_rows_ends: "ends_in_name fm \<Longrightarrow> ends_in_name (foldl (note_row req) fm rows)"
  by (induction rows arbitrary: fm) (auto intro: note_row_ends)

lemma buildRemotePathMap_ok:
  assumes "buildRemotePathMap rows req repo = Inr m" and "f \<in> set req"
  shows "\<exists>p. m f = Some p \<and> last (split_char 47 p) = f"
proof -
  have m: "m = foldl (note_row req) Map.empty rows" and "filter (\<lambda>f. m f = None) req = []"
    using assms(1) by (auto simp: buildRemotePathMap_def Let_def split: list.splits)
  then have "m f \<noteq> None" using assms(2) by (auto simp: filter_empty_conv)
  then show ?thesis using m note_rows_ends [of Map.empty req rows] by (auto simp: ends_in_name_def)
qed


text \<open>A completed run of the download loop is a run of writes of fetched contents.\<close>

definition all_fetched :: "store_env \<Rightarrow> jsstr list \<Rightarrow> repo_spec \<Rightarrow> jsstr list \<Rightarrow> (jsstr list \<times> nat list) list \<Rightarrow> bool"
where
  "all_fetched env root spec files = list_all2
     (\<lambda>f pc. fst pc = store_path root (localDirName spec @ [47] @ f) \<and> fetched env spec f (snd pc)) files"

lemma download_files_ok:
  assumes "forP items (download_file env root spec onP tok m) st = (Inr (), st')"
    and "\<forall>f\<in>set (map snd items). \<exists>p. m f = Some p \<and> last (split_char 47 p) = f"
  shows "\<exists>ps. all_fetched env root spec (map snd items) ps \<and> opfs.puts ps (fs st) (fs st')"
  using assms
proof (induction items arbitrary: st)
  case Nil
  then show ?case by (auto simp: all_fetched_def intro: opfs.puts_Nil)
next
  case (Cons item items)
  then obtain st1 where d: "download_file env root spec onP tok m item st = (Inr (), st1)"
    and r: "forP items (download_file env root spec onP tok m) st1 = (Inr (), st')"
    by (auto simp: bindP_Inr)
  obtain p where rp: "m (snd item) = Some p" "last (split_char 47 p) = snd item"
    using Cons.prems(2) by auto
  obtain c where c: "fetched env spec (snd item) c"
      "written (store_path root (localDirName spec @ [47] @ snd item)) c (fs st) (fs st1)"
    using download_file_ok [OF d rp] by blast
  obtain ps where ps: "all_fetched env root spec (map snd items) ps" "opfs.puts ps (fs st1) (fs st')"
    using Cons.IH [OF r] Cons.prems(2) by auto
  have "opfs.puts ((store_path root (localDirName spec @ [47] @ snd item), c) # ps) (fs st) (fs st')"
    by (rule opfs.puts_Cons [OF c(2) ps(2)])
  moreover have "all_fetched env root spec (map snd (item # items))
      ((store_path root (localDirName spec @ [47] @ snd item), c) # ps)"
    using ps(1) c(1) by (simp add: all_fetched_def)
  ultimately show ?case by blast
qed

lemma fetchRepoTree_fs: "fetchRepoTree env repo tok st = (Inr rows, st') \<Longrightarrow> fs st' = fs st"
proof -
  assume a: "fetchRepoTree env repo tok st = (Inr rows, st')"
  then obtain resp st1 where
    f: "fetchWithOptionalToken env (HF_API_BASE @ repo @ js ''/tree/main?recursive=1'') tok st = (Inr resp, st1)"
    unfolding fetchRepoTree_def bindP_Inr by blast
  then have "fs st1 = fs st" by (auto simp: fetchWithOptionalToken_def Let_def)
  moreover have "st' = st1"
    using a f by (auto simp: fetchRepoTree_def bindP_def liftP_def throwP_def retP_def
        split: if_splits option.splits sum.splits)
  ultimately show ?thesis by simp
qed

lemma downloadRepoFiles_ok:
  assumes "downloadRepoFiles env root spec onP tok st = (Inr (), st')"
  shows "\<exists>ps. all_fetched env root spec (requiredFiles spec) ps \<and> opfs.puts ps (fs st) (fs st')"
proof -
  obtain u st1 rows st2 m where n: "notify onP (PhaseTree (repoId spec)) st = (Inr u, st1)"
    and t: "fetchRepoTree env (repoId spec) tok st1 = (Inr rows, st2)"
    and b: "buildRemotePathMap rows (requiredFiles spec) (repoId spec) = Inr m"
    and f: "forP (enumerate 0 (requiredFiles spec)) (download_file env root spec onP tok m) st2 = (Inr (), st')"
    using assms unfolding downloadRepoFiles_def bindP_Inr liftP_def by clarsimp
  have "fs st1 = fs st" using n by (auto simp: notify_def modifyP_def split: if_splits)
  moreover have "fs st2 = fs st1" by (rule fetchRepoTree_fs [OF t])
  moreover have "\<forall>f\<in>set (map snd (enumerate 0 (requiredFiles spec))). \<exists>p. m f = Some p \<and> last (split_char 47 p) = f"
    using buildRemotePathMap_ok [OF b] by simp
  ultimately show ?thesis using download_files_ok [OF f] by simp
qed

lemma all_fetched_in:
  "all_fetched env root spec files ps \<Longrightarrow> f \<in> set files \<Longrightarrow>
     \<exists>c. (store_path root (localDirName spec @ [47] @ f), c) \<in> set ps \<and> fetched env spec f c"
  unfolding all_fetched_def
  by (induction rule: list_all2_induct) auto

lemma all_fetched_fst:
  "all_fetched env root spec files ps \<Longrightarrow> map fst ps = map (\<lambda>f. store_path root (localDirName spec @ [47] @ f)) files"
  unfolding all_fetched_def by (induction rule: list_all2_induct) auto

lemma downloadRepos_ok:
  assumes "forP specs (\<lambda>spec. downloadRepoFiles env root spec onP tok) st = (Inr (), st')"
  shows "\<exists>ps. opfs.puts ps (fs st) (fs st') \<and> map fst ps = map (store_path root) (required_paths specs)
    \<and> (\<forall>spec\<in>set specs. \<forall>f\<in>set (requiredFiles spec). \<exists>c.
         (store_path root (localDirName spec @ [47] @ f), c) \<in> set ps \<and> fetched env spec f c)"
  using assms
proof (induction specs arbitrary: st)
  case Nil
  then show ?case by (auto simp: required_paths_def intro: opfs.puts_Nil)
next
  case (Cons spec specs)
  then obtain st1 where d: "downloadRepoFiles env root spec onP tok st = (Inr (), st1)"
    and r: "forP specs (\<lambda>spec. downloadRepoFiles env root spec onP tok) st1 = (Inr (), st')"
    by (auto simp: bindP_Inr)
  obtain ps where ps: "all_fetched env root spec (requiredFiles spec) ps" "opfs.puts ps (fs st) (fs st1)"
    using downloadRepoFiles_ok [OF d] by blast
  obtain qs where qs: "opfs.puts qs (fs st1) (fs st')"
      "map fst qs = map (store_path root) (required_paths specs)"
      "\<forall>spec\<in>set specs. \<forall>f\<in>set (requiredFiles spec). \<exists>c.
         (store_path root (localDirName spec @ [47] @ f), c) \<in> set qs \<and> fetched env spec f c"
    using Cons.IH [OF r] by blast
  have "opfs.puts (ps @ qs) (fs st) (fs st')" by (rule opfs.puts_append [OF ps(2) qs(1)])
  moreover have "map fst (ps @ qs) = map (store_path root) (required_paths (spec # specs))"
    using all_fetched_fst [OF ps(1)] qs(2) by (simp add: required_paths_def comp_def)
  moreover have "\<forall>s\<in>set (spec # specs). \<forall>f\<in>set (requiredFiles s). \<exists>c.
         (store_path root (localDirName s @ [47] @ f), c) \<in> set (ps @ qs) \<and> fetched env s f c"
    using all_fetched_in [OF ps(1)] qs(3) by fastforce
  ultimately show ?case by blast
qed

text \<open>The sixteen required files lie at different places of the store.\<close>

definition repo_names_ok :: "repo_spec \<Rightarrow> bool" where
  "repo_names_ok spec \<longleftrightarrow> valid_name (localDirName spec) \<and> list_all valid_name (requiredFiles spec)"

lemma store_parts_pair: "valid_name d \<Longrightarrow> valid_name f \<Longrightarrow> store_parts (d @ [47] @ f) = [d, f]"
  using store_parts_join [of "[d, f]"] by simp

definition required_pairs :: "repo_spec list \<Rightarrow> jsstr list list" where
  "required_pairs specs = concat (map (\<lambda>spec. map (\<lambda>f. [localDirName spec, f]) (requiredFiles spec)) specs)"

lemma required_store_parts:
  "list_all repo_names_ok specs \<Longrightarrow> map store_parts (required_paths specs) = required_pairs specs"
  by (induction specs)
    (simp_all add: required_paths_def required_pairs_def repo_names_ok_def list_all_iff store_parts_pair
      del: append_Cons)

lemma MODEL_REPOS_ok: "list_all repo_names_ok MODEL_REPOS"
  by code_simp

lemma required_paths_distinct: "distinct (map (store_path root) (required_paths MODEL_REPOS))"
proof -
  have "distinct (required_pairs MODEL_REPOS)" by code_simp
  then have "distinct (map store_parts (required_paths MODEL_REPOS))"
    by (simp add: required_store_parts [OF MODEL_REPOS_ok])
  then show ?thesis by (simp add: store_path_def distinct_map inj_on_def)
qed

lemma required_store_parts_ne: "p \<in> set (required_paths MODEL_REPOS) \<Longrightarrow> store_parts p \<noteq> []"
proof -
  assume "p \<in> set (required_paths MODEL_REPOS)"
  then have "store_parts p \<in> set (required_pairs MODEL_REPOS)"
    by (metis MODEL_REPOS_ok image_eqI image_set required_store_parts)
  then show ?thesis by (auto simp: required_pairs_def)
qed


section \<open>Properties of the store\<close>

text \<open>C35: Whatever relative path is asked for, the normalised path stays inside the directory it is resolved
  in: it is empty, or every one of its segments between slashes is a plain file name (never empty, \<open>.\<close> or
  \<open>..\<close>, and without a slash or backslash); normalising again changes nothing; and a path of plain file
  names is kept as it is.\<close>

theorem normalizeRelativePath_contained:
  "(normalizeRelativePath p = [] \<or> list_all valid_name (split_char 47 (normalizeRelativePath p)))
   \<and> normalizeRelativePath (normalizeRelativePath p) = normalizeRelativePath p
   \<and> (list_all valid_name ps \<longrightarrow> normalizeRelativePath (join_with [47] ps) = join_with [47] ps)"
proof -
  have keep: "normalizeRelativePath (join_with [47] qs) = join_with [47] qs" if "\<forall>q\<in>set qs. valid_name q" for qs
    using that by (simp add: normalizeRelativePath_parts store_parts_join)
  have "split_char 47 (join_with [47] (store_parts p)) = store_parts p" if "store_parts p \<noteq> []"
    using that store_parts_valid by (intro split_join_char) (auto simp: valid_name_def)
  then have "normalizeRelativePath p = [] \<or> list_all valid_name (split_char 47 (normalizeRelativePath p))"
    using store_parts_valid by (cases "store_parts p = []") (auto simp: normalizeRelativePath_parts list_all_iff)
  then show ?thesis using keep [of "store_parts p"] keep [of ps] store_parts_valid
    by (simp add: normalizeRelativePath_parts list_all_iff)
qed

theorem normalizeRelativePath_contained_witness:
  "normalizeRelativePath (join_with [47] [js ''a'', js ''b.onnx'']) = join_with [47] [js ''a'', js ''b.onnx'']"
proof -
  have "list_all valid_name [js ''a'', js ''b.onnx'']" by code_simp
  then show ?thesis using normalizeRelativePath_contained by blast
qed

text \<open>A managed path is the scheme and an encoded key, with nothing to trim.\<close>

lemma managed_path_plain:
  assumes "\<forall>c\<in>set t. uri_unreserved c \<or> c = 37"
  shows "trim (MANAGED_SCHEME @ t) = MANAGED_SCHEME @ t" and "isManagedModelPath (MANAGED_SCHEME @ t)"
proof -
  have "\<forall>c\<in>set (MANAGED_SCHEME @ t). \<not> js_space c"
    using assms
    by (auto simp: MANAGED_SCHEME_def js_def uri_unreserved_def js_space_def is_alnum_def is_alpha_def
        is_upper_def is_lower_def is_digit_def of_char_def)
  then show tr: "trim (MANAGED_SCHEME @ t) = MANAGED_SCHEME @ t"
    by (intro trim_id) (metis append_is_Nil_conv hd_in_set last_in_set)
  have "lower MANAGED_SCHEME = MANAGED_SCHEME" by code_simp
  then show "isManagedModelPath (MANAGED_SCHEME @ t)"
    unfolding isManagedModelPath_def tr by (simp add: lower_def starts_with_def)
qed

lemma normalizeManagedKey_set: "set (normalizeManagedKey key) \<subseteq> set key \<union> set DEFAULT_EXTERNAL_MODEL_KEY"
  using set_trim [of key] set_trim [of DEFAULT_EXTERNAL_MODEL_KEY]
  by (auto simp: normalizeManagedKey_def Let_def split: if_splits)

lemma normalizeManagedKey_idem: "normalizeManagedKey (normalizeManagedKey key) = normalizeManagedKey key"
proof -
  have "trim DEFAULT_EXTERNAL_MODEL_KEY = DEFAULT_EXTERNAL_MODEL_KEY" by code_simp
  then show ?thesis by (auto simp: normalizeManagedKey_def Let_def)
qed

text \<open>C34: The managed path made for a key parses back to the key: for every key whose characters can be
  encoded, \<open>parseManagedModelKey(createManagedModelPath(key))\<close> is the normalised key, and the path is
  recognised as managed.\<close>

theorem managed_key_roundtrip:
  assumes "\<forall>c\<in>set key. c < 65536" and "createManagedModelPath key = Inr path"
  shows "isManagedModelPath path \<and> parseManagedModelKey path = Inr (Some (normalizeManagedKey key))"
proof -
  have "\<forall>c\<in>set DEFAULT_EXTERNAL_MODEL_KEY. c < 65536" by code_simp
  then have small: "\<forall>c\<in>set (normalizeManagedKey key). c < 65536"
    using assms(1) normalizeManagedKey_set [of key] by blast
  obtain t where t: "encodeURIComponent (normalizeManagedKey key) = Inr t" "path = MANAGED_SCHEME @ t"
    using assms(2) by (auto simp: createManagedModelPath_def bindR_Inr)
  have plain: "\<forall>c\<in>set t. uri_unreserved c \<or> c = 37" using encode_chars [OF small t(1)] by blast
  show ?thesis
    using managed_path_plain [OF plain] decode_encode [OF small t(1)] t(2)
    by (simp add: parseManagedModelKey_def)
qed

theorem managed_key_roundtrip_witness:
  "isManagedModelPath (js ''managed://my%20key'')
   \<and> parseManagedModelKey (js ''managed://my%20key'') = Inr (Some (js ''my key''))"
proof -
  have a: "\<forall>c\<in>set (js ''  my key ''). c < 65536" by code_simp
  have b: "createManagedModelPath (js ''  my key '') = Inr (js ''managed://my%20key'')" by code_simp
  have c: "normalizeManagedKey (js ''  my key '') = js ''my key''" by code_simp
  show ?thesis using managed_key_roundtrip [OF a b] c by simp
qed


section \<open>What a successful call leaves in the store\<close>

definition managed_root :: "jsstr \<Rightarrow> jsstr list" where
  "managed_root key = [INTERNAL_ROOT_DIR_NAME, getManagedDirectoryName (normalizeManagedKey key)]"

lemma getManagedModelRootDirectory_create:
  assumes "getManagedModelRootDirectory env key True st = (Inr h, st')"
  shows "h = Some [INTERNAL_ROOT_DIR_NAME, getManagedDirectoryName key] \<and> keeps_files (fs st) (fs st')
    \<and> sent st' = sent st \<and> progressLog st' = progressLog st"
proof -
  obtain r st1 h' where r: "getDirectoryHandle [] INTERNAL_ROOT_DIR_NAME True st = (Inr r, st1)"
    and h: "getDirectoryHandle r (getManagedDirectoryName key) True st1 = (Inr h', st')" and h': "h = Some h'"
    using assms
    by (auto simp: getManagedModelRootDirectory_def getStorageRootDirectory_def bindP_Inr throwP_def
        split: if_splits)
  show ?thesis
    using getDirectoryHandle_ok [OF r] getDirectoryHandle_ok [OF h] h' keeps_files_trans by auto
qed

lemma all_exist_True:
  "all_exist root ps st = (Inr True, st') \<Longrightarrow>
     st' = st \<and> (\<forall>p\<in>set ps. file_at (fs st) (store_path root p) \<noteq> None)"
proof (induction ps)
  case (Cons p ps)
  then obtain st1 where e: "fileExists root p st = (Inr True, st1)"
    and r: "all_exist root ps st1 = (Inr True, st')"
    by (auto simp: bindP_Inr split: if_splits)
  show ?case using fileExists_True [OF e] Cons.IH r by auto
qed (simp add: retP_def)

lemma all_exist_found:
  assumes "\<forall>p\<in>set ps. file_at (fs st) (store_path root p) \<noteq> None \<and> store_parts p \<noteq> []"
  shows "all_exist root ps st = (Inr True, st)"
  using assms by (induction ps) (simp_all add: retP_def bindP_def fileExists_found)

text \<open>The two ways a call can succeed.\<close>

lemma ensure_cases:
  assumes "ensureExternalBrowserOnnxModels env key onP force tok st = (Inr r, st')"
  obtains (reuse) st1 where "\<not> res_downloaded r" "sent st' = sent st" "keeps_files (fs st) (fs st')"
      "all_exist (managed_root key) (required_paths MODEL_REPOS) st1 = (Inr True, st1)" "fs st' = fs st1"
    | (download) st1 where "res_downloaded r"
      "forP MODEL_REPOS (\<lambda>spec. downloadRepoFiles env (managed_root key) spec onP tok) st1 = (Inr (), st')"
proof -
  define k where "k = normalizeManagedKey key"
  obtain h st1 where g: "getManagedModelRootDirectory env k True st = (Inr h, st1)"
    using assms unfolding ensureExternalBrowserOnnxModels_def Let_def bindP_Inr k_def by blast
  then have h: "h = Some (managed_root key)"
    and keep: "keeps_files (fs st) (fs st1)" "sent st1 = sent st"
    using getManagedModelRootDirectory_create [OF g] by (auto simp: managed_root_def k_def)
  have rest: "bindP (if force then retP False else hasCompleteExternalModelSet (managed_root key))
        (\<lambda>c. bindP (if \<not> c
            then forP MODEL_REPOS (\<lambda>spec. downloadRepoFiles env (managed_root key) spec onP tok)
            else notify onP (PhaseReuse k)) (\<lambda>_. bindP (liftP (createManagedModelPath k)) (\<lambda>mp.
              retP \<lparr>res_key = k, res_label = getManagedStorageLabel k, res_managedPath = mp,
                res_downloaded = \<not> c\<rparr>))) st1 = (Inr r, st')"
    using assms g h unfolding ensureExternalBrowserOnnxModels_def Let_def k_def [symmetric]
    by (subst (asm) bindP_def) simp
  obtain c st2 st3 u where c: "(if force then retP False else hasCompleteExternalModelSet (managed_root key)) st1
        = (Inr c, st2)"
    and b: "(if \<not> c then forP MODEL_REPOS (\<lambda>spec. downloadRepoFiles env (managed_root key) spec onP tok)
         else notify onP (PhaseReuse k)) st2 = (Inr u, st3)"
    and f: "res_downloaded r = (\<not> c)" "st' = st3"
    using rest by (auto simp: bindP_Inr liftP_def)
  show ?thesis
  proof (cases c)
    case True
    then have h: "all_exist (managed_root key) (required_paths MODEL_REPOS) st1 = (Inr True, st2)"
      using c by (auto simp: retP_def hasCompleteExternalModelSet_def split: if_splits)
    have "st2 = st1" using all_exist_True [OF h] by simp
    moreover have "fs st3 = fs st2" "sent st3 = sent st2"
      using b True by (auto simp: notify_def modifyP_def split: if_splits)
    ultimately show ?thesis using reuse [of st1] f True keep h by simp
  next
    case False
    then show ?thesis using download [of st2] f b by simp
  qed
qed

lemma in_required_paths:
  "spec \<in> set specs \<Longrightarrow> f \<in> set (requiredFiles spec) \<Longrightarrow> localDirName spec @ [47] @ f \<in> set (required_paths specs)"
  by (auto simp: required_paths_def)

text \<open>C15: When \<open>ensureExternalBrowserOnnxModels\<close> returns, every required file of every repository is in the
  key's directory of the store. If it reports a download, each file's content is the complete body of a
  good response to a request for a path with that file's name; if it reports reuse, no request was sent
  and every file that was there has the content it had.\<close>

theorem ensure_models_present:
  assumes ret: "ensureExternalBrowserOnnxModels env key onP force tok st = (Inr r, st')"
    and spec: "spec \<in> set MODEL_REPOS" and f: "f \<in> set (requiredFiles spec)"
  shows "\<exists>c. file_at (fs st') (store_path (managed_root key) (localDirName spec @ [47] @ f)) = Some c
    \<and> (if res_downloaded r then fetched env spec f c
       else sent st' = sent st \<and> keeps_files (fs st) (fs st'))"
  using ret
proof (cases rule: ensure_cases)
  case (reuse st1)
  then show ?thesis
    using all_exist_True [OF reuse(4)] in_required_paths [OF spec f] by auto
next
  case (download st1)
  obtain ps where ps: "opfs.puts ps (fs st1) (fs st')"
      "map fst ps = map (store_path (managed_root key)) (required_paths MODEL_REPOS)"
      "\<exists>c. (store_path (managed_root key) (localDirName spec @ [47] @ f), c) \<in> set ps \<and> fetched env spec f c"
    using downloadRepos_ok [OF download(2)] spec f by blast
  then obtain c where c: "(store_path (managed_root key) (localDirName spec @ [47] @ f), c) \<in> set ps"
      "fetched env spec f c" by blast
  have "distinct (map fst ps)" unfolding ps(2) by (rule required_paths_distinct)
  from opfs.puts_all [OF ps(1) this c(1)] show ?thesis using c(2) download(1) by auto
qed

theorem ensure_models_present_witness:
  "\<exists>env st st' r. ensureExternalBrowserOnnxModels env (js ''k'') True False [] st = (Inr r, st') \<and> \<not> res_downloaded r
     \<and> file_at (fs st') (store_path (managed_root (js ''k''))
          (js ''MOSS-TTS-Nano-100M-ONNX'' @ [47] @ js ''tokenizer.model'')) = Some [7] \<and> sent st' = sent st"
proof -
  let ?leaf = "FDir (\<lambda>_. Some (FFile [7]))"
  let ?st = "\<lparr>fs = FDir (\<lambda>_. Some (FDir (\<lambda>_. Some (FDir (\<lambda>_. Some ?leaf))))), sent = [], progressLog = []\<rparr>"
  let ?env = "\<lparr>env_storage = True, env_net = (\<lambda>_ _ _. Inl TypeError), env_write = (\<lambda>_. None)\<rparr>"
  have k: "normalizeManagedKey (js ''k'') = js ''k''" and d: "getManagedDirectoryName (js ''k'') = js ''k''"
    and v: "valid_name (js ''k'')" "valid_name INTERNAL_ROOT_DIR_NAME" by code_simp+
  have root: "managed_root (js ''k'') = [INTERNAL_ROOT_DIR_NAME, js ''k'']" by (simp add: managed_root_def k d)
  have parts: "length (store_parts p) = 2" if "p \<in> set (required_paths MODEL_REPOS)" for p
  proof -
    have "store_parts p \<in> set (required_pairs MODEL_REPOS)"
      using that by (metis MODEL_REPOS_ok image_eqI image_set required_store_parts)
    then show ?thesis by (auto simp: required_pairs_def)
  qed
  have at: "file_at (fs ?st) (store_path (managed_root (js ''k'')) p) = Some [7]"
    if "p \<in> set (required_paths MODEL_REPOS)" for p
    using parts [OF that] by (auto simp: root store_path_def file_at_def length_Suc_conv numeral_2_eq_2)
  have complete: "hasCompleteExternalModelSet (managed_root (js ''k'')) ?st = (Inr True, ?st)"
    unfolding hasCompleteExternalModelSet_def
    by (rule all_exist_found) (use at required_store_parts_ne in simp)
  have "getManagedModelRootDirectory ?env (js ''k'') True ?st = (Inr (Some (managed_root (js ''k''))), ?st)"
    using v by (simp add: getManagedModelRootDirectory_def getStorageRootDirectory_def bindP_def
        getDirectoryHandle_def retP_def root d)
  moreover have "createManagedModelPath (js ''k'') = Inr (js ''managed://k'')" by code_simp
  ultimately have run: "\<exists>r st'. ensureExternalBrowserOnnxModels ?env (js ''k'') True False [] ?st = (Inr r, st')
      \<and> \<not> res_downloaded r \<and> fs st' = fs ?st"
    using complete unfolding ensureExternalBrowserOnnxModels_def k Let_def
    by (simp add: bindP_def notify_def modifyP_def liftP_def retP_def)
  then obtain r st' where r: "ensureExternalBrowserOnnxModels ?env (js ''k'') True False [] ?st = (Inr r, st')"
    "\<not> res_downloaded r" "fs st' = fs ?st" by blast
  let ?spec = "hd MODEL_REPOS"
  have sp: "?spec \<in> set MODEL_REPOS" "js ''tokenizer.model'' \<in> set (requiredFiles ?spec)"
      "localDirName ?spec = js ''MOSS-TTS-Nano-100M-ONNX''" by (simp_all add: MODEL_REPOS_def)
  have "sent st' = sent ?st"
    using ensure_models_present [OF r(1) sp(1,2)] r(2) by simp
  moreover have "file_at (fs st') (store_path (managed_root (js ''k''))
      (js ''MOSS-TTS-Nano-100M-ONNX'' @ [47] @ js ''tokenizer.model'')) = Some [7]"
    using at [OF in_required_paths [OF sp(1,2)]] sp(3) r(3) by simp
  ultimately show ?thesis using r(1,2) by blast
qed

text \<open>After any successful call the set is complete, so the next call without \<open>forceDownload\<close> downloads
  nothing.\<close>

lemma ensure_complete_after:
  assumes ret: "ensureExternalBrowserOnnxModels env key onP force tok st = (Inr r, st')"
  shows "hasCompleteExternalModelSet (managed_root key) st' = (Inr True, st')"
proof -
  have "file_at (fs st') (store_path (managed_root key) p) \<noteq> None" if "p \<in> set (required_paths MODEL_REPOS)" for p
    using ret
  proof (cases rule: ensure_cases)
    case (reuse st1)
    then show ?thesis using all_exist_True [OF reuse(4)] that by simp
  next
    case (download st1)
    obtain ps where ps: "opfs.puts ps (fs st1) (fs st')"
      "map fst ps = map (store_path (managed_root key)) (required_paths MODEL_REPOS)"
      using downloadRepos_ok [OF download(2)] by blast
    have "store_path (managed_root key) p \<in> set (map fst ps)" unfolding ps(2) using that by simp
    then obtain c where c: "(store_path (managed_root key) p, c) \<in> set ps" by auto
    have "distinct (map fst ps)" unfolding ps(2) by (rule required_paths_distinct)
    from opfs.puts_all [OF ps(1) this c] show ?thesis by simp
  qed
  then show ?thesis
    unfolding hasCompleteExternalModelSet_def
    by (intro all_exist_found) (auto simp: required_store_parts_ne)
qed


section \<open>A body that breaks off\<close>

text \<open>C28: A download whose body breaks off fails, but it leaves an empty file under the required name, and
  \<open>fileExists\<close>, which the completeness check asks, finds it: the next call counts the file as present.\<close>

theorem broken_download_counts_as_present:
  assumes dir: "is_dir (fs st) (butlast (store_path root rel))" and new: "tree_lookup (fs st) (store_path root rel) = None"
    and ne: "store_parts rel \<noteq> []" and broken: "consume_body env (rbody resp) = Inl e"
  shows "\<exists>st'. writeResponseToFile env root rel resp st = (Inl e, st')
    \<and> file_at (fs st') (store_path root rel) = Some [] \<and> fileExists root rel st' = (Inr True, st')"
proof -
  let ?d = "root @ butlast (store_parts rel)" and ?n = "last (store_parts rel)"
  let ?st' = "st\<lparr>fs := tree_update (store_path root rel) (FFile []) (fs st)\<rparr>"
  have path: "store_path root rel = ?d @ [?n]" using ne by (simp add: store_path_def)
  have d: "is_dir (fs st) ?d" using dir unfolding path by (simp only: butlast_snoc)
  then obtain m where m: "tree_lookup (fs st) ?d = Some (FDir m)" by (auto simp: is_dir_def)
  have mn: "m ?n = None" using new m by (simp add: path tree_lookup_append split: option.splits)
  have "walk_segments root True (butlast (store_parts rel)) st = (Inr ?d, st)"
    using d by (intro walk_segments_found store_parts_butlast_valid)
  then have "getFileHandleByRelativePath root rel True st = (Inr (store_path root rel), ?st')"
    using ne m mn store_parts_last_valid [OF ne]
    by (simp add: getFileHandleByRelativePath_parts bindP_def getFileHandle_def path)
  then have "writeResponseToFile env root rel resp st = (Inl e, ?st')"
    using broken by (simp add: writeResponseToFile_def bindP_def liftP_def)
  moreover have f: "file_at (fs ?st') (store_path root rel) = Some []"
    using tree_lookup_update_same [OF m, of ?n "FFile []"] by (simp add: path file_at_def)
  ultimately show ?thesis using fileExists_found [of ?st' root rel] ne by simp
qed

theorem broken_download_counts_as_present_witness:
  "\<exists>st'. writeResponseToFile \<lparr>env_storage = True, env_net = (\<lambda>_ _ _. Inl TypeError), env_write = (\<lambda>_. None)\<rparr> []
       (js ''m'') \<lparr>ok = True, status = 200, rbody = Stream [[1, 2]] (Some TypeError), rjson = Inr None\<rparr>
       \<lparr>fs = FDir Map.empty, sent = [], progressLog = []\<rparr> = (Inl TypeError, st')
     \<and> file_at (fs st') (store_path [] (js ''m'')) = Some [] \<and> fileExists [] (js ''m'') st' = (Inr True, st')"
proof -
  have p: "store_parts (js ''m'') = [js ''m'']" by code_simp
  show ?thesis
    by (rule broken_download_counts_as_present)
      (simp_all add: store_path_def p is_dir_def consume_body_def)
qed

end
