(* ===== verification/RuntimePaths.thy ===== *)
theory RuntimePaths
  imports Uri ModelStore
begin

text \<open>
  The path helpers of \<open>browser_onnx_runtime.js\<close>: relative asset paths, external-data sidecars, the
  model root and its URL, and the reading of a file below a local root. The runtime's own
  \<open>normalizeRelativePath\<close> and \<open>isManagedModelPath\<close> carry the suffix \<open>_rt\<close>, since the model store has
  functions of the same names. The URL constructor and \<open>fetch\<close> are parameters.
\<close>

section \<open>Relative paths\<close>

definition slashes :: "jsstr \<Rightarrow> jsstr" where
  "slashes s = map (\<lambda>c. if c = 92 then 47 else c) s"

definition normalizeRelativePath_rt :: "jsstr \<Rightarrow> jsstr" where
  "normalizeRelativePath_rt relativePath = dropWhile (\<lambda>c. c = 47) (slashes relativePath)"

text \<open>The store is \<open>globalThis.NanoReaderBrowserModelStore\<close>; \<open>has_store\<close> says whether its script is loaded.\<close>

definition isManagedModelPath_rt :: "bool \<Rightarrow> jsstr \<Rightarrow> bool" where
  "isManagedModelPath_rt has_store rootPath \<longleftrightarrow> has_store \<and> isManagedModelPath rootPath"

definition MANIFEST_CANDIDATE_RELATIVE_PATHS :: "jsstr list" where
  "MANIFEST_CANDIDATE_RELATIVE_PATHS =
     [js ''browser_poc_manifest.json'',
      js ''MOSS-TTS-Nano-100M-ONNX/browser_poc_manifest.json'',
      js ''MOSS-TTS-Nano-ONNX-CPU/browser_poc_manifest.json'']"

definition joinRelativeAssetPath :: "jsstr \<Rightarrow> jsstr \<Rightarrow> jsstr" where
  "joinRelativeAssetPath baseRelativePath childRelativePath =
     (let normalizedBase = normalizeRelativePath_rt baseRelativePath;
          normalizedChild = normalizeRelativePath_rt childRelativePath
      in if normalizedBase = [] then normalizedChild
         else if normalizedChild = [] then normalizedBase
         else normalizeRelativePath_rt (normalizedBase @ [47] @ normalizedChild))"

definition last_segment :: "jsstr \<Rightarrow> jsstr" where
  "last_segment p = (let name = last (split_char 47 p) in if name = [] then p else name)"

definition parent_dir :: "jsstr \<Rightarrow> jsstr" where
  "parent_dir p = join_with [47] (butlast (split_char 47 p))"

record sidecar =
  sc_relativePath :: jsstr
  sc_mountPath :: jsstr

definition getExternalDataSidecarInfo :: "jsstr \<Rightarrow> sidecar option" where
  "getExternalDataSidecarInfo modelRelativePath =
     (let p = normalizeRelativePath_rt modelRelativePath in
      if \<not> ends_with (lower p) (js ''.onnx'') then None
      else (let sc = take (length p - 5) p @ js ''.data''
            in Some \<lparr>sc_relativePath = sc, sc_mountPath = last_segment sc\<rparr>))"

definition resolveModelExternalDataRelativePaths ::
  "jsstr \<Rightarrow> (jsstr \<rightharpoonup> jsstr list) \<Rightarrow> jsstr \<Rightarrow> jsstr list" where
  "resolveModelExternalDataRelativePaths baseDir externalDataFilesMap modelFileName =
     map (joinRelativeAssetPath baseDir)
       (case externalDataFilesMap modelFileName of None \<Rightarrow> [] | Some ps \<Rightarrow> ps)"

section \<open>Byte counts in the log\<close>

text \<open>\<open>toFixed(1)\<close> of a quotient by a power of two, which is exact: the nearest tenth, upwards on a tie.\<close>

definition tenths :: "nat \<Rightarrow> jsstr" where
  "tenths t = nat_str (t div 10) @ [46] @ nat_str (t mod 10)"

definition formatByteCount :: "nat \<Rightarrow> jsstr" where
  "formatByteCount byteLength =
     (if byteLength < 1024 then nat_str byteLength @ js '' B''
      else if byteLength < 1024 * 1024 then tenths ((byteLength * 10 + 512) div 1024) @ js '' KiB''
      else tenths ((byteLength * 10 + 524288) div 1048576) @ js '' MiB'')"

section \<open>The model root\<close>

definition line_terminator :: "nat \<Rightarrow> bool" where
  "line_terminator c \<longleftrightarrow> c = 10 \<or> c = 13 \<or> c = 8232 \<or> c = 8233"

text \<open>\<open>replace(/^"(.*)"$/, "$1")\<close>: a pair of quotes around the whole text is dropped.\<close>

definition unquote :: "jsstr \<Rightarrow> jsstr" where
  "unquote s =
     (if 2 \<le> length s \<and> hd s = 34 \<and> last s = 34 \<and> \<not> list_ex line_terminator (butlast (tl s))
      then butlast (tl s) else s)"

definition strip_trailing_separators :: "jsstr \<Rightarrow> jsstr" where
  "strip_trailing_separators s = rev (dropWhile (\<lambda>c. c = 47 \<or> c = 92) (rev s))"

definition normalizeLocalDirectoryPath :: "jsstr \<Rightarrow> jsstr result" where
  "normalizeLocalDirectoryPath rawPath =
     (let trimmed = unquote (trim rawPath) in
      if trimmed = [] then Inl (Error (js ''Enter a local browser ONNX model root path first.''))
      else Inr (strip_trailing_separators trimmed))"

definition scheme_char :: "nat \<Rightarrow> bool" where
  "scheme_char c \<longleftrightarrow> is_alnum c \<or> c = 43 \<or> c = 46 \<or> c = 45"

definition isResourceUrl :: "jsstr \<Rightarrow> bool" where
  "isResourceUrl pathValue =
     (case trim pathValue of [] \<Rightarrow> False
      | c # s \<Rightarrow> is_alpha c \<and> starts_with (dropWhile scheme_char s) (js ''://''))"

text \<open>\<open>encodeURI\<close> keeps the reserved characters and \<open>#\<close> as well.\<close>

definition uri_reserved :: "nat \<Rightarrow> bool" where
  "uri_reserved c \<longleftrightarrow> c \<in> set (js '';/?:@&=+$,#'')"

definition encodeURI :: "jsstr \<Rightarrow> jsstr result" where
  "encodeURI s =
     (if list_ex lone_surrogate (code_points s) then Inl URIError
      else Inr (concat (map (\<lambda>ch. if uri_reserved (char_code ch) then ch else uri_char ch) (code_points s))))"

definition drive_path :: "jsstr \<Rightarrow> bool" where
  "drive_path s = (case s of c # d # e # _ \<Rightarrow> is_alpha c \<and> d = 58 \<and> e = 47 | _ \<Rightarrow> False)"

definition assetRootPathToUrl :: "jsstr \<Rightarrow> jsstr result" where
  "assetRootPathToUrl pathValue =
     bindR (normalizeLocalDirectoryPath pathValue) (\<lambda>p.
       (let normalized = slashes p in
        if isResourceUrl normalized
        then Inr (if ends_with normalized [47] then normalized else normalized @ [47])
        else if drive_path normalized then encodeURI (js ''file:///'' @ normalized @ [47])
        else if starts_with normalized [47] then encodeURI (js ''file://'' @ normalized @ [47])
        else Inl (Error (js ''Unsupported local path format: '' @ pathValue))))"

section \<open>Reading below a local root\<close>

text \<open>What \<open>fetch\<close> gives: the status and the body, or the error it is rejected with.\<close>

record reply =
  reply_ok :: bool
  reply_status :: nat
  reply_body :: "nat list"

record net =
  new_url :: "jsstr \<Rightarrow> jsstr \<Rightarrow> jsstr result"
  fetch :: "jsstr \<Rightarrow> reply result"
  utf8_decode :: "nat list \<Rightarrow> jsstr"

definition fetch_local :: "net \<Rightarrow> jsstr \<Rightarrow> jsstr \<Rightarrow> nat list result" where
  "fetch_local net rootPath relPath =
     bindR (assetRootPathToUrl rootPath) (\<lambda>root.
       bindR (new_url net (normalizeRelativePath_rt relPath) root) (\<lambda>fileUrl.
         bindR (fetch net fileUrl) (\<lambda>r.
           if \<not> reply_ok r
           then Inl (Error (js ''Failed to read '' @ fileUrl @ js '' (status='' @ nat_str (reply_status r) @ js '')''))
           else Inr (reply_body r))))"

definition readTextFromLocalPath :: "net \<Rightarrow> jsstr \<Rightarrow> jsstr \<Rightarrow> jsstr result" where
  "readTextFromLocalPath net rootPath relPath =
     bindR (fetch_local net rootPath relPath) (\<lambda>b. Inr (utf8_decode net b))"

definition readBufferFromLocalPath :: "net \<Rightarrow> jsstr \<Rightarrow> jsstr \<Rightarrow> nat list result" where
  "readBufferFromLocalPath net rootPath relPath = fetch_local net rootPath relPath"

section \<open>Lemmas\<close>

text \<open>A relative asset path: forward slashes only, and none in front.\<close>

definition asset_path :: "jsstr \<Rightarrow> bool" where
  "asset_path p \<longleftrightarrow> 92 \<notin> set p \<and> (p = [] \<or> hd p \<noteq> 47)"

lemma set_slashes: "92 \<notin> set (slashes p)"
  by (auto simp: slashes_def)

lemma slashes_id: "92 \<notin> set p \<Longrightarrow> slashes p = p"
  unfolding slashes_def by (rule map_idI) auto

lemma asset_path_normalize: "asset_path (normalizeRelativePath_rt p)"
proof -
  have "set (normalizeRelativePath_rt p) \<subseteq> set (slashes p)"
    by (simp add: normalizeRelativePath_rt_def set_dropWhile_subset)
  then show ?thesis
    using set_slashes [of p] hd_dropWhile [of "\<lambda>c. c = 47" "slashes p"]
    by (auto simp: asset_path_def normalizeRelativePath_rt_def)
qed

lemma normalize_asset_path: "asset_path p \<Longrightarrow> normalizeRelativePath_rt p = p"
  by (cases p) (auto simp: asset_path_def normalizeRelativePath_rt_def slashes_id)

lemma asset_path_append: "asset_path p \<Longrightarrow> p \<noteq> [] \<Longrightarrow> 92 \<notin> set q \<Longrightarrow> asset_path (p @ q)"
  by (auto simp: asset_path_def)

text \<open>Joining asset paths gives a relative path in normal form, whatever separators the parts carry: no
  backslash, no leading slash; the empty base is neutral, joining normal forms only adds the
  separator, and joining is associative.\<close>

theorem joinRelativeAssetPath_normal:
  "asset_path (joinRelativeAssetPath a b)
   \<and> joinRelativeAssetPath [] b = normalizeRelativePath_rt b
   \<and> joinRelativeAssetPath (normalizeRelativePath_rt a) (normalizeRelativePath_rt b) = joinRelativeAssetPath a b
   \<and> joinRelativeAssetPath (joinRelativeAssetPath a b) c = joinRelativeAssetPath a (joinRelativeAssetPath b c)"
proof -
  let ?n = normalizeRelativePath_rt
  have idem: "?n (?n x) = ?n x" for x by (rule normalize_asset_path [OF asset_path_normalize])
  have join: "joinRelativeAssetPath x y
      = (if ?n x = [] then ?n y else if ?n y = [] then ?n x else ?n x @ [47] @ ?n y)" for x y
  proof (cases "?n x = [] \<or> ?n y = []")
    case False
    have "asset_path (?n x @ [47] @ ?n y)"
      by (rule asset_path_append) (use asset_path_normalize [of x] asset_path_normalize [of y] False in
        \<open>auto simp: asset_path_def\<close>)
    then show ?thesis using False by (simp add: joinRelativeAssetPath_def normalize_asset_path)
  qed (auto simp: joinRelativeAssetPath_def)
  have ap: "asset_path (joinRelativeAssetPath x y)" for x y
    unfolding join using asset_path_normalize [of x] asset_path_normalize [of y]
    by (auto simp: asset_path_def)
  have n: "?n (joinRelativeAssetPath x y) = joinRelativeAssetPath x y" for x y
    by (rule normalize_asset_path [OF ap])
  have e: "?n [] = []" by (simp add: normalizeRelativePath_rt_def slashes_def)
  have "joinRelativeAssetPath (joinRelativeAssetPath a b) c = joinRelativeAssetPath a (joinRelativeAssetPath b c)"
    using join [of "joinRelativeAssetPath a b" c] join [of a "joinRelativeAssetPath b c"]
    unfolding n unfolding join [of a b] join [of b c] by simp
  then show ?thesis using ap by (simp add: e join idem)
qed

end
