(* ===== verification/Numbers.thy ===== *)
theory Numbers
  imports Prelude Complex_Main
begin

text \<open>
  JavaScript numbers: the finite values as rationals, the two infinities and \<open>NaN\<close>, with the arithmetic
  rounded to double precision and \<open>Math.fround\<close> (also the rounding of a store into a \<open>Float32Array\<close>)
  to single precision, both to nearest with ties to even and with gradual underflow. The sign of zero is
  not kept: nothing in the modelled code depends on it.
\<close>

datatype num = NaN | NInf | PInf | Fin rat

section \<open>Rounding\<close>

fun bitlen :: "nat \<Rightarrow> nat" where
  "bitlen n = (if n = 0 then 0 else Suc (bitlen (n div 2)))"

declare bitlen.simps [simp del]

text \<open>The exponent of a positive rational: \<open>2 ^ e \<le> x < 2 ^ (e + 1)\<close>.\<close>

definition ilog2 :: "rat \<Rightarrow> int" where
  "ilog2 x = (let (n, d) = quotient_of x; e = int (bitlen (nat n)) - int (bitlen (nat d))
     in if 2 powi e \<le> x then e else e - 1)"

definition round_even :: "rat \<Rightarrow> int" where
  "round_even x = (let f = \<lfloor>x\<rfloor>; r = x - of_int f
     in if r < 1 / 2 then f else if r > 1 / 2 then f + 1 else if even f then f else f + 1)"

text \<open>Rounding to \<open>p\<close> significant bits with exponents from \<open>emin\<close> to \<open>emax\<close>.\<close>

definition quantum :: "int \<Rightarrow> int \<Rightarrow> rat \<Rightarrow> rat" where
  "quantum p emin x = 2 powi (max (ilog2 \<bar>x\<bar>) emin - p + 1)"

definition ieee_round :: "int \<Rightarrow> int \<Rightarrow> int \<Rightarrow> rat \<Rightarrow> num" where
  "ieee_round p emin emax x =
     (if x = 0 then Fin 0
      else
        (let q = quantum p emin x; y = of_int (round_even (x / q)) * q
         in if y \<noteq> 0 \<and> emax < ilog2 \<bar>y\<bar> then (if y < 0 then NInf else PInf) else Fin y))"

definition round64 :: "rat \<Rightarrow> num" where
  "round64 = ieee_round 53 (- 1022) 1023"

definition round32 :: "rat \<Rightarrow> num" where
  "round32 = ieee_round 24 (- 126) 127"

section \<open>Comparison and arithmetic\<close>

fun num_lt :: "num \<Rightarrow> num \<Rightarrow> bool" where
  "num_lt (Fin x) (Fin y) = (x < y)"
| "num_lt NInf (Fin y) = True"
| "num_lt NInf PInf = True"
| "num_lt (Fin x) PInf = True"
| "num_lt _ _ = False"

definition num_eq :: "num \<Rightarrow> num \<Rightarrow> bool" where
  "num_eq a b \<longleftrightarrow> a = b \<and> a \<noteq> NaN"

definition num_le :: "num \<Rightarrow> num \<Rightarrow> bool" where
  "num_le a b \<longleftrightarrow> num_lt a b \<or> num_eq a b"

fun num_neg :: "num \<Rightarrow> num" where
  "num_neg NaN = NaN"
| "num_neg NInf = PInf"
| "num_neg PInf = NInf"
| "num_neg (Fin x) = Fin (- x)"

fun num_add :: "num \<Rightarrow> num \<Rightarrow> num" where
  "num_add (Fin x) (Fin y) = round64 (x + y)"
| "num_add NaN _ = NaN"
| "num_add _ NaN = NaN"
| "num_add NInf PInf = NaN"
| "num_add PInf NInf = NaN"
| "num_add NInf _ = NInf"
| "num_add PInf _ = PInf"
| "num_add _ NInf = NInf"
| "num_add _ PInf = PInf"

definition num_sub :: "num \<Rightarrow> num \<Rightarrow> num" where
  "num_sub a b = num_add a (num_neg b)"

definition inf_of_sign :: "bool \<Rightarrow> num" where
  "inf_of_sign neg = (if neg then NInf else PInf)"

fun num_negative :: "num \<Rightarrow> bool" where
  "num_negative NInf = True"
| "num_negative (Fin x) = (x < 0)"
| "num_negative _ = False"

fun num_mul :: "num \<Rightarrow> num \<Rightarrow> num" where
  "num_mul (Fin x) (Fin y) = round64 (x * y)"
| "num_mul NaN _ = NaN"
| "num_mul _ NaN = NaN"
| "num_mul a b =
     (if a = Fin 0 \<or> b = Fin 0 then NaN else inf_of_sign (num_negative a \<noteq> num_negative b))"

fun num_div :: "num \<Rightarrow> num \<Rightarrow> num" where
  "num_div (Fin x) (Fin y) =
     (if y = 0 then (if x = 0 then NaN else inf_of_sign (x < 0)) else round64 (x / y))"
| "num_div NaN _ = NaN"
| "num_div _ NaN = NaN"
| "num_div (Fin x) _ = Fin 0"
| "num_div a (Fin y) = inf_of_sign (num_negative a \<noteq> (y < 0))"
| "num_div _ _ = NaN"

fun fround :: "num \<Rightarrow> num" where
  "fround (Fin x) = round32 x"
| "fround a = a"

definition num_max :: "num \<Rightarrow> num \<Rightarrow> num" where
  "num_max a b = (if a = NaN \<or> b = NaN then NaN else if num_lt a b then b else a)"

definition num_min :: "num \<Rightarrow> num \<Rightarrow> num" where
  "num_min a b = (if a = NaN \<or> b = NaN then NaN else if num_lt b a then b else a)"

fun num_finite :: "num \<Rightarrow> bool" where
  "num_finite (Fin _) = True"
| "num_finite _ = False"

text \<open>
  \<open>Array.prototype.sort\<close> with the comparator \<open>(left, right) => right - left\<close>: a stable sort, descending. The
  sign of a difference of two doubles is the sign of the exact difference (underflow is gradual), and
  the difference of equal infinities is \<open>NaN\<close>, which counts as equal; so an element goes before
  another exactly when it is greater.
\<close>

fun insert_desc :: "('a \<Rightarrow> num) \<Rightarrow> 'a \<Rightarrow> 'a list \<Rightarrow> 'a list" where
  "insert_desc f x [] = [x]"
| "insert_desc f x (y # ys) = (if num_lt (f x) (f y) then y # insert_desc f x ys else x # y # ys)"

definition sort_desc :: "('a \<Rightarrow> num) \<Rightarrow> 'a list \<Rightarrow> 'a list" where
  "sort_desc f xs = foldr (insert_desc f) xs []"

section \<open>The order of numbers\<close>

lemma num_lt_irrefl [simp]: "\<not> num_lt a a"
  by (cases a) auto

lemma num_lt_trans: "num_lt a b \<Longrightarrow> num_lt b c \<Longrightarrow> num_lt a c"
  by (cases a; cases b; cases c) auto

lemma num_lt_total: "a \<noteq> NaN \<Longrightarrow> b \<noteq> NaN \<Longrightarrow> num_lt a b \<or> a = b \<or> num_lt b a"
  by (cases a; cases b) auto

lemma num_lt_NaN [simp]: "\<not> num_lt NaN b" "\<not> num_lt a NaN"
  by (simp, cases a) simp_all

lemma num_lt_NInf [simp]: "\<not> num_lt a NInf"
  by (cases a) auto

lemma NInf_lt: "num_lt NInf a \<longleftrightarrow> a \<noteq> NInf \<and> a \<noteq> NaN"
  by (cases a) auto

lemma num_not_lt_trans: "b \<noteq> NaN \<Longrightarrow> \<not> num_lt a b \<Longrightarrow> \<not> num_lt b c \<Longrightarrow> \<not> num_lt a c"
  by (cases a; cases b; cases c) auto

lemma insert_desc_set [simp]: "set (insert_desc f x ys) = insert x (set ys)"
  by (induction ys) auto

lemma sort_desc_set [simp]: "set (sort_desc f xs) = set xs"
  unfolding sort_desc_def by (induction xs) auto

lemma insert_desc_length [simp]: "length (insert_desc f x ys) = Suc (length ys)"
  by (induction ys) auto

lemma sort_desc_length [simp]: "length (sort_desc f xs) = length xs"
  unfolding sort_desc_def by (induction xs) auto

definition descending :: "('a \<Rightarrow> num) \<Rightarrow> 'a list \<Rightarrow> bool" where
  "descending f = sorted_wrt (\<lambda>x y. \<not> num_lt (f x) (f y))"

lemma num_lt_asym: "num_lt a b \<Longrightarrow> \<not> num_lt b a"
  using num_lt_trans num_lt_irrefl by blast

lemma insert_desc_descending:
  "(\<forall>z\<in>set (x # ys). f z \<noteq> NaN) \<Longrightarrow> descending f ys \<Longrightarrow> descending f (insert_desc f x ys)"
proof (induction ys)
  case (Cons y ys)
  then show ?case
    by (auto simp: descending_def num_lt_asym dest: num_not_lt_trans [rotated 2])
qed (simp add: descending_def)

lemma sort_desc_descending: "(\<forall>z\<in>set xs. f z \<noteq> NaN) \<Longrightarrow> descending f (sort_desc f xs)"
proof (induction xs)
  case (Cons x xs)
  have "set (foldr (insert_desc f) xs []) = set xs" using sort_desc_set [of f xs] by (simp add: sort_desc_def)
  then show ?case using Cons by (simp add: sort_desc_def insert_desc_descending)
qed (simp add: sort_desc_def descending_def)

section \<open>Laws of rounding\<close>

lemma bitlen_bounds: "0 < n \<Longrightarrow> 2 ^ (bitlen n - 1) \<le> n \<and> n < 2 ^ bitlen n \<and> 0 < bitlen n"
proof (induction n rule: less_induct)
  case (less n)
  show ?case
  proof (cases "n div 2 = 0")
    case True
    then have "n = 1" using less.prems by auto
    then show ?thesis by (simp add: bitlen.simps)
  next
    case False
    then have ih: "2 ^ (bitlen (n div 2) - 1) \<le> n div 2" "n div 2 < 2 ^ bitlen (n div 2)" "0 < bitlen (n div 2)"
      using less.IH [of "n div 2"] by auto
    have b: "bitlen n = Suc (bitlen (n div 2))" using less.prems by (simp add: bitlen.simps [of n])
    obtain k where k: "bitlen (n div 2) = Suc k" using ih(3) gr0_conv_Suc by blast
    show ?thesis using ih unfolding b k by auto
  qed
qed

lemma ilog2_bounds:
  assumes "0 < x"
  shows "2 powi ilog2 x \<le> x \<and> x < 2 powi (ilog2 x + 1)"
proof -
  obtain n d where nd: "quotient_of x = (n, d)" by (cases "quotient_of x") auto
  have d: "0 < d" using quotient_of_denom_pos [OF nd] .
  have x: "x = of_int n / of_int d" using quotient_of_div [OF nd] .
  then have n: "0 < n" using assms d by (simp add: zero_less_divide_iff)
  define a where "a = bitlen (nat n)"
  define b where "b = bitlen (nat d)"
  have a0: "0 < a" "2 ^ (a - 1) \<le> nat n" "nat n < 2 ^ a" using bitlen_bounds [of "nat n"] n by (auto simp: a_def)
  have b0: "0 < b" "2 ^ (b - 1) \<le> nat d" "nat d < 2 ^ b" using bitlen_bounds [of "nat d"] d by (auto simp: b_def)
  have cast: "of_int n = (of_nat (nat n) :: rat)" "of_int d = (of_nat (nat d) :: rat)" using n d by simp_all
  have na: "(2 :: rat) ^ (a - 1) \<le> of_int n" "of_int n < (2 :: rat) ^ a"
    unfolding cast using a0(2,3) by (metis of_nat_le_iff of_nat_numeral of_nat_power,
        metis of_nat_less_iff of_nat_numeral of_nat_power)
  have da: "(2 :: rat) ^ (b - 1) \<le> of_int d" "of_int d < (2 :: rat) ^ b"
    unfolding cast using b0(2,3) by (metis of_nat_le_iff of_nat_numeral of_nat_power,
        metis of_nat_less_iff of_nat_numeral of_nat_power)
  define e where "e = int a - int b"
  have pe: "(2 :: rat) powi (i + 1) = 2 * 2 powi i" for i :: int by (simp add: power_int_add)
  have pa: "(2 :: rat) ^ a = 2 powi int a" "(2 :: rat) ^ (a - 1) = 2 powi (int a - 1)"
    using a0(1) by (simp_all add: power_int_def nat_diff_distrib)
  have pb: "(2 :: rat) ^ b = 2 powi int b" "(2 :: rat) ^ (b - 1) = 2 powi (int b - 1)"
    using b0(1) by (simp_all add: power_int_def nat_diff_distrib)
  have dpos: "(0 :: rat) < of_int d" using d by simp
  note na' = na [unfolded pa] and da' = da [unfolded pb]
  have up: "x < 2 powi (e + 1)"
  proof -
    have "2 powi (e + 1) * of_int d \<ge> (2 :: rat) powi (e + 1) * 2 powi (int b - 1)"
      by (rule mult_left_mono [OF da'(1)]) simp
    also have "(2 :: rat) powi (e + 1) * 2 powi (int b - 1) = 2 powi int a"
      by (simp add: e_def flip: power_int_add)
    finally have "of_int n < 2 powi (e + 1) * (of_int d :: rat)" using na'(2) by (rule order.strict_trans2 [rotated])
    then show ?thesis using x dpos by (simp add: divide_less_eq)
  qed
  have lo: "2 powi (e - 1) \<le> x"
  proof -
    have "(2 :: rat) powi (e - 1) * of_int d \<le> 2 powi (e - 1) * 2 powi int b"
      by (rule mult_left_mono [OF less_imp_le [OF da'(2)]]) simp
    also have "(2 :: rat) powi (e - 1) * 2 powi int b = 2 powi (int a - 1)"
      using power_int_add [of "2 :: rat" "e - 1" "int b"] by (simp add: e_def)
    finally have "2 powi (e - 1) * (of_int d :: rat) \<le> of_int n" using na'(1) by (rule order_trans)
    then show ?thesis using x dpos by (simp add: le_divide_eq)
  qed
  have "ilog2 x = (if 2 powi e \<le> x then e else e - 1)"
    by (simp add: ilog2_def nd Let_def e_def a_def b_def)
  then show ?thesis using up lo by auto
qed


lemma ilog2_le: "0 < x \<Longrightarrow> x < 2 powi (e + 1) \<Longrightarrow> ilog2 x \<le> e"
proof (rule ccontr)
  assume x: "0 < x" "x < 2 powi (e + 1)" and "\<not> ilog2 x \<le> e"
  then have "(2 :: rat) powi (e + 1) \<le> 2 powi ilog2 x" by (intro power_int_increasing) auto
  then show False using ilog2_bounds [OF x(1)] x(2) by simp
qed

lemma round_even_int [simp]: "round_even (of_int k) = k"
  by (simp add: round_even_def)

lemma round_even_bound:
  assumes "\<bar>x\<bar> \<le> of_int m"
  shows "\<bar>round_even x\<bar> \<le> m"
proof -
  have le: "round_even x \<le> m" if "x \<le> of_int m" for x :: rat
  proof (cases "x = of_int m")
    case False
    then have "\<lfloor>x\<rfloor> < m" using that by (simp add: floor_less_iff)
    then show ?thesis by (auto simp: round_even_def Let_def)
  qed simp
  have ge: "- m \<le> round_even x" if "- of_int m \<le> x" for x :: rat
  proof -
    have "- m \<le> \<lfloor>x\<rfloor>" using that by (simp add: le_floor_iff)
    then show ?thesis by (auto simp: round_even_def Let_def)
  qed
  have "x \<le> of_int m" "- of_int m \<le> x" using assms by (simp_all add: abs_le_iff)
  from le [OF this(1)] ge [OF this(2)] show ?thesis by simp
qed

text \<open>A value with at most \<open>p\<close> significant bits above the least quantum is kept.\<close>

definition representable :: "int \<Rightarrow> int \<Rightarrow> rat \<Rightarrow> bool" where
  "representable p emin y \<longleftrightarrow> (\<exists>k e. emin \<le> e \<and> \<bar>k\<bar> \<le> 2 ^ nat p \<and> y = of_int k * 2 powi (e - p + 1))"

lemma powi_int_part: "0 \<le> i \<Longrightarrow> (2 :: rat) powi i = of_int (2 ^ nat i)"
  by (simp add: power_int_def)

lemma powi_split: "(2 :: rat) powi i = 2 powi (i - j) * 2 powi j"
  by (simp flip: power_int_add)

lemma quantum_divides:
  assumes "representable p emin y" and "y \<noteq> 0" and "0 < p"
  shows "\<exists>m. y = of_int m * quantum p emin y"
proof -
  obtain k e where ke: "emin \<le> e" "\<bar>k\<bar> \<le> 2 ^ nat p" "y = of_int k * 2 powi (e - p + 1)"
    using assms(1) by (auto simp: representable_def)
  define E where "E = max (ilog2 \<bar>y\<bar>) emin"
  have q: "quantum p emin y = 2 powi (E - p + 1)" by (simp add: quantum_def E_def)
  have abs: "\<bar>y\<bar> = of_int \<bar>k\<bar> * 2 powi (e - p + 1)" by (simp add: ke(3) abs_mult)
  show ?thesis
  proof (cases "E \<le> e")
    case True
    have "y = of_int k * (2 powi (e - E) * 2 powi (E - p + 1))"
      unfolding ke(3) using powi_split [of "e - p + 1" "E - p + 1"] by simp
    also have "\<dots> = of_int (k * 2 ^ nat (e - E)) * quantum p emin y"
      using powi_int_part [of "e - E"] True by (simp add: q)
    finally show ?thesis by blast
  next
    case False
    have big: "(2 :: rat) powi (e + 1) = of_int (2 ^ nat p) * 2 powi (e - p + 1)"
      using powi_int_part [of p] assms(3) powi_split [of "e + 1" "e - p + 1"] by simp
    have "\<bar>k\<bar> = 2 ^ nat p"
    proof (rule ccontr)
      assume "\<bar>k\<bar> \<noteq> 2 ^ nat p"
      then have "(of_int \<bar>k\<bar> :: rat) < of_int (2 ^ nat p)" using ke(2) by linarith
      then have "\<bar>y\<bar> < 2 powi (e + 1)" unfolding abs big by (intro mult_strict_right_mono) simp_all
      then have "ilog2 \<bar>y\<bar> \<le> e" using assms(2) by (intro ilog2_le) simp_all
      then show False using False ke(1) by (simp add: E_def)
    qed
    then have y: "\<bar>y\<bar> = 2 powi (e + 1)" by (simp add: abs big)
    have "ilog2 \<bar>y\<bar> \<le> e + 1" using assms(2) y by (intro ilog2_le) (simp_all add: power_int_add)
    then have E: "E = e + 1" using False ke(1) by (simp add: E_def max_def split: if_splits)
    have "(2 :: rat) powi (e + 1) = of_int (2 ^ nat (p - 1)) * quantum p emin y"
      using powi_split [of "e + 1" "E - p + 1"] powi_int_part [of "p - 1"] assms(3) by (simp add: q E)
    then have yq: "\<bar>y\<bar> = of_int (2 ^ nat (p - 1)) * quantum p emin y" using y by simp
    have "y = of_int (sgn k * 2 ^ nat (p - 1)) * quantum p emin y"
    proof (cases "0 < k")
      case True
      then have "0 \<le> y" by (simp add: ke(3))
      then show ?thesis using yq True by simp
    next
      case False
      then have "y \<le> 0" by (simp add: ke(3) mult_nonpos_nonneg)
      moreover have "k < 0" using False assms(2) ke(3) by (cases "k = 0") auto
      ultimately show ?thesis using yq by simp
    qed
    then show ?thesis by blast
  qed
qed

lemma ieee_round_representable:
  assumes "ieee_round p emin emax x = Fin y" and "0 < p"
  shows "representable p emin y \<and> (y = 0 \<or> ilog2 \<bar>y\<bar> \<le> emax)"
proof (cases "x = 0")
  case True
  then show ?thesis using True assms by (auto simp: ieee_round_def representable_def intro!: exI [of _ 0] exI [of _ emin])
next
  case False
  define E where "E = max (ilog2 \<bar>x\<bar>) emin"
  define q where "q = quantum p emin x"
  have q: "q = 2 powi (E - p + 1)" by (simp add: quantum_def E_def q_def)
  have y: "y = of_int (round_even (x / q)) * q" "y = 0 \<or> ilog2 \<bar>y\<bar> \<le> emax"
    using assms(1) False by (auto simp: ieee_round_def Let_def q_def split: if_splits)
  have "\<bar>x\<bar> < 2 powi (ilog2 \<bar>x\<bar> + 1)" using ilog2_bounds [of "\<bar>x\<bar>"] False by simp
  also have "\<dots> \<le> (2 :: rat) powi (E + 1)" by (intro power_int_increasing) (auto simp: E_def)
  also have "\<dots> = of_int (2 ^ nat p) * q"
    using powi_int_part [of p] assms(2) powi_split [of "E + 1" "E - p + 1"] by (simp add: q)
  finally have "\<bar>x\<bar> \<le> of_int (2 ^ nat p) * q" by simp
  moreover have "0 < q" by (simp add: q)
  ultimately have "\<bar>x / q\<bar> \<le> of_int (2 ^ nat p)" by (simp only: abs_divide abs_of_pos divide_le_eq) simp
  then have "\<bar>round_even (x / q)\<bar> \<le> 2 ^ nat p" by (rule round_even_bound)
  moreover have "emin \<le> E" by (simp add: E_def)
  ultimately have "representable p emin y" unfolding representable_def using y(1) q by blast
  then show ?thesis using y(2) by simp
qed

lemma ieee_round_keeps:
  assumes "representable p emin y" and "y = 0 \<or> ilog2 \<bar>y\<bar> \<le> emax" and "0 < p"
  shows "ieee_round p emin emax y = Fin y"
proof (cases "y = 0")
  case False
  obtain m where m: "y = of_int m * quantum p emin y" using quantum_divides [OF assms(1) False assms(3)] by blast
  have "quantum p emin y \<noteq> 0" by (simp add: quantum_def)
  then have "y / quantum p emin y = of_int m" using m by (metis nonzero_eq_divide_eq)
  then show ?thesis using False assms(2) m by (simp add: ieee_round_def)
qed (simp add: ieee_round_def)

lemma round64_idem: "round64 x = Fin y \<Longrightarrow> round64 y = Fin y"
  unfolding round64_def using ieee_round_representable ieee_round_keeps by fastforce

lemma round32_idem: "round32 x = Fin y \<Longrightarrow> round32 y = Fin y"
  unfolding round32_def using ieee_round_representable ieee_round_keeps by fastforce


text \<open>What the code relies on of a rounding: a rounded value is not rounded again, and zero stays zero.\<close>

locale rounding =
  fixes rnd :: "rat \<Rightarrow> num"
  assumes rnd_idem: "rnd x = Fin y \<Longrightarrow> rnd y = Fin y"
    and rnd_zero: "rnd 0 = Fin 0"
begin

definition exact :: "num \<Rightarrow> bool" where
  "exact a \<longleftrightarrow> (case a of Fin x \<Rightarrow> rnd x = Fin x | _ \<Rightarrow> True)"

lemma exact_rnd [simp]: "exact (rnd x)"
  by (auto simp: exact_def rnd_idem split: num.splits)

lemma exact_simps [simp]: "exact NaN" "exact NInf" "exact PInf" "exact (Fin 0)"
  by (simp_all add: exact_def rnd_zero)

lemma exact_Fin: "exact (Fin x) \<longleftrightarrow> rnd x = Fin x"
  by (simp add: exact_def)

end

interpretation r64: rounding round64
  by unfold_locales (simp add: round64_idem, simp add: round64_def ieee_round_def)

interpretation r32: rounding round32
  by unfold_locales (simp add: round32_idem, simp add: round32_def ieee_round_def)

lemma num_add_exact [simp]: "r64.exact (num_add a b)"
  by (cases "(a, b)" rule: num_add.cases) simp_all

lemma num_sub_exact [simp]: "r64.exact (num_sub a b)"
  by (simp add: num_sub_def)

lemma num_sub_zero: "r64.exact a \<Longrightarrow> num_sub a (Fin 0) = a"
  by (cases a) (simp_all add: num_sub_def r64.exact_Fin)

lemma fround_exact [simp]: "r32.exact (fround a)"
  by (cases a) simp_all

lemma fround_fround [simp]: "fround (fround a) = fround a"
  by (cases a) (auto simp: r32.exact_Fin split: num.splits intro: r32.rnd_idem, metis fround.simps num.exhaust r32.rnd_idem)


text \<open>Single-precision rounding keeps values clearly below 1 below 1.\<close>

lemma round_even_less: "x < of_int m + 1 / 2 \<Longrightarrow> round_even x \<le> m"
proof -
  assume x: "x < of_int m + 1 / 2"
  have f: "\<lfloor>x\<rfloor> \<le> m" using x by (simp add: floor_le_iff)
  show ?thesis
  proof (cases "\<lfloor>x\<rfloor> = m")
    case True
    then have "x - of_int \<lfloor>x\<rfloor> < 1 / 2" using x by simp
    then show ?thesis using True by (simp add: round_even_def Let_def)
  next
    case False
    then have "\<lfloor>x\<rfloor> + 1 \<le> m" using f by simp
    then show ?thesis by (auto simp: round_even_def Let_def)
  qed
qed

lemma round_even_nonneg: "0 \<le> x \<Longrightarrow> 0 \<le> round_even x"
proof -
  assume "0 \<le> x"
  then have "0 \<le> \<lfloor>x\<rfloor>" by simp
  then show ?thesis by (auto simp: round_even_def Let_def)
qed

lemma round32_below_one:
  assumes "0 \<le> z" and "z < 1 - 1 / 2 ^ 25"
  shows "\<exists>y. round32 z = Fin y \<and> 0 \<le> y \<and> y < 1"
proof (cases "z = 0")
  case True
  then show ?thesis by (simp add: r32.rnd_zero)
next
  case False
  define E where "E = max (ilog2 z) (- 126)"
  define q where "q = quantum 24 (- 126) z"
  define y where "y = of_int (round_even (z / q)) * q"
  have zpos: "0 < z" and z1: "z < 1" using False assms by auto
  have q: "q = 2 powi (E - 23)" using zpos by (simp add: q_def quantum_def E_def)
  then have qpos: "0 < q" by simp
  have E1: "E \<le> - 1" using ilog2_le [OF zpos, of "- 1"] z1 by (simp add: E_def)
  have y0: "0 \<le> y" using round_even_nonneg [of "z / q"] zpos qpos by (simp add: y_def)
  have y1: "y < 1"
  proof (cases "E = - 1")
    case True
    have q24: "q = 1 / 2 ^ 24" using True by (simp add: q power_int_def field_simps)
    have "z / q < of_int (2 ^ 24 - 1) + 1 / 2" using assms(2) by (simp add: q24 field_simps)
    then have "round_even (z / q) \<le> 2 ^ 24 - 1" by (rule round_even_less)
    then have "(of_int (round_even (z / q)) :: rat) \<le> of_int (2 ^ 24 - 1)" by (simp only: of_int_le_iff)
    then show ?thesis by (simp add: y_def q24 field_simps)
  next
    case False
    then have E2: "E + 1 \<le> - 1" using E1 by simp
    have "z < 2 powi (ilog2 z + 1)" using ilog2_bounds [OF zpos] by simp
    also have "\<dots> \<le> (2 :: rat) powi (E + 1)" by (intro power_int_increasing) (auto simp: E_def)
    also have eq: "\<dots> = 2 ^ 24 * q" using powi_split [of "E + 1" "E - 23"] by (simp add: q powi_int_part)
    finally have "z / q \<le> of_int (2 ^ 24)" using qpos by (simp add: divide_le_eq)
    then have "\<bar>z / q\<bar> \<le> of_int (2 ^ 24)" using zpos qpos by simp
    then have "\<bar>round_even (z / q)\<bar> \<le> 2 ^ 24" by (rule round_even_bound)
    then have "(of_int (round_even (z / q)) :: rat) \<le> of_int (2 ^ 24)" by (simp only: of_int_le_iff)
    then have "y \<le> of_int (2 ^ 24) * q" unfolding y_def using qpos by (intro mult_right_mono) simp_all
    then have "y \<le> 2 ^ 24 * q" by simp
    also have "\<dots> = 2 powi (E + 1)" using eq by simp
    also have "\<dots> \<le> (2 :: rat) powi (- 1)" using E2 by (intro power_int_increasing) auto
    finally show ?thesis by simp
  qed
  have "y \<noteq> 0 \<Longrightarrow> ilog2 \<bar>y\<bar> \<le> 127"
    using ilog2_le [of y "- 1"] y0 y1 by simp
  then have "round32 z = Fin y"
    using False by (auto simp: round32_def ieee_round_def Let_def q_def y_def)
  then show ?thesis using y0 y1 by blast
qed

end
