(* ===== verification/Profile.thy ===== *)
theory Profile
  imports Numbers
begin

text \<open>
  The runtime's profile: timings and counters by key. A profile state is \<open>null\<close> until profiling is switched
  on, and every recording function is without effect then. Clock readings are arguments.
\<close>

section \<open>State\<close>

record timing =
  totalMs :: num
  tcount :: nat
  minMs :: "num option"
  maxMs :: num

record profile_state =
  enabled :: bool
  timings :: "jsstr \<rightharpoonup> timing"
  counters :: "jsstr \<rightharpoonup> num"

record timing_snapshot = timing +
  averageMs :: num

record profile_snapshot =
  snap_enabled :: bool
  snap_timings :: "jsstr \<rightharpoonup> timing_snapshot"
  snap_counters :: "jsstr \<rightharpoonup> num"

section \<open>Operations\<close>

text \<open>\<open>has_performance\<close>: \<open>performance.now\<close> is available; otherwise \<open>Date.now()\<close> is read.\<close>

definition nowMs :: "bool \<Rightarrow> num \<Rightarrow> num \<Rightarrow> num" where
  "nowMs has_performance performanceNow dateNow = (if has_performance then performanceNow else dateNow)"

definition createProfileState :: profile_state where
  "createProfileState = \<lparr>enabled = True, timings = Map.empty, counters = Map.empty\<rparr>"

definition profiling :: "profile_state option \<Rightarrow> bool" where
  "profiling ps = (case ps of None \<Rightarrow> False | Some p \<Rightarrow> enabled p)"

definition safe_duration :: "num \<Rightarrow> num" where
  "safe_duration d = (if num_finite d \<and> num_le (Fin 0) d then d else Fin 0)"

definition add_timing :: "timing option \<Rightarrow> num \<Rightarrow> timing" where
  "add_timing current d =
     (let t = (case current of None \<Rightarrow> \<lparr>totalMs = Fin 0, tcount = 0, minMs = None, maxMs = Fin 0\<rparr> | Some t \<Rightarrow> t)
      in \<lparr>totalMs = num_add (totalMs t) d, tcount = tcount t + 1,
          minMs = Some (case minMs t of None \<Rightarrow> d | Some m \<Rightarrow> num_min m d),
          maxMs = num_max (maxMs t) d\<rparr>)"

definition recordProfileTiming :: "profile_state option \<Rightarrow> jsstr \<Rightarrow> num \<Rightarrow> profile_state option" where
  "recordProfileTiming ps key durationMs =
     (case ps of None \<Rightarrow> None
      | Some p \<Rightarrow>
          if \<not> enabled p then ps
          else Some (p\<lparr>timings := (timings p)(key \<mapsto> add_timing (timings p key) (safe_duration durationMs))\<rparr>))"

definition finishProfileTiming :: "num \<Rightarrow> profile_state option \<Rightarrow> jsstr \<Rightarrow> num \<Rightarrow> profile_state option" where
  "finishProfileTiming now ps key startedAt =
     (if \<not> profiling ps then ps else recordProfileTiming ps key (num_sub now startedAt))"

definition recordProfileCounter :: "profile_state option \<Rightarrow> jsstr \<Rightarrow> num \<Rightarrow> profile_state option" where
  "recordProfileCounter ps key delta =
     (case ps of None \<Rightarrow> None
      | Some p \<Rightarrow>
          if \<not> enabled p then ps
          else
            (let safeDelta = (if num_finite delta then delta else Fin 0);
                 current = (case counters p key of None \<Rightarrow> Fin 0 | Some c \<Rightarrow> if c = NaN then Fin 0 else c)
             in Some (p\<lparr>counters := (counters p)(key \<mapsto> num_add current safeDelta)\<rparr>)))"

definition snapshot_timing :: "timing \<Rightarrow> timing_snapshot" where
  "snapshot_timing t =
     \<lparr>totalMs = totalMs t, tcount = tcount t, minMs = minMs t, maxMs = maxMs t,
      averageMs = (if tcount t > 0 then num_div (totalMs t) (Fin (of_nat (tcount t))) else Fin 0)\<rparr>"

definition cloneProfileSnapshot :: "profile_state option \<Rightarrow> profile_snapshot" where
  "cloneProfileSnapshot ps =
     (case ps of
        Some p \<Rightarrow>
          if enabled p
          then \<lparr>snap_enabled = True, snap_timings = map_option snapshot_timing \<circ> timings p, snap_counters = counters p\<rparr>
          else \<lparr>snap_enabled = False, snap_timings = Map.empty, snap_counters = Map.empty\<rparr>
      | None \<Rightarrow> \<lparr>snap_enabled = False, snap_timings = Map.empty, snap_counters = Map.empty\<rparr>)"

section \<open>Recorded durations\<close>

lemma safe_duration_ok: "num_finite (safe_duration d) \<and> \<not> num_lt (safe_duration d) (Fin 0)"
  by (cases d) (auto simp: safe_duration_def num_le_def num_eq_def)

text \<open>What a timing says of the durations recorded into it.\<close>

definition timing_of :: "num list \<Rightarrow> timing \<Rightarrow> bool" where
  "timing_of ds t \<longleftrightarrow> tcount t = length ds \<and> totalMs t = foldl num_add (Fin 0) ds
     \<and> (case minMs t of None \<Rightarrow> ds = [] | Some m \<Rightarrow> m \<in> set ds \<and> list_all (\<lambda>d. \<not> num_lt d m) ds)
     \<and> list_all (\<lambda>d. \<not> num_lt (maxMs t) d) ds \<and> (maxMs t = Fin 0 \<or> maxMs t \<in> set ds)"

lemma timing_of_add:
  assumes "timing_of ds t" and "list_all num_finite ds" and "num_finite d"
  shows "timing_of (ds @ [d]) (add_timing (Some t) d)"
proof -
  have nan: "d \<noteq> NaN" "\<forall>x\<in>set ds. x \<noteq> NaN" using assms(2,3) by (auto simp: list_all_iff)
  have mx: "maxMs t \<noteq> NaN" using assms(1) nan(2) by (auto simp: timing_of_def)
  have up: "\<not> num_lt (num_max (maxMs t) d) x" if "\<not> num_lt (maxMs t) x" for x
    using that mx nan(1) num_lt_trans [of "maxMs t" d x] by (auto simp: num_max_def)
  have lo: "\<not> num_lt x (num_min m d)" if "\<not> num_lt x m" "m \<noteq> NaN" for x m
    using that nan(1) num_lt_trans [of x d m] by (auto simp: num_min_def)
  have mm: "num_max (maxMs t) d = Fin 0 \<or> num_max (maxMs t) d = d \<or> num_max (maxMs t) d \<in> set ds"
    using assms(1) nan mx by (auto simp: timing_of_def num_max_def)
  have dmax: "\<not> num_lt (num_max (maxMs t) d) d" using nan(1) mx by (auto simp: num_max_def)
  have dmin: "\<not> num_lt d (num_min m d)" "num_min m d = m \<or> num_min m d = d" if "m \<noteq> NaN" for m
    using nan(1) that by (auto simp: num_min_def)
  show ?thesis
  proof (cases "minMs t")
    case None
    then show ?thesis using assms(1) mm dmax nan(1) by (auto simp: timing_of_def add_timing_def Let_def)
  next
    case (Some m)
    then have m: "m \<in> set ds" "\<forall>x\<in>set ds. \<not> num_lt x m" using assms(1) by (auto simp: timing_of_def list_all_iff)
    then have mn: "m \<noteq> NaN" using nan(2) by blast
    have "num_min m d \<in> set (ds @ [d])" using dmin(2) [OF mn] m(1) by auto
    moreover have "list_all (\<lambda>x. \<not> num_lt x (num_min m d)) (ds @ [d])"
      using lo [OF _ mn] m(2) dmin(1) [OF mn] by (auto simp: list_all_iff)
    moreover have "list_all (\<lambda>x. \<not> num_lt (num_max (maxMs t) d) x) (ds @ [d])"
      using assms(1) up dmax by (auto simp: list_all_iff timing_of_def)
    ultimately show ?thesis using assms(1) Some mm by (auto simp: timing_of_def add_timing_def Let_def)
  qed
qed

text \<open>Recording durations under a key keeps their number, their sum in order, and their true minimum and
  maximum, after durations that are not finite or negative have been replaced by 0; other keys are
  not touched.\<close>

theorem recordProfileTiming_statistics:
  assumes "ps = foldl (\<lambda>ps d. recordProfileTiming ps key d) (Some createProfileState) ds"
  shows "\<exists>p. ps = Some p \<and> (ds = [] \<or> (\<exists>t. timings p key = Some t \<and> timing_of (map safe_duration ds) t))
    \<and> (\<forall>k. k \<noteq> key \<longrightarrow> timings p k = None)"
  unfolding assms
proof -
  define run where "run ds = foldl (\<lambda>ps d. recordProfileTiming ps key d) (Some createProfileState) ds" for ds
  have "\<exists>p. run ds = Some p \<and> enabled p
      \<and> (case timings p key of None \<Rightarrow> ds = [] | Some t \<Rightarrow> ds \<noteq> [] \<and> timing_of (map safe_duration ds) t)
      \<and> (\<forall>k. k \<noteq> key \<longrightarrow> timings p k = None)"
  proof (induction ds rule: rev_induct)
    case Nil
    show ?case by (simp add: createProfileState_def run_def)
  next
    case (snoc d ds)
    then obtain p where p: "run ds = Some p" "enabled p"
      "case timings p key of None \<Rightarrow> ds = [] | Some t \<Rightarrow> ds \<noteq> [] \<and> timing_of (map safe_duration ds) t"
      "\<forall>k. k \<noteq> key \<longrightarrow> timings p k = None" by blast
    have fin: "list_all num_finite (map safe_duration ds)" "num_finite (safe_duration d)"
      using safe_duration_ok by (auto simp: list_all_iff)
    have "timing_of (map safe_duration (ds @ [d])) (add_timing (timings p key) (safe_duration d))"
    proof (cases "timings p key")
      case None
      then show ?thesis using p(3) safe_duration_ok [of d]
        by (auto simp: timing_of_def add_timing_def num_max_def Let_def)
    next
      case (Some t)
      then show ?thesis using timing_of_add [of "map safe_duration ds" t, OF _ fin] p(3) by simp
    qed
    then show ?case using p by (auto simp: run_def recordProfileTiming_def)
  qed
  then show "\<exists>p. foldl (\<lambda>ps d. recordProfileTiming ps key d) (Some createProfileState) ds = Some p
      \<and> (ds = [] \<or> (\<exists>t. timings p key = Some t \<and> timing_of (map safe_duration ds) t))
      \<and> (\<forall>k. k \<noteq> key \<longrightarrow> timings p k = None)"
    unfolding run_def by (auto split: option.splits)
qed

end
