(* ===== verification/Base64.thy ===== *)
theory Base64
  imports Prelude
begin

text \<open>
  The way of the tokenizer model to its frame: \<open>bytesToBase64\<close> of the runtime turns the bytes into text,
  and in the frame \<open>Buffer.from(text, "base64")\<close> turns them back, through \<open>base64clean\<close> and the
  \<open>toByteArray\<close> of \<open>base64-js\<close>. Bytes and 24-bit groups are natural numbers; the 32-bit operators of the
  code are the bit operations on them, since no value leaves the 24 bits.
\<close>

unbundle bit_operations_syntax

section \<open>Encoding\<close>

definition b64_code :: jsstr where
  "b64_code = js ''ABCDEFGHIJKLMNOPQRSTUVWXYZabcdefghijklmnopqrstuvwxyz0123456789+/''"

text \<open>\<open>btoa\<close> of the platform: groups of three bytes, padded at the end; it rejects a unit above 255.\<close>

fun btoa_groups :: "nat list \<Rightarrow> jsstr" where
  "btoa_groups (x # y # z # s) =
     [b64_code ! (x div 4), b64_code ! (x mod 4 * 16 + y div 16), b64_code ! (y mod 16 * 4 + z div 64), b64_code ! (z mod 64)]
       @ btoa_groups s"
| "btoa_groups [x, y] = [b64_code ! (x div 4), b64_code ! (x mod 4 * 16 + y div 16), b64_code ! (y mod 16 * 4), 61]"
| "btoa_groups [x] = [b64_code ! (x div 4), b64_code ! (x mod 4 * 16), 61, 61]"
| "btoa_groups [] = []"

definition btoa :: "jsstr \<Rightarrow> jsstr result" where
  "btoa s = (if list_ex (\<lambda>c. 255 < c) s then Inl (DomException (js ''InvalidCharacterError'')) else Inr (btoa_groups s))"

text \<open>The loop over chunks of 32768 bytes that builds the binary string.\<close>

function binary_string :: "nat list \<Rightarrow> jsstr" where
  "binary_string bytes = (if bytes = [] then [] else take 32768 bytes @ binary_string (drop 32768 bytes))"
  by pat_completeness auto
termination
  by (relation "measure length") auto

declare binary_string.simps [simp del]

definition bytesToBase64 :: "nat list \<Rightarrow> jsstr result" where
  "bytesToBase64 bytes = btoa (binary_string bytes)"

section \<open>Decoding\<close>

fun index_of :: "nat \<Rightarrow> jsstr \<Rightarrow> nat option" where
  "index_of c [] = None"
| "index_of c (x # xs) = (if x = c then Some 0 else map_option Suc (index_of c xs))"

text \<open>The reverse table; the URL alphabet is accepted too, and a missing entry counts as 0 in a shift.\<close>

definition revLookup :: "nat \<Rightarrow> nat" where
  "revLookup c =
     (if c = 45 then 62 else if c = 95 then 63
      else (case index_of c b64_code of None \<Rightarrow> 0 | Some i \<Rightarrow> i))"

definition rev_at :: "jsstr \<Rightarrow> nat \<Rightarrow> nat" where
  "rev_at b64 i = (if i < length b64 then revLookup (b64 ! i) else 0)"

definition getLens :: "jsstr \<Rightarrow> (nat \<times> nat) result" where
  "getLens b64 =
     (let len2 = length b64 in
      if len2 mod 4 > 0 then Inl (Error (js ''Invalid string. Length must be a multiple of 4''))
      else
        (let validLen = (case index_of 61 b64 of None \<Rightarrow> len2 | Some i \<Rightarrow> i);
             placeHoldersLen = (if validLen = len2 then 0 else 4 - validLen mod 4)
         in Inr (validLen, placeHoldersLen)))"

definition u_byteLength :: "nat \<Rightarrow> nat \<Rightarrow> nat" where
  "u_byteLength validLen placeHoldersLen = (validLen + placeHoldersLen) * 3 div 4 - placeHoldersLen"

definition byte_of :: "nat \<Rightarrow> nat \<Rightarrow> nat" where
  "byte_of k tmp = drop_bit k tmp AND 255"

text \<open>The loop over whole groups: the bytes written and the index it ends with.\<close>

function group_loop :: "jsstr \<Rightarrow> nat \<Rightarrow> nat \<Rightarrow> nat list \<times> nat" where
  "group_loop b64 i2 len2 =
     (if i2 < len2
      then
        (let tmp = push_bit 18 (rev_at b64 i2) OR push_bit 12 (rev_at b64 (i2 + 1)) OR push_bit 6 (rev_at b64 (i2 + 2))
               OR rev_at b64 (i2 + 3);
             (rest, i') = group_loop b64 (i2 + 4) len2
         in ([byte_of 16 tmp, byte_of 8 tmp, byte_of 0 tmp] @ rest, i'))
      else ([], i2))"
  by pat_completeness auto
termination
  by (relation "measure (\<lambda>(b, i, n). n - i)") auto

declare group_loop.simps [simp del]

text \<open>A typed array keeps its length: bytes written past its end are dropped, cells not written are 0.\<close>

definition typed_array :: "nat \<Rightarrow> nat list \<Rightarrow> nat list" where
  "typed_array n written = take n written @ replicate (n - length written) 0"

definition toByteArray :: "jsstr \<Rightarrow> nat list result" where
  "toByteArray b64 =
     bindR (getLens b64) (\<lambda>(validLen, placeHoldersLen).
       (let len2 = (if placeHoldersLen > 0 then validLen - 4 else validLen);
            (whole, i2) = group_loop b64 0 len2;
            tail2 = (if placeHoldersLen = 2
              then [byte_of 0 (push_bit 2 (rev_at b64 i2) OR drop_bit 4 (rev_at b64 (i2 + 1)))] else []);
            tail1 = (if placeHoldersLen = 1
              then (let tmp = push_bit 10 (rev_at b64 i2) OR push_bit 4 (rev_at b64 (i2 + 1)) OR drop_bit 2 (rev_at b64 (i2 + 2))
                    in [byte_of 8 tmp, byte_of 0 tmp]) else [])
        in Inr (typed_array (u_byteLength validLen placeHoldersLen) (whole @ tail2 @ tail1))))"

definition base64_char :: "nat \<Rightarrow> bool" where
  "base64_char c \<longleftrightarrow> is_alnum c \<or> c = 43 \<or> c = 47 \<or> c = 45 \<or> c = 95"

definition base64clean :: "jsstr \<Rightarrow> jsstr" where
  "base64clean str =
     (let s0 = hd (split_char 61 str);
          s1 = filter base64_char (trim s0)
      in if length s1 < 2 then [] else s1 @ replicate ((4 - length s1 mod 4) mod 4) 61)"

definition base64ToBytes :: "jsstr \<Rightarrow> nat list result" where
  "base64ToBytes str = toByteArray (base64clean str)"

text \<open>\<open>blitBuffer\<close> from offset 0 copies until the source or the destination ends.\<close>

definition blitBuffer :: "nat list \<Rightarrow> nat list \<Rightarrow> nat list" where
  "blitBuffer src dst = take (length dst) src @ drop (length src) dst"

text \<open>\<open>x | 0\<close>: a whole number as a signed 32-bit integer.\<close>

definition or_zero :: "nat \<Rightarrow> int" where
  "or_zero n = (int n + 2 ^ 31) mod 2 ^ 32 - 2 ^ 31"

definition K_MAX_LENGTH :: int where
  "K_MAX_LENGTH = 2147483647"

text \<open>\<open>createBuffer\<close>: its own check of the length; \<open>new Uint8Array\<close> rejects a negative one.\<close>

definition createBuffer :: "int \<Rightarrow> nat list result" where
  "createBuffer n = (if n > K_MAX_LENGTH then Inl RangeError else if n < 0 then Inl RangeError else Inr (replicate (nat n) 0))"

text \<open>\<open>Buffer.from(string, "base64")\<close>: the length is found by a first decoding, then the bytes are written.\<close>

definition fromString_base64 :: "jsstr \<Rightarrow> nat list result" where
  "fromString_base64 string =
     bindR (if string = [] then Inr 0 else bindR (base64ToBytes string) (\<lambda>b. Inr (or_zero (length b)))) (\<lambda>n.
     bindR (createBuffer n) (\<lambda>buf.
     bindR (base64ToBytes string) (\<lambda>src.
       let actual = min (length buf) (length src); written = blitBuffer src buf
       in Inr (if int actual \<noteq> n then take actual written else written))))"

section \<open>Bit fields\<close>

lemma push_or: "b < 2 ^ n \<Longrightarrow> push_bit n a OR b = a * 2 ^ n + b" for a b :: nat
proof -
  assume b: "b < 2 ^ n"
  have "push_bit n a + b = push_bit n a OR b"
  proof (rule disjunctive_add)
    fix k
    show "\<not> bit (push_bit n a) k \<or> \<not> bit b k"
    proof (cases "n \<le> k")
      case True
      then have "b < 2 ^ k" using b by (meson less_le_trans one_le_numeral power_increasing)
      then show ?thesis by (simp add: bit_iff_odd)
    qed (simp add: bit_push_bit_iff)
  qed
  then show ?thesis by (simp add: push_bit_eq_mult)
qed

lemma byte_of_div: "byte_of k t = t div 2 ^ k mod 256"
proof -
  have "(255 :: nat) = mask 8" by (simp add: mask_eq_exp_minus_1)
  then have "t div 2 ^ k AND 255 = take_bit 8 (t div 2 ^ k)" by (simp only: take_bit_eq_mask)
  then show ?thesis by (simp add: byte_of_def drop_bit_eq_div take_bit_eq_mod)
qed

lemma revLookup_code: "k < 64 \<Longrightarrow> revLookup (b64_code ! k) = k"
proof -
  assume "k < 64"
  moreover have "list_all (\<lambda>k. revLookup (b64_code ! k) = k) [0..<64]" by code_simp
  ultimately show ?thesis by (simp add: list_all_iff)
qed

lemma code_char: "k < 64 \<Longrightarrow> base64_char (b64_code ! k) \<and> b64_code ! k \<noteq> 61 \<and> \<not> js_space (b64_code ! k)"
proof -
  assume "k < 64"
  moreover have "list_all (\<lambda>k. base64_char (b64_code ! k) \<and> b64_code ! k \<noteq> 61 \<and> \<not> js_space (b64_code ! k)) [0..<64]" by code_simp
  ultimately show ?thesis by (simp add: list_all_iff)
qed

section \<open>Whole groups\<close>

lemma byte_parts:
  assumes "x < (256 :: nat)" "y < (256 :: nat)" "z < (256 :: nat)"
  shows "x div 4 < 64" "x mod 4 < 4" "y div 16 < 16" "y mod 16 < 16" "z div 64 < 4" "z mod 64 < 64"
  using assms by (simp_all add: less_mult_imp_div_less)

lemma group3:
  assumes "x < 256" "y < 256" "(z :: nat) < 256"
  shows "push_bit 18 (x div 4) OR push_bit 12 (x mod 4 * 16 + y div 16) OR push_bit 6 (y mod 16 * 4 + z div 64) OR (z mod 64)
    = x * 65536 + y * 256 + z"
proof -
  note p = byte_parts [OF assms]
  have a: "z mod 64 < 2 ^ 6" "(y mod 16 * 4 + z div 64) * 2 ^ 6 + z mod 64 < 2 ^ 12"
    "(x mod 4 * 16 + y div 16) * 2 ^ 12 + ((y mod 16 * 4 + z div 64) * 2 ^ 6 + z mod 64) < 2 ^ 18"
    unfolding power_numeral_even by (use p in simp_all)
  have "x = 4 * (x div 4) + x mod 4" "y = 16 * (y div 16) + y mod 16" "z = 64 * (z div 64) + z mod 64" by simp_all
  then show ?thesis unfolding push_or [OF a(1)] push_or [OF a(2)] push_or [OF a(3)] by (simp; linarith)
qed

lemma div_field: "w < m \<Longrightarrow> (v * m + w) div m = v" for v w m :: nat
  by simp

lemma bytes3:
  assumes "x < 256" "y < 256" "z < 256"
  shows "byte_of 16 (x * 65536 + y * 256 + z) = x" "byte_of 8 (x * 65536 + y * 256 + z) = y"
    "byte_of 0 (x * 65536 + y * 256 + z) = z"
proof -
  have "(x * 65536 + (y * 256 + z)) div 65536 = x" by (rule div_field) (use assms in simp)
  then show "byte_of 16 (x * 65536 + y * 256 + z) = x" using assms by (simp add: byte_of_div add.assoc)
  have "((x * 256 + y) * 256 + z) div 256 = x * 256 + y" by (rule div_field) (use assms in simp)
  moreover have "(x * 256 + y) * 256 + z = x * 65536 + y * 256 + z" by simp
  ultimately have "(x * 65536 + y * 256 + z) div 256 = x * 256 + y" by simp
  then show "byte_of 8 (x * 65536 + y * 256 + z) = y" using assms by (simp add: byte_of_div)
  have "x * 65536 + y * 256 + z = z + 256 * (x * 256 + y)" by simp
  then show "byte_of 0 (x * 65536 + y * 256 + z) = z" using assms by (simp only: byte_of_div power_0 div_by_1 mod_mult_self2 mod_less)
qed

lemma sextets:
  assumes "x < 256" "y < 256" "z < 256"
  shows "x div 4 < 64" "x mod 4 * 16 + y div 16 < 64" "y mod 16 * 4 + z div 64 < 64" "z mod 64 < (64::nat)"
  using byte_parts [OF assms] by linarith+

lemma group_loop_step:
  assumes "i < n" and "push_bit 18 (rev_at b i) OR push_bit 12 (rev_at b (i + 1)) OR push_bit 6 (rev_at b (i + 2)) OR rev_at b (i + 3)
      = x * 65536 + y * 256 + z"
    and "x < 256" "y < 256" "z < 256" and "group_loop b (i + 4) n = (r, e)"
  shows "group_loop b i n = ([x, y, z] @ r, e)"
  using assms(1,2,6) bytes3 [OF assms(3-5)] by (subst group_loop.simps) simp

lemma dvd3: "3 dvd Suc (Suc (Suc n)) \<longleftrightarrow> 3 dvd n" "\<not> 3 dvd Suc (Suc 0)" "\<not> 3 dvd Suc 0"
  by presburger+

lemma group_loop_groups:
  assumes "3 dvd length ts" and "list_all (\<lambda>b. b < 256) ts"
  shows "group_loop (pre @ btoa_groups ts @ rest) (length pre) (length pre + length (btoa_groups ts))
    = (ts, length pre + length (btoa_groups ts))"
  using assms
proof (induction ts arbitrary: pre rule: btoa_groups.induct)
  case (1 x y z s)
  let ?g = "[b64_code ! (x div 4), b64_code ! (x mod 4 * 16 + y div 16), b64_code ! (y mod 16 * 4 + z div 64), b64_code ! (z mod 64)]"
  let ?b = "pre @ ?g @ btoa_groups s @ rest" and ?n = "length pre + length (?g @ btoa_groups s)"
  have b: "x < 256" "y < 256" "z < 256" using 1(3) by auto
  have "3 dvd length s" using 1(2) by simp presburger
  then have "group_loop ((pre @ ?g) @ btoa_groups s @ rest) (length (pre @ ?g)) (length (pre @ ?g) + length (btoa_groups s))
      = (s, length (pre @ ?g) + length (btoa_groups s))" using 1(3) by (intro 1(1)) auto
  moreover have "length (pre @ ?g) = length pre + 4" "length (pre @ ?g) + length (btoa_groups s) = ?n" by simp_all
  ultimately have ih: "group_loop ?b (length pre + 4) ?n = (s, ?n)" by (simp only: append_assoc)
  have at: "rev_at ?b (length pre) = x div 4" "rev_at ?b (length pre + 1) = x mod 4 * 16 + y div 16"
    "rev_at ?b (length pre + 2) = y mod 16 * 4 + z div 64" "rev_at ?b (length pre + 3) = z mod 64"
    using sextets [OF b] by (simp_all add: rev_at_def nth_append revLookup_code)
  have "group_loop ?b (length pre) ?n = ([x, y, z] @ s, ?n)"
    by (rule group_loop_step [OF _ _ b ih]) (simp_all only: at group3 [OF b], simp)
  then show ?case by simp
next
  case 4
  show ?case by (subst group_loop.simps) simp
qed (simp_all, presburger?)


lemma length_groups: "3 dvd length ts \<Longrightarrow> 3 * length (btoa_groups ts) = 4 * length ts"
  by (induction ts rule: btoa_groups.induct) (simp_all add: dvd3)

lemma btoa_groups_append: "3 dvd length ts \<Longrightarrow> btoa_groups (ts @ us) = btoa_groups ts @ btoa_groups us"
  by (induction ts rule: btoa_groups.induct) (simp_all add: dvd3)

section \<open>The round trip\<close>

text \<open>The text without its padding.\<close>

fun b64_tail :: "nat list \<Rightarrow> jsstr" where
  "b64_tail [x, y] = [b64_code ! (x div 4), b64_code ! (x mod 4 * 16 + y div 16), b64_code ! (y mod 16 * 4)]"
| "b64_tail [x] = [b64_code ! (x div 4), b64_code ! (x mod 4 * 16)]"
| "b64_tail _ = []"

definition b64_ok :: "nat \<Rightarrow> bool" where
  "b64_ok c \<longleftrightarrow> base64_char c \<and> c \<noteq> 61 \<and> \<not> js_space c"

lemma b64_okI: "k < 64 \<Longrightarrow> b64_ok (b64_code ! k)"
  using code_char by (simp add: b64_ok_def)

lemma groups_chars: "3 dvd length ts \<Longrightarrow> list_all (\<lambda>b. b < 256) ts \<Longrightarrow> list_all b64_ok (btoa_groups ts)"
proof (induction ts rule: btoa_groups.induct)
  case (1 x y z s)
  have b: "x < 256" "y < 256" "z < 256" using 1(3) by auto
  show ?case using 1 sextets [OF b] by (simp add: b64_okI dvd3)
qed (simp_all add: dvd3)

lemma tail_chars: "list_all (\<lambda>b. b < 256) us \<Longrightarrow> list_all b64_ok (b64_tail us)"
proof -
  assume us: "list_all (\<lambda>b. b < 256) us"
  have "b64_ok (b64_code ! (x div 4))" "b64_ok (b64_code ! (x mod 4 * 16 + y div 16))" "b64_ok (b64_code ! (y mod 16 * 4))"
    "b64_ok (b64_code ! (x mod 4 * 16))" if "x < 256" "y < 256" for x y
    by (rule b64_okI; use byte_parts [OF that that(2)] in linarith)+
  then show ?thesis using us by (cases us rule: b64_tail.cases) auto
qed

lemma split_bytes:
  obtains ts us where "bytes = ts @ us" "3 dvd length ts" "length us < 3"
proof
  let ?n = "length bytes div 3 * 3"
  show "bytes = take ?n bytes @ drop ?n bytes" by simp
  show "3 dvd length (take ?n bytes)" by (simp add: min_absorb2)
  show "length (drop ?n bytes) < 3" by (simp add: minus_div_mult_eq_mod)
qed

text \<open>The loop bound need not be a multiple of 4.\<close>

lemma group_loop_ceil: "i \<le> m \<Longrightarrow> 4 dvd m - i \<Longrightarrow> n \<le> m \<Longrightarrow> m < n + 4 \<Longrightarrow> group_loop b i n = group_loop b i m"
proof (induction "m - i" arbitrary: i rule: less_induct)
  case less
  show ?case
  proof (cases "i = m")
    case True
    then show ?thesis using less.prems by (simp add: group_loop.simps)
  next
    case False
    then have i4: "i + 4 \<le> m" "4 dvd m - (i + 4)" using less.prems(1,2) by presburger+
    then have "group_loop b (i + 4) n = group_loop b (i + 4) m" using less.prems(3,4) by (intro less.hyps) simp_all
    moreover have "i < n" "i < m" using i4 less.prems by simp_all
    ultimately show ?thesis by (subst (1 2) group_loop.simps) simp
  qed
qed

lemma index_of_append: "c \<notin> set a \<Longrightarrow> index_of c (a @ c # b) = Some (length a)"
  by (induction a) auto

lemma index_of_None: "c \<notin> set a \<Longrightarrow> index_of c a = None"
  by (induction a) auto

lemma typed_array_exact: "n = length w \<Longrightarrow> typed_array n w = w"
  by (simp add: typed_array_def)

lemma decode_encoded:
  assumes ts: "3 dvd length ts" "list_all (\<lambda>b. b < 256) ts" and us: "length us < 3" "list_all (\<lambda>b. b < 256) us"
  shows "toByteArray (btoa_groups (ts @ us)) = Inr (ts @ us)"
proof -
  let ?g = "btoa_groups ts"
  have g61: "61 \<notin> set ?g" using groups_chars [OF ts] by (auto simp: list_all_iff b64_ok_def)
  have t61: "61 \<notin> set (b64_tail us)" using tail_chars [OF us(2)] by (auto simp: list_all_iff b64_ok_def)
  obtain k where k: "length ts = 3 * k" using ts(1) by (elim dvdE)
  then have lg: "length ?g = 4 * k" using length_groups [OF ts(1)] by simp
  have "group_loop (?g @ r) 0 (4 * k) = (ts, 4 * k)" for r
    using group_loop_groups [OF ts, of "[]" r] lg by simp
  then have loop: "group_loop (?g @ r) 0 n = (ts, 4 * k)" if "n \<le> 4 * k" "4 * k < n + 4" for r n
    using group_loop_ceil [of 0 "4 * k" n] that by simp
  have app: "btoa_groups (ts @ us) = ?g @ btoa_groups us" by (rule btoa_groups_append [OF ts(1)])
  have mods: "Suc (Suc (4 * k)) mod 4 = 2" "Suc (Suc (Suc (4 * k))) mod 4 = 3" by presburger+
  consider "us = []" | x where "us = [x]" | x y where "us = [x, y]"
    using us(1) by (cases us rule: b64_tail.cases) auto
  then show ?thesis
  proof cases
    case 1
    then show ?thesis using loop [of "4 * k" "[]"] lg k
      by (simp add: toByteArray_def getLens_def index_of_None [OF g61] u_byteLength_def typed_array_exact)
  next
    case (2 x)
    have x: "x < 256" using us(2) 2 by simp
    note p = byte_parts [OF x x x]
    let ?b = "?g @ btoa_groups [x]"
    have i: "index_of 61 ?b = Some (4 * k + 2)"
      using index_of_append [of 61 "?g @ b64_tail us" "[61]"] g61 t61 2 lg by simp
    have at: "rev_at ?b (4 * k) = x div 4" "rev_at ?b (4 * k + 1) = x mod 4 * 16"
      using p by (simp_all add: rev_at_def nth_append lg revLookup_code)
    have "drop_bit 4 (x mod 4 * 16) = x mod 4" by (simp add: drop_bit_eq_div)
    moreover have "push_bit 2 (x div 4) OR x mod 4 = x" using push_or [of "x mod 4" 2 "x div 4"] by simp
    ultimately have "byte_of 0 (push_bit 2 (rev_at ?b (4 * k)) OR drop_bit 4 (rev_at ?b (4 * k + 1))) = x"
      using x unfolding at by (simp add: byte_of_div)
    then show ?thesis using loop [of "4 * k + 2 - 4" "btoa_groups [x]"] lg k i
      unfolding app unfolding 2 by (simp add: mods toByteArray_def getLens_def u_byteLength_def typed_array_exact)
  next
    case (3 x y)
    have b: "x < 256" "y < 256" using us(2) 3 by auto
    note p = byte_parts [OF b b(2)]
    let ?b = "?g @ btoa_groups [x, y]"
    have i: "index_of 61 ?b = Some (4 * k + 3)"
      using index_of_append [of 61 "?g @ b64_tail us" "[]"] g61 t61 3 lg by simp
    have at: "rev_at ?b (4 * k) = x div 4" "rev_at ?b (4 * k + 1) = x mod 4 * 16 + y div 16" "rev_at ?b (4 * k + 2) = y mod 16 * 4"
      using p by (simp_all add: rev_at_def nth_append lg revLookup_code)
    have a: "y mod 16 < 2 ^ 4" "(x mod 4 * 16 + y div 16) * 2 ^ 4 + y mod 16 < 2 ^ 10"
      unfolding power_numeral_even by (use p in simp_all)
    have "x = 4 * (x div 4) + x mod 4" "y = 16 * (y div 16) + y mod 16" by simp_all
    then have "push_bit 10 (x div 4) OR push_bit 4 (x mod 4 * 16 + y div 16) OR (y mod 16) = x * 256 + y"
      unfolding push_or [OF a(1)] push_or [OF a(2)] by (simp; linarith)
    moreover have "drop_bit 2 (y mod 16 * 4) = y mod 16" by (simp add: drop_bit_eq_div)
    ultimately have tmp: "push_bit 10 (rev_at ?b (4 * k)) OR push_bit 4 (rev_at ?b (4 * k + 1)) OR drop_bit 2 (rev_at ?b (4 * k + 2)) = x * 256 + y"
      unfolding at by simp
    have "byte_of 8 (x * 256 + y) = x" "byte_of 0 (x * 256 + y) = y" using b by (simp_all add: byte_of_div)
    moreover have "4 * k < 4 * k - Suc 0 + 4" by simp
    ultimately show ?thesis using loop [of "4 * k - Suc 0" "btoa_groups [x, y]"] lg k i tmp
      unfolding app unfolding 3 by (simp add: mods toByteArray_def getLens_def u_byteLength_def typed_array_exact Let_def)
  qed
qed

lemma clean_encoded:
  assumes ts: "3 dvd length ts" "list_all (\<lambda>b. b < 256) ts" and us: "length us < 3" "list_all (\<lambda>b. b < 256) us"
  shows "base64clean (btoa_groups (ts @ us)) = btoa_groups (ts @ us)"
proof -
  let ?v = "btoa_groups ts @ b64_tail us"
  obtain k where "length ts = 3 * k" using ts(1) by (elim dvdE)
  then have lg: "length (btoa_groups ts) = 4 * k" using length_groups [OF ts(1)] by simp
  have ok: "list_all b64_ok ?v" using groups_chars [OF ts] tail_chars [OF us(2)] by simp
  define n where "n = (3 - length us) mod 3"
  have full: "btoa_groups (ts @ us) = ?v @ replicate n 61"
    unfolding btoa_groups_append [OF ts(1)] n_def
    using us(1) by (cases us rule: b64_tail.cases) (auto simp: numeral_2_eq_2)
  have "61 \<notin> set ?v" using ok by (auto simp: list_all_iff b64_ok_def)
  then have h: "hd (split_char 61 (?v @ replicate n 61)) = ?v"
    using split_char_append [of 61 ?v "replicate (n - 1) 61"]
    by (cases n) (simp_all add: split_char_plain)
  have "\<not> js_space c" if "c \<in> set ?v" for c using ok that by (auto simp: list_all_iff b64_ok_def)
  then have tr: "trim ?v = ?v" by (metis hd_in_set last_in_set trim_id)
  have fl: "filter base64_char ?v = ?v" using ok by (simp add: list_all_iff b64_ok_def)
  have lt: "length (b64_tail us) = (if us = [] then 0 else length us + 1)"
    using us(1) by (cases us rule: b64_tail.cases) auto
  have pad: "n = (4 - length ?v mod 4) mod 4"
  proof -
    have "length ?v mod 4 = length (b64_tail us) mod 4" by (simp add: lg)
    moreover have "length us = 0 \<or> length us = 1 \<or> length us = 2" using us(1) by linarith
    ultimately show ?thesis by (auto simp: n_def lt)
  qed
  have "ts @ us = []" if "length ?v < 2"
    using that us(1) length_groups [OF ts(1)] lt lg by (cases "us = []"; cases k) auto
  then show ?thesis using pad unfolding base64clean_def Let_def full h tr fl
    by (cases "length ?v < 2") (auto simp: n_def)
qed


lemma binary_string_id: "binary_string bytes = bytes"
proof (induction bytes rule: binary_string.induct)
  case (1 bytes)
  then show ?case by (subst binary_string.simps) simp
qed

lemma or_zero_below:
  assumes "n < 2 ^ 32"
  shows "or_zero n = (if n < 2 ^ 31 then int n else int n - 2 ^ 32)"
proof (cases "n < 2 ^ 31")
  case True
  then have "(int n + 2 ^ 31) mod 2 ^ 32 = int n + 2 ^ 31" by (intro mod_pos_pos_trivial) simp_all
  then show ?thesis using True by (simp add: or_zero_def)
next
  case False
  have "(int n + 2 ^ 31) mod 2 ^ 32 = (int n + 2 ^ 31 - 2 ^ 32) mod 2 ^ 32" by (rule minus_mod_self2 [symmetric])
  also have "\<dots> = int n + 2 ^ 31 - 2 ^ 32" using False assms by (intro mod_pos_pos_trivial) simp_all
  finally show ?thesis using False by (simp add: or_zero_def)
qed



end
