(* ===== verification/Sampling.thy ===== *)
theory Sampling
  imports Numbers
begin

text \<open>
  Token sampling of the MOSS runtime (\<open>browser_onnx_runtime.js\<close>): greedy choice, repetition penalty,
  temperature, top-k and top-p filtering and the random draw, and the resolution of the sampling mode.
  \<open>Math.exp\<close> is implementation-approximated in the language, so it is an argument (\<open>mexp\<close>); the value of
  \<open>Math.random\<close> is an argument too. The profiling calls between the statements are no-ops, since the
  runtime never enables its profile.
\<close>

section \<open>Scores\<close>

fun argmax_from :: "nat \<Rightarrow> num \<Rightarrow> nat \<Rightarrow> num list \<Rightarrow> nat" where
  "argmax_from bestIndex bestValue index [] = bestIndex"
| "argmax_from bestIndex bestValue index (v # vs) =
     (if num_lt bestValue v then argmax_from index v (Suc index) vs
      else argmax_from bestIndex bestValue (Suc index) vs)"

definition argmax :: "num list \<Rightarrow> nat" where
  "argmax values = argmax_from 0 NInf 0 values"

definition softmax :: "(num \<Rightarrow> num) \<Rightarrow> num list \<Rightarrow> num list" where
  "softmax mexp values =
     (let maxValue = foldl (\<lambda>m v. if num_lt m v then v else m) NInf values;
          exps = map (\<lambda>v. mexp (num_sub v maxValue)) values;
          total = foldl num_add (Fin 0) exps
      in map (\<lambda>e. num_div e total) exps)"

definition penalize :: "num \<Rightarrow> num \<Rightarrow> num" where
  "penalize penalty score = (if num_lt score (Fin 0) then num_mul score penalty else num_div score penalty)"

text \<open>\<open>new Set(ids)\<close> in iteration order: the first occurrences.\<close>

definition set_order :: "'a list \<Rightarrow> 'a list" where
  "set_order xs = rev (remdups (rev xs))"

definition penalize_at :: "num \<Rightarrow> num list \<Rightarrow> int \<Rightarrow> num list" where
  "penalize_at penalty result tokenId =
     (if tokenId < 0 \<or> tokenId \<ge> int (length result) then result
      else result[nat tokenId := fround (penalize penalty (result ! nat tokenId))])"

definition applyRepetitionPenalty :: "num list \<Rightarrow> int list \<Rightarrow> num \<Rightarrow> num list" where
  "applyRepetitionPenalty values previousTokenIds penalty =
     (if previousTokenIds = [] \<or> penalty = Fin 1 then values
      else foldl (penalize_at penalty) (map fround values) (set_order previousTokenIds))"

fun argmax_penalty_from :: "bool \<Rightarrow> int list \<Rightarrow> num \<Rightarrow> nat \<Rightarrow> num \<Rightarrow> nat \<Rightarrow> num list \<Rightarrow> nat" where
  "argmax_penalty_from applyPenalty prev penalty bestIndex bestValue index [] = bestIndex"
| "argmax_penalty_from applyPenalty prev penalty bestIndex bestValue index (v # vs) =
     (let score = (if applyPenalty \<and> int index \<in> set prev then penalize penalty v else v)
      in if num_lt bestValue score then argmax_penalty_from applyPenalty prev penalty index score (Suc index) vs
         else argmax_penalty_from applyPenalty prev penalty bestIndex bestValue (Suc index) vs)"

definition argmaxWithRepetitionPenalty :: "num list \<Rightarrow> int list \<Rightarrow> num \<Rightarrow> nat" where
  "argmaxWithRepetitionPenalty values previousTokenSet penalty =
     argmax_penalty_from (previousTokenSet \<noteq> [] \<and> penalty \<noteq> Fin 1) previousTokenSet penalty 0 NInf 0 values"

section \<open>Sampling\<close>

record sample_settings =
  doSample :: bool
  temperature :: num
  topK :: int
  topP :: num

definition scale_scores :: "num \<Rightarrow> num list \<Rightarrow> num list" where
  "scale_scores t values = map (\<lambda>v. fround (num_div v t)) values"

definition filter_top_k :: "int \<Rightarrow> num list \<Rightarrow> num list" where
  "filter_top_k k scores =
     (if 0 < k \<and> k < int (length scores)
      then (let threshold = sort_desc id scores ! (nat k - 1)
            in map (\<lambda>s. if num_lt s threshold then NInf else s) scores)
      else scores)"

fun over_mask :: "num \<Rightarrow> num \<Rightarrow> num list \<Rightarrow> bool list" where
  "over_mask limit cumulative [] = []"
| "over_mask limit cumulative (p # ps) =
     (let c = num_add cumulative p in num_lt limit c # over_mask limit c ps)"

definition filter_top_p :: "(num \<Rightarrow> num) \<Rightarrow> num \<Rightarrow> num list \<Rightarrow> num list" where
  "filter_top_p mexp p scores =
     (if num_lt (Fin 0) p \<and> num_lt p (Fin 1)
      then
        (let indexed = sort_desc snd (enumerate 0 scores);
             sortedProbs = softmax mexp (map snd indexed);
             mask = over_mask p (Fin 0) sortedProbs;
             removeMask = (if mask = [] then [] else False # butlast mask);
             removed = map fst (map fst (filter snd (zip indexed removeMask)))
         in map (\<lambda>(i, s). if i \<in> set removed then NInf else s) (enumerate 0 scores))
      else scores)"

text \<open>The loop that subtracts probabilities from the random value until it is not positive.\<close>

fun draw_from :: "num \<Rightarrow> nat \<Rightarrow> num list \<Rightarrow> nat option" where
  "draw_from r index [] = None"
| "draw_from r index (p # ps) =
     (let r' = num_sub r p in if num_le r' (Fin 0) then Some index else draw_from r' (Suc index) ps)"

definition filtered_scores :: "(num \<Rightarrow> num) \<Rightarrow> num list \<Rightarrow> sample_settings \<Rightarrow> num list" where
  "filtered_scores mexp values settings =
     filter_top_p mexp (topP settings) (filter_top_k (topK settings) (scale_scores (temperature settings) values))"

definition sampleFromScores :: "(num \<Rightarrow> num) \<Rightarrow> num \<Rightarrow> num list \<Rightarrow> sample_settings \<Rightarrow> nat result" where
  "sampleFromScores mexp u values settings =
     (if \<not> doSample settings then Inr (argmax values)
      else if \<not> num_lt (Fin 0) (temperature settings)
        then Inl (Error (js ''temperature must be positive when doSample=true''))
      else
        (let scores = filtered_scores mexp values settings
         in case draw_from u 0 (softmax mexp scores) of
              Some index \<Rightarrow> Inr index
            | None \<Rightarrow> Inr (argmax scores)))"

record tts_config =
  n_vq :: nat
  audio_pad_token_id :: int
  audio_start_token_id :: int
  audio_end_token_id :: int
  audio_user_slot_token_id :: int
  audio_assistant_slot_token_id :: int

record generation_defaults =
  max_new_frames :: nat
  do_sample :: "bool option"
  sample_mode :: "jsstr option"
  text_temperature :: num
  text_top_k :: int
  text_top_p :: num
  audio_temperature :: num
  audio_top_k :: int
  audio_top_p :: num
  audio_repetition_penalty :: num

text \<open>A typed array read out of range gives \<open>undefined\<close>, which compares and computes like \<open>NaN\<close>.\<close>

definition logit_at :: "num list \<Rightarrow> int \<Rightarrow> num" where
  "logit_at logits t = (if 0 \<le> t \<and> t < int (length logits) then logits ! nat t else NaN)"

definition sampling_on :: "generation_defaults \<Rightarrow> bool" where
  "sampling_on d \<longleftrightarrow> do_sample d = Some True"

definition sampleAssistantTextToken ::
  "(num \<Rightarrow> num) \<Rightarrow> num \<Rightarrow> num list \<Rightarrow> tts_config \<Rightarrow> generation_defaults \<Rightarrow> int result" where
  "sampleAssistantTextToken mexp u textLogits cfg d =
     (let candidateIds = [audio_assistant_slot_token_id cfg, audio_end_token_id cfg];
          candidateScores = map (logit_at textLogits) candidateIds
      in bindR (sampleFromScores mexp u candidateScores
            \<lparr>doSample = sampling_on d, temperature = text_temperature d,
             topK = min (text_top_k d) (int (length candidateScores)), topP = text_top_p d\<rparr>)
          (\<lambda>i. Inr (candidateIds ! i)))"

definition sampleAudioToken ::
  "(num \<Rightarrow> num) \<Rightarrow> num \<Rightarrow> num list \<Rightarrow> int list \<Rightarrow> int list \<Rightarrow> generation_defaults \<Rightarrow> nat result" where
  "sampleAudioToken mexp u audioLogits previousTokenIds previousTokenSet d =
     (if \<not> sampling_on d
      then Inr (argmaxWithRepetitionPenalty audioLogits previousTokenSet (audio_repetition_penalty d))
      else sampleFromScores mexp u
        (applyRepetitionPenalty audioLogits previousTokenIds (audio_repetition_penalty d))
        \<lparr>doSample = sampling_on d, temperature = audio_temperature d, topK = audio_top_k d, topP = audio_top_p d\<rparr>)"

section \<open>The sampling mode\<close>

definition SAMPLE_MODE_GREEDY :: jsstr where
  "SAMPLE_MODE_GREEDY = js ''greedy''"

definition SAMPLE_MODE_FIXED :: jsstr where
  "SAMPLE_MODE_FIXED = js ''fixed''"

definition SAMPLE_MODE_FULL :: jsstr where
  "SAMPLE_MODE_FULL = js ''full''"

definition normalizeSampleMode :: "jsstr option \<Rightarrow> bool \<Rightarrow> jsstr" where
  "normalizeSampleMode rawSampleMode rawDoSample =
     (let normalized = trim (case rawSampleMode of None \<Rightarrow> [] | Some s \<Rightarrow> s)
      in if normalized \<in> set [SAMPLE_MODE_GREEDY, SAMPLE_MODE_FIXED, SAMPLE_MODE_FULL] then normalized
         else if normalized = js ''mixed3'' then (if \<not> rawDoSample then SAMPLE_MODE_GREEDY else SAMPLE_MODE_FIXED)
         else (if \<not> rawDoSample then SAMPLE_MODE_GREEDY else SAMPLE_MODE_FIXED))"

definition resolveGenerationDefaults ::
  "generation_defaults \<Rightarrow> bool option \<Rightarrow> jsstr option \<Rightarrow> generation_defaults" where
  "resolveGenerationDefaults baseDefaults optDoSample optSampleMode =
     (let fallbackDoSample = (case optDoSample of Some b \<Rightarrow> b | None \<Rightarrow> do_sample baseDefaults \<noteq> Some False);
          requestedSampleMode = (case optSampleMode of Some m \<Rightarrow> Some m
            | None \<Rightarrow> if fallbackDoSample then sample_mode baseDefaults else Some SAMPLE_MODE_GREEDY);
          mode = normalizeSampleMode requestedSampleMode fallbackDoSample
      in baseDefaults\<lparr>sample_mode := Some mode, do_sample := Some (mode \<noteq> SAMPLE_MODE_GREEDY)\<rparr>)"

text \<open>The literal \<open>0.99999994\<close> is the double \<open>9007198714309037 / 2 ^ 53\<close>.\<close>

definition drawClampedRandomU :: "num \<Rightarrow> num" where
  "drawClampedRandomU u = fround (num_min (Fin (9007198714309037 / 2 ^ 53)) (num_max (Fin 0) u))"


section \<open>Greedy choice\<close>

lemma argmax_from_spec:
  assumes "bv \<noteq> NaN"
  shows "\<exists>w. (argmax_from bi bv i vs = bi \<and> w = bv
        \<or> (\<exists>j<length vs. argmax_from bi bv i vs = i + j \<and> w = vs ! j \<and> num_lt bv w \<and> (\<forall>k<j. vs ! k \<noteq> w)))
      \<and> (\<forall>x\<in>set vs. \<not> num_lt w x)"
  using assms
proof (induction vs arbitrary: bi bv i)
  case (Cons v vs)
  show ?case
  proof (cases "num_lt bv v")
    case True
    then have "v \<noteq> NaN" by auto
    from Cons.IH [OF this, of i "Suc i"] obtain w where
      w: "argmax_from i v (Suc i) vs = i \<and> w = v \<or> (\<exists>j<length vs. argmax_from i v (Suc i) vs = Suc i + j
          \<and> w = vs ! j \<and> num_lt v w \<and> (\<forall>k<j. vs ! k \<noteq> w))" "\<forall>x\<in>set vs. \<not> num_lt w x" by blast
    from w(1) show ?thesis
    proof
      assume "argmax_from i v (Suc i) vs = i \<and> w = v"
      then show ?thesis using True w(2) by (intro exI [of _ w]) auto
    next
      assume "\<exists>j<length vs. argmax_from i v (Suc i) vs = Suc i + j \<and> w = vs ! j \<and> num_lt v w \<and> (\<forall>k<j. vs ! k \<noteq> w)"
      then obtain j where j: "j < length vs" "argmax_from i v (Suc i) vs = Suc i + j" "w = vs ! j" "num_lt v w"
        "\<forall>k<j. vs ! k \<noteq> w" by blast
      have "\<forall>k<Suc j. (v # vs) ! k \<noteq> w" using j(4,5) by (auto simp: nth_Cons split: nat.splits)
      then show ?thesis
        using True w(2) j num_lt_trans [OF True j(4)] num_lt_asym [OF j(4)]
        by (intro exI [of _ w]) (auto intro!: exI [of _ "Suc j"])
    qed
  next
    case False
    from Cons.IH [OF Cons.prems, of bi "Suc i"] obtain w where
      w: "argmax_from bi bv (Suc i) vs = bi \<and> w = bv \<or> (\<exists>j<length vs. argmax_from bi bv (Suc i) vs = Suc i + j
          \<and> w = vs ! j \<and> num_lt bv w \<and> (\<forall>k<j. vs ! k \<noteq> w))" "\<forall>x\<in>set vs. \<not> num_lt w x" by blast
    from w(1) show ?thesis
    proof
      assume "argmax_from bi bv (Suc i) vs = bi \<and> w = bv"
      then show ?thesis using False w(2) by (intro exI [of _ w]) auto
    next
      assume "\<exists>j<length vs. argmax_from bi bv (Suc i) vs = Suc i + j \<and> w = vs ! j \<and> num_lt bv w \<and> (\<forall>k<j. vs ! k \<noteq> w)"
      then obtain j where j: "j < length vs" "argmax_from bi bv (Suc i) vs = Suc i + j" "w = vs ! j" "num_lt bv w"
        "\<forall>k<j. vs ! k \<noteq> w" by blast
      have "v \<noteq> w" using False j(4) by auto
      then have "\<forall>k<Suc j. (v # vs) ! k \<noteq> w" using j(5) by (auto simp: nth_Cons split: nat.splits)
      moreover have "\<not> num_lt w v" using False j(4) num_lt_trans by blast
      ultimately show ?thesis using False w(2) j by (intro exI [of _ w]) (auto intro!: exI [of _ "Suc j"])
    qed
  qed
qed simp

text \<open>The greedy choice is the first index of a greatest score: the index is in range, no score is
  greater than the chosen one, and every earlier score differs from it unless all scores are
  \<open>-Infinity\<close> or \<open>NaN\<close>, in which case the index is 0.\<close>

theorem argmax_greatest:
  assumes "values \<noteq> []"
  shows "argmax values < length values \<and> (\<forall>x\<in>set values. \<not> num_lt (values ! argmax values) x)
    \<and> (argmax values = 0 \<or> (\<forall>k<argmax values. values ! k \<noteq> values ! argmax values))"
proof -
  obtain w where w: "argmax values = 0 \<and> w = NInf \<or> (\<exists>j<length values. argmax values = j \<and> w = values ! j
        \<and> num_lt NInf w \<and> (\<forall>k<j. values ! k \<noteq> w))" "\<forall>x\<in>set values. \<not> num_lt w x"
    using argmax_from_spec [of NInf 0 0 "values"] by (auto simp: argmax_def)
  from w(1) show ?thesis
  proof
    assume a: "argmax values = 0 \<and> w = NInf"
    have "x = NInf \<or> x = NaN" if "x \<in> set values" for x using a w(2) that by (cases x) auto
    then show ?thesis using a assms by (metis length_greater_0_conv nth_mem num_lt_NInf num_lt_NaN(2))
  qed (use w(2) in auto)
qed

theorem argmax_greatest_witness:
  "argmax [Fin 1, Fin 3, Fin 3] = 1 \<and> \<not> num_lt ([Fin 1, Fin 3, Fin 3] ! argmax [Fin 1, Fin 3, Fin 3]) (Fin 3)"
  using argmax_greatest [of "[Fin 1, Fin 3, Fin 3]"] by (auto simp: argmax_def)

text \<open>A score greater than \<open>-Infinity\<close> is not passed over.\<close>

lemma argmax_not_NInf:
  assumes "s \<in> set scores" and "s \<noteq> NInf" and "s \<noteq> NaN" and "\<forall>x\<in>set scores. x \<noteq> NaN"
  shows "argmax scores < length scores \<and> scores ! argmax scores \<noteq> NInf"
proof -
  have ne: "scores \<noteq> []" using assms(1) by auto
  have "\<exists>w. (\<forall>x\<in>set scores. \<not> num_lt w x) \<and> (argmax scores = 0 \<and> w = NInf \<or> (argmax scores < length scores \<and> w = scores ! argmax scores \<and> num_lt NInf w))"
    using argmax_from_spec [of NInf 0 0 scores] by (auto simp: argmax_def)
  then obtain w where w: "\<forall>x\<in>set scores. \<not> num_lt w x"
     "argmax scores = 0 \<and> w = NInf \<or> (argmax scores < length scores \<and> w = scores ! argmax scores \<and> num_lt NInf w)" by blast
  have "num_lt NInf s" using assms(2,3) by (cases s) auto
  then show ?thesis using w assms(1) by auto
qed

section \<open>Repetition penalty\<close>

definition penalized :: "int list \<Rightarrow> num \<Rightarrow> nat \<Rightarrow> num \<Rightarrow> num" where
  "penalized prev penalty index v =
     (if prev \<noteq> [] \<and> penalty \<noteq> Fin 1 \<and> int index \<in> set prev then penalize penalty v else v)"

lemma argmax_penalty_from_eq:
  "argmax_penalty_from (prev \<noteq> [] \<and> penalty \<noteq> Fin 1) prev penalty bi bv i vs
     = argmax_from bi bv i (map (\<lambda>(i, v). penalized prev penalty i v) (enumerate i vs))"
  by (induction vs arbitrary: bi bv i) (simp_all add: penalized_def)

lemma fold_penalize_at:
  assumes "distinct ids"
  shows "length (foldl (penalize_at pen) rs ids) = length rs
    \<and> (\<forall>i<length rs. foldl (penalize_at pen) rs ids ! i =
         (if int i \<in> set ids then fround (penalize pen (rs ! i)) else rs ! i))"
  using assms
proof (induction ids arbitrary: rs)
  case (Cons t ids)
  have l: "length (penalize_at pen rs t) = length rs" by (simp add: penalize_at_def)
  have n: "penalize_at pen rs t ! i = (if int i = t then fround (penalize pen (rs ! i)) else rs ! i)"
    if "i < length rs" for i
    using that by (auto simp: penalize_at_def nth_list_update nat_eq_iff)
  show ?case using Cons.IH [of "penalize_at pen rs t"] Cons.prems l n by auto
qed simp

lemma set_order_facts [simp]: "set (set_order xs) = set xs" "distinct (set_order xs)"
  by (simp_all add: set_order_def)

text \<open>C30: The greedy path that penalises on the fly chooses what the sampling path's penalty followed by a
  plain greedy choice would, whenever the scores and their penalised values are single-precision
  numbers, the precision the sampling path stores them in.\<close>

theorem argmax_penalty_equiv:
  assumes "\<forall>v\<in>set values. fround v = v \<and> fround (penalize penalty v) = penalize penalty v"
  shows "argmaxWithRepetitionPenalty values prev penalty = argmax (applyRepetitionPenalty values prev penalty)"
proof -
  have "map (\<lambda>(i, v). penalized prev penalty i v) (enumerate 0 values) = applyRepetitionPenalty values prev penalty"
  proof (cases "prev = [] \<or> penalty = Fin 1")
    case True
    then have "(\<lambda>(i, v). penalized prev penalty i v) = snd" by (auto simp: penalized_def)
    then show ?thesis using True by (simp add: applyRepetitionPenalty_def)
  next
    case False
    have m: "map fround values = values" using assms by (simp add: map_idI)
    show ?thesis
      using False assms fold_penalize_at [of "set_order prev" penalty "values"]
      by (intro nth_equalityI) (auto simp: applyRepetitionPenalty_def m penalized_def nth_enumerate_eq)
  qed
  then show ?thesis
    unfolding argmaxWithRepetitionPenalty_def argmax_penalty_from_eq by (simp add: argmax_def)
qed

theorem argmax_penalty_equiv_witness:
  "argmaxWithRepetitionPenalty [Fin 4, Fin 3] [0] (Fin 2) = argmax (applyRepetitionPenalty [Fin 4, Fin 3] [0] (Fin 2))"
proof -
  have "\<forall>v\<in>set [Fin 4, Fin 3]. fround v = v \<and> fround (penalize (Fin 2) v) = penalize (Fin 2) v" by code_simp
  then show ?thesis by (rule argmax_penalty_equiv)
qed


section \<open>Filters\<close>

definition no_nan :: "num list \<Rightarrow> bool" where
  "no_nan scores \<longleftrightarrow> NaN \<notin> set scores"

definition some_score :: "num list \<Rightarrow> bool" where
  "some_score scores \<longleftrightarrow> (\<exists>s\<in>set scores. s \<noteq> NInf)"

lemma filter_insert_desc: "length (filter P (insert_desc f x ys)) = length (filter P (x # ys))"
  by (induction ys) auto

lemma filter_sort_desc: "length (filter P (sort_desc f xs)) = length (filter P xs)"
proof (induction xs)
  case (Cons x xs)
  then show ?case using filter_insert_desc [of P f x "sort_desc f xs"] by (simp add: sort_desc_def)
qed (simp add: sort_desc_def)

lemma descending_nth: "descending f xs \<Longrightarrow> i \<le> j \<Longrightarrow> j < length xs \<Longrightarrow> \<not> num_lt (f (xs ! i)) (f (xs ! j))"
  by (cases "i = j") (auto simp: descending_def sorted_wrt_iff_nth_less)

lemma length_filter_top_k [simp]: "length (filter_top_k k scores) = length scores"
  by (simp add: filter_top_k_def Let_def)

text \<open>Top-k filtering keeps at least k scores, and every score it replaces by \<open>-Infinity\<close> is smaller than
  every score it keeps (ties with the k-th greatest are all kept).\<close>

theorem filter_top_k_keeps:
  assumes k: "0 < k" "k < int (length scores)" and nan: "no_nan scores"
  shows "nat k \<le> length (filter (\<lambda>i. filter_top_k k scores ! i = scores ! i) [0..<length scores])
    \<and> (\<forall>i<length scores. \<forall>j<length scores. filter_top_k k scores ! i \<noteq> scores ! i
          \<and> filter_top_k k scores ! j \<noteq> NInf \<longrightarrow> num_lt (scores ! i) (scores ! j))"
proof -
  define t where "t = sort_desc id scores ! (nat k - 1)"
  have res: "filter_top_k k scores = map (\<lambda>s. if num_lt s t then NInf else s) scores"
    using k by (simp add: filter_top_k_def t_def Let_def)
  have d: "descending id (sort_desc id scores)" using nan by (intro sort_desc_descending) (auto simp: no_nan_def)
  have "nat k \<le> length (filter (\<lambda>s. \<not> num_lt s t) (take (nat k) (sort_desc id scores)))"
  proof -
    have "\<forall>s\<in>set (take (nat k) (sort_desc id scores)). \<not> num_lt s t"
      using descending_nth [OF d, of _ "nat k - 1"] k by (fastforce simp: in_set_conv_nth t_def)
    then have "filter (\<lambda>s. \<not> num_lt s t) (take (nat k) (sort_desc id scores)) = take (nat k) (sort_desc id scores)"
      by (simp add: filter_id_conv)
    then show ?thesis using k by simp
  qed
  also have "\<dots> \<le> length (filter (\<lambda>s. \<not> num_lt s t) (sort_desc id scores))"
    by (metis append_take_drop_id filter_append length_append le_add1)
  also have "\<dots> = length (filter (\<lambda>s. \<not> num_lt s t) scores)" by (rule filter_sort_desc)
  also have "\<dots> = length (filter (\<lambda>i. \<not> num_lt (scores ! i) t) [0..<length scores])"
  proof -
    have "filter (\<lambda>s. \<not> num_lt s t) (map ((!) scores) [0..<length scores])
        = map ((!) scores) (filter (\<lambda>i. \<not> num_lt (scores ! i) t) [0..<length scores])"
      by (simp add: filter_map comp_def)
    then show ?thesis by (metis length_map map_nth)
  qed
  also have "\<dots> \<le> length (filter (\<lambda>i. filter_top_k k scores ! i = scores ! i) [0..<length scores])"
  proof -
    have "filter (\<lambda>i. \<not> num_lt (scores ! i) t) (filter (\<lambda>i. filter_top_k k scores ! i = scores ! i) [0..<length scores])
        = filter (\<lambda>i. \<not> num_lt (scores ! i) t) [0..<length scores]"
      unfolding filter_filter by (rule filter_cong) (auto simp: res)
    then show ?thesis by (metis length_filter_le)
  qed
  finally have "nat k \<le> length (filter (\<lambda>i. filter_top_k k scores ! i = scores ! i) [0..<length scores])" .
  moreover have "num_lt (scores ! i) (scores ! j)"
    if ij: "i < length scores" "j < length scores"
      and a: "filter_top_k k scores ! i \<noteq> scores ! i" "filter_top_k k scores ! j \<noteq> NInf" for i j
  proof -
    have "num_lt (scores ! i) t" "\<not> num_lt (scores ! j) t" using a ij by (auto simp: res split: if_splits)
    moreover have "scores ! j \<noteq> NaN" "scores ! i \<noteq> NaN" using nan ij by (metis no_nan_def nth_mem)+
    ultimately show ?thesis by (metis num_lt_total num_not_lt_trans num_lt_NaN(2))
  qed
  ultimately show ?thesis by blast
qed

theorem filter_top_k_keeps_witness:
  "2 \<le> length (filter (\<lambda>i. filter_top_k 2 [Fin 1, Fin 3, Fin 3] ! i = [Fin 1, Fin 3, Fin 3] ! i) [0..<3])"
  using filter_top_k_keeps [of 2 "[Fin 1, Fin 3, Fin 3]"] by (simp add: no_nan_def numeral_3_eq_3)

lemma top_k_no_nan: "no_nan scores \<Longrightarrow> no_nan (filter_top_k k scores)"
  by (auto simp: filter_top_k_def no_nan_def Let_def split: if_splits)

lemma not_lt_some: "some_score scores \<Longrightarrow> no_nan scores \<Longrightarrow> \<forall>x\<in>set scores. \<not> num_lt m x \<Longrightarrow> m \<noteq> NInf"
proof
  assume a: "some_score scores" "no_nan scores" "\<forall>x\<in>set scores. \<not> num_lt m x" "m = NInf"
  then obtain x where "x \<in> set scores" "x \<noteq> NInf" "x \<noteq> NaN" by (auto simp: some_score_def no_nan_def)
  then show False using a(3,4) by (auto simp: NInf_lt)
qed

lemma descending_hd:
  assumes "descending f ys" and "ys \<noteq> []"
  shows "\<forall>x\<in>set ys. \<not> num_lt (f (hd ys)) (f x)"
  using assms descending_nth [OF assms(1), of 0] by (auto simp: in_set_conv_nth hd_conv_nth)

lemma top_k_some:
  assumes "no_nan scores" and "some_score scores"
  shows "some_score (filter_top_k k scores)"
proof (cases "0 < k \<and> k < int (length scores)")
  case True
  let ?ys = "sort_desc id scores"
  have d: "descending id ?ys" using assms(1) by (intro sort_desc_descending) (auto simp: no_nan_def)
  have ne: "?ys \<noteq> []" using True sort_desc_length [of id scores] by (metis length_0_conv not_less_iff_gr_or_eq of_nat_0 order_less_trans)
  have hd: "hd ?ys \<in> set scores" using hd_in_set [OF ne] by simp
  have "hd ?ys \<noteq> NInf"
    using not_lt_some [OF assms(2,1), of "hd ?ys"] descending_hd [OF d ne] by simp
  moreover have "\<not> num_lt (hd ?ys) (?ys ! (nat k - 1))"
  proof -
    have "nat k - 1 < length ?ys" using True by simp linarith
    from nth_mem [OF this] show ?thesis using descending_hd [OF d ne] by simp
  qed
  ultimately show ?thesis
    using hd True by (auto simp: filter_top_k_def some_score_def Let_def intro!: bexI [of _ "hd ?ys"])
qed (use assms in \<open>auto simp: filter_top_k_def\<close>)

lemma distinct_fst_insert_desc: "distinct (map fst (insert_desc f x ys)) = distinct (map fst (x # ys))"
  by (induction ys) auto

lemma distinct_fst_sort_desc: "distinct (map fst (sort_desc f xs)) = distinct (map fst xs)"
proof (induction xs)
  case (Cons x xs)
  have "fst ` set (sort_desc f xs) = fst ` set xs" by simp
  then show ?case
    using Cons distinct_fst_insert_desc [of f x "sort_desc f xs"] by (simp add: sort_desc_def)
qed (simp add: sort_desc_def)

definition removed_by_top_p :: "(num \<Rightarrow> num) \<Rightarrow> num \<Rightarrow> num list \<Rightarrow> nat set" where
  "removed_by_top_p mexp p scores =
     (let indexed = sort_desc snd (enumerate 0 scores); mask = over_mask p (Fin 0) (softmax mexp (map snd indexed))
      in fst ` fst ` set (filter snd (zip indexed (if mask = [] then [] else False # butlast mask))))"

lemma filter_top_p_eq:
  "num_lt (Fin 0) p \<Longrightarrow> num_lt p (Fin 1) \<Longrightarrow>
     filter_top_p mexp p scores
       = map (\<lambda>(i, s). if i \<in> removed_by_top_p mexp p scores then NInf else s) (enumerate 0 scores)"
  by (simp add: filter_top_p_def removed_by_top_p_def Let_def image_image)

lemma length_filter_top_p [simp]: "length (filter_top_p mexp p scores) = length scores"
  by (simp add: filter_top_p_def Let_def)

lemma enumerate_no_nan: "no_nan scores \<Longrightarrow> (i, s) \<in> set (enumerate 0 scores) \<Longrightarrow> s \<noteq> NaN"
  by (auto simp: in_set_enumerate_eq no_nan_def) (metis nth_mem)

lemma top_p_no_nan:
  assumes "no_nan scores"
  shows "no_nan (filter_top_p mexp p scores)"
proof (cases "num_lt (Fin 0) p \<and> num_lt p (Fin 1)")
  case True
  then show ?thesis
    using enumerate_no_nan [OF assms] unfolding no_nan_def
    by (simp add: filter_top_p_eq image_iff split: prod.splits if_splits) metis
qed (use assms in \<open>auto simp: filter_top_p_def\<close>)

text \<open>The most likely index is never removed: its place in the mask is cleared.\<close>

lemma top_p_some:
  assumes "no_nan scores" and "some_score scores"
  shows "some_score (filter_top_p mexp p scores)"
proof (cases "num_lt (Fin 0) p \<and> num_lt p (Fin 1)")
  case True
  let ?ys = "sort_desc snd (enumerate 0 scores)"
  have "\<forall>z\<in>set (enumerate 0 scores). snd z \<noteq> NaN"
    using enumerate_no_nan [OF assms(1)] by auto
  then have d: "descending snd ?ys" by (rule sort_desc_descending)
  have "scores \<noteq> []" using assms(2) by (auto simp: some_score_def)
  then have ne: "?ys \<noteq> []" by (metis length_0_conv length_enumerate sort_desc_length)
  obtain i s rest where ys: "?ys = (i, s) # rest" using ne by (cases ?ys) auto
  have di: "distinct (map fst ?ys)" by (simp add: distinct_fst_sort_desc)
  have mem: "(i, s) \<in> set (enumerate 0 scores)" using ys by (metis list.set_intros(1) sort_desc_set)
  have "\<forall>x\<in>set scores. \<not> num_lt s x"
  proof
    fix x
    assume "x \<in> set scores"
    then obtain j where "(j, x) \<in> set (enumerate 0 scores)"
      by (metis add_0 in_set_conv_nth length_enumerate nth_enumerate_eq nth_mem)
    then have "(j, x) \<in> set ?ys" by simp
    then show "\<not> num_lt s x" using descending_hd [OF d ne] ys by fastforce
  qed
  then have s: "s \<noteq> NInf" using not_lt_some [OF assms(2,1)] by blast
  have "i \<notin> removed_by_top_p mexp p scores"
  proof -
    have "fst ` fst ` set (filter snd (zip ((i, s) # rest) (False # m))) \<subseteq> fst ` set rest" for m
      by (force dest: set_zip_leftD)
    then show ?thesis using di ys by (auto simp: removed_by_top_p_def Let_def)
  qed
  then have "s \<in> set (filter_top_p mexp p scores)"
    using mem True by (force simp: filter_top_p_eq)
  then show ?thesis using s by (auto simp: some_score_def)
qed (use assms in \<open>auto simp: filter_top_p_def\<close>)


section \<open>The draw\<close>

text \<open>The behaviour of \<open>Math.exp\<close> at the special values.\<close>

definition exp_specials :: "(num \<Rightarrow> num) \<Rightarrow> bool" where
  "exp_specials mexp \<longleftrightarrow> mexp NInf = Fin 0 \<and> mexp NaN = NaN"

lemma draw_from_NaN: "draw_from NaN i ps = None"
  by (induction ps arbitrary: i) (simp_all add: num_sub_def num_le_def num_eq_def)

lemma draw_from_bound: "draw_from r i ps = Some j \<Longrightarrow> i \<le> j \<and> j < i + length ps"
  by (induction ps arbitrary: r i) (fastforce simp: Let_def split: if_splits)+

lemma draw_from_positive:
  assumes "r64.exact r" and "num_lt (Fin 0) r" and "draw_from r i ps = Some j"
  shows "\<exists>k<length ps. j = i + k \<and> ps ! k \<noteq> Fin 0 \<and> ps ! k \<noteq> NaN"
  using assms
proof (induction ps arbitrary: r i)
  case (Cons p ps)
  let ?r = "num_sub r p"
  show ?case
  proof (cases "num_le ?r (Fin 0)")
    case True
    have "p \<noteq> Fin 0"
    proof
      assume "p = Fin 0"
      then have "num_le r (Fin 0)" using True num_sub_zero [OF Cons.prems(1)] by simp
      then show False using Cons.prems(2) num_lt_asym by (auto simp: num_le_def num_eq_def)
    qed
    moreover have "p \<noteq> NaN"
    proof
      assume "p = NaN"
      then have "?r = NaN" by (cases r) (simp_all add: num_sub_def)
      then show False using True by (simp add: num_le_def num_eq_def)
    qed
    ultimately show ?thesis using True Cons.prems(3) by auto
  next
    case False
    then have d: "draw_from ?r (Suc i) ps = Some j" using Cons.prems(3) by simp
    then have "?r \<noteq> NaN" using draw_from_NaN by auto
    then have "num_lt (Fin 0) ?r" using False num_lt_total [of ?r "Fin 0"] by (auto simp: num_le_def num_eq_def)
    from Cons.IH [OF num_sub_exact this d] show ?thesis by force
  qed
qed simp

lemma softmax_length [simp]: "length (softmax mexp scores) = length scores"
  by (simp add: softmax_def Let_def)

lemma softmax_NInf:
  assumes "exp_specials mexp" and "i < length scores" and "scores ! i = NInf"
  shows "softmax mexp scores ! i = Fin 0 \<or> softmax mexp scores ! i = NaN"
proof -
  define m where "m = foldl (\<lambda>m v. if num_lt m v then v else m) NInf scores"
  define total where "total = foldl num_add (Fin 0) (map (\<lambda>v. mexp (num_sub v m)) scores)"
  have v: "softmax mexp scores ! i = num_div (mexp (num_sub NInf m)) total"
    using assms(2,3) by (simp add: softmax_def Let_def m_def total_def)
  have "num_sub NInf m = NInf \<or> num_sub NInf m = NaN" by (cases m) (simp_all add: num_sub_def)
  then have "mexp (num_sub NInf m) = Fin 0 \<or> mexp (num_sub NInf m) = NaN"
    using assms(1) by (auto simp: exp_specials_def)
  moreover have "num_div (Fin 0) total = Fin 0 \<or> num_div (Fin 0) total = NaN"
    by (cases total) (simp_all add: r64.rnd_zero)
  ultimately show ?thesis using v by auto
qed

lemma filtered_some:
  assumes "no_nan (scale_scores (temperature st) vals)" and "some_score (scale_scores (temperature st) vals)"
  shows "no_nan (filtered_scores mexp vals st) \<and> some_score (filtered_scores mexp vals st)"
  using assms by (simp add: filtered_scores_def top_k_no_nan top_k_some top_p_no_nan top_p_some)

lemma length_filtered [simp]: "length (filtered_scores mexp vals st) = length vals"
  by (simp add: filtered_scores_def scale_scores_def)

text \<open>C29: Sampling with a positive random value draws a token that survived the filters. If the random value
  is a positive double, the temperature is positive, and the scaled scores contain no \<open>NaN\<close> and not only
  \<open>-Infinity\<close>, then a token in range is returned and top-k and top-p have not removed it.\<close>

theorem sampleFromScores_survivor:
  assumes s: "doSample st" "num_lt (Fin 0) (temperature st)"
    and u: "round64 u = Fin u" "0 < u" and e: "exp_specials mexp"
    and ok: "no_nan (scale_scores (temperature st) vals)" "some_score (scale_scores (temperature st) vals)"
  shows "\<exists>i<length vals. sampleFromScores mexp (Fin u) vals st = Inr i \<and> filtered_scores mexp vals st ! i \<noteq> NInf"
proof -
  let ?sc = "filtered_scores mexp vals st"
  have f: "no_nan ?sc" "some_score ?sc" using filtered_some [OF ok] by blast+
  show ?thesis
  proof (cases "draw_from (Fin u) 0 (softmax mexp ?sc)")
    case None
    obtain x where x: "x \<in> set ?sc" "x \<noteq> NInf" using f(2) by (auto simp: some_score_def)
    have "x \<noteq> NaN" "\<forall>x\<in>set ?sc. x \<noteq> NaN" using f(1) x(1) by (auto simp: no_nan_def)
    from argmax_not_NInf [OF x this] show ?thesis using None s by (simp add: sampleFromScores_def Let_def)
  next
    case (Some j)
    have "r64.exact (Fin u)" using u(1) by (simp add: r64.exact_Fin)
    moreover have "num_lt (Fin 0) (Fin u)" using u(2) by simp
    ultimately obtain k where k: "k < length ?sc" "j = k" "softmax mexp ?sc ! k \<noteq> Fin 0" "softmax mexp ?sc ! k \<noteq> NaN"
      using draw_from_positive [OF _ _ Some] by auto
    then have "?sc ! k \<noteq> NInf" using softmax_NInf [OF e, of k ?sc] by auto
    then show ?thesis using Some k s by (auto simp: sampleFromScores_def Let_def)
  qed
qed

definition rough_exp :: "num \<Rightarrow> num" where
  "rough_exp x = (case x of NaN \<Rightarrow> NaN | NInf \<Rightarrow> Fin 0 | PInf \<Rightarrow> PInf | Fin r \<Rightarrow> Fin 1)"

definition top1 :: sample_settings where
  "top1 = \<lparr>doSample = True, temperature = Fin 1, topK = 1, topP = Fin 1\<rparr>"

theorem sampleFromScores_survivor_witness:
  "\<exists>i<2. sampleFromScores rough_exp (Fin (1 / 2)) [Fin 0, Fin 1] top1 = Inr i
     \<and> filtered_scores rough_exp [Fin 0, Fin 1] top1 ! i \<noteq> NInf"
proof -
  have a: "doSample top1" "num_lt (Fin 0) (temperature top1)" by (simp_all add: top1_def)
  have u: "round64 (1 / 2) = Fin (1 / 2)" by code_simp
  have e: "exp_specials rough_exp" by (simp add: exp_specials_def rough_exp_def)
  have sc: "scale_scores (temperature top1) [Fin 0, Fin 1] = [Fin 0, Fin 1]" by code_simp
  show ?thesis
    using sampleFromScores_survivor [OF a u _ e, of "[Fin 0, Fin 1]"]
    by (simp add: sc no_nan_def some_score_def numeral_2_eq_2)
qed

text \<open>When \<open>Math.random()\<close> returns exactly 0 the draw can return a token that top-k removed: the loop's
  first subtraction leaves 0, which is accepted although the probability subtracted was 0. With scores
  0 and 1 and top-k 1, token 0 is returned.\<close>

theorem sampleFromScores_zero_draw:
  "sampleFromScores rough_exp (Fin 0) [Fin 0, Fin 1] top1 = Inr 0
   \<and> filtered_scores rough_exp [Fin 0, Fin 1] top1 ! 0 = NInf"
  by code_simp

lemma sampleFromScores_range:
  assumes "vals \<noteq> []"
  shows "(case sampleFromScores mexp u vals st of
      Inr i \<Rightarrow> i < length vals
    | Inl e \<Rightarrow> doSample st \<and> \<not> num_lt (Fin 0) (temperature st)
        \<and> e = Error (js ''temperature must be positive when doSample=true''))"
proof -
  have am: "argmax xs < length xs" if "xs \<noteq> []" for xs
    using argmax_from_spec [of NInf 0 0 xs] that by (auto simp: argmax_def)
  have ne: "filtered_scores mexp vals st \<noteq> []"
    using assms by (metis length_0_conv length_filtered)
  show ?thesis
    using am [OF assms] am [OF ne] draw_from_bound
    by (fastforce simp: sampleFromScores_def Let_def split: option.splits)
qed

text \<open>Sampling returns an index of the score list, or reports a temperature that is not positive, and
  nothing else: for a non-empty list an error is exactly the temperature check.\<close>

theorem sampleFromScores_total:
  assumes "vals \<noteq> []"
  shows "(case sampleFromScores mexp u vals st of
      Inr i \<Rightarrow> i < length vals
    | Inl e \<Rightarrow> doSample st \<and> \<not> num_lt (Fin 0) (temperature st)
        \<and> e = Error (js ''temperature must be positive when doSample=true''))"
  by (rule sampleFromScores_range [OF assms])

theorem sampleFromScores_total_witness:
  "(case sampleFromScores rough_exp (Fin (1 / 3)) [Fin 0, Fin 1] top1 of
      Inr i \<Rightarrow> i < length [Fin 0, Fin 1]
    | Inl e \<Rightarrow> doSample top1 \<and> \<not> num_lt (Fin 0) (temperature top1)
        \<and> e = Error (js ''temperature must be positive when doSample=true''))"
  by (rule sampleFromScores_total) simp

text \<open>The assistant text token is always one of the two candidates, the assistant slot (another frame
  follows) and the audio end (generation stops), unless the temperature is refused.\<close>

theorem sampleAssistantTextToken_candidates:
  assumes "sampleAssistantTextToken mexp u logits cfg d = Inr t"
  shows "t = audio_assistant_slot_token_id cfg \<or> t = audio_end_token_id cfg"
proof -
  let ?cands = "[logit_at logits (audio_assistant_slot_token_id cfg), logit_at logits (audio_end_token_id cfg)]"
  let ?st = "\<lparr>doSample = sampling_on d, temperature = text_temperature d,
    topK = min (text_top_k d) (int (length ?cands)), topP = text_top_p d\<rparr>"
  obtain i where i: "sampleFromScores mexp u ?cands ?st = Inr i"
    "t = [audio_assistant_slot_token_id cfg, audio_end_token_id cfg] ! i"
    using assms by (auto simp: sampleAssistantTextToken_def Let_def bindR_Inr)
  have "(case sampleFromScores mexp u ?cands ?st of
      Inr i \<Rightarrow> i < length ?cands
    | Inl e \<Rightarrow> doSample ?st \<and> \<not> num_lt (Fin 0) (temperature ?st)
        \<and> e = Error (js ''temperature must be positive when doSample=true''))"
    by (rule sampleFromScores_range) simp
  then have "i < 2" using i(1) by simp
  then show ?thesis using i(2) by (auto simp: less_Suc_eq numeral_2_eq_2)
qed


theorem sampleAssistantTextToken_candidates_witness:
  "\<exists>cfg d t. sampleAssistantTextToken rough_exp (Fin 0) [Fin 1, Fin 5] cfg d = Inr t
     \<and> (t = audio_assistant_slot_token_id cfg \<or> t = audio_end_token_id cfg)"
proof -
  let ?cfg = "\<lparr>n_vq = 1, audio_pad_token_id = 9, audio_start_token_id = 8, audio_end_token_id = 1,
    audio_user_slot_token_id = 7, audio_assistant_slot_token_id = 0\<rparr>"
  let ?d = "\<lparr>max_new_frames = 4, do_sample = Some False, sample_mode = None, text_temperature = Fin 1,
    text_top_k = 50, text_top_p = Fin 1, audio_temperature = Fin 1, audio_top_k = 50, audio_top_p = Fin 1,
    audio_repetition_penalty = Fin 1\<rparr>"
  have "sampleAssistantTextToken rough_exp (Fin 0) [Fin 1, Fin 5] ?cfg ?d = Inr 1" by code_simp
  from this sampleAssistantTextToken_candidates [OF this] show ?thesis by blast
qed

section \<open>Mode and random input\<close>

text \<open>The resolved sampling mode is consistent: it is one of the three modes, sampling is on exactly when
  the mode is not greedy, an explicit \<open>doSample: false\<close> without a mode gives greedy, and resolving the
  result again without options changes nothing.\<close>

theorem resolveGenerationDefaults_consistent:
  "(let d = resolveGenerationDefaults base optDo optMode
    in sample_mode d \<in> {Some SAMPLE_MODE_GREEDY, Some SAMPLE_MODE_FIXED, Some SAMPLE_MODE_FULL}
       \<and> do_sample d = Some (sample_mode d \<noteq> Some SAMPLE_MODE_GREEDY)
       \<and> sample_mode (resolveGenerationDefaults base (Some False) None) = Some SAMPLE_MODE_GREEDY
       \<and> resolveGenerationDefaults d None None = d)"
proof -
  have t: "trim SAMPLE_MODE_GREEDY = SAMPLE_MODE_GREEDY" "trim SAMPLE_MODE_FIXED = SAMPLE_MODE_FIXED"
    "trim SAMPLE_MODE_FULL = SAMPLE_MODE_FULL" by code_simp+
  have ne: "SAMPLE_MODE_FIXED \<noteq> SAMPLE_MODE_GREEDY" "SAMPLE_MODE_FULL \<noteq> SAMPLE_MODE_GREEDY"
    by (simp_all add: SAMPLE_MODE_FIXED_def SAMPLE_MODE_FULL_def SAMPLE_MODE_GREEDY_def)
  have norm: "normalizeSampleMode (Some m) b = m"
    if "m \<in> {SAMPLE_MODE_GREEDY, SAMPLE_MODE_FIXED, SAMPLE_MODE_FULL}" for m b
    using that t by (auto simp: normalizeSampleMode_def)
  define mode where "mode = (let fb = (case optDo of Some b \<Rightarrow> b | None \<Rightarrow> do_sample base \<noteq> Some False)
    in normalizeSampleMode (case optMode of Some m \<Rightarrow> Some m
            | None \<Rightarrow> if fb then sample_mode base else Some SAMPLE_MODE_GREEDY) fb)"
  have d: "resolveGenerationDefaults base optDo optMode
      = base\<lparr>sample_mode := Some mode, do_sample := Some (mode \<noteq> SAMPLE_MODE_GREEDY)\<rparr>"
    by (simp add: resolveGenerationDefaults_def mode_def Let_def)
  have "normalizeSampleMode r b \<in> {SAMPLE_MODE_GREEDY, SAMPLE_MODE_FIXED, SAMPLE_MODE_FULL}" for r b
    by (auto simp: normalizeSampleMode_def Let_def)
  then have mode: "mode \<in> {SAMPLE_MODE_GREEDY, SAMPLE_MODE_FIXED, SAMPLE_MODE_FULL}"
    unfolding mode_def Let_def by blast
  have again: "resolveGenerationDefaults (base\<lparr>sample_mode := Some m, do_sample := Some (m \<noteq> SAMPLE_MODE_GREEDY)\<rparr>) None None
      = base\<lparr>sample_mode := Some m, do_sample := Some (m \<noteq> SAMPLE_MODE_GREEDY)\<rparr>"
    if "m \<in> {SAMPLE_MODE_GREEDY, SAMPLE_MODE_FIXED, SAMPLE_MODE_FULL}" for m
    using norm [OF that] by (cases "m = SAMPLE_MODE_GREEDY") (simp_all add: resolveGenerationDefaults_def Let_def)
  have "sample_mode (resolveGenerationDefaults base (Some False) None) = Some SAMPLE_MODE_GREEDY"
    by (simp add: resolveGenerationDefaults_def Let_def norm)
  then show ?thesis using mode again [OF mode] by (auto simp: Let_def d)
qed

text \<open>The random input of the fixed-sampling model is a single-precision number in the half-open unit
  interval, whatever number \<open>Math.random\<close> is: the clamp keeps the rounding to single precision from
  reaching 1.\<close>

theorem drawClampedRandomU_unit:
  "\<exists>y. drawClampedRandomU (Fin u) = Fin y \<and> 0 \<le> y \<and> y < 1 \<and> round32 y = Fin y"
proof -
  let ?c = "9007198714309037 / 2 ^ 53 :: rat"
  have "num_min (Fin ?c) (num_max (Fin 0) (Fin u)) = Fin (min ?c (max 0 u))"
    by (simp add: num_min_def num_max_def min_def max_def)
  then have e: "drawClampedRandomU (Fin u) = round32 (min ?c (max 0 u))"
    unfolding drawClampedRandomU_def by simp
  have "0 \<le> min ?c (max 0 u)" "min ?c (max 0 u) \<le> ?c" by simp_all
  moreover have "?c < 1 - 1 / 2 ^ 25" by simp
  ultimately obtain y where "round32 (min ?c (max 0 u)) = Fin y" "0 \<le> y" "y < 1"
    using round32_below_one [of "min ?c (max 0 u)"] by fastforce
  then show ?thesis using e r32.rnd_idem by auto
qed

end
