(* ===== verification/Tensors.thy ===== *)
theory Tensors
  imports Sampling
begin

text \<open>
  Tensors and request rows of the MOSS runtime: flattening of nested token rows into typed arrays, slicing
  and merging of audio, the last hidden state, and the rows of a voice-clone request.
\<close>

section \<open>Typed arrays\<close>

text \<open>A store into an \<open>Int32Array\<close> wraps to 32 bits; what is not a number is stored as 0.\<close>

definition to_int32 :: "int \<Rightarrow> int" where
  "to_int32 x = (x + 2 ^ 31) mod 2 ^ 32 - 2 ^ 31"

definition int32_cell :: "int list \<Rightarrow> nat \<Rightarrow> int" where
  "int32_cell row k = (if k < length row then to_int32 (row ! k) else 0)"

text \<open>\<open>slice\<close> and \<open>subarray\<close> of a typed array: a negative bound counts from the end, bounds are clamped.\<close>

definition rel_index :: "'a list \<Rightarrow> int \<Rightarrow> nat" where
  "rel_index xs i = nat (if i < 0 then max 0 (int (length xs) + i) else min i (int (length xs)))"

definition subarray :: "'a list \<Rightarrow> int \<Rightarrow> int \<Rightarrow> 'a list" where
  "subarray xs a b = slice xs (rel_index xs a) (rel_index xs b)"

text \<open>\<open>target.set(source, offset)\<close>: a source that does not fit is refused.\<close>

definition array_set :: "'a list \<Rightarrow> 'a list \<Rightarrow> nat \<Rightarrow> 'a list result" where
  "array_set target src offset =
     (if length target < offset + length src then Inl RangeError
      else Inr (take offset target @ src @ drop (offset + length src) target))"

datatype tensor_data = IntData "int list" | FloatData "num list"

record tensor =
  tdata :: tensor_data
  tdims :: "nat list"

definition multiplyShape :: "nat list \<Rightarrow> nat" where
  "multiplyShape shape = foldl (*) 1 shape"

section \<open>Flattening\<close>

text \<open>A row of the innermost loop; reading a cell of a row that is not there throws, unless the loop has no
  iterations.\<close>

definition flat_row :: "nat \<Rightarrow> int list list \<Rightarrow> nat \<Rightarrow> int list result" where
  "flat_row dim2 matrix j =
     (if j < length matrix then Inr (map (int32_cell (matrix ! j)) [0..<dim2])
      else if dim2 = 0 then Inr [] else Inl TypeError)"

definition flatten3dInt32 :: "int list list list \<Rightarrow> (int list \<times> nat list) result" where
  "flatten3dInt32 nested =
     (case nested of
        [] \<Rightarrow> Inl TypeError
      | m # _ \<Rightarrow>
          (case m of
             [] \<Rightarrow> Inl TypeError
           | r # _ \<Rightarrow>
               (let dim0 = length nested; dim1 = length m; dim2 = length r
                in bindR (foldR (\<lambda>acc matrix.
                      foldR (\<lambda>acc j. bindR (flat_row dim2 matrix j) (\<lambda>row. Inr (acc @ row))) acc [0..<dim1])
                    [] nested)
                   (\<lambda>data. Inr (data, [dim0, dim1, dim2])))))"

definition flatten2dInt32 :: "int list list \<Rightarrow> (int list \<times> nat list) result" where
  "flatten2dInt32 nested =
     (case nested of
        [] \<Rightarrow> Inl TypeError
      | r # _ \<Rightarrow>
          (let dim0 = length nested; dim1 = length r
           in Inr (concat (map (\<lambda>row. map (int32_cell row) [0..<dim1]) nested), [dim0, dim1])))"

section \<open>Audio\<close>

definition sliceChannelMajorAudio :: "'a list \<Rightarrow> nat list \<Rightarrow> int \<Rightarrow> int \<Rightarrow> 'a list list" where
  "sliceChannelMajorAudio data dims startSample endSample =
     (let channels = dims ! 1; totalSamples = int (dims ! 2);
          start = max 0 startSample; end = max start (min endSample totalSamples)
      in map (\<lambda>c. subarray data (int c * totalSamples + start) (int c * totalSamples + end)) [0..<channels])"

fun merge_into :: "'a list \<Rightarrow> nat \<Rightarrow> 'a list option list \<Rightarrow> 'a list result" where
  "merge_into merged offset [] = Inr merged"
| "merge_into merged offset (chunk # chunks) =
     (case chunk of
        None \<Rightarrow> merge_into merged offset chunks
      | Some c \<Rightarrow>
          if c = [] then merge_into merged offset chunks
          else bindR (array_set merged c offset) (\<lambda>m. merge_into m (offset + length c) chunks))"

definition chunk_length :: "'a list option \<Rightarrow> nat" where
  "chunk_length chunk = (case chunk of None \<Rightarrow> 0 | Some c \<Rightarrow> length c)"

definition merge_channel :: "'a \<Rightarrow> 'a list option list \<Rightarrow> 'a list result" where
  "merge_channel zero chunks =
     merge_into (replicate (foldl (\<lambda>sum c. sum + chunk_length c) 0 chunks) zero) 0 chunks"

definition mergeFloat32Chunks :: "'a \<Rightarrow> 'a list option list list \<Rightarrow> 'a list list result" where
  "mergeFloat32Chunks zero chunksByChannel =
     foldR (\<lambda>acc chunks. bindR (merge_channel zero chunks) (\<lambda>m. Inr (acc @ [m]))) [] chunksByChannel"

definition tensor_slice :: "tensor_data \<Rightarrow> int \<Rightarrow> int \<Rightarrow> tensor_data" where
  "tensor_slice d a b = (case d of IntData xs \<Rightarrow> IntData (subarray xs a b) | FloatData xs \<Rightarrow> FloatData (subarray xs a b))"

definition extractLastHiddenTensor :: "tensor \<Rightarrow> tensor result" where
  "extractLastHiddenTensor t =
     (let dims = tdims t in
      if length dims = 2 then Inr t
      else if length dims \<noteq> 3
        then Inl (Error (js ''Unexpected global_hidden rank: '' @ nat_str (length dims)))
      else if dims ! 0 \<noteq> 1
        then Inl (Error (js ''Only batch_size=1 is supported in browser ONNX runtime, got '' @ nat_str (dims ! 0)))
      else
        (let seqLen = int (dims ! 1); hiddenSize = int (dims ! 2);
             start = (seqLen - 1) * hiddenSize
         in Inr \<lparr>tdata = tensor_slice (tdata t) start (start + hiddenSize), tdims = [1, dims ! 2]\<rparr>))"

section \<open>Request rows\<close>

record prompt_templates =
  user_prompt_prefix_token_ids :: "int list"
  user_prompt_after_reference_token_ids :: "int list"
  assistant_prompt_prefix_token_ids :: "int list"

definition buildTextRows :: "int list \<Rightarrow> tts_config \<Rightarrow> int list list" where
  "buildTextRows tokenIds cfg =
     map (\<lambda>tokenId. (replicate (n_vq cfg + 1) (audio_pad_token_id cfg))[0 := tokenId]) tokenIds"

fun fill_codes :: "int list \<Rightarrow> int list \<Rightarrow> nat \<Rightarrow> int list" where
  "fill_codes row codes 0 = row"
| "fill_codes row codes (Suc n) = (fill_codes row codes n)[n + 1 := codes ! n]"

definition buildAudioPrefixRows :: "int list list \<Rightarrow> tts_config \<Rightarrow> int option \<Rightarrow> int list list" where
  "buildAudioPrefixRows promptAudioCodes cfg slotTokenId =
     (let slot = (case slotTokenId of None \<Rightarrow> audio_user_slot_token_id cfg | Some t \<Rightarrow> t)
      in map (\<lambda>codeRow. fill_codes ((replicate (n_vq cfg + 1) (audio_pad_token_id cfg))[0 := slot]) codeRow
            (min (length codeRow) (n_vq cfg))) promptAudioCodes)"

record request_rows =
  inputIds :: "int list list"
  attentionMask :: "int list list"

definition buildVoiceCloneRequestRows ::
  "tts_config \<Rightarrow> prompt_templates \<Rightarrow> int list list \<Rightarrow> int list \<Rightarrow> request_rows" where
  "buildVoiceCloneRequestRows cfg tpl promptAudioCodes textTokenIds =
     (let prefixTextTokenIds = user_prompt_prefix_token_ids tpl @ [audio_start_token_id cfg];
          suffixTextTokenIds = [audio_end_token_id cfg] @ user_prompt_after_reference_token_ids tpl
            @ textTokenIds @ assistant_prompt_prefix_token_ids tpl @ [audio_start_token_id cfg];
          rows = buildTextRows prefixTextTokenIds cfg @ buildAudioPrefixRows promptAudioCodes cfg None
            @ buildTextRows suffixTextTokenIds cfg
      in \<lparr>inputIds = rows, attentionMask = [replicate (length rows) 1]\<rparr>)"

section \<open>Flattening is lossless on rectangular input\<close>

lemma to_int32_id: "- (2 ^ 31) \<le> x \<Longrightarrow> x < 2 ^ 31 \<Longrightarrow> to_int32 x = x"
  by (simp add: to_int32_def)

lemma to_int32_range: "- (2 ^ 31) \<le> to_int32 x \<and> to_int32 x < 2 ^ 31"
  by (simp add: to_int32_def)

definition int32_row :: "int list \<Rightarrow> bool" where
  "int32_row row \<longleftrightarrow> (\<forall>x\<in>set row. - (2 ^ 31) \<le> x \<and> x < 2 ^ 31)"

lemma map_int32_cell: "int32_row row \<Longrightarrow> map (int32_cell row) [0..<length row] = row"
  by (rule nth_equalityI) (simp_all add: int32_cell_def int32_row_def to_int32_id)

lemma foldR_append:
  assumes "\<And>x. x \<in> set xs \<Longrightarrow> f x = Inr (g x)"
  shows "foldR (\<lambda>acc x. bindR (f x) (\<lambda>r. Inr (acc @ r))) acc xs = Inr (acc @ concat (map g xs))"
  using assms by (induction xs arbitrary: acc) simp_all

definition rectangular :: "nat \<Rightarrow> nat \<Rightarrow> int list list list \<Rightarrow> bool" where
  "rectangular d1 d2 nested \<longleftrightarrow>
     (\<forall>m\<in>set nested. length m = d1 \<and> (\<forall>r\<in>set m. length r = d2 \<and> int32_row r))"

lemma flat_matrix:
  assumes "length m = d1" and "\<forall>r\<in>set m. length r = d2 \<and> int32_row r"
  shows "foldR (\<lambda>acc j. bindR (flat_row d2 m j) (\<lambda>row. Inr (acc @ row))) acc [0..<d1] = Inr (acc @ concat m)"
proof -
  have "flat_row d2 m j = Inr (m ! j)" if "j \<in> set [0..<d1]" for j
    using that assms map_int32_cell [of "m ! j"] by (force simp: flat_row_def)
  then have "foldR (\<lambda>acc j. bindR (flat_row d2 m j) (\<lambda>row. Inr (acc @ row))) acc [0..<d1]
      = Inr (acc @ concat (map ((!) m) [0..<d1]))"
    by (rule foldR_append)
  moreover have "map ((!) m) [0..<d1] = m" using assms(1) map_nth [of m] by simp
  ultimately show ?thesis by simp
qed

lemma flat_nested:
  assumes "rectangular d1 d2 nested"
  shows "foldR (\<lambda>acc m. foldR (\<lambda>acc j. bindR (flat_row d2 m j) (\<lambda>row. Inr (acc @ row))) acc [0..<d1]) acc nested
    = Inr (acc @ concat (concat nested))"
  using assms
proof (induction nested arbitrary: acc)
  case (Cons m nested)
  then show ?case using flat_matrix [of m d1 d2] by (simp add: rectangular_def)
qed simp

lemma length_concat_const: "\<forall>x\<in>set xs. length x = k \<Longrightarrow> length (concat xs) = length xs * k"
  by (induction xs) auto

text \<open>Flattening a rectangular nest of 32-bit tokens loses nothing: the data is the rows one after the
  other, the dimensions are those of the nest, and the number of cells is the product of the
  dimensions.\<close>

theorem flatten3dInt32_rectangular:
  assumes "rectangular d1 d2 nested" and "nested \<noteq> []" and "0 < d1"
  shows "flatten3dInt32 nested = Inr (concat (concat nested), [length nested, d1, d2])
    \<and> length (concat (concat nested)) = multiplyShape [length nested, d1, d2]"
proof -
  obtain m ms where n: "nested = m # ms" using assms(2) by (cases nested) auto
  then have m: "length m = d1" using assms(1) by (simp add: rectangular_def)
  then obtain r rs where r: "m = r # rs" using assms(3) by (cases m) auto
  then have r2: "length r = d2" using assms(1) n by (simp add: rectangular_def)
  have "flatten3dInt32 nested = Inr (concat (concat nested), [length nested, d1, d2])"
    using flat_nested [OF assms(1), of "[]"] m r2
    unfolding flatten3dInt32_def n r by (simp add: Let_def)
  moreover have "length (concat (concat nested)) = length nested * d1 * d2"
  proof -
    have "length (concat nested) = length nested * d1"
      using assms(1) by (intro length_concat_const) (auto simp: rectangular_def)
    moreover have "\<forall>x\<in>set (concat nested). length x = d2" using assms(1) by (auto simp: rectangular_def)
    ultimately show ?thesis using length_concat_const by metis
  qed
  ultimately show ?thesis by (simp add: multiplyShape_def)
qed

theorem flatten3dInt32_rectangular_witness:
  "flatten3dInt32 [[[1, 2], [3, 4]]] = Inr ([1, 2, 3, 4], [1, 2, 2])"
  using flatten3dInt32_rectangular [of 2 2 "[[[1, 2], [3, 4]]]"] by (simp add: rectangular_def int32_row_def)

section \<open>Slicing and merging\<close>

lemma subarray_nat: "0 \<le> a \<Longrightarrow> 0 \<le> b \<Longrightarrow> b \<le> int (length xs) \<Longrightarrow> subarray xs a b = slice xs (nat a) (nat b)"
  by (auto simp: subarray_def rel_index_def slice_def min_def)

lemma concat_drop_rows:
  "\<forall>r\<in>set rows. length r = n \<Longrightarrow> c < length rows \<Longrightarrow> drop (c * n) (concat rows) = rows ! c @ concat (drop (Suc c) rows)"
proof (induction c arbitrary: rows)
  case 0
  then show ?case by (cases rows) auto
next
  case (Suc c)
  then obtain r rs where r: "rows = r # rs" by (cases rows) auto
  then show ?case using Suc by simp
qed

text \<open>Slicing channel-major audio cuts the same window out of every channel: for data laid out as one row
  of samples per channel, the result has one piece per channel, the piece is the requested window of that
  channel clamped to its samples, and all pieces have the same length.\<close>

theorem sliceChannelMajorAudio_window:
  assumes rows: "\<forall>r\<in>set rows. length r = tot" and dims: "dims = [b, length rows, tot]"
  shows "(let start = nat (max 0 startSample); stop = nat (max (max 0 startSample) (min endSample (int tot)))
     in sliceChannelMajorAudio (concat rows) dims startSample endSample = map (\<lambda>r. slice r start stop) rows
        \<and> (start \<le> tot \<longrightarrow> list_all (\<lambda>p. length p = stop - start)
              (sliceChannelMajorAudio (concat rows) dims startSample endSample)))"
proof -
  define start where "start = nat (max 0 startSample)"
  define stop where "stop = nat (max (max 0 startSample) (min endSample (int tot)))"
  have ints: "int start = max 0 startSample" "int stop = max (max 0 startSample) (min endSample (int tot))"
    by (simp_all add: start_def stop_def)
  have ge: "start \<le> stop" by (simp add: start_def stop_def)
  have bound: "stop \<le> tot \<or> stop = start" by (auto simp: start_def stop_def max_def min_def split: if_splits)
  have piece: "subarray (concat rows) (int c * int tot + int start) (int c * int tot + int stop)
      = slice (rows ! c) start stop" if c: "c < length rows" for c
  proof -
    have len: "length (rows ! c) = tot" using rows c by simp
    have tl: "c * tot + tot \<le> length (concat rows)"
      using length_concat_const [OF rows] c by (metis Suc_leI mult_Suc mult_le_mono1 add.commute)
    show ?thesis
    proof (cases "stop = start")
      case True
      then show ?thesis by (simp add: subarray_def slice_def)
    next
      case False
      then have st: "stop \<le> tot" using bound by simp
      have "subarray (concat rows) (int c * int tot + int start) (int c * int tot + int stop)
          = slice (concat rows) (c * tot + start) (c * tot + stop)"
      proof -
        have "int c * int tot + int stop \<le> int (length (concat rows))"
          using st tl by (metis (no_types, lifting) add_left_mono order_trans of_nat_add of_nat_le_iff of_nat_mult)
        then show ?thesis
          by (subst subarray_nat) (simp_all add: nat_add_distrib nat_mult_distrib)
      qed
      also have "\<dots> = take (stop - start) (drop start (drop (c * tot) (concat rows)))"
        by (simp add: slice_def add.commute)
      also have "\<dots> = take (stop - start) (drop start (rows ! c @ concat (drop (Suc c) rows)))"
        using concat_drop_rows [OF rows c] by simp
      also have "\<dots> = slice (rows ! c) start stop" using st ge len by (simp add: slice_def)
      finally show ?thesis .
    qed
  qed
  have eq: "sliceChannelMajorAudio (concat rows) dims startSample endSample = map (\<lambda>r. slice r start stop) rows"
  proof (rule nth_equalityI)
    fix i
    assume "i < length (sliceChannelMajorAudio (concat rows) dims startSample endSample)"
    then have i: "i < length rows" by (simp add: sliceChannelMajorAudio_def Let_def dims)
    show "sliceChannelMajorAudio (concat rows) dims startSample endSample ! i = map (\<lambda>r. slice r start stop) rows ! i"
      using piece [OF i] i by (simp add: sliceChannelMajorAudio_def Let_def dims ints)
  qed (simp add: sliceChannelMajorAudio_def Let_def dims)
  have "length (slice r start stop) = stop - start" if "r \<in> set rows" "start \<le> tot" for r
    using that rows bound ge by (auto simp: length_slice)
  then show ?thesis using eq by (simp add: start_def [symmetric] stop_def [symmetric] Let_def list_all_iff)
qed

theorem sliceChannelMajorAudio_window_witness:
  "sliceChannelMajorAudio (concat [[1, 2, 3], [4, 5, 6 :: nat]]) [1, 2, 3] 0 2 = [[1, 2], [4, 5]]"
  using sliceChannelMajorAudio_window [of "[[1, 2, 3], [4, 5, 6 :: nat]]" 3 "[1, 2, 3]" 1 0 2]
  by (simp add: slice_def Let_def)

lemma foldl_chunk_length: "foldl (\<lambda>sum c. sum + chunk_length c) n chunks = n + sum_list (map chunk_length chunks)"
  by (induction chunks arbitrary: n) simp_all

definition chunk_values :: "'a list option \<Rightarrow> 'a list" where
  "chunk_values chunk = (case chunk of None \<Rightarrow> [] | Some c \<Rightarrow> c)"

lemma chunk_simps [simp]:
  "chunk_length None = 0" "chunk_length (Some c) = length c" "chunk_values None = []" "chunk_values (Some c) = c"
  by (simp_all add: chunk_length_def chunk_values_def)

lemma chunk_length_values: "chunk_length c = length (chunk_values c)"
  by (simp add: chunk_length_def chunk_values_def split: option.splits)

lemma merge_into_spec:
  "merge_into (pre @ replicate (sum_list (map chunk_length chunks)) z) (length pre) chunks
     = Inr (pre @ concat (map chunk_values chunks))"
proof (induction chunks arbitrary: pre)
  case (Cons chunk chunks)
  show ?case
  proof (cases "chunk_values chunk = []")
    case True
    then show ?thesis using Cons [of pre]
      by (cases chunk) simp_all
  next
    case False
    then obtain c where c: "chunk = Some c" "c \<noteq> []" by (cases chunk) auto
    have "array_set (pre @ replicate (length c + sum_list (map chunk_length chunks)) z) c (length pre)
        = Inr ((pre @ c) @ replicate (sum_list (map chunk_length chunks)) z)"
      by (simp add: array_set_def replicate_add)
    then show ?thesis using Cons [of "pre @ c"] c by simp
  qed
qed simp

text \<open>Merging the chunks of every channel is their concatenation: the preallocated array is exactly filled,
  no write is out of range, and absent or empty chunks contribute nothing.\<close>

theorem mergeFloat32Chunks_concat:
  "mergeFloat32Chunks zero chunksByChannel = Inr (map (\<lambda>chunks. concat (map chunk_values chunks)) chunksByChannel)"
proof -
  have m: "merge_channel zero chunks = Inr (concat (map chunk_values chunks))" for chunks
    using merge_into_spec [of "[]" chunks zero] by (simp add: merge_channel_def foldl_chunk_length)
  have "foldR (\<lambda>acc chunks. bindR (merge_channel zero chunks) (\<lambda>m. Inr (acc @ [m]))) acc cs
      = Inr (acc @ map (\<lambda>chunks. concat (map chunk_values chunks)) cs)" for acc cs
    by (induction cs arbitrary: acc) (simp_all add: m)
  then show ?thesis by (simp add: mergeFloat32Chunks_def)
qed

section \<open>Shape of a request\<close>

lemma length_fill_codes [simp]: "length (fill_codes row codes n) = length row"
  by (induction n) simp_all

lemma fill_codes_nth:
  "n \<le> length codes \<Longrightarrow> n < length row \<Longrightarrow> i < length row \<Longrightarrow>
     fill_codes row codes n ! i = (if 0 < i \<and> i \<le> n then codes ! (i - 1) else row ! i)"
  by (induction n arbitrary: i) (auto simp: nth_list_update)

text \<open>A voice-clone request has the layout the model expects: every row is one text column and \<open>n_vq\<close> audio
  columns wide, the text column reads prompt prefix, audio start, one user slot per reference frame, audio
  end, the middle template, the text, the assistant prefix and audio start, the audio columns of a
  reference frame hold its codes (padded, surplus codes dropped), and the attention mask covers every
  row.\<close>

theorem buildVoiceCloneRequestRows_layout:
  "(let r = buildVoiceCloneRequestRows cfg tpl codes text; np = length (user_prompt_prefix_token_ids tpl) + 1
    in list_all (\<lambda>row. length row = n_vq cfg + 1) (inputIds r)
     \<and> map hd (inputIds r) = user_prompt_prefix_token_ids tpl @ [audio_start_token_id cfg]
         @ replicate (length codes) (audio_user_slot_token_id cfg)
         @ [audio_end_token_id cfg] @ user_prompt_after_reference_token_ids tpl @ text
         @ assistant_prompt_prefix_token_ids tpl @ [audio_start_token_id cfg]
     \<and> map tl (take (length codes) (drop np (inputIds r)))
         = map (\<lambda>row. take (n_vq cfg) row @ replicate (n_vq cfg - length row) (audio_pad_token_id cfg)) codes
     \<and> attentionMask r = [replicate (length (inputIds r)) 1])"
proof -
  let ?pad = "replicate (n_vq cfg + 1) (audio_pad_token_id cfg)"
  have trows: "list_all (\<lambda>row. length row = Suc (n_vq cfg)) (buildTextRows ids cfg)"
    "map hd (buildTextRows ids cfg) = ids" for ids
    by (simp_all add: buildTextRows_def list_all_iff comp_def)
  let ?row = "\<lambda>codeRow. fill_codes (?pad[0 := audio_user_slot_token_id cfg]) codeRow (min (length codeRow) (n_vq cfg))"
  have row: "?row c = audio_user_slot_token_id cfg # take (n_vq cfg) c
      @ replicate (n_vq cfg - length c) (audio_pad_token_id cfg)" for c
  proof (rule nth_equalityI)
    fix i
    assume "i < length (?row c)"
    then have i: "i < n_vq cfg + 1" by simp
    show "?row c ! i = (audio_user_slot_token_id cfg # take (n_vq cfg) c
        @ replicate (n_vq cfg - length c) (audio_pad_token_id cfg)) ! i"
      using i by (subst fill_codes_nth) (auto simp: nth_Cons nth_append split: nat.splits)
  qed simp
  have audio: "buildAudioPrefixRows codes cfg None = map (\<lambda>c. audio_user_slot_token_id cfg # take (n_vq cfg) c
      @ replicate (n_vq cfg - length c) (audio_pad_token_id cfg)) codes"
    unfolding buildAudioPrefixRows_def Let_def row option.case ..
  have len: "length (buildTextRows ids cfg) = length ids" for ids by (simp add: buildTextRows_def)
  have slots: "map (\<lambda>x. a) xs = replicate (length xs) a" for a :: int and xs :: "int list list"
    by (rule map_replicate_const)
  show ?thesis
    unfolding buildVoiceCloneRequestRows_def Let_def
    by (simp add: trows audio len comp_def slots list_all_append) (simp add: list_all_iff min_def)
qed

end
