(* ===== verification/CodecStream.thy ===== *)
theory CodecStream
  imports Tensors
begin

text \<open>
  The streaming codec session (\<open>CodecStreamingDecodeSession\<close>): it feeds audio codes to the codec model in
  small batches and carries the model's caches from one call to the next. The model itself is a
  parameter: what \<open>session.run\<close> returns for the feeds it is given. Missing properties (\<open>undefined\<close>) are
  absent map entries.
\<close>

section \<open>State\<close>

record transformer_spec =
  input_name :: jsstr
  output_name :: jsstr
  shape :: "nat list"

record attention_spec =
  offset_input_name :: jsstr
  offset_output_name :: jsstr
  offset_shape :: "nat list"
  cached_keys_input_name :: jsstr
  cached_keys_output_name :: jsstr
  cached_values_input_name :: jsstr
  cached_values_output_name :: jsstr
  cache_shape :: "nat list"
  cached_positions_input_name :: jsstr
  cached_positions_output_name :: jsstr
  positions_shape :: "nat list"

record codec_config =
  sample_rate :: nat
  codec_channels :: nat
  num_quantizers :: nat

record codec_meta =
  codec_config :: codec_config
  transformer_offsets :: "transformer_spec list"
  attention_caches :: "attention_spec list"

type_synonym feeds = "jsstr \<rightharpoonup> tensor"

record codec_session =
  audioCodeTensorCache :: "nat \<rightharpoonup> int list"
  stateFeeds :: feeds
  runFeeds :: feeds

definition AUDIO_CODES :: jsstr where
  "AUDIO_CODES = js ''audio_codes''"

definition AUDIO_CODE_LENGTHS :: jsstr where
  "AUDIO_CODE_LENGTHS = js ''audio_code_lengths''"

section \<open>Reset\<close>

definition int_zeros :: "nat list \<Rightarrow> tensor" where
  "int_zeros dims = \<lparr>tdata = IntData (replicate (multiplyShape dims) 0), tdims = dims\<rparr>"

definition float_zeros :: "nat list \<Rightarrow> tensor" where
  "float_zeros dims = \<lparr>tdata = FloatData (replicate (multiplyShape dims) (Fin 0)), tdims = dims\<rparr>"

definition reset_transformer :: "feeds \<Rightarrow> transformer_spec \<Rightarrow> feeds" where
  "reset_transformer f spec = f(input_name spec \<mapsto> int_zeros (shape spec))"

definition reset_attention :: "feeds \<Rightarrow> attention_spec \<Rightarrow> feeds" where
  "reset_attention f spec =
     f(offset_input_name spec \<mapsto> int_zeros (offset_shape spec),
       cached_keys_input_name spec \<mapsto> float_zeros (cache_shape spec),
       cached_values_input_name spec \<mapsto> float_zeros (cache_shape spec),
       cached_positions_input_name spec \<mapsto>
         \<lparr>tdata = IntData (replicate (multiplyShape (positions_shape spec)) (- 1)), tdims = positions_shape spec\<rparr>)"

text \<open>The fresh caches, and the loop that copies every entry of \<open>stateFeeds\<close> into \<open>runFeeds\<close>.\<close>

definition fresh_state :: "codec_meta \<Rightarrow> feeds" where
  "fresh_state meta = foldl reset_attention (foldl reset_transformer Map.empty (transformer_offsets meta)) (attention_caches meta)"

definition codec_reset :: "codec_meta \<Rightarrow> codec_session \<Rightarrow> codec_session" where
  "codec_reset meta s = (let st = fresh_state meta in s\<lparr>stateFeeds := st, runFeeds := runFeeds s ++ st\<rparr>)"

definition length_tensor :: "nat \<Rightarrow> tensor" where
  "length_tensor n = \<lparr>tdata = IntData [to_int32 (int n)], tdims = [1]\<rparr>"

definition new_codec_session :: "codec_meta \<Rightarrow> codec_session" where
  "new_codec_session meta = codec_reset meta
     \<lparr>audioCodeTensorCache = Map.empty, stateFeeds = Map.empty, runFeeds = [AUDIO_CODE_LENGTHS \<mapsto> length_tensor 0]\<rparr>"

section \<open>Running frames\<close>

definition ensureAudioCodeTensor :: "codec_meta \<Rightarrow> nat \<Rightarrow> codec_session \<Rightarrow> int list \<times> codec_session" where
  "ensureAudioCodeTensor meta frameCount s =
     (case audioCodeTensorCache s frameCount of
        Some data \<Rightarrow> (data, s)
      | None \<Rightarrow>
          (let data = replicate (frameCount * num_quantizers (codec_config meta)) 0
           in (data, s\<lparr>audioCodeTensorCache := (audioCodeTensorCache s)(frameCount \<mapsto> data)\<rparr>)))"

text \<open>The copying loops: \<open>frameRow[channelIndex] ?? 0\<close>, cell by cell.\<close>

fun write_cells :: "int list \<Rightarrow> nat \<Rightarrow> int list \<Rightarrow> nat \<Rightarrow> nat \<Rightarrow> int list" where
  "write_cells data offset row c 0 = data"
| "write_cells data offset row c (Suc n) =
     write_cells (data[offset := int32_cell row c]) (Suc offset) row (Suc c) n"

fun write_frames :: "nat \<Rightarrow> int list \<Rightarrow> nat \<Rightarrow> int list list \<Rightarrow> int list" where
  "write_frames nq data offset [] = data"
| "write_frames nq data offset (row # rows) =
     write_frames nq (write_cells data offset row 0 nq) (offset + nq) rows"

definition carry_transformer :: "feeds \<Rightarrow> feeds \<Rightarrow> transformer_spec \<Rightarrow> feeds" where
  "carry_transformer outputs f spec = f(input_name spec := outputs (output_name spec))"

definition carry_attention :: "feeds \<Rightarrow> feeds \<Rightarrow> attention_spec \<Rightarrow> feeds" where
  "carry_attention outputs f spec =
     f(offset_input_name spec := outputs (offset_output_name spec),
       cached_keys_input_name spec := outputs (cached_keys_output_name spec),
       cached_values_input_name spec := outputs (cached_values_output_name spec),
       cached_positions_input_name spec := outputs (cached_positions_output_name spec))"

definition carry_state :: "codec_meta \<Rightarrow> feeds \<Rightarrow> feeds \<Rightarrow> feeds" where
  "carry_state meta outputs f =
     foldl (carry_attention outputs) (foldl (carry_transformer outputs) f (transformer_offsets meta))
       (attention_caches meta)"

record decoded_audio =
  audio :: "tensor option"
  audio_lengths :: "tensor option"

text \<open>The session as it stands when the model is called.\<close>

definition prepare_run :: "codec_meta \<Rightarrow> int list list \<Rightarrow> codec_session \<Rightarrow> codec_session" where
  "prepare_run meta frameRows s =
     (let nq = num_quantizers (codec_config meta); frameCount = length frameRows;
          (cached, s1) = ensureAudioCodeTensor meta frameCount s;
          data = write_frames nq cached 0 frameRows
      in s1\<lparr>audioCodeTensorCache := (audioCodeTensorCache s1)(frameCount \<mapsto> data),
            runFeeds := (runFeeds s1)(AUDIO_CODE_LENGTHS \<mapsto> length_tensor frameCount,
              AUDIO_CODES \<mapsto> \<lparr>tdata = IntData data, tdims = [1, frameCount, nq]\<rparr>)\<rparr>)"

definition runFrames ::
  "codec_meta \<Rightarrow> (feeds \<Rightarrow> feeds result) \<Rightarrow> int list list \<Rightarrow> (codec_session, decoded_audio option) proc" where
  "runFrames meta session_run frameRows s =
     (if frameRows = [] then (Inr None, s)
      else
        (let s1 = prepare_run meta frameRows s in
         case session_run (runFeeds s1) of
           Inl e \<Rightarrow> (Inl e, s1)
         | Inr outputs \<Rightarrow>
             (Inr (Some \<lparr>audio = outputs (js ''audio''), audio_lengths = outputs (js ''audio_lengths'')\<rparr>),
              s1\<lparr>stateFeeds := carry_state meta outputs (stateFeeds s1),
                 runFeeds := carry_state meta outputs (runFeeds s1)\<rparr>)))"

section \<open>The code buffer\<close>

lemma length_write_cells [simp]: "length (write_cells data offset row c n) = length data"
  by (induction n arbitrary: data offset c) simp_all

lemma write_cells_spec:
  "length pre = offset \<Longrightarrow> length mid = n \<Longrightarrow>
     write_cells (pre @ mid @ post) offset row c n = pre @ map (int32_cell row) [c..<c + n] @ post"
proof (induction n arbitrary: pre mid offset c)
  case (Suc n)
  then obtain x xs where m: "mid = x # xs" "length xs = n" by (cases mid) auto
  have "write_cells ((pre @ [int32_cell row c]) @ xs @ post) (Suc offset) row (Suc c) n
      = (pre @ [int32_cell row c]) @ map (int32_cell row) [Suc c..<Suc c + n] @ post"
    using Suc m by (intro Suc.IH) simp_all
  moreover have "[c..<c + Suc n] = c # [Suc c..<Suc c + n]" by (simp add: upt_conv_Cons)
  ultimately show ?case using Suc m by (simp add: list_update_append)
qed simp

text \<open>The codes of a frame: one for each quantizer, 0 where the frame has none, as 32-bit integers.\<close>

definition frame_codes :: "nat \<Rightarrow> int list \<Rightarrow> int list" where
  "frame_codes nq row = map (\<lambda>c. if c < length row then to_int32 (row ! c) else 0) [0..<nq]"

lemma frame_codes_cells: "frame_codes nq row = map (int32_cell row) [0..<nq]"
  by (simp add: frame_codes_def int32_cell_def)

lemma write_frames_spec:
  "length pre = offset \<Longrightarrow> length mid = length rows * nq \<Longrightarrow>
     write_frames nq (pre @ mid) offset rows = pre @ concat (map (frame_codes nq) rows)"
proof (induction rows arbitrary: pre mid offset)
  case (Cons row rows)
  define m1 where "m1 = take nq mid"
  define m2 where "m2 = drop nq mid"
  have l1: "length m1 = nq" and l2: "length m2 = length rows * nq"
    using Cons.prems by (simp_all add: m1_def m2_def)
  have split: "mid = m1 @ m2" by (simp add: m1_def m2_def)
  have "write_cells (pre @ m1 @ m2) offset row 0 nq = (pre @ frame_codes nq row) @ m2"
    using write_cells_spec [of pre offset m1 nq m2 row 0] Cons.prems l1 by (simp add: frame_codes_cells)
  moreover have "write_frames nq ((pre @ frame_codes nq row) @ m2) (offset + nq) rows
      = (pre @ frame_codes nq row) @ concat (map (frame_codes nq) rows)"
    using Cons.prems l2 by (intro Cons.IH) (simp_all add: frame_codes_cells)
  ultimately show ?case by (simp add: split)
qed simp

text \<open>The sizes of the cached buffers, and the names that may be fed.\<close>

definition attention_inputs :: "attention_spec \<Rightarrow> jsstr set" where
  "attention_inputs spec = {offset_input_name spec, cached_keys_input_name spec,
     cached_values_input_name spec, cached_positions_input_name spec}"

definition state_names :: "codec_meta \<Rightarrow> jsstr set" where
  "state_names meta = input_name ` set (transformer_offsets meta)
     \<union> (\<Union>spec\<in>set (attention_caches meta). attention_inputs spec)"

definition fed_names :: "codec_meta \<Rightarrow> jsstr set" where
  "fed_names meta = state_names meta \<union> {AUDIO_CODES, AUDIO_CODE_LENGTHS}"

definition session_ok :: "codec_meta \<Rightarrow> codec_session \<Rightarrow> bool" where
  "session_ok meta s \<longleftrightarrow>
     (\<forall>n data. audioCodeTensorCache s n = Some data \<longrightarrow> length data = n * num_quantizers (codec_config meta))
     \<and> dom (runFeeds s) \<subseteq> fed_names meta"

lemma prepare_run_feeds:
  assumes "session_ok meta s"
  shows "runFeeds (prepare_run meta rows s) = (runFeeds s)(AUDIO_CODE_LENGTHS \<mapsto> length_tensor (length rows),
     AUDIO_CODES \<mapsto> \<lparr>tdata = IntData (concat (map (frame_codes (num_quantizers (codec_config meta))) rows)),
       tdims = [1, length rows, num_quantizers (codec_config meta)]\<rparr>)"
proof -
  let ?nq = "num_quantizers (codec_config meta)"
  obtain data s1 where d: "ensureAudioCodeTensor meta (length rows) s = (data, s1)" by fastforce
  then have l: "length data = length rows * ?nq" and f: "runFeeds s1 = runFeeds s"
    using assms by (auto simp: ensureAudioCodeTensor_def session_ok_def Let_def split: option.splits)
  have "write_frames ?nq data 0 rows = concat (map (frame_codes ?nq) rows)"
    using write_frames_spec [of "[]" 0 data rows ?nq] l by simp
  then show ?thesis using d f by (simp add: prepare_run_def Let_def)
qed

lemma dom_carry_attention:
  "dom (foldl (carry_attention outs) f specs) \<subseteq> dom f \<union> (\<Union>spec\<in>set specs. attention_inputs spec)"
proof (induction specs arbitrary: f)
  case (Cons spec specs)
  have "carry_attention outs f spec n = f n" if "n \<notin> attention_inputs spec" for n
    using that by (simp add: carry_attention_def attention_inputs_def)
  then have step: "dom (carry_attention outs f spec) \<subseteq> dom f \<union> attention_inputs spec" by (metis UnCI domIff subsetI)
  have "dom (foldl (carry_attention outs) (carry_attention outs f spec) specs)
      \<subseteq> dom (carry_attention outs f spec) \<union> (\<Union>spec\<in>set specs. attention_inputs spec)"
    by (rule Cons.IH)
  then show ?case using step by auto
qed simp

lemma dom_carry_transformer:
  "dom (foldl (carry_transformer outs) f specs) \<subseteq> dom f \<union> input_name ` set specs"
proof (induction specs arbitrary: f)
  case (Cons spec specs)
  have "dom (carry_transformer outs f spec) \<subseteq> insert (input_name spec) (dom f)"
    by (auto simp: carry_transformer_def dom_def split: if_splits)
  then show ?case using Cons [of "carry_transformer outs f spec"] by simp blast
qed simp

lemma dom_carry_state: "dom (carry_state meta outs f) \<subseteq> dom f \<union> state_names meta"
  using dom_carry_attention [of outs "foldl (carry_transformer outs) f (transformer_offsets meta)" "attention_caches meta"]
    dom_carry_transformer [of outs f "transformer_offsets meta"]
  by (auto simp: carry_state_def state_names_def)

lemma fresh_transformers:
  "dom (foldl reset_transformer f specs) = dom f \<union> input_name ` set specs"
  by (induction specs arbitrary: f) (auto simp: reset_transformer_def)

lemma fresh_attention:
  "dom (foldl reset_attention f specs) = dom f \<union> (\<Union>spec\<in>set specs. attention_inputs spec)"
  by (induction specs arbitrary: f) (auto simp: reset_attention_def attention_inputs_def)

lemma dom_fresh_state: "dom (fresh_state meta) = state_names meta"
  by (simp add: fresh_state_def fresh_attention fresh_transformers state_names_def)

lemma session_ok_reset: "session_ok meta s \<Longrightarrow> session_ok meta (codec_reset meta s)"
  using dom_fresh_state [of meta] by (auto simp: session_ok_def codec_reset_def Let_def fed_names_def)

lemma session_ok_new: "session_ok meta (new_codec_session meta)"
  unfolding new_codec_session_def by (rule session_ok_reset) (auto simp: session_ok_def fed_names_def)

lemma session_ok_prepare: "session_ok meta s \<Longrightarrow> session_ok meta (prepare_run meta rows s)"
proof -
  assume ok: "session_ok meta s"
  let ?nq = "num_quantizers (codec_config meta)"
  obtain data s1 where d: "ensureAudioCodeTensor meta (length rows) s = (data, s1)" by fastforce
  then have l: "length data = length rows * ?nq"
    using ok by (auto simp: ensureAudioCodeTensor_def session_ok_def Let_def split: option.splits)
  have ok1: "session_ok meta s1"
  proof (cases "audioCodeTensorCache s (length rows)")
    case None
    then show ?thesis using ok d by (auto simp: ensureAudioCodeTensor_def session_ok_def Let_def split: if_splits)
  qed (use ok d in \<open>auto simp: ensureAudioCodeTensor_def\<close>)
  have "write_frames ?nq data 0 rows = concat (map (frame_codes ?nq) rows)"
    using write_frames_spec [of "[]" 0 data rows ?nq] l by simp
  moreover have "length (concat (map (frame_codes ?nq) rows)) = length rows * ?nq"
    using length_concat_const [of "map (frame_codes ?nq) rows" ?nq] by (simp add: frame_codes_cells)
  ultimately show ?thesis using d ok1 by (auto simp: prepare_run_def Let_def session_ok_def fed_names_def split: if_splits)
qed

lemma session_ok_run:
  "session_ok meta s \<Longrightarrow> runFrames meta run rows s = (r, s') \<Longrightarrow> session_ok meta s'"
proof -
  assume ok: "session_ok meta s" and r: "runFrames meta run rows s = (r, s')"
  show ?thesis
  proof (cases "rows = []")
    case False
    let ?s1 = "prepare_run meta rows s"
    have ok1: "session_ok meta ?s1" by (rule session_ok_prepare [OF ok])
    show ?thesis
    proof (cases "run (runFeeds ?s1)")
      case (Inl e)
      then show ?thesis using r False ok1 by (simp add: runFrames_def Let_def)
    next
      case (Inr outs)
      then have s': "s' = ?s1\<lparr>stateFeeds := carry_state meta outs (stateFeeds ?s1),
          runFeeds := carry_state meta outs (runFeeds ?s1)\<rparr>"
        using r False by (simp add: runFrames_def Let_def)
      show ?thesis
        using ok1 dom_carry_state [of meta outs "runFeeds ?s1"] unfolding s' session_ok_def fed_names_def by simp blast
    qed
  qed (use ok r in \<open>simp add: runFrames_def\<close>)
qed

text \<open>C32: The codec is run on exactly the frames: the one call that the session makes for a batch of frames is on
  inputs that carry the frames' codes in order (a missing code is 0), with the dimensions and the
  length of the batch, whatever was decoded before, and every other input as the session holds it; the
  result is what that call returns; and after the call, also after a failed one, the session is again
  well-formed.\<close>

theorem codec_feeds_exact_codes:
  assumes "session_ok meta s" and "rows \<noteq> []"
  shows "\<exists>fd. fd AUDIO_CODES = Some \<lparr>tdata =
        IntData (concat (map (\<lambda>row. map (\<lambda>c. if c < length row then to_int32 (row ! c) else 0) [0..<num_quantizers (codec_config meta)]) rows)),
        tdims = [1, length rows, num_quantizers (codec_config meta)]\<rparr>
    \<and> fd AUDIO_CODE_LENGTHS = Some \<lparr>tdata = IntData [to_int32 (int (length rows))], tdims = [1]\<rparr>
    \<and> (\<forall>n. n \<noteq> AUDIO_CODES \<longrightarrow> n \<noteq> AUDIO_CODE_LENGTHS \<longrightarrow> fd n = runFeeds s n)
    \<and> (\<forall>run. fst (runFrames meta run rows s) = (case run fd of Inl e \<Rightarrow> Inl e
           | Inr outs \<Rightarrow> Inr (Some \<lparr>audio = outs (js ''audio''), audio_lengths = outs (js ''audio_lengths'')\<rparr>))
         \<and> session_ok meta (snd (runFrames meta run rows s)))"
proof -
  have names: "AUDIO_CODE_LENGTHS \<noteq> AUDIO_CODES" by (simp add: AUDIO_CODE_LENGTHS_def AUDIO_CODES_def)
  have "session_ok meta (snd (runFrames meta run rows s))" for run by (rule session_ok_run [OF assms(1) surjective_pairing])
  then show ?thesis using names assms(2)
    by (intro exI [of _ "runFeeds (prepare_run meta rows s)"])
      (simp add: prepare_run_feeds [OF assms(1)] runFrames_def Let_def frame_codes_def [abs_def] length_tensor_def split: sum.splits)
qed

text \<open>Two sessions of a codec that differ only in the codes and the length of the last batch.\<close>

definition alike :: "codec_meta \<Rightarrow> codec_session \<Rightarrow> codec_session \<Rightarrow> bool" where
  "alike meta s t \<longleftrightarrow> session_ok meta s \<and> session_ok meta t \<and> stateFeeds s = stateFeeds t
     \<and> (\<forall>n. n \<noteq> AUDIO_CODES \<longrightarrow> n \<noteq> AUDIO_CODE_LENGTHS \<longrightarrow> runFeeds s n = runFeeds t n)"

lemma alike_prepare:
  assumes "alike meta s t"
  shows "runFeeds (prepare_run meta rows s) = runFeeds (prepare_run meta rows t)"
  using assms by (auto simp: alike_def prepare_run_feeds fun_eq_iff)

lemma stateFeeds_prepare: "stateFeeds (prepare_run meta rows s) = stateFeeds s"
  by (auto simp: prepare_run_def ensureAudioCodeTensor_def Let_def split: option.splits)

lemma alike_run:
  assumes "alike meta s t"
  shows "fst (runFrames meta run rows s) = fst (runFrames meta run rows t)"
    and "alike meta (snd (runFrames meta run rows s)) (snd (runFrames meta run rows t))"
proof -
  note f = alike_prepare [OF assms, of rows]
  have ok: "session_ok meta (snd (runFrames meta run rows s))" "session_ok meta (snd (runFrames meta run rows t))"
    using assms session_ok_run [OF _ surjective_pairing] by (auto simp: alike_def)
  show "fst (runFrames meta run rows s) = fst (runFrames meta run rows t)"
    using f by (simp add: runFrames_def Let_def split: sum.splits)
  have st: "stateFeeds s = stateFeeds t" using assms by (simp add: alike_def)
  show "alike meta (snd (runFrames meta run rows s)) (snd (runFrames meta run rows t))"
  proof (cases "rows = []")
    case True
    then show ?thesis using assms by (simp add: runFrames_def)
  next
    case False
    then show ?thesis using ok f st unfolding alike_def
      by (auto simp: runFrames_def Let_def stateFeeds_prepare split: sum.splits)
  qed
qed

lemma reset_feeds:
  assumes "session_ok meta t" and "n \<noteq> AUDIO_CODES" and "n \<noteq> AUDIO_CODE_LENGTHS"
  shows "runFeeds (codec_reset meta t) n = fresh_state meta n"
proof (cases "n \<in> state_names meta")
  case True
  then have "n \<in> dom (fresh_state meta)" by (simp add: dom_fresh_state)
  then show ?thesis by (auto simp: codec_reset_def Let_def map_add_dom_app_simps)
next
  case False
  then have "fresh_state meta n = None" using dom_fresh_state [of meta] by auto
  moreover have "runFeeds t n = None" using assms False by (auto simp: session_ok_def fed_names_def)
  ultimately show ?thesis by (simp add: codec_reset_def Let_def map_add_def)
qed

lemma reset_alike: "session_ok meta s \<Longrightarrow> session_ok meta t \<Longrightarrow> alike meta (codec_reset meta s) (codec_reset meta t)"
  using session_ok_reset by (auto simp: alike_def reset_feeds) (simp_all add: codec_reset_def Let_def)

text \<open>The results of decoding batch after batch.\<close>

fun run_batches :: "codec_meta \<Rightarrow> (feeds \<Rightarrow> feeds result) \<Rightarrow> int list list list \<Rightarrow> codec_session \<Rightarrow> decoded_audio option result list" where
  "run_batches meta run [] s = []"
| "run_batches meta run (rows # batches) s =
     (let (res, s') = runFrames meta run rows s in res # run_batches meta run batches s')"

lemma alike_batches: "alike meta s t \<Longrightarrow> run_batches meta run batches s = run_batches meta run batches t"
proof (induction batches arbitrary: s t)
  case (Cons rows batches)
  then show ?case using alike_run [OF Cons.prems, of run rows] by (simp add: case_prod_beta Let_def)
qed simp

text \<open>C33: \<open>reset\<close> forgets: after a reset a well-formed session, however it was used before, decodes every sequence of
  batches to exactly the results that a newly made session of the same codec gives, so a new utterance
  does not hear the previous one.\<close>

theorem codec_reset_forgets:
  assumes "session_ok meta s"
  shows "run_batches meta run batches (codec_reset meta s) = run_batches meta run batches (new_codec_session meta)"
proof -
  have "session_ok meta \<lparr>audioCodeTensorCache = Map.empty, stateFeeds = Map.empty, runFeeds = [AUDIO_CODE_LENGTHS \<mapsto> length_tensor 0]\<rparr>"
    by (auto simp: session_ok_def fed_names_def)
  then show ?thesis using reset_alike [OF assms] alike_batches by (simp add: new_codec_session_def)
qed

definition small_codec :: codec_meta where
  "small_codec = \<lparr>codec_config = \<lparr>sample_rate = 48000, codec_channels = 2, num_quantizers = 2\<rparr>,
     transformer_offsets = [\<lparr>input_name = js ''t_in'', output_name = js ''t_out'', shape = [1]\<rparr>],
     attention_caches = []\<rparr>"

definition echo_codec :: "feeds \<Rightarrow> feeds result" where
  "echo_codec f = Inr (\<lambda>n. if n = js ''t_out'' then f (js ''audio_codes'') else None)"

theorem codec_feeds_exact_codes_witness:
  "\<exists>fd. fd AUDIO_CODES = Some \<lparr>tdata = IntData [5, 6, 7, 0], tdims = [1, 2, 2]\<rparr>
     \<and> (\<forall>run e. run fd = Inl e \<longrightarrow> fst (runFrames small_codec run [[5, 6], [7]] (new_codec_session small_codec)) = Inl e)"
proof -
  have "concat (map (\<lambda>row :: int list. map (\<lambda>c. if c < length row then to_int32 (row ! c) else 0) [0..<2]) [[5, 6], [7]]) = [5, 6, 7, 0]"
    by code_simp
  moreover have "num_quantizers (codec_config small_codec) = 2" by (simp add: small_codec_def)
  moreover obtain fd where "fd AUDIO_CODES = Some \<lparr>tdata =
        IntData (concat (map (\<lambda>row. map (\<lambda>c. if c < length row then to_int32 (row ! c) else 0) [0..<num_quantizers (codec_config small_codec)]) [[5, 6], [7]])),
        tdims = [1, length [[5, 6], [7 :: int]], num_quantizers (codec_config small_codec)]\<rparr>"
    and "\<And>run. fst (runFrames small_codec run [[5, 6], [7]] (new_codec_session small_codec)) = (case run fd of Inl e \<Rightarrow> Inl e
           | Inr outs \<Rightarrow> Inr (Some \<lparr>audio = outs (js ''audio''), audio_lengths = outs (js ''audio_lengths'')\<rparr>))"
    using codec_feeds_exact_codes [OF session_ok_new [of small_codec], of "[[5, 6], [7]]"] by blast
  ultimately show ?thesis by (intro exI [of _ fd]) (simp add: numeral_2_eq_2)
qed

theorem codec_reset_forgets_witness:
  "run_batches small_codec echo_codec [[[3, 4]], [[5, 6]]]
       (codec_reset small_codec (snd (runFrames small_codec echo_codec [[1, 2]] (new_codec_session small_codec))))
     = run_batches small_codec echo_codec [[[3, 4]], [[5, 6]]] (new_codec_session small_codec)"
  by (rule codec_reset_forgets) (rule session_ok_run [OF session_ok_new surjective_pairing])

end
