(* ===== verification/TextChunking.thy ===== *)
theory TextChunking
  imports JsRegex Numbers
begin

text \<open>
  Cutting a text into chunks the voice model can speak (\<open>browser_onnx_runtime.js\<close>): sentence and clause
  splitting, splitting by token budget with a binary search, and the grouping of sentences into chunks.
  The tokenizer runs in a sandboxed frame; the number of tokens it reports for a text, or the error of
  the request, is a parameter (\<open>cnt\<close>).
\<close>

section \<open>Punctuation\<close>

definition SENTENCE_END_PUNCTUATION :: "nat list" where
  "SENTENCE_END_PUNCTUATION = [46, 33, 63, 12290, 65281, 65311, 65307, 59]"

definition CLAUSE_SPLIT_PUNCTUATION :: "nat list" where
  "CLAUSE_SPLIT_PUNCTUATION = [44, 65292, 12289, 65307, 59, 65306, 58]"

definition CLOSING_PUNCTUATION :: "nat list" where
  "CLOSING_PUNCTUATION = [34, 39, 8221, 8217, 41, 93, 125, 65289, 12305, 12299, 12301, 12303]"

definition cjk_unit :: "nat \<Rightarrow> bool" where
  "cjk_unit c \<longleftrightarrow> (19968 \<le> c \<and> c \<le> 40959) \<or> (13312 \<le> c \<and> c \<le> 19903) \<or> (12352 \<le> c \<and> c \<le> 12543)
     \<or> (44032 \<le> c \<and> c \<le> 55215)"

text \<open>A character outside the basic plane starts with a surrogate, which compares above all four ranges.\<close>

definition containsCjk :: "jsstr \<Rightarrow> bool" where
  "containsCjk s = list_ex (\<lambda>ch. case ch of [c] \<Rightarrow> cjk_unit c | _ \<Rightarrow> False) (code_points s)"

section \<open>Preparation\<close>

text \<open>One pass of \<open>replace(/  /g, " ")\<close>, and the loop around it.\<close>

fun pair_spaces :: "jsstr \<Rightarrow> jsstr" where
  "pair_spaces [] = []"
| "pair_spaces [c] = [c]"
| "pair_spaces (c # d # s) = (if c = 32 \<and> d = 32 then 32 # pair_spaces s else c # pair_spaces (d # s))"

lemma length_pair_spaces: "length (pair_spaces s) \<le> length s"
  by (induction s rule: pair_spaces.induct) auto

lemma pair_spaces_shrinks: "str_includes s [32, 32] \<Longrightarrow> length (pair_spaces s) < length s"
proof (induction s rule: pair_spaces.induct)
  case (3 c d s)
  then show ?case
    using length_pair_spaces [of s] by (auto simp: starts_with_def)
qed (auto simp: starts_with_def)

function collapse_spaces :: "jsstr \<Rightarrow> jsstr" where
  "collapse_spaces s = (if str_includes s [32, 32] then collapse_spaces (pair_spaces s) else s)"
  by pat_completeness auto
termination
  by (relation "measure length") (simp_all add: pair_spaces_shrinks)

declare collapse_spaces.simps [simp del]

definition words :: "jsstr \<Rightarrow> jsstr list" where
  "words s = filter (\<lambda>w. w \<noteq> []) (rx_split False (rx_plus (RxCls js_space)) s)"

definition prepareTextForSentenceChunking :: "jsstr \<Rightarrow> jsstr result" where
  "prepareTextForSentenceChunking t =
     (let s0 = trim t in
      if s0 = [] then Inl (Error (js ''Text prompt cannot be empty.''))
      else
        (let s1 = map (\<lambda>c. if c = 13 then 32 else c) s0;
             s2 = map (\<lambda>c. if c = 10 then 32 else c) s1;
             s3 = collapse_spaces s2
         in if containsCjk s3
            then Inr (if last s3 \<notin> set SENTENCE_END_PUNCTUATION then s3 @ [12290] else s3)
            else
              (let s4 = (if is_lower (hd s3) then (hd s3 - 32) # tl s3 else s3);
                   s5 = (if is_alnum (last s4) then s4 @ [46] else s4)
               in Inr (if length (words s5) < 5 then replicate 8 32 @ s5 else s5))))"

section \<open>Splitting at punctuation\<close>

function split_punct :: "nat list \<Rightarrow> jsstr list \<Rightarrow> jsstr \<Rightarrow> jsstr \<Rightarrow> jsstr list" where
  "split_punct punct sentences current [] =
     (let tail = trim current in if tail \<noteq> [] then sentences @ [tail] else sentences)"
| "split_punct punct sentences current (c # s) =
     (if c \<in> set punct
      then
        (let closers = takeWhile (\<lambda>d. d \<in> set CLOSING_PUNCTUATION) s;
             sentence = trim (current @ [c] @ closers);
             rest = dropWhile js_space (dropWhile (\<lambda>d. d \<in> set CLOSING_PUNCTUATION) s)
         in split_punct punct (if sentence \<noteq> [] then sentences @ [sentence] else sentences) [] rest)
      else split_punct punct sentences (current @ [c]) s)"
  by pat_completeness auto
termination
  by (relation "measure (\<lambda>(p, ss, cur, s). length s)")
    (auto intro: le_imp_less_Suc order_trans [OF length_dropWhile_le length_dropWhile_le])

definition splitTextByPunctuation :: "jsstr \<Rightarrow> nat list \<Rightarrow> jsstr list" where
  "splitTextByPunctuation t punctuation = split_punct punctuation [] [] t"

definition joinSentenceParts :: "jsstr \<Rightarrow> jsstr \<Rightarrow> jsstr" where
  "joinSentenceParts left right =
     (if left = [] then right
      else if right = [] then left
      else if containsCjk left \<or> containsCjk right then left @ right
      else left @ [32] @ right)"

section \<open>Splitting by token budget\<close>

type_synonym counter = "jsstr \<Rightarrow> nat result"

text \<open>The binary search for the longest prefix within the budget.\<close>

function search_prefix :: "counter \<Rightarrow> nat \<Rightarrow> jsstr \<Rightarrow> nat \<Rightarrow> nat \<Rightarrow> nat \<Rightarrow> nat result" where
  "search_prefix cnt maxTokens t low high best =
     (if high < low then Inr best
      else
        (let middle = (low + high) div 2; candidate = trim (take middle t)
         in if candidate = [] then search_prefix cnt maxTokens t (middle + 1) high best
            else (case cnt candidate of
                Inl e \<Rightarrow> Inl e
              | Inr n \<Rightarrow>
                  if n \<le> maxTokens then search_prefix cnt maxTokens t (middle + 1) high middle
                  else search_prefix cnt maxTokens t low (middle - 1) best)))"
  by pat_completeness auto
termination
proof (relation "measure (\<lambda>(cnt, m, t, low, high, best). Suc high - low)", goal_cases)
  case (4 cnt m t low high best mid cand n)
  then have "mid \<noteq> 0" by (cases "mid = 0") simp_all
  then show ?case using 4 by auto
qed auto

declare search_prefix.simps [simp del]

definition preferred_boundary :: "nat \<Rightarrow> bool" where
  "preferred_boundary c \<longleftrightarrow> c \<in> set (CLAUSE_SPLIT_PUNCTUATION @ SENTENCE_END_PUNCTUATION @ [32])"

text \<open>The scan back over at most 24 characters of the prefix; 0 stands for \<open>-1\<close>, nothing found.\<close>

definition preferred_index :: "jsstr \<Rightarrow> nat" where
  "preferred_index prefix =
     (case filter (\<lambda>i. preferred_boundary (prefix ! i)) (rev [length prefix - 24..<length prefix]) of
        [] \<Rightarrow> 0 | i # _ \<Rightarrow> i + 1)"

text \<open>One round of the loop: the piece cut off and where the rest begins.\<close>

definition cut_piece :: "nat \<Rightarrow> jsstr \<Rightarrow> jsstr \<times> nat" where
  "cut_piece best t =
     (let pref = preferred_index (take best t);
          cutIndex = (if pref > 0 then pref else best);
          piece = trim (take cutIndex t)
      in if piece = [] then (trim (take best t), best) else (piece, cutIndex))"

lemma search_prefix_pos:
  assumes "search_prefix cnt m t low high best = Inr b" and "1 \<le> low" and "1 \<le> best"
  shows "1 \<le> b"
  using assms
proof (induction cnt m t low high best rule: search_prefix.induct)
  case (1 cnt m t low high best)
  show ?case
    using 1(4-6) 1(1-3)
    by (subst (asm) (1) search_prefix.simps) (auto simp: Let_def split: if_splits sum.splits)
qed

lemma preferred_index_le: "preferred_index p \<le> length p"
proof (cases "filter (\<lambda>i. preferred_boundary (p ! i)) (rev [length p - 24..<length p])")
  case (Cons i rest)
  then have "i \<in> set (rev [length p - 24..<length p])" by (metis filter_is_subset list.set_intros(1) subsetD)
  then show ?thesis using Cons by (simp add: preferred_index_def)
qed (simp add: preferred_index_def)

lemma cut_piece_pos: "1 \<le> best \<Longrightarrow> 1 \<le> snd (cut_piece best t)"
  by (auto simp: cut_piece_def Let_def)

function budget_loop :: "counter \<Rightarrow> nat \<Rightarrow> jsstr \<Rightarrow> jsstr list result" where
  "budget_loop cnt maxTokens remaining =
     (if remaining = [] then Inr []
      else (case cnt remaining of
          Inl e \<Rightarrow> Inl e
        | Inr n \<Rightarrow>
            if n \<le> maxTokens then Inr [remaining]
            else (case search_prefix cnt maxTokens remaining 1 (length remaining) 1 of
                Inl e \<Rightarrow> Inl e
              | Inr best \<Rightarrow>
                  (case budget_loop cnt maxTokens (trim (drop (snd (cut_piece best remaining)) remaining)) of
                     Inl e \<Rightarrow> Inl e
                   | Inr pieces \<Rightarrow> Inr (fst (cut_piece best remaining) # pieces)))))"
  by pat_completeness auto
termination
proof (relation "measure (\<lambda>(cnt, m, t). length t)", simp, goal_cases)
  case (1 cnt m t n best)
  then have "1 \<le> best" using search_prefix_pos [of cnt m t 1 "length t" 1 best] by simp
  then have "1 \<le> snd (cut_piece best t)" by (rule cut_piece_pos)
  moreover have "0 < length t" using 1 by simp
  ultimately have "length (drop (snd (cut_piece best t)) t) < length t" by simp
  then show ?case using length_trim [of "drop (snd (cut_piece best t)) t"] by simp
qed

declare budget_loop.simps [simp del]

definition splitTextByTokenBudget :: "counter \<Rightarrow> jsstr \<Rightarrow> nat \<Rightarrow> jsstr list result" where
  "splitTextByTokenBudget cnt t maxTokens = budget_loop cnt maxTokens (trim t)"


section \<open>Chunks of a voice-clone request\<close>

text \<open>The pieces of one sentence with their token counts.\<close>

definition piece_slices :: "counter \<Rightarrow> jsstr list \<Rightarrow> (nat \<times> jsstr) list result" where
  "piece_slices cnt pieces =
     foldR (\<lambda>acc piece.
       (let p = trim piece in
        if p = [] then Inr acc else bindR (cnt p) (\<lambda>n. Inr (acc @ [(n, p)])))) [] pieces"

definition clause_slices :: "counter \<Rightarrow> nat \<Rightarrow> jsstr \<Rightarrow> (nat \<times> jsstr) list result" where
  "clause_slices cnt maxTokens clauseText =
     (let c = trim clauseText in
      if c = [] then Inr []
      else bindR (cnt c) (\<lambda>n.
        if n \<le> maxTokens then Inr [(n, c)]
        else bindR (splitTextByTokenBudget cnt c maxTokens) (piece_slices cnt)))"

definition sentence_slices :: "counter \<Rightarrow> nat \<Rightarrow> jsstr \<Rightarrow> (nat \<times> jsstr) list result" where
  "sentence_slices cnt maxTokens sentenceText =
     (let s = trim sentenceText in
      if s = [] then Inr []
      else bindR (cnt s) (\<lambda>n.
        if n \<le> maxTokens then Inr [(n, s)]
        else
          (let clauses0 = splitTextByPunctuation s CLAUSE_SPLIT_PUNCTUATION;
               clauses = (if length clauses0 \<le> 1 then [s] else clauses0)
           in foldR (\<lambda>acc c. bindR (clause_slices cnt maxTokens c) (\<lambda>ss. Inr (acc @ ss))) [] clauses)))"

text \<open>The grouping loop: finished chunks, the chunk being built and its token count.\<close>

definition group_slice ::
  "counter \<Rightarrow> nat \<Rightarrow> jsstr list \<times> jsstr \<times> nat \<Rightarrow> nat \<times> jsstr \<Rightarrow> (jsstr list \<times> jsstr \<times> nat) result" where
  "group_slice cnt maxTokens st item =
     (case st of (chunks, current, currentCount) \<Rightarrow>
        case item of (n, s) \<Rightarrow>
          if current = [] then Inr (chunks, s, n)
          else if currentCount + n > maxTokens then Inr (chunks @ [trim current], s, n)
          else (let joined = joinSentenceParts current s
                in bindR (cnt joined) (\<lambda>m. Inr (chunks, joined, m))))"

definition safe_max_tokens :: "int option \<Rightarrow> nat" where
  "safe_max_tokens m = nat (max 1 (case m of None \<Rightarrow> 75 | Some k \<Rightarrow> if k = 0 then 75 else k))"

definition splitVoiceCloneText :: "counter \<Rightarrow> jsstr \<Rightarrow> int option \<Rightarrow> jsstr list result" where
  "splitVoiceCloneText cnt t maxTokens =
     (let normalizedText = trim t in
      if normalizedText = [] then Inr []
      else
        (let safeMaxTokens = safe_max_tokens maxTokens in
         bindR (prepareTextForSentenceChunking normalizedText) (\<lambda>preparedText.
           (let cands0 = splitTextByPunctuation preparedText SENTENCE_END_PUNCTUATION;
                cands = (if cands0 = [] then [trim preparedText] else cands0)
            in bindR (foldR (\<lambda>acc s. bindR (sentence_slices cnt safeMaxTokens s) (\<lambda>ss. Inr (acc @ ss))) [] cands)
                 (\<lambda>slices. bindR (foldR (group_slice cnt safeMaxTokens) ([], [], 0) slices)
                    (\<lambda>st. case st of (chunks, current, _) \<Rightarrow>
                       (let all = (if current \<noteq> [] then chunks @ [trim current] else chunks)
                        in Inr (if length all > 1 then all else [normalizedText]))))))))"

section \<open>Pauses and the streaming budget\<close>

definition pause_short :: num where
  "pause_short = round64 (4 / 10)"

definition pause_long :: num where
  "pause_long = round64 (24 / 100)"

definition estimateVoiceCloneInterChunkPauseSeconds :: "jsstr \<Rightarrow> num" where
  "estimateVoiceCloneInterChunkPauseSeconds textChunk =
     (if length (words (trim textChunk)) \<le> 4 then pause_short else pause_long)"

text \<open>\<open>firstAudioEmittedAtSeconds\<close> is null until the first chunk; \<open>now\<close> is \<open>performance.now()\<close> in
  milliseconds.\<close>

definition truthy :: "num option \<Rightarrow> bool" where
  "truthy a = (case a of None \<Rightarrow> False | Some x \<Rightarrow> x \<noteq> NaN \<and> x \<noteq> Fin 0)"

definition computeStreamLeadSeconds :: "num \<Rightarrow> nat \<Rightarrow> nat \<Rightarrow> num option \<Rightarrow> num" where
  "computeStreamLeadSeconds now emittedSamplesTotal sampleRate first =
     (case first of
        Some f \<Rightarrow>
          if \<not> truthy first \<or> sampleRate = 0 then Fin 0
          else
            (let elapsed = num_max (Fin 0) (num_sub (num_div now (Fin 1000)) f);
                 emitted = num_div (Fin (of_nat emittedSamplesTotal)) (Fin (of_nat sampleRate))
             in num_sub emitted elapsed)
      | None \<Rightarrow> Fin 0)"

definition resolveStreamDecodeFrameBudget :: "num \<Rightarrow> nat \<Rightarrow> nat \<Rightarrow> num option \<Rightarrow> nat" where
  "resolveStreamDecodeFrameBudget now emittedSamplesTotal sampleRate first =
     (let lead = computeStreamLeadSeconds now emittedSamplesTotal sampleRate first
      in if \<not> truthy first \<or> num_lt lead (round64 (2 / 10)) then 1
         else if num_lt lead (round64 (55 / 100)) then 2
         else if num_lt lead (round64 (11 / 10)) then 4
         else 8)"

section \<open>Nothing is lost\<close>

text \<open>The text without its white space.\<close>

definition ink :: "jsstr \<Rightarrow> jsstr" where
  "ink s = filter (\<lambda>c. \<not> js_space c) s"

lemma ink_append [simp]: "ink (a @ b) = ink a @ ink b"
  by (simp add: ink_def)

lemma ink_Nil [simp]: "ink [] = []"
  by (simp add: ink_def)

lemma ink_Cons: "ink (c # s) = ink [c] @ ink s"
  by (simp add: ink_def)

lemma ink_spaces: "\<forall>c\<in>set s. js_space c \<Longrightarrow> ink s = []"
  by (simp add: ink_def filter_empty_conv)

lemma ink_trim [simp]: "ink (trim s) = ink s"
proof -
  obtain a b where d: "s = a @ trim s @ b" "\<forall>c\<in>set a. js_space c" "\<forall>c\<in>set b. js_space c"
    using trim_decomp by blast
  then have "ink s = ink a @ ink (trim s) @ ink b" by (metis ink_append)
  then show ?thesis using d(2,3) by (simp add: ink_spaces)
qed

lemma ink_trim_Nil: "trim s = [] \<Longrightarrow> ink s = []"
  by (simp add: trim_Nil_iff ink_spaces)

lemma ink_dropWhile_space [simp]: "ink (dropWhile js_space s) = ink s"
  by (induction s) (auto simp: ink_def)

lemma ink_concat: "ink (concat xs) = concat (map ink xs)"
  by (induction xs) simp_all

text \<open>A piece: not empty and without white space at its ends.\<close>

definition piece_ok :: "jsstr \<Rightarrow> bool" where
  "piece_ok p \<longleftrightarrow> p \<noteq> [] \<and> trim p = p"

lemma piece_ok_trim: "trim p \<noteq> [] \<Longrightarrow> piece_ok (trim p)"
  by (simp add: piece_ok_def)

lemma split_punct_ink:
  "concat (map ink (split_punct punct ss cur s)) = concat (map ink ss) @ ink cur @ ink s"
proof (induction punct ss cur s rule: split_punct.induct)
  case (1 punct ss cur)
  show ?case by (auto simp: Let_def ink_trim_Nil)
next
  case (2 punct ss cur c s)
  let ?cl = "\<lambda>d. d \<in> set CLOSING_PUNCTUATION"
  have s: "ink s = ink (takeWhile ?cl s) @ ink (dropWhile ?cl s)" by (metis ink_append takeWhile_dropWhile_id)
  show ?case
  proof (cases "c \<in> set punct")
    case True
    let ?sent = "trim (cur @ [c] @ takeWhile ?cl s)"
    define ss' where "ss' = (if ?sent \<noteq> [] then ss @ [?sent] else ss)"
    have sent: "concat (map ink ss') = concat (map ink ss) @ ink cur @ ink [c] @ ink (takeWhile ?cl s)"
      using ink_trim_Nil [of "cur @ [c] @ takeWhile ?cl s"] ink_Cons [of c "takeWhile ?cl s"]
      by (cases "?sent = []") (simp_all add: ss'_def)
    have "split_punct punct ss cur (c # s) = split_punct punct ss' [] (dropWhile js_space (dropWhile ?cl s))"
      using True by (simp add: Let_def ss'_def)
    then show ?thesis
      using 2(1) [OF True refl refl refl] sent s ink_Cons [of c s] unfolding ss'_def [symmetric] by simp
  next
    case False
    have "ink (c # s) = ink [c] @ ink s" by (simp flip: ink_append)
    then show ?thesis using 2(2) [OF False] False by simp
  qed
qed

lemma split_punct_ok: "list_all piece_ok ss \<Longrightarrow> list_all piece_ok (split_punct punct ss cur s)"
  by (induction punct ss cur s rule: split_punct.induct) (auto simp: Let_def piece_ok_trim)

text \<open>Splitting at punctuation loses nothing but white space: the pieces together hold every other
  character of the text in order, and every piece is non-empty and trimmed. This holds for any set of
  punctuation marks, and the scan ends on every text.\<close>

theorem splitTextByPunctuation_lossless:
  "ink (concat (splitTextByPunctuation t punctuation)) = ink t
   \<and> list_all piece_ok (splitTextByPunctuation t punctuation)"
  using split_punct_ink [of punctuation "[]" "[]" t] split_punct_ok [of "[]" punctuation "[]" t]
  by (simp add: splitTextByPunctuation_def ink_concat)


section \<open>The token budget\<close>

lemma cut_piece_take: "fst (cut_piece best t) = trim (take (snd (cut_piece best t)) t)"
  by (simp add: cut_piece_def Let_def)

lemma cut_piece_le: "snd (cut_piece best t) \<le> max best 1"
  using preferred_index_le [of "take best t"] by (auto simp: cut_piece_def Let_def)

lemma trim_take_ne: "t \<noteq> [] \<Longrightarrow> trim t = t \<Longrightarrow> 1 \<le> n \<Longrightarrow> trim (take n t) \<noteq> []"
proof
  assume t: "t \<noteq> []" "trim t = t" "1 \<le> n" and e: "trim (take n t) = []"
  have "\<not> js_space (hd t)" using trim_hd [of t] t by simp
  moreover have "hd t \<in> set (take n t)" using t by (cases t; cases n) auto
  ultimately show False using e by (auto simp: trim_Nil_iff)
qed

lemma budget_loop_step:
  assumes "budget_loop cnt m t = Inr ps" and "t \<noteq> []" and "trim t = t"
  obtains (fits) n where "cnt t = Inr n" "n \<le> m" "ps = [t]"
    | (cut) best rest where "1 \<le> best" "search_prefix cnt m t 1 (length t) 1 = Inr best"
      "budget_loop cnt m (trim (drop (snd (cut_piece best t)) t)) = Inr rest"
      "ps = fst (cut_piece best t) # rest"
proof -
  obtain n where n: "cnt t = Inr n" using assms by (subst (asm) budget_loop.simps) (auto split: sum.splits)
  show ?thesis
  proof (cases "n \<le> m")
    case True
    then show ?thesis using fits n assms by (subst (asm) budget_loop.simps) auto
  next
    case False
    then obtain best where b: "search_prefix cnt m t 1 (length t) 1 = Inr best"
      using n assms by (subst (asm) budget_loop.simps) (auto split: sum.splits)
    obtain rest where r: "budget_loop cnt m (trim (drop (snd (cut_piece best t)) t)) = Inr rest"
        "ps = fst (cut_piece best t) # rest"
      using n b False assms by (subst (asm) budget_loop.simps) (auto split: sum.splits)
    show ?thesis using cut [OF search_prefix_pos [OF b] b r] by simp
  qed
qed

lemma budget_loop_Nil: "budget_loop cnt m [] = Inr []"
  by (simp add: budget_loop.simps)

lemma budget_rest_shorter:
  "1 \<le> best \<Longrightarrow> t \<noteq> [] \<Longrightarrow> length (trim (drop (snd (cut_piece best t)) t)) < length t"
proof -
  assume b: "1 \<le> best" "t \<noteq> []"
  have "1 \<le> snd (cut_piece best t)" by (rule cut_piece_pos [OF b(1)])
  moreover have "0 < length t" using b(2) by simp
  ultimately have "length (drop (snd (cut_piece best t)) t) < length t" by simp
  then show ?thesis using length_trim [of "drop (snd (cut_piece best t)) t"] by simp
qed

lemma budget_loop_lossless:
  assumes "budget_loop cnt m t = Inr ps" and "trim t = t"
  shows "concat (map ink ps) = ink t \<and> list_all piece_ok ps"
  using assms
proof (induction "length t" arbitrary: t ps rule: less_induct)
  case less
  show ?case
  proof (cases "t = []")
    case True
    then show ?thesis using less.prems by (simp add: budget_loop_Nil)
  next
    case False
    from less.prems(1) False less.prems(2) show ?thesis
    proof (cases rule: budget_loop_step)
      case (fits n)
      then show ?thesis using False less.prems by (simp add: piece_ok_def)
    next
      case (cut best rest)
      let ?k = "snd (cut_piece best t)"
      have ih: "concat (map ink rest) = ink (drop ?k t) \<and> list_all piece_ok rest"
        using less.hyps [OF budget_rest_shorter [OF cut(1) False] cut(3)] by simp
      have "piece_ok (trim (take ?k t))"
        by (rule piece_ok_trim [OF trim_take_ne [OF False less.prems(2) cut_piece_pos [OF cut(1)]]])
      moreover have "ink t = ink (take ?k t) @ ink (drop ?k t)" by (metis append_take_drop_id ink_append)
      ultimately show ?thesis using ih cut(4) by (simp add: cut_piece_take)
    qed
  qed
qed

lemma search_prefix_spec:
  assumes "search_prefix cnt m t low high best = Inr b"
  shows "b = best \<or> (low \<le> b \<and> b \<le> high \<and> (\<exists>n\<le>m. cnt (trim (take b t)) = Inr n))"
  using assms
proof (induction cnt m t low high best rule: search_prefix.induct)
  case (1 cnt m t low high best)
  show ?case
  proof (cases "high < low")
    case True
    then show ?thesis using 1(4) by (simp add: search_prefix.simps [of cnt m t low high])
  next
    case False
    define mid where "mid = (low + high) div 2"
    have mid: "low \<le> mid" "mid \<le> high" using False by (auto simp: mid_def)
    show ?thesis
    proof (cases "trim (take mid t) = []")
      case True
      then have "search_prefix cnt m t (mid + 1) high best = Inr b"
        using 1(4) False by (simp add: search_prefix.simps [of cnt m t low high] mid_def Let_def)
      then show ?thesis using 1(1) [OF False mid_def refl True] mid by auto
    next
      case ne: False
      then obtain n where n: "cnt (trim (take mid t)) = Inr n"
        using 1(4) False by (auto simp: search_prefix.simps [of cnt m t low high] mid_def Let_def split: sum.splits)
      show ?thesis
      proof (cases "n \<le> m")
        case True
        then have "search_prefix cnt m t (mid + 1) high mid = Inr b"
          using 1(4) False ne n by (simp add: search_prefix.simps [of cnt m t low high] mid_def Let_def)
        from 1(2) [OF False mid_def refl ne n True this] show ?thesis using mid n True by auto
      next
        case big: False
        then have "search_prefix cnt m t low (mid - 1) best = Inr b"
          using 1(4) False ne n by (simp add: search_prefix.simps [of cnt m t low high] mid_def Let_def)
        from 1(3) [OF False mid_def refl ne n big this] show ?thesis using mid by auto
      qed
    qed
  qed
qed

text \<open>Splitting by token budget loses nothing but white space and leaves no empty piece, for every
  tokenizer.\<close>

theorem splitTextByTokenBudget_lossless:
  assumes "splitTextByTokenBudget cnt t maxTokens = Inr pieces"
  shows "ink (concat pieces) = ink t \<and> list_all piece_ok pieces"
  using budget_loop_lossless [of cnt maxTokens "trim t" pieces] assms
  by (simp add: splitTextByTokenBudget_def ink_concat)

theorem splitTextByTokenBudget_lossless_witness:
  "ink (concat [js ''ab'', js ''cd'']) = ink (js ''ab cd'') \<and> list_all piece_ok [js ''ab'', js ''cd'']"
proof -
  have "splitTextByTokenBudget (\<lambda>s. Inr (length s)) (js ''ab cd'') 3 = Inr [js ''ab'', js ''cd'']" by code_simp
  then show ?thesis by (rule splitTextByTokenBudget_lossless)
qed

text \<open>Every piece is within the budget and the split succeeds, for a tokenizer that answers every request,
  counts a longer prefix of a text at least as high as a shorter one, and counts a single character
  within the budget.\<close>

theorem splitTextByTokenBudget_within:
  assumes mono: "\<And>s i j. i \<le> j \<Longrightarrow> c (trim (take i s)) \<le> c (trim (take j s))"
    and single: "\<And>x. c [x] \<le> maxTokens"
  shows "\<exists>pieces. splitTextByTokenBudget (\<lambda>s. Inr (c s)) t maxTokens = Inr pieces
    \<and> list_all (\<lambda>p. c p \<le> maxTokens) pieces"
proof -
  let ?cnt = "\<lambda>s. Inr (c s) :: nat result"
  have search: "\<exists>b. search_prefix ?cnt maxTokens s low high best = Inr b" for s low high best
  proof (induction "?cnt" maxTokens s low high best rule: search_prefix.induct)
    case (1 m s low high best)
    then show ?case by (subst search_prefix.simps) (auto simp: Let_def)
  qed
  have loop: "\<exists>pieces. budget_loop ?cnt maxTokens s = Inr pieces \<and> list_all (\<lambda>p. c p \<le> maxTokens) pieces"
    if "trim s = s" for s
    using that
  proof (induction "length s" arbitrary: s rule: less_induct)
    case less
    show ?case
    proof (cases "s = [] \<or> c s \<le> maxTokens")
      case True
      then show ?thesis by (subst budget_loop.simps) auto
    next
      case False
      then have ne: "s \<noteq> []" by simp
      obtain best where best: "search_prefix ?cnt maxTokens s 1 (length s) 1 = Inr best" using search by blast
      then have b1: "1 \<le> best" using search_prefix_pos by blast
      let ?k = "snd (cut_piece best s)"
      obtain rest where rest: "budget_loop ?cnt maxTokens (trim (drop ?k s)) = Inr rest"
          "list_all (\<lambda>p. c p \<le> maxTokens) rest"
        using less.hyps [OF budget_rest_shorter [OF b1 ne]] by auto
      have first: "c (trim (take 1 s)) \<le> maxTokens"
      proof -
        have "take 1 s = [hd s]" using ne by (cases s) auto
        moreover have "\<not> js_space (hd s)" using trim_hd [of s] less.prems ne by simp
        ultimately have "trim (take 1 s) = [hd s]" using trim_id [of "[hd s]"] by simp
        then show ?thesis using single by simp
      qed
      have "c (trim (take best s)) \<le> maxTokens" using search_prefix_spec [OF best] first by auto
      moreover have "?k \<le> best" using cut_piece_le [of best s] b1 by simp
      ultimately have "c (fst (cut_piece best s)) \<le> maxTokens"
        unfolding cut_piece_take using mono order_trans by blast
      then show ?thesis using False best rest by (subst budget_loop.simps) auto
    qed
  qed
  show ?thesis using loop [of "trim t"] by (simp add: splitTextByTokenBudget_def)
qed

theorem splitTextByTokenBudget_within_witness:
  "\<exists>pieces. splitTextByTokenBudget (\<lambda>s. Inr (length (ink s))) (js ''ab cd'') 3 = Inr pieces
    \<and> list_all (\<lambda>p. length (ink p) \<le> 3) pieces"
proof (rule splitTextByTokenBudget_within)
  fix s :: jsstr and i j :: nat
  assume "i \<le> j"
  then have "take j s = take i s @ take (j - i) (drop i s)" by (metis le_add_diff_inverse take_add)
  then show "length (ink (trim (take i s))) \<le> length (ink (trim (take j s)))" by simp
qed (simp add: ink_def)

section \<open>Any tokenizer\<close>

text \<open>
  Nothing is known of how a tokenizer counts the parts of a text. A piece is then still the beginning of a part of the
  text that the tokenizer has found to fit: the budget can be missed only because cutting at a word may
  raise the count.
\<close>

definition cut_to_fit :: "(jsstr \<Rightarrow> nat) \<Rightarrow> nat \<Rightarrow> jsstr \<Rightarrow> jsstr \<Rightarrow> bool" where
  "cut_to_fit c m t p \<longleftrightarrow> length p = 1 \<or> (\<exists>u r v. t = u @ (p @ r) @ v \<and> c (p @ r) \<le> m)"

lemma cut_to_fit_part:
  assumes "cut_to_fit c m s p" and "t = a @ s @ b"
  shows "cut_to_fit c m t p"
proof (cases "length p = 1")
  case False
  then obtain u r v where "s = u @ (p @ r) @ v" "c (p @ r) \<le> m" using assms(1) unfolding cut_to_fit_def by blast
  then have "t = (a @ u) @ (p @ r) @ (v @ b) \<and> c (p @ r) \<le> m" using assms(2) by simp
  then show ?thesis unfolding cut_to_fit_def by blast
qed (simp add: cut_to_fit_def)

lemma rtrim_part: "\<exists>r. xs = rtrim xs @ r"
proof (induction xs rule: rev_induct)
  case (snoc x xs)
  then obtain r where "xs = rtrim xs @ r" by blast
  then have "xs @ [x] = rtrim xs @ (r @ [x])" by (metis append.assoc)
  then show ?case unfolding rtrim_snoc by (cases "js_space x") (metis, simp)
qed simp

lemma rtrim_prefix: "\<exists>r. rtrim (xs @ ys) = rtrim xs @ r"
proof (induction ys rule: rev_induct)
  case (snoc y ys)
  obtain r where "xs = rtrim xs @ r" using rtrim_part by blast
  then have whole: "xs @ ys @ [y] = rtrim xs @ (r @ ys @ [y])" by (metis append.assoc)
  have "rtrim (xs @ ys @ [y]) = (if js_space y then rtrim (xs @ ys) else xs @ ys @ [y])"
    using rtrim_snoc [of "xs @ ys" y] by simp
  then show ?case using snoc whole by (cases "js_space y") metis+
qed simp

lemma trim_take_prefix:
  assumes "trim s = s" and "k \<le> n"
  shows "\<exists>r. trim (take n s) = trim (take k s) @ r"
proof -
  have l: "ltrim (take j s) = take j s" for j
    using trim_hd [of s] assms(1) by (cases s; cases j) (auto intro!: ltrim_id)
  have "take n s = take k s @ take (n - k) (drop k s)" using assms(2) by (metis le_add_diff_inverse take_add)
  then have "\<exists>r. rtrim (take n s) = rtrim (take k s) @ r" using rtrim_prefix [of "take k s" "take (n - k) (drop k s)"] by simp
  then show ?thesis unfolding trim_def l .
qed

lemma search_answers: "\<exists>b. search_prefix (\<lambda>s. Inr (c s)) m s low high best = Inr b"
proof (induction "\<lambda>s. Inr (c s) :: nat result" m s low high best rule: search_prefix.induct)
  case (1 m s low high best)
  then show ?case by (subst search_prefix.simps) (auto simp: Let_def)
qed

lemma cut_fits:
  assumes "search_prefix (\<lambda>s. Inr (c s)) m s 1 (length s) 1 = Inr best" and "trim s = s" and "s \<noteq> []"
  shows "cut_to_fit c m s (fst (cut_piece best s))"
proof -
  have b1: "1 \<le> best" using search_prefix_pos [OF assms(1)] by simp
  let ?k = "snd (cut_piece best s)"
  have k: "1 \<le> ?k" "?k \<le> best" using cut_piece_pos [OF b1] cut_piece_le [of best s] b1 by simp_all
  show ?thesis
  proof (cases "best = 1")
    case True
    have "take 1 s = [hd s]" using assms(3) by (cases s) auto
    moreover have "\<not> js_space (hd s)" using trim_hd [of s] assms(2,3) by simp
    ultimately have "trim (take 1 s) = [hd s]" using trim_id [of "[hd s]"] by simp
    then show ?thesis using k True by (simp add: cut_piece_take cut_to_fit_def)
  next
    case False
    then have fit: "c (trim (take best s)) \<le> m" using search_prefix_spec [OF assms(1)] by auto
    obtain r where r: "trim (take best s) = trim (take ?k s) @ r" using trim_take_prefix [OF assms(2) k(2)] by blast
    obtain a b where "take best s = a @ trim (take best s) @ b" using trim_decomp by blast
    then have "s = a @ trim (take best s) @ (b @ drop best s)" by (metis append.assoc append_take_drop_id)
    then show ?thesis using fit r unfolding cut_piece_take cut_to_fit_def by metis
  qed
qed

text \<open>C31: Splitting by token budget works with every tokenizer: however it counts, as long as it answers, the split
  ends and returns pieces that hold the text's characters in order without its white space, none of
  them empty; and each piece is a single character or the beginning of a part of the text that the
  tokenizer counts within the budget.\<close>

theorem splitTextByTokenBudget_any:
  "\<exists>pieces. splitTextByTokenBudget (\<lambda>s. Inr (c s)) t m = Inr pieces \<and> ink (concat pieces) = ink t
    \<and> list_all piece_ok pieces \<and> list_all (cut_to_fit c m t) pieces"
proof -
  let ?cnt = "\<lambda>s. Inr (c s) :: nat result"
  have loop: "\<exists>pieces. budget_loop ?cnt m s = Inr pieces \<and> list_all (cut_to_fit c m s) pieces" if "trim s = s" for s
    using that
  proof (induction "length s" arbitrary: s rule: less_induct)
    case less
    show ?case
    proof (cases "s = [] \<or> c s \<le> m")
      case True
      have "c s \<le> m \<Longrightarrow> cut_to_fit c m s s" unfolding cut_to_fit_def by (metis append_Nil append_Nil2)
      then show ?thesis using True by (subst budget_loop.simps) auto
    next
      case False
      then have ne: "s \<noteq> []" by simp
      obtain best where best: "search_prefix ?cnt m s 1 (length s) 1 = Inr best" using search_answers by blast
      then have b1: "1 \<le> best" using search_prefix_pos by blast
      let ?k = "snd (cut_piece best s)"
      obtain rest where rest: "budget_loop ?cnt m (trim (drop ?k s)) = Inr rest" "list_all (cut_to_fit c m (trim (drop ?k s))) rest"
        using less.hyps [OF budget_rest_shorter [OF b1 ne]] by auto
      obtain a b where "drop ?k s = a @ trim (drop ?k s) @ b" using trim_decomp by blast
      then have "s = (take ?k s @ a) @ trim (drop ?k s) @ b" by (metis append.assoc append_take_drop_id)
      then have "list_all (cut_to_fit c m s) rest" using rest(2) cut_to_fit_part unfolding list_all_iff by blast
      then show ?thesis using cut_fits [OF best less.prems ne] False best rest(1) by (subst budget_loop.simps) auto
    qed
  qed
  obtain pieces where p: "splitTextByTokenBudget ?cnt t m = Inr pieces" "list_all (cut_to_fit c m (trim t)) pieces"
    using loop [of "trim t"] by (auto simp: splitTextByTokenBudget_def)
  obtain a b where "t = a @ trim t @ b" using trim_decomp by blast
  then have "list_all (cut_to_fit c m t) pieces" using p(2) cut_to_fit_part unfolding list_all_iff by blast
  moreover have "ink (concat pieces) = ink t \<and> list_all piece_ok pieces"
    using budget_loop_lossless [of ?cnt m "trim t" pieces] p(1) by (simp add: splitTextByTokenBudget_def ink_concat)
  ultimately show ?thesis using p(1) by blast
qed

section \<open>Chunks\<close>

text \<open>The slices of a text: its characters in order, every slice trimmed and not empty.\<close>

definition slices_of :: "jsstr \<Rightarrow> (nat \<times> jsstr) list \<Rightarrow> bool" where
  "slices_of t ss \<longleftrightarrow> concat (map (ink \<circ> snd) ss) = ink t \<and> list_all (piece_ok \<circ> snd) ss"

lemma foldR_slices:
  assumes "foldR (\<lambda>acc x. bindR (g x) (\<lambda>ss. Inr (acc @ ss))) acc xs = Inr r"
    and "\<And>x ss. g x = Inr ss \<Longrightarrow> slices_of x ss"
  shows "\<exists>ss. r = acc @ ss \<and> slices_of (concat xs) ss"
  using assms(1)
proof (induction xs arbitrary: acc)
  case Nil
  then show ?case by (simp add: slices_of_def)
next
  case (Cons x xs)
  from Cons.prems obtain s1 where s1: "g x = Inr s1"
    and rest: "foldR (\<lambda>acc x. bindR (g x) (\<lambda>ss. Inr (acc @ ss))) (acc @ s1) xs = Inr r"
    by (auto simp: bindR_Inr)
  from Cons.IH [OF rest] obtain s2 where "r = (acc @ s1) @ s2" "slices_of (concat xs) s2" by blast
  then show ?case using assms(2) [OF s1] by (intro exI [of _ "s1 @ s2"]) (simp add: slices_of_def)
qed

lemma slices_of_cong: "ink t = ink u \<Longrightarrow> slices_of t = slices_of u"
  by (simp add: slices_of_def fun_eq_iff)

lemma slices_of_one: "trim t \<noteq> [] \<Longrightarrow> slices_of t [(n, trim t)]"
  by (simp add: slices_of_def piece_ok_trim)

lemma slices_of_blank: "trim t = [] \<Longrightarrow> slices_of t []"
  by (simp add: slices_of_def ink_trim_Nil)

lemma piece_slices_of:
  assumes "piece_slices cnt ps = Inr ss"
  shows "slices_of (concat ps) ss"
proof -
  define g where "g p = (let q = trim p in if q = [] then Inr [] else bindR (cnt q) (\<lambda>n. Inr [(n, q)]))" for p
  have step: "(let q = trim p in if q = [] then Inr acc else bindR (cnt q) (\<lambda>n. Inr (acc @ [(n, q)]))) =
      bindR (g p) (\<lambda>ss. Inr (acc @ ss))" for acc p
    by (cases "cnt (trim p)") (simp_all add: g_def Let_def)
  have g: "slices_of p ss" if "g p = Inr ss" for p ss
    using that slices_of_blank [of p] slices_of_one [of p]
    by (cases "cnt (trim p)") (auto simp: g_def Let_def split: if_splits)
  show ?thesis
    using foldR_slices [of g "[]" ps ss, OF _ g] assms unfolding piece_slices_def step by auto
qed

lemma clause_slices_of:
  assumes "clause_slices cnt m c = Inr ss"
  shows "slices_of c ss"
proof (cases "trim c = []")
  case True
  then show ?thesis using assms by (simp add: clause_slices_def slices_of_blank)
next
  case False
  with assms obtain n where n: "cnt (trim c) = Inr n"
    by (auto simp: clause_slices_def Let_def bindR_Inr)
  show ?thesis
  proof (cases "n \<le> m")
    case True
    then show ?thesis using assms False n slices_of_one [of c n] by (auto simp: clause_slices_def Let_def)
  next
    case gt: False
    then obtain ps where ps: "splitTextByTokenBudget cnt (trim c) m = Inr ps" "piece_slices cnt ps = Inr ss"
      using assms False n by (auto simp: clause_slices_def Let_def bindR_Inr)
    have "ink (concat ps) = ink c"
      using budget_loop_lossless [of cnt m "trim (trim c)" ps] ps(1)
      by (simp add: splitTextByTokenBudget_def ink_concat)
    then show ?thesis using piece_slices_of [OF ps(2)] slices_of_cong by metis
  qed
qed

lemma sentence_slices_of:
  assumes "sentence_slices cnt m t = Inr ss"
  shows "slices_of t ss"
proof (cases "trim t = []")
  case True
  then show ?thesis using assms by (simp add: sentence_slices_def slices_of_blank)
next
  case False
  with assms obtain n where n: "cnt (trim t) = Inr n"
    by (auto simp: sentence_slices_def Let_def bindR_Inr)
  show ?thesis
  proof (cases "n \<le> m")
    case True
    then show ?thesis using assms False n slices_of_one [of t n] by (auto simp: sentence_slices_def Let_def)
  next
    case gt: False
    define cs where "cs = (let c0 = splitTextByPunctuation (trim t) CLAUSE_SPLIT_PUNCTUATION
      in if length c0 \<le> 1 then [trim t] else c0)"
    have "foldR (\<lambda>acc c. bindR (clause_slices cnt m c) (\<lambda>ss. Inr (acc @ ss))) [] cs = Inr ss"
      using assms False n gt by (simp add: sentence_slices_def Let_def cs_def)
    from foldR_slices [OF this clause_slices_of] have "slices_of (concat cs) ss" by simp
    moreover have "ink (concat cs) = ink t"
      using split_punct_ink [of CLAUSE_SPLIT_PUNCTUATION "[]" "[]" "trim t"]
      by (simp add: cs_def Let_def splitTextByPunctuation_def ink_concat)
    ultimately show ?thesis using slices_of_cong by metis
  qed
qed

lemma joinSentenceParts_ink: "ink (joinSentenceParts a b) = ink a @ ink b"
  by (simp add: joinSentenceParts_def) (simp add: ink_def js_space_def)

lemma trim_ends: "t \<noteq> [] \<Longrightarrow> \<not> js_space (hd t) \<Longrightarrow> \<not> js_space (last t) \<Longrightarrow> trim t = t"
  using trim_id by blast

lemma joinSentenceParts_ok: "piece_ok a \<Longrightarrow> piece_ok b \<Longrightarrow> piece_ok (joinSentenceParts a b)"
proof -
  assume a: "piece_ok a" and b: "piece_ok b"
  then have "\<not> js_space (hd a)" "\<not> js_space (last b)" "a \<noteq> []" "b \<noteq> []"
    using trim_hd [of a] trim_last [of b] by (auto simp: piece_ok_def)
  then show ?thesis
    by (auto simp: joinSentenceParts_def piece_ok_def intro: trim_ends)
qed

lemma ok_ne: "piece_ok p \<Longrightarrow> trim p \<noteq> [] \<and> p \<noteq> []"
  by (simp add: piece_ok_def)

lemma group_slices_lossless:
  assumes "foldR (group_slice cnt m) (chunks, current, n) ss = Inr (chunks', current', n')"
    and "list_all (piece_ok \<circ> snd) ss" and "list_all piece_ok chunks" and "current = [] \<or> piece_ok current"
  shows "concat (map ink chunks') @ ink current' = concat (map ink chunks) @ ink current @ concat (map (ink \<circ> snd) ss)
    \<and> list_all piece_ok chunks' \<and> (current' = [] \<or> piece_ok current')"
  using assms
proof (induction ss arbitrary: chunks current n)
  case Nil
  then show ?case by simp
next
  case (Cons item ss)
  obtain k s where item: "item = (k, s)" by (cases item)
  have s: "piece_ok s" using Cons.prems(2) item by simp
  from Cons.prems(1) obtain c1 u1 n1 where st: "group_slice cnt m (chunks, current, n) item = Inr (c1, u1, n1)"
    and rest: "foldR (group_slice cnt m) (c1, u1, n1) ss = Inr (chunks', current', n')"
    by (auto simp: bindR_Inr)
  have one: "concat (map ink c1) @ ink u1 = concat (map ink chunks) @ ink current @ ink s
      \<and> list_all piece_ok c1 \<and> piece_ok u1"
    using st s Cons.prems(3,4) joinSentenceParts_ok [of current s] piece_ok_trim [of current] ok_ne [of current]
    unfolding item
    by (auto simp: group_slice_def Let_def bindR_Inr joinSentenceParts_ink split: if_splits)
  show ?case using Cons.IH [OF rest] one Cons.prems(2) item by simp
qed


lemma js_space_32: "js_space 32"
  by (simp add: js_space_def)

lemma ink_pair_spaces: "ink (pair_spaces s) = ink s"
  by (induction s rule: pair_spaces.induct) (auto simp: ink_def js_space_32)

lemma ink_collapse_spaces: "ink (collapse_spaces s) = ink s"
proof (induction s rule: collapse_spaces.induct)
  case (1 s)
  then show ?case by (subst collapse_spaces.simps) (simp add: ink_pair_spaces)
qed

lemma ink_line_breaks: "js_space c \<Longrightarrow> ink (map (\<lambda>x. if x = c then 32 else x) s) = ink s"
  by (induction s) (auto simp: ink_def js_space_32)

text \<open>What preparation may change in the characters: the case of the first letter, and a mark at the end.\<close>

definition first_upper :: "jsstr \<Rightarrow> jsstr" where
  "first_upper t = (case t of [] \<Rightarrow> [] | c # cs \<Rightarrow> (if is_lower c then c - 32 else c) # cs)"

definition same_but_ends :: "jsstr \<Rightarrow> jsstr \<Rightarrow> bool" where
  "same_but_ends s t \<longleftrightarrow> (\<exists>b\<in>{t, first_upper t}. s = b \<or> s = b @ [46] \<or> s = b @ [12290])"

lemma lower_letter:
  assumes "is_lower c"
  shows "\<not> js_space c \<and> \<not> js_space (c - 32) \<and> is_upper (c - 32) \<and> \<not> is_upper c \<and> c - 32 + 32 = c"
proof -
  obtain d where "c = 32 + d" "65 \<le> d" "d \<le> 90"
    using assms nat_le_iff_add [of 32 c] by (auto simp: is_lower_def)
  then show ?thesis by (auto simp: is_upper_def js_space_def)
qed

lemma ink_upcase: "is_lower (hd s) \<Longrightarrow> s \<noteq> [] \<Longrightarrow> ink ((hd s - 32) # tl s) = first_upper (ink s)"
  using lower_letter [of "hd s"] by (cases s) (simp_all add: first_upper_def ink_def)


lemma prepareText_ink:
  assumes "prepareTextForSentenceChunking t = Inr p"
  shows "same_but_ends (ink p) (ink t)"
proof -
  define s3 where "s3 = collapse_spaces (map (\<lambda>c. if c = 10 then 32 else c) (map (\<lambda>c. if c = 13 then 32 else c) (trim t)))"
  have s3: "ink s3 = ink t"
    using ink_line_breaks [of 10] ink_line_breaks [of 13] by (simp add: s3_def ink_collapse_spaces js_space_def del: map_map)
  have ne: "trim t \<noteq> []" using assms by (auto simp: prepareTextForSentenceChunking_def)
  have marks: "ink [46] = [46]" "ink [12290] = [12290]" "ink (replicate 8 32) = []" by code_simp+
  have ne3: "s3 \<noteq> []" using s3 ne ink_trim [of t] trim_hd [of t]
    by (cases "trim t") (auto simp: ink_def)
  define s4 where "s4 = (if is_lower (hd s3) then (hd s3 - 32) # tl s3 else s3)"
  have s4: "ink s4 = ink t \<or> ink s4 = first_upper (ink t)" using ink_upcase [of s3] ne3 s3 by (simp add: s4_def)
  have "p \<in> {s3, s3 @ [12290], s4, s4 @ [46], replicate 8 32 @ s4, replicate 8 32 @ s4 @ [46]}"
    using assms ne unfolding prepareTextForSentenceChunking_def s3_def [symmetric] Let_def s4_def [symmetric]
    by (auto split: if_splits)
  then show ?thesis using s3 s4 marks
    by (auto simp: same_but_ends_def simp del: replicate.simps)
qed

text \<open>C16: The chunks of a voice-clone request hold all the text and nothing else. One chunk is the trimmed text
  itself; several chunks, put together, are the text's characters in order, without its white space:
  every character as it is, but that a lower-case first letter may be made upper-case and one full
  stop (Latin or ideographic) may be added at the end; and none of them is empty. This holds for every
  tokenizer.\<close>

theorem splitVoiceCloneText_lossless:
  assumes "splitVoiceCloneText cnt t maxTokens = Inr chunks"
  shows "(chunks = [] \<and> trim t = []) \<or> chunks = [trim t]
    \<or> (same_but_ends (ink (concat chunks)) (ink t) \<and> list_all piece_ok chunks \<and> length chunks > 1)"
proof (cases "trim t = []")
  case True
  then show ?thesis using assms by (simp add: splitVoiceCloneText_def)
next
  case False
  define m where "m = safe_max_tokens maxTokens"
  obtain p where p: "prepareTextForSentenceChunking (trim t) = Inr p"
    using assms False by (auto simp: splitVoiceCloneText_def Let_def bindR_Inr)
  define cands where "cands = (let c0 = splitTextByPunctuation p SENTENCE_END_PUNCTUATION in if c0 = [] then [trim p] else c0)"
  from assms False p obtain ss c1 u1 n1 where
    ss: "foldR (\<lambda>acc s. bindR (sentence_slices cnt m s) (\<lambda>ss. Inr (acc @ ss))) [] cands = Inr ss"
    and grp: "foldR (group_slice cnt m) ([], [], 0) ss = Inr (c1, u1, n1)"
    and ch: "chunks = (let all = (if u1 \<noteq> [] then c1 @ [trim u1] else c1) in if length all > 1 then all else [trim t])"
    unfolding splitVoiceCloneText_def m_def [symmetric] cands_def
    by (auto simp: bindR_Inr Let_def)
  have sl: "slices_of (concat cands) ss" using foldR_slices [OF ss sentence_slices_of] by simp
  have "ink (concat cands) = ink p"
    using split_punct_ink [of SENTENCE_END_PUNCTUATION "[]" "[]" p]
    by (simp add: cands_def Let_def splitTextByPunctuation_def ink_concat)
  then have "concat (map ink c1) @ ink u1 = ink p \<and> list_all piece_ok c1 \<and> (u1 = [] \<or> piece_ok u1)"
    using group_slices_lossless [OF grp] sl by (simp add: slices_of_def)
  moreover have "same_but_ends (ink p) (ink t)" using prepareText_ink [OF p] by simp
  ultimately show ?thesis unfolding ch Let_def using piece_ok_trim [of u1] ok_ne [of u1]
    by (auto simp: ink_concat)
qed

theorem splitVoiceCloneText_lossless_witness:
  "same_but_ends (ink (concat [js ''A.'', js ''B.''])) (ink (js ''a. B'')) \<and> list_all piece_ok [js ''A.'', js ''B.'']"
proof -
  have "splitVoiceCloneText (\<lambda>s. Inr (length s)) (js ''a. B'') (Some 2) = Inr [js ''A.'', js ''B.'']" by code_simp
  from splitVoiceCloneText_lossless [OF this] show ?thesis by auto
qed

text \<open>The number of frames decoded in one streaming step is 1, 2, 4 or 8, and 1 until the first audio has
  been emitted.\<close>

theorem resolveStreamDecodeFrameBudget_bounds:
  "resolveStreamDecodeFrameBudget now emitted rate first \<in> {1, 2, 4, 8}
   \<and> resolveStreamDecodeFrameBudget now emitted rate None = 1"
  by (simp add: resolveStreamDecodeFrameBudget_def Let_def truthy_def)

end
