(* ===== verification/RuntimeState.thy ===== *)
theory RuntimeState
  imports ProcLogic TtsNormalizer RuntimePaths Profile Base64 CodecStream TextChunking
begin

text \<open>
  The state of \<open>BrowserOnnxTtsRuntime\<close> and the operations that prepare it: configuration, the reading of
  assets, the manifest, the reusable feeds, the ONNX sessions, the tokenizer and the preparation of text.

  A method is a procedure on the runtime: it returns or throws, and keeps what it wrote before. The
  platform is a parameter (\<open>platform\<close>): the network, the model store, the parser of the JSON files, ONNX
  Runtime, the tokenizer frame, the clock, the random source, and the answers of the caller's callbacks.
  A session is the function it computes. A typed array that a reusable feed holds is kept in the feed
  only: the array field of the class and the tensor share their memory, and only the feed is read.
  Profiling is off (\<open>profileState\<close> is null), so the recording calls inside the methods are without effect
  and are left out; the theory \<open>Profile\<close> has the recorders.
\<close>

section \<open>Files of the model\<close>

text \<open>A field of a preset may be missing (\<open>None\<close>), null (\<open>Some None\<close>) or a string.\<close>

record voice_preset =
  vp_voice :: "jsstr option option"
  vp_id :: "jsstr option option"
  vp_display_name :: "jsstr option option"
  prompt_audio_codes :: "int list list"

record manifest =
  m_tts_config :: tts_config
  m_templates :: prompt_templates
  m_defaults :: generation_defaults
  builtin_voices :: "voice_preset list"
  text_samples :: "int list list"
  file_tts_meta :: jsstr
  file_codec_meta :: jsstr
  file_tokenizer_model :: "jsstr option"

text \<open>The optional files of the model are \<open>None\<close> when the entry is missing or empty.\<close>

record tts_meta =
  tf_prefill :: jsstr
  tf_decode_step :: jsstr
  tf_local_decoder :: "jsstr option"
  tf_local_greedy_frame :: "jsstr option"
  tf_local_fixed_sampled_frame :: "jsstr option"
  tf_local_cached_step :: "jsstr option"
  tts_external_data :: "jsstr \<rightharpoonup> jsstr list"
  local_heads :: nat
  local_head_dim :: nat
  audio_codebook_sizes :: "nat list"
  decode_input_names :: "jsstr list"
  decode_output_names :: "jsstr list"
  local_cached_input_names :: "jsstr list option"
  local_cached_output_names :: "jsstr list option"

record codec_file =
  cf_meta :: codec_meta
  cf_downsample_rate :: nat
  cf_encode :: jsstr
  cf_decode_full :: jsstr
  cf_decode_step :: "jsstr option"
  cf_external_data :: "jsstr \<rightharpoonup> jsstr list"
  cf_streaming :: bool

section \<open>Prepared text\<close>

record text_options =
  enableNormalizeTtsText :: bool
  enableWeTextProcessing :: bool

record prepared_text =
  pt_rawText :: jsstr
  pt_text :: jsstr
  pt_changed :: bool
  pt_options :: text_options
  pt_wetextRequested :: bool
  pt_wetextAvailable :: bool
  pt_wetextApplied :: bool
  pt_normalizeApplied :: bool
  pt_stages :: "jsstr list"
  pt_method :: jsstr
  pt_warnings :: "jsstr list"

section \<open>The platform\<close>

record ort_session =
  ort_run :: "feeds \<Rightarrow> feeds result"
  ort_inputNames :: "jsstr list"

record asset_reader =
  ar_readText :: "(jsstr \<Rightarrow> jsstr \<Rightarrow> jsstr result) option"
  ar_readBuffer :: "(jsstr \<Rightarrow> jsstr \<Rightarrow> nat list result) option"

text \<open>The parsers stand for \<open>JSON.parse\<close>. The asset reader's \<open>readJson\<close> is not used by the program and is left
  out. \<open>pf_now\<close>, \<open>pf_random\<close>, \<open>pf_cancelled\<close> and \<open>pf_on_chunk\<close> answer the n-th call of \<open>performance.now()\<close>,
  \<open>Math.random()\<close>, \<open>isCancelled()\<close> and \<open>onAudioChunk\<close>; the callbacks may throw. \<open>pf_error_text\<close> is
  \<open>error.message\<close>, or the error as a string.\<close>

record platform =
  pf_reader :: "asset_reader option"
  pf_has_store :: bool
  pf_store_env :: store_env
  pf_net :: net
  pf_parse_manifest :: "jsstr \<Rightarrow> manifest result"
  pf_parse_tts :: "jsstr \<Rightarrow> tts_meta result"
  pf_parse_codec :: "jsstr \<Rightarrow> codec_file result"
  pf_ort_banner :: "nat \<Rightarrow> jsstr list"
  pf_create_session :: "nat list \<Rightarrow> (jsstr \<times> nat list) list \<Rightarrow> ort_session result"
  pf_load_tokenizer :: "jsstr \<Rightarrow> jsstr \<Rightarrow> unit result"
  pf_encode :: "jsstr \<Rightarrow> jsstr \<Rightarrow> int list result"
  pf_hardware :: nat
  pf_isolated :: bool
  pf_ucd :: ucd
  pf_exp :: "num \<Rightarrow> num"
  pf_now :: "nat \<Rightarrow> num"
  pf_random :: "nat \<Rightarrow> num"
  pf_cancelled :: "nat \<Rightarrow> bool"
  pf_on_chunk :: "nat \<Rightarrow> unit result"
  pf_on_prepared :: "prepared_text \<Rightarrow> unit result"
  pf_error_text :: "js_error \<Rightarrow> jsstr"

section \<open>The runtime\<close>

record caches =
  emptyLocalCachedPast :: "feeds option"
  localCachedPastInputNames :: "jsstr list"
  localCachedPresentOutputNames :: "jsstr list"
  decodePastInputNames :: "jsstr list"
  decodePresentOutputNames :: "jsstr list"
  reusableLocalGreedyFeeds :: "feeds option"
  reusableLocalFixedSampledFeeds :: "feeds option"
  reusableLocalDecoderFeeds :: "feeds option"
  reusableLocalCachedFeeds :: "feeds option"
  reusableDecodeFeeds :: "feeds option"
  reusableCodecDecodeFullLength :: "tensor option"

text \<open>A chunk of audio as the callback gets it.\<close>

record rt_chunk =
  rc_channels :: nat
  rc_sampleRate :: nat
  rc_data :: "num list list"
  rc_pause :: bool

text \<open>The variables of a streaming synthesis that its callbacks share.\<close>

record stream_state =
  pendingDecodeFrames :: "int list list"
  emittedSamplesTotal :: nat
  firstAudioEmittedAtSeconds :: "num option"
  stream_chunks :: "rt_chunk list"

text \<open>The last fields are the variables of the synthesis under way and the platform's side: the model store, how often each source has been read, the
  chunks the callback was given, and the session runs so far with the feeds they were given.\<close>

record runtime =
  localPathRoot :: jsstr
  threadCount :: nat
  rt_manifest :: "manifest option"
  manifestRelativePath :: jsstr
  manifestRelativeDir :: jsstr
  ttsMeta :: "tts_meta option"
  ttsMetaRelativePath :: jsstr
  codecMeta :: "codec_file option"
  codecMetaRelativePath :: jsstr
  sessions :: "jsstr \<rightharpoonup> ort_session"
  codecStreamingSession :: "codec_session option"
  prepared :: bool
  warmedUp :: bool
  lastPreparedKey :: jsstr
  tokenizer :: "jsstr option"
  tokenizerModelKey :: jsstr
  hasWarnedWetextUnavailable :: bool
  lastPreparedTextInfo :: "prepared_text option"
  cached :: caches
  profileState :: "profile_state option"
  ortThreads :: nat
  live :: stream_state
  rt_log :: "jsstr list"
  rt_store :: store
  clock_reads :: nat
  random_reads :: nat
  cancel_polls :: nat
  emitted :: "rt_chunk list"
  runs :: "(jsstr \<times> feeds) list"

type_synonym 'a rt = "(runtime, 'a) proc"

definition rt_say :: "jsstr \<Rightarrow> unit rt" where
  "rt_say m = modifyP (\<lambda>r. r\<lparr>rt_log := rt_log r @ [m]\<rparr>)"

definition no_caches :: caches where
  "no_caches =
     \<lparr>emptyLocalCachedPast = None, localCachedPastInputNames = [], localCachedPresentOutputNames = [],
      decodePastInputNames = [], decodePresentOutputNames = [], reusableLocalGreedyFeeds = None,
      reusableLocalFixedSampledFeeds = None, reusableLocalDecoderFeeds = None, reusableLocalCachedFeeds = None,
      reusableDecodeFeeds = None, reusableCodecDecodeFullLength = None\<rparr>"

definition resetRuntimeCaches :: "runtime \<Rightarrow> runtime" where
  "resetRuntimeCaches r = r\<lparr>cached := no_caches\<rparr>"

definition new_stream :: stream_state where
  "new_stream = \<lparr>pendingDecodeFrames = [], emittedSamplesTotal = 0, firstAudioEmittedAtSeconds = None, stream_chunks = []\<rparr>"

definition new_runtime :: "store \<Rightarrow> runtime" where
  "new_runtime st =
     resetRuntimeCaches
       \<lparr>localPathRoot = [], threadCount = 1, rt_manifest = None, manifestRelativePath = [], manifestRelativeDir = [],
        ttsMeta = None, ttsMetaRelativePath = [], codecMeta = None, codecMetaRelativePath = [], sessions = Map.empty,
        codecStreamingSession = None, prepared = False, warmedUp = False, lastPreparedKey = [], tokenizer = None,
        tokenizerModelKey = [], hasWarnedWetextUnavailable = False, lastPreparedTextInfo = None, cached = no_caches,
        profileState = None, ortThreads = 0, live = new_stream, rt_log = [], rt_store = st, clock_reads = 0, random_reads = 0,
        cancel_polls = 0, emitted = [], runs = []\<rparr>"

definition getProfileSnapshot :: "runtime \<Rightarrow> profile_snapshot" where
  "getProfileSnapshot r = cloneProfileSnapshot (profileState r)"

definition setProfilingEnabled :: "bool \<Rightarrow> profile_snapshot rt" where
  "setProfilingEnabled on =
     bindP (modifyP (\<lambda>r. r\<lparr>profileState := if on then Some createProfileState else None\<rparr>)) (\<lambda>_. getsP getProfileSnapshot)"

definition resetProfile :: "profile_snapshot rt" where
  "resetProfile =
     bindP (modifyP (\<lambda>r. if profiling (profileState r) then r\<lparr>profileState := Some createProfileState\<rparr> else r))
       (\<lambda>_. getsP getProfileSnapshot)"

section \<open>Configuration and text preparation\<close>

definition next_thread_count :: "int \<Rightarrow> nat" where
  "next_thread_count k = nat (max 1 (if k = 0 then 1 else k))"

definition preparation_key :: "jsstr \<Rightarrow> nat \<Rightarrow> jsstr" where
  "preparation_key path n = path @ js ''::'' @ nat_str n"

definition configure :: "jsstr \<Rightarrow> int \<Rightarrow> unit rt" where
  "configure modelPath threads =
     bindP (liftP (normalizeLocalDirectoryPath modelPath)) (\<lambda>normalizedPath.
       (let n = next_thread_count threads; key = preparation_key normalizedPath n
        in modifyP (\<lambda>r.
             if lastPreparedKey r = key \<and> prepared r then r
             else resetRuntimeCaches
               (r\<lparr>localPathRoot := normalizedPath, threadCount := n, rt_manifest := None, manifestRelativePath := [],
                  manifestRelativeDir := [], ttsMeta := None, ttsMetaRelativePath := [], codecMeta := None,
                  codecMetaRelativePath := [], sessions := Map.empty, tokenizer := None, tokenizerModelKey := [],
                  codecStreamingSession := None, prepared := False, warmedUp := False, lastPreparedKey := key,
                  hasWarnedWetextUnavailable := False, lastPreparedTextInfo := None\<rparr>))))"

definition normalizeBrowserTextNormalizationOptions :: "bool option \<Rightarrow> bool option \<Rightarrow> text_options" where
  "normalizeBrowserTextNormalizationOptions optNorm optWetext =
     \<lparr>enableNormalizeTtsText = (optNorm \<noteq> Some False), enableWeTextProcessing = (optWetext \<noteq> Some False)\<rparr>"

definition createPreparedTextInfo :: "jsstr \<Rightarrow> jsstr \<Rightarrow> text_options \<Rightarrow> jsstr list \<Rightarrow> jsstr list \<Rightarrow> prepared_text" where
  "createPreparedTextInfo raw t opts stages warnings =
     \<lparr>pt_rawText = raw, pt_text = t, pt_changed = (t \<noteq> raw), pt_options = opts,
      pt_wetextRequested = enableWeTextProcessing opts, pt_wetextAvailable = False, pt_wetextApplied = False,
      pt_normalizeApplied = (js ''robust'' \<in> set stages), pt_stages = stages,
      pt_method = (if stages \<noteq> [] then join_with [43] stages else js ''none''), pt_warnings = warnings\<rparr>"

definition prepareSynthesisText :: "platform \<Rightarrow> jsstr \<Rightarrow> bool option \<Rightarrow> bool option \<Rightarrow> prepared_text rt" where
  "prepareSynthesisText P rawText optNorm optWetext =
     (let opts = normalizeBrowserTextNormalizationOptions optNorm optWetext;
          warnings = (if enableWeTextProcessing opts
            then [js ''WeTextProcessing requested but not available in browser_onnx.''] else []);
          stages = (if enableWeTextProcessing opts then [js ''wetext_unavailable''] else [])
      in bindP (getsP (\<lambda>r. enableWeTextProcessing opts \<and> \<not> hasWarnedWetextUnavailable r)) (\<lambda>warn.
           bindP (if warn
             then bindP (rt_say (js ''WeTextProcessing is not available in browser_onnx yet; using robust normalization only.''))
               (\<lambda>_. modifyP (\<lambda>r. r\<lparr>hasWarnedWetextUnavailable := True\<rparr>))
             else retP ()) (\<lambda>_.
             if \<not> enableNormalizeTtsText opts
             then
               (let info = createPreparedTextInfo rawText rawText opts stages warnings
                in bindP (modifyP (\<lambda>r. r\<lparr>lastPreparedTextInfo := Some info\<rparr>)) (\<lambda>_. retP info))
             else
               (let normalizedText = normalizeTtsText (pf_ucd P) rawText;
                    info = createPreparedTextInfo rawText normalizedText opts (stages @ [js ''robust'']) warnings
                in bindP (if normalizedText \<noteq> rawText
                     then rt_say (js ''Robust text normalization applied chars_before='' @ nat_str (length rawText)
                       @ js '' chars_after='' @ nat_str (length normalizedText))
                     else retP ())
                   (\<lambda>_. bindP (modifyP (\<lambda>r. r\<lparr>lastPreparedTextInfo := Some info\<rparr>)) (\<lambda>_. retP info))))))"

section \<open>Reading assets\<close>

definition on_store :: "'a store_proc \<Rightarrow> 'a rt" where
  "on_store p r = (case p (rt_store r) of (x, st) \<Rightarrow> (x, r\<lparr>rt_store := st\<rparr>))"

definition readTextAsset :: "platform \<Rightarrow> jsstr \<Rightarrow> jsstr rt" where
  "readTextAsset P relPath =
     bindP (getsP localPathRoot) (\<lambda>root.
       case Option.bind (pf_reader P) ar_readText of
         Some readText \<Rightarrow> liftP (readText root (normalizeRelativePath_rt relPath))
       | None \<Rightarrow>
           if isManagedModelPath_rt (pf_has_store P) root
           then on_store (readTextFromManagedPath (pf_store_env P) (utf8_decode (pf_net P)) root (normalizeRelativePath_rt relPath))
           else liftP (readTextFromLocalPath (pf_net P) root relPath))"

definition readJsonAsset :: "platform \<Rightarrow> (jsstr \<Rightarrow> 'a result) \<Rightarrow> jsstr \<Rightarrow> 'a rt" where
  "readJsonAsset P parse relPath = bindP (readTextAsset P relPath) (\<lambda>t. liftP (parse t))"

definition readBufferAsset :: "platform \<Rightarrow> jsstr \<Rightarrow> nat list rt" where
  "readBufferAsset P relPath =
     bindP (getsP localPathRoot) (\<lambda>root.
       case Option.bind (pf_reader P) ar_readBuffer of
         Some readBuffer \<Rightarrow> liftP (readBuffer root (normalizeRelativePath_rt relPath))
       | None \<Rightarrow>
           if isManagedModelPath_rt (pf_has_store P) root
           then on_store (readBufferFromManagedPath (pf_store_env P) root (normalizeRelativePath_rt relPath))
           else liftP (readBufferFromLocalPath (pf_net P) root relPath))"

definition resolveManifestRelativeAssetPath :: "jsstr \<Rightarrow> jsstr rt" where
  "resolveManifestRelativeAssetPath relPath = getsP (\<lambda>r. joinRelativeAssetPath (manifestRelativeDir r) relPath)"

fun readFirstAvailableJsonAsset ::
  "platform \<Rightarrow> (jsstr \<Rightarrow> 'a result) \<Rightarrow> js_error option \<Rightarrow> jsstr list \<Rightarrow> ('a \<times> jsstr) rt" where
  "readFirstAvailableJsonAsset P parse lastError [] =
     throwP (case lastError of Some e \<Rightarrow> e | None \<Rightarrow> Error (js ''No manifest candidate paths were provided.''))"
| "readFirstAvailableJsonAsset P parse lastError (p # ps) =
     catchP (bindP (readJsonAsset P parse p) (\<lambda>d. retP (d, normalizeRelativePath_rt p)))
       (\<lambda>e. readFirstAvailableJsonAsset P parse (Some e) ps)"


section \<open>Reusable feeds\<close>

definition int_tensor :: "int list \<Rightarrow> nat list \<Rightarrow> tensor" where
  "int_tensor xs dims = \<lparr>tdata = IntData (map to_int32 xs), tdims = dims\<rparr>"

definition float_tensor :: "num list \<Rightarrow> nat list \<Rightarrow> tensor" where
  "float_tensor xs dims = \<lparr>tdata = FloatData (map fround xs), tdims = dims\<rparr>"

text \<open>\<open>replace\<close> with a string pattern: the first occurrence.\<close>

fun replace_first :: "jsstr \<Rightarrow> jsstr \<Rightarrow> jsstr \<Rightarrow> jsstr" where
  "replace_first pat rep [] = (if pat = [] then rep else [])"
| "replace_first pat rep (c # s) =
     (if starts_with (c # s) pat then rep @ drop (length pat) (c # s) else c # replace_first pat rep s)"

definition codebook_size :: "tts_meta \<Rightarrow> nat" where
  "codebook_size t = (case audio_codebook_sizes t of [] \<Rightarrow> 1024 | n # _ \<Rightarrow> if n = 0 then 1024 else n)"

definition mask_tensor :: "manifest \<Rightarrow> tts_meta \<Rightarrow> tensor" where
  "mask_tensor m t = int_zeros [1, n_vq (m_tts_config m), codebook_size t]"

definition reset_past :: "caches \<Rightarrow> caches" where
  "reset_past c =
     (case reusableLocalCachedFeeds c of
        None \<Rightarrow> c
      | Some f \<Rightarrow> c\<lparr>reusableLocalCachedFeeds := Some (foldl (\<lambda>f name.
          f(name := Option.bind (emptyLocalCachedPast c) (\<lambda>e. e name))) f (localCachedPastInputNames c))\<rparr>)"

definition resetLocalCachedState :: "unit rt" where
  "resetLocalCachedState = modifyP (\<lambda>r. r\<lparr>cached := reset_past (cached r)\<rparr>)"

definition past_names :: "tts_meta \<Rightarrow> jsstr list result" where
  "past_names t =
     (case local_cached_input_names t of
        Some names \<Rightarrow> Inr (drop 6 names)
      | None \<Rightarrow> (case local_cached_output_names t of
          None \<Rightarrow> Inl TypeError
        | Some names \<Rightarrow> Inr (map (replace_first (js ''local_present_'') (js ''local_past_'')) (drop 2 names))))"

definition local_decoder_feeds :: "manifest \<Rightarrow> feeds" where
  "local_decoder_feeds m =
     (let n = n_vq (m_tts_config m) - 1
      in [js ''text_token_id'' \<mapsto> int_zeros [1],
          js ''audio_prefix_token_ids'' \<mapsto> int_tensor (replicate n (audio_pad_token_id (m_tts_config m))) [1, n]])"

definition local_cached_feeds :: feeds where
  "local_cached_feeds =
     [js ''text_token_id'' \<mapsto> int_zeros [1], js ''audio_token_id'' \<mapsto> int_zeros [1], js ''channel_index'' \<mapsto> int_zeros [1],
      js ''step_type'' \<mapsto> int_zeros [1], js ''past_valid_lengths'' \<mapsto> int_zeros [1]]"

definition decode_feeds :: "manifest \<Rightarrow> jsstr list \<Rightarrow> feeds" where
  "decode_feeds m pastNames =
     (let w = n_vq (m_tts_config m) + 1
      in foldl (\<lambda>f name. f(name := None))
           [js ''input_ids'' \<mapsto> int_tensor (replicate w (audio_pad_token_id (m_tts_config m))) [1, 1, w],
            js ''past_valid_lengths'' \<mapsto> int_zeros [1]] pastNames)"

definition greedy_feeds :: "manifest \<Rightarrow> tts_meta \<Rightarrow> feeds" where
  "greedy_feeds m t = [js ''repetition_seen_mask'' \<mapsto> mask_tensor m t, js ''repetition_penalty'' \<mapsto> float_zeros [1]]"

definition fixed_sampled_feeds :: "manifest \<Rightarrow> tts_meta \<Rightarrow> feeds" where
  "fixed_sampled_feeds m t =
     [js ''repetition_seen_mask'' \<mapsto> mask_tensor m t, js ''assistant_random_u'' \<mapsto> float_zeros [1],
      js ''audio_random_u'' \<mapsto> float_zeros [1, n_vq (m_tts_config m)]]"

definition feeds_ready :: "tts_meta \<Rightarrow> caches \<Rightarrow> bool" where
  "feeds_ready t c \<longleftrightarrow> reusableDecodeFeeds c \<noteq> None \<and> reusableLocalCachedFeeds c \<noteq> None
     \<and> (tf_local_greedy_frame t = None \<or> reusableLocalGreedyFeeds c \<noteq> None)
     \<and> (tf_local_fixed_sampled_frame t = None \<or> reusableLocalFixedSampledFeeds c \<noteq> None)"

text \<open>The writes of \<open>ensureReusableSynthesisState\<close> in order, with its throws: a list of names the model's
  description lacks, and an array of length -1.\<close>

definition build_caches :: "manifest \<Rightarrow> tts_meta \<Rightarrow> (caches, unit) proc" where
  "build_caches m t =
     bindP (modifyP (\<lambda>c. c\<lparr>decodePastInputNames := drop 2 (decode_input_names t),
       decodePresentOutputNames := drop 1 (decode_output_names t)\<rparr>)) (\<lambda>_.
     bindP (liftP (past_names t)) (\<lambda>names.
     bindP (modifyP (\<lambda>c. c\<lparr>localCachedPastInputNames := names\<rparr>)) (\<lambda>_.
     bindP (liftP (case local_cached_output_names t of None \<Rightarrow> Inl TypeError | Some ns \<Rightarrow> Inr (drop 2 ns))) (\<lambda>presents.
     bindP (modifyP (\<lambda>c. c\<lparr>localCachedPresentOutputNames := presents,
       emptyLocalCachedPast := Some (foldl (\<lambda>f name.
         f(name \<mapsto> float_tensor [] [1, 0, local_heads t, local_head_dim t])) Map.empty names)\<rparr>)) (\<lambda>_.
     if n_vq (m_tts_config m) = 0 then throwP RangeError
     else modifyP (\<lambda>c.
       (let c1 = reset_past (c\<lparr>reusableLocalDecoderFeeds := Some (local_decoder_feeds m),
                reusableLocalCachedFeeds := Some local_cached_feeds\<rparr>);
            c2 = c1\<lparr>reusableDecodeFeeds := Some (decode_feeds m (decodePastInputNames c1)),
                reusableCodecDecodeFullLength := Some (int_zeros [1])\<rparr>;
            c3 = (if tf_local_greedy_frame t \<noteq> None then c2\<lparr>reusableLocalGreedyFeeds := Some (greedy_feeds m t)\<rparr> else c2)
        in if tf_local_fixed_sampled_frame t \<noteq> None
           then c3\<lparr>reusableLocalFixedSampledFeeds := Some (fixed_sampled_feeds m t)\<rparr> else c3)))))))"

definition on_caches :: "(caches, 'a) proc \<Rightarrow> 'a rt" where
  "on_caches p r = (case p (cached r) of (x, c) \<Rightarrow> (x, r\<lparr>cached := c\<rparr>))"

definition ensureReusableSynthesisState :: "unit rt" where
  "ensureReusableSynthesisState r =
     (case (rt_manifest r, ttsMeta r, codecMeta r) of
        (Some m, Some t, Some c) \<Rightarrow> if feeds_ready t (cached r) then (Inr (), r) else on_caches (build_caches m t) r
      | _ \<Rightarrow> (Inr (), r))"

text \<open>\<open>updateDecodePastFeeds\<close>: the key and value tensors of a run become the past of the next one.\<close>

definition carry_past :: "jsstr list \<Rightarrow> jsstr list \<Rightarrow> feeds \<Rightarrow> feeds \<Rightarrow> feeds" where
  "carry_past ins presents outputs f =
     foldl (\<lambda>f i. f(ins ! i := (if i < length presents then outputs (presents ! i) else None))) f [0..<length ins]"

definition updateDecodePastFeeds :: "feeds \<Rightarrow> unit rt" where
  "updateDecodePastFeeds outputs r =
     (let c = cached r in
      case reusableDecodeFeeds c of
        None \<Rightarrow> (if decodePastInputNames c = [] then (Inr (), r) else (Inl TypeError, r))
      | Some f \<Rightarrow> (Inr (), r\<lparr>cached := c\<lparr>reusableDecodeFeeds :=
          Some (carry_past (decodePastInputNames c) (decodePresentOutputNames c) outputs f)\<rparr>\<rparr>))"

section \<open>Loading\<close>

definition getEffectiveThreadCount :: "platform \<Rightarrow> runtime \<Rightarrow> nat" where
  "getEffectiveThreadCount P r =
     (let hardware = (if pf_hardware P = 0 then 4 else pf_hardware P)
      in if \<not> pf_isolated P then 1 else max 1 (min (threadCount r) hardware))"

definition ensureOrtConfigured :: "platform \<Rightarrow> unit rt" where
  "ensureOrtConfigured P = modifyP (\<lambda>r. r\<lparr>ortThreads := getEffectiveThreadCount P r\<rparr>)"

definition load_manifest :: "platform \<Rightarrow> unit rt" where
  "load_manifest P =
     bindP (rt_say (js ''Reading browser_poc_manifest.json'')) (\<lambda>_.
     bindP (readFirstAvailableJsonAsset P (pf_parse_manifest P) None MANIFEST_CANDIDATE_RELATIVE_PATHS) (\<lambda>(m, path).
     bindP (modifyP (\<lambda>r. r\<lparr>rt_manifest := Some m, manifestRelativePath := path, manifestRelativeDir := parent_dir path\<rparr>)) (\<lambda>_.
     bindP (modifyP (\<lambda>r. r\<lparr>ttsMetaRelativePath := joinRelativeAssetPath (manifestRelativeDir r) (file_tts_meta m),
         codecMetaRelativePath := joinRelativeAssetPath (manifestRelativeDir r) (file_codec_meta m)\<rparr>)) (\<lambda>_.
     bindP (bindP (getsP ttsMetaRelativePath) (readJsonAsset P (pf_parse_tts P))) (\<lambda>t.
     bindP (modifyP (\<lambda>r. r\<lparr>ttsMeta := Some t\<rparr>)) (\<lambda>_.
     bindP (bindP (getsP codecMetaRelativePath) (readJsonAsset P (pf_parse_codec P))) (\<lambda>c.
     bindP (modifyP (\<lambda>r. r\<lparr>codecMeta := Some c\<rparr>)) (\<lambda>_.
     bindP ensureReusableSynthesisState (\<lambda>_.
     bindP (if path \<noteq> js ''browser_poc_manifest.json'' then rt_say (js ''Manifest resolved: '' @ path) else retP ()) (\<lambda>_.
       rt_say (js ''Manifest ready: builtinVoices='' @ nat_str (length (builtin_voices m)) @ js '' textSamples=''
         @ nat_str (length (text_samples m)))))))))))))"

definition ensureManifestLoaded :: "platform \<Rightarrow> unit rt" where
  "ensureManifestLoaded P r =
     (if rt_manifest r \<noteq> None \<and> ttsMeta r \<noteq> None \<and> codecMeta r \<noteq> None then (Inr (), r)
      else if localPathRoot r = [] then (Inl (Error (js ''Browser ONNX model path is not configured.'')), r)
      else load_manifest P r)"

fun load_external :: "platform \<Rightarrow> (jsstr \<times> nat list) list \<Rightarrow> jsstr list \<Rightarrow> (jsstr \<times> nat list) list rt" where
  "load_external P acc [] = retP acc"
| "load_external P acc (p # ps) =
     bindP (catchP
         (bindP (readBufferAsset P p) (\<lambda>b.
            bindP (rt_say (js ''Loaded external data bytes: '' @ p @ js '' ('' @ formatByteCount (length b) @ [41]))
              (\<lambda>_. retP (acc @ [(last_segment p, b)]))))
         (\<lambda>e. bindP (rt_say (js ''External data sidecar not used: '' @ p)) (\<lambda>_. retP acc)))
       (\<lambda>acc'. load_external P acc' ps)"

definition external_candidates :: "jsstr \<Rightarrow> jsstr list \<Rightarrow> jsstr list" where
  "external_candidates relPath ext =
     (if ext \<noteq> [] then set_order (filter (\<lambda>p. p \<noteq> []) (map normalizeRelativePath_rt ext))
      else (case getExternalDataSidecarInfo relPath of Some sc \<Rightarrow> [sc_relativePath sc] | None \<Rightarrow> []))"

definition createOrtSession :: "platform \<Rightarrow> jsstr \<Rightarrow> jsstr list \<Rightarrow> ort_session rt" where
  "createOrtSession P relPath ext =
     bindP (readBufferAsset P relPath) (\<lambda>modelData.
     bindP (rt_say (js ''Loaded model bytes: '' @ relPath @ js '' ('' @ formatByteCount (length modelData) @ [41])) (\<lambda>_.
     bindP (load_external P [] (external_candidates relPath ext)) (\<lambda>loaded.
       liftP (pf_create_session P modelData loaded))))"

definition ensureTokenizerLoaded :: "platform \<Rightarrow> unit rt" where
  "ensureTokenizerLoaded P =
     bindP (ensureManifestLoaded P) (\<lambda>_.
     bindP (getsP tokenizer) (\<lambda>tk.
       if tk \<noteq> None then retP ()
       else
         bindP (needP rt_manifest) (\<lambda>m.
         bindP (resolveManifestRelativeAssetPath
           (case file_tokenizer_model m of Some f \<Rightarrow> f | None \<Rightarrow> js ''tokenizer.model'')) (\<lambda>path.
         bindP (readBufferAsset P path) (\<lambda>bytes.
         bindP (liftP (bytesToBase64 bytes)) (\<lambda>b64.
         bindP (getsP (\<lambda>r. localPathRoot r @ js ''::'' @ path)) (\<lambda>modelKey.
         bindP (liftP (pf_load_tokenizer P modelKey b64)) (\<lambda>_.
         bindP (modifyP (\<lambda>r. r\<lparr>tokenizer := Some modelKey, tokenizerModelKey := modelKey\<rparr>)) (\<lambda>_.
           rt_say (js ''Tokenizer loaded via sandbox: '' @ path))))))))))"

definition ensure_session :: "platform \<Rightarrow> jsstr \<times> jsstr \<times> jsstr list \<Rightarrow> unit rt" where
  "ensure_session P spec =
     (case spec of (key, relPath, ext) \<Rightarrow>
        bindP (getsP (\<lambda>r. sessions r key)) (\<lambda>s.
          if s \<noteq> None then retP ()
          else
            bindP (rt_say (js ''Creating ORT session: '' @ relPath)) (\<lambda>_.
            bindP (createOrtSession P relPath ext) (\<lambda>s.
            bindP (modifyP (\<lambda>r. r\<lparr>sessions := (sessions r)(key \<mapsto> s)\<rparr>)) (\<lambda>_.
              rt_say (js ''ORT session ready: '' @ relPath))))))"

definition session_spec ::
  "jsstr \<Rightarrow> (jsstr \<rightharpoonup> jsstr list) \<Rightarrow> string \<Rightarrow> jsstr \<Rightarrow> jsstr \<times> jsstr \<times> jsstr list" where
  "session_spec baseDir ext key file =
     (js key, joinRelativeAssetPath baseDir file, resolveModelExternalDataRelativePaths baseDir ext file)"

definition ensureCodecEncodeLoaded :: "platform \<Rightarrow> unit rt" where
  "ensureCodecEncodeLoaded P =
     bindP (ensureManifestLoaded P) (\<lambda>_.
     bindP (ensureOrtConfigured P) (\<lambda>_.
     bindP (needP codecMeta) (\<lambda>c.
     bindP (getsP (\<lambda>r. parent_dir (codecMetaRelativePath r))) (\<lambda>codecBaseDir.
       ensure_session P (session_spec codecBaseDir (cf_external_data c) ''codecEncode'' (cf_encode c))))))"

definition sessionSpecs :: "tts_meta \<Rightarrow> codec_file \<Rightarrow> jsstr \<Rightarrow> jsstr \<Rightarrow> (jsstr \<times> jsstr \<times> jsstr list) list" where
  "sessionSpecs t c ttsBaseDir codecBaseDir =
     (let tts = session_spec ttsBaseDir (tts_external_data t); codec = session_spec codecBaseDir (cf_external_data c)
      in [tts ''prefill'' (tf_prefill t), tts ''decode'' (tf_decode_step t),
          codec ''codecDecode'' (cf_decode_full c), codec ''codecEncode'' (cf_encode c)]
         @ (case tf_local_greedy_frame t of Some f \<Rightarrow> [tts ''localGreedyFrame'' f] | None \<Rightarrow> [])
         @ (case tf_local_fixed_sampled_frame t of Some f \<Rightarrow> [tts ''localFixedSampledFrame'' f] | None \<Rightarrow> [])
         @ (case tf_local_cached_step t of Some f \<Rightarrow> [tts ''localCachedStep'' f]
            | None \<Rightarrow> [tts ''localDecoder'' (case tf_local_decoder t of Some f \<Rightarrow> f | None \<Rightarrow> [])])
         @ (case cf_decode_step c of Some f \<Rightarrow> [codec ''codecDecodeStep'' f] | None \<Rightarrow> []))"

definition load_sessions :: "platform \<Rightarrow> unit rt" where
  "load_sessions P =
     bindP (modifyP (\<lambda>r. r\<lparr>rt_log := rt_log r @ pf_ort_banner P (ortThreads r)\<rparr>)) (\<lambda>_.
     bindP (needP ttsMeta) (\<lambda>t. bindP (needP codecMeta) (\<lambda>c.
     bindP (getsP (\<lambda>r. sessionSpecs t c (parent_dir (ttsMetaRelativePath r)) (parent_dir (codecMetaRelativePath r)))) (\<lambda>specs.
     bindP (forP specs (ensure_session P)) (\<lambda>_.
       modifyP (\<lambda>r. r\<lparr>codecStreamingSession :=
           (if sessions r (js ''codecDecodeStep'') \<noteq> None \<and> cf_streaming c then Some (new_codec_session (cf_meta c)) else None),
         prepared := True\<rparr>))))))"

definition ensureSynthesisLoaded :: "platform \<Rightarrow> unit rt" where
  "ensureSynthesisLoaded P =
     bindP (ensureManifestLoaded P) (\<lambda>_.
     bindP (ensureOrtConfigured P) (\<lambda>_.
     bindP (getsP prepared) (\<lambda>ready. if ready then retP () else load_sessions P)))"

section \<open>Voices, feeds for the encoder, tokens\<close>

definition listBuiltinVoices :: "runtime \<Rightarrow> voice_preset list" where
  "listBuiltinVoices r = (case rt_manifest r of None \<Rightarrow> [] | Some m \<Rightarrow> builtin_voices m)"

definition listTextSamples :: "runtime \<Rightarrow> int list list" where
  "listTextSamples r = (case rt_manifest r of None \<Rightarrow> [] | Some m \<Rightarrow> text_samples m)"

text \<open>The name is a string or null; a missing name has become null.\<close>

definition findVoicePreset :: "runtime \<Rightarrow> jsstr option \<Rightarrow> voice_preset list \<Rightarrow> voice_preset option" where
  "findVoicePreset r voiceName extraVoices =
     find (\<lambda>v. vp_voice v = Some voiceName \<or> vp_id v = Some voiceName \<or> vp_display_name v = Some voiceName)
       (listBuiltinVoices r @ extraVoices)"

definition buildCodecEncodeFeeds :: "num list \<Rightarrow> nat \<Rightarrow> feeds rt" where
  "buildCodecEncodeFeeds waveform waveformLength =
     bindP (needP codecMeta) (\<lambda>c.
     bindP (getsP (\<lambda>r. case sessions r (js ''codecEncode'') of None \<Rightarrow> [] | Some s \<Rightarrow> ort_inputNames s)) (\<lambda>names.
       (let f = [js ''waveform'' \<mapsto> float_tensor waveform [1, codec_channels (codec_config (cf_meta c)), waveformLength]]
        in if js ''input_lengths'' \<in> set names
           then retP (f(js ''input_lengths'' \<mapsto> int_tensor [int waveformLength] [1]))
           else if names \<noteq> [] \<and> js ''waveform'' \<notin> set names
           then bindP (rt_say (js ''Unexpected codecEncode inputs: '' @ join_with (js '', '') names)) (\<lambda>_. retP f)
           else retP f)))"

definition encodeText :: "platform \<Rightarrow> jsstr \<Rightarrow> int list rt" where
  "encodeText P t =
     bindP (ensureTokenizerLoaded P) (\<lambda>_. bindP (getsP tokenizerModelKey) (\<lambda>key. liftP (pf_encode P key t)))"

definition countTextTokens :: "platform \<Rightarrow> jsstr \<Rightarrow> nat rt" where
  "countTextTokens P t =
     bindP (getsP tokenizer) (\<lambda>tk.
       if tk = None then throwP (Error (js ''Tokenizer is not loaded.''))
       else bindP (encodeText P t) (\<lambda>ids. retP (length ids)))"

end
