(* ===== verification/RuntimeLoading.thy ===== *)
theory RuntimeLoading
  imports RuntimeState
begin

text \<open>
  Loading, proved: the consistency of the runtime through every operation, failed ones included, and that
  a model is loaded once. The locales \<open>quiet\<close> and \<open>manifest_quiet\<close> are the interface between the operations
  that only read and log and the facts about the rest of the state. The last section has a small model
  for examples.
\<close>

section \<open>Framing\<close>

text \<open>A predicate that reads neither the log nor the model store: what reading and logging keep.\<close>

locale quiet =
  fixes I :: "runtime \<Rightarrow> bool"
  assumes quiet_log: "I (r\<lparr>rt_log := l\<rparr>) = I r"
    and quiet_store: "I (r\<lparr>rt_store := st\<rparr>) = I r"
begin

lemma keeps_say: "keeps I (rt_say m)"
  unfolding rt_say_def by (rule keeps_modify) (simp add: quiet_log)

lemma keeps_on_store: "keeps I (on_store p)"
  by (rule keepsI) (auto simp: on_store_def quiet_store split: prod.splits)

lemma keeps_readTextAsset: "keeps I (readTextAsset P p)"
  unfolding readTextAsset_def by (intro keeps_rules keeps_on_store)

lemma keeps_readBufferAsset: "keeps I (readBufferAsset P p)"
  unfolding readBufferAsset_def by (intro keeps_rules keeps_on_store)

lemma keeps_readJsonAsset: "keeps I (readJsonAsset P parse p)"
  unfolding readJsonAsset_def by (intro keeps_rules keeps_readTextAsset)

lemma keeps_readFirst: "keeps I (readFirstAvailableJsonAsset P parse e ps)"
  by (induction ps arbitrary: e) (auto intro!: keeps_rules keeps_readJsonAsset)

lemma keeps_load_external: "keeps I (load_external P acc ps)"
  by (induction ps arbitrary: acc) (auto intro!: keeps_rules keeps_readBufferAsset keeps_say)

lemma keeps_createOrtSession: "keeps I (createOrtSession P p ext)"
  unfolding createOrtSession_def by (intro keeps_rules keeps_readBufferAsset keeps_say keeps_load_external)

lemmas keeps_quiet = keeps_say keeps_on_store keeps_readTextAsset keeps_readBufferAsset keeps_readJsonAsset keeps_readFirst
  keeps_load_external keeps_createOrtSession

end

section \<open>The invariant of the runtime\<close>

definition manifest_loaded :: "runtime \<Rightarrow> bool" where
  "manifest_loaded r \<longleftrightarrow> rt_manifest r \<noteq> None \<and> ttsMeta r \<noteq> None \<and> codecMeta r \<noteq> None"

text \<open>The sessions that the files of the model ask for: four always, the greedy and the fixed frame model and the
  codec's step model when the metadata name one, and of the two local models the cached step if it is
  named and the decoder otherwise.\<close>

definition wanted_sessions :: "tts_meta \<Rightarrow> codec_file \<Rightarrow> jsstr set" where
  "wanted_sessions t c =
     {js ''prefill'', js ''decode'', js ''codecDecode'', js ''codecEncode'',
      (if tf_local_cached_step t = None then js ''localDecoder'' else js ''localCachedStep'')}
     \<union> {js ''localGreedyFrame'' | f. tf_local_greedy_frame t = Some f}
     \<union> {js ''localFixedSampledFrame'' | f. tf_local_fixed_sampled_frame t = Some f}
     \<union> {js ''codecDecodeStep'' | f. cf_decode_step c = Some f}"

definition runtime_ok :: "runtime \<Rightarrow> bool" where
  "runtime_ok r \<longleftrightarrow>
     (prepared r \<longrightarrow> manifest_loaded r \<and> wanted_sessions (the (ttsMeta r)) (the (codecMeta r)) \<subseteq> dom (sessions r)
        \<and> (codecStreamingSession r \<noteq> None \<longleftrightarrow> js ''codecDecodeStep'' \<in> dom (sessions r) \<and> cf_streaming (the (codecMeta r))))
     \<and> (codecStreamingSession r \<noteq> None \<longrightarrow> prepared r)
     \<and> (warmedUp r \<longrightarrow> prepared r)"

interpretation ok: quiet runtime_ok
  by unfold_locales (simp_all add: runtime_ok_def manifest_loaded_def)

lemma spec_keys: "fst ` set (sessionSpecs t c a b) = wanted_sessions t c"
  unfolding sessionSpecs_def session_spec_def wanted_sessions_def Let_def
  by (cases "tf_local_cached_step t"; cases "tf_local_greedy_frame t"; cases "tf_local_fixed_sampled_frame t";
      cases "cf_decode_step c") auto

text \<open>What loading starts from: not prepared, no streaming session.\<close>

definition unprepared :: "runtime \<Rightarrow> bool" where
  "unprepared r \<longleftrightarrow> \<not> prepared r \<and> codecStreamingSession r = None \<and> \<not> warmedUp r"

interpretation un: quiet unprepared
  by unfold_locales (simp_all add: unprepared_def)

lemma unprepared_ok: "unprepared r \<Longrightarrow> runtime_ok r"
  by (simp add: unprepared_def runtime_ok_def)

lemma ok_unprepared: "runtime_ok r \<Longrightarrow> \<not> prepared r \<Longrightarrow> unprepared r"
  by (auto simp: unprepared_def runtime_ok_def)

lemma keeps_on_caches: "(\<And>r c. I (r\<lparr>cached := c\<rparr>) = I r) \<Longrightarrow> keeps I (on_caches p)"
  by (rule keepsI) (auto simp: on_caches_def split: prod.splits)

lemma keeps_ensureReusable: 
  assumes "\<And>r c. I (r\<lparr>cached := c\<rparr>) = I r"
  shows "keeps I ensureReusableSynthesisState"
  by (rule keepsI) (auto simp: ensureReusableSynthesisState_def split: option.splits if_splits
      dest: keepsD [OF keeps_on_caches [OF assms]])

text \<open>A predicate that loading the manifest cannot touch.\<close>

locale manifest_quiet = quiet +
  assumes quiet_manifest: "I (r\<lparr>rt_manifest := m, manifestRelativePath := p, manifestRelativeDir := d\<rparr>) = I r"
    and quiet_paths: "I (r\<lparr>ttsMetaRelativePath := p, codecMetaRelativePath := d\<rparr>) = I r"
    and quiet_tts: "I (r\<lparr>ttsMeta := t\<rparr>) = I r"
    and quiet_codec: "I (r\<lparr>codecMeta := c\<rparr>) = I r"
    and quiet_caches: "I (r\<lparr>cached := k\<rparr>) = I r"
begin

lemma keeps_load_manifest: "keeps I (load_manifest P)"
  unfolding load_manifest_def
  by (auto intro!: keeps_rules keeps_quiet keeps_modify keeps_ensureReusable [of I]
      simp: quiet_manifest quiet_paths quiet_tts quiet_codec quiet_caches)

lemma keeps_ensureManifestLoaded: "keeps I (ensureManifestLoaded P)"
  by (rule keepsI) (auto simp: ensureManifestLoaded_def split: if_splits dest: keepsD [OF keeps_load_manifest])

end

interpretation un_m: manifest_quiet unprepared
  by unfold_locales (simp_all add: unprepared_def)

interpretation key_m: manifest_quiet "\<lambda>r. lastPreparedKey r = k" for k
  by unfold_locales simp_all

interpretation man: quiet "\<lambda>r. rt_manifest r \<noteq> None"
  by unfold_locales simp_all

interpretation tts: quiet "\<lambda>r. rt_manifest r \<noteq> None \<and> ttsMeta r \<noteq> None"
  by unfold_locales simp_all

interpretation all: quiet manifest_loaded
  by unfold_locales (simp_all add: manifest_loaded_def)

lemma load_manifest_loads: "validE (\<lambda>_. True) (load_manifest P) (\<lambda>_. manifest_loaded) (\<lambda>_. True)"
proof -
  let ?A = "\<lambda>r. rt_manifest r \<noteq> None" and ?B = "\<lambda>r. rt_manifest r \<noteq> None \<and> ttsMeta r \<noteq> None"
  have say: "validE manifest_loaded m (\<lambda>_. manifest_loaded) (\<lambda>_. True)" if "keeps manifest_loaded m" for m :: "unit rt"
    by (rule keeps_any [OF that])
  have reuse: "keeps manifest_loaded ensureReusableSynthesisState"
    by (rule keeps_ensureReusable) (simp add: manifest_loaded_def)
  have last: "validE ?B (bindP (modifyP (\<lambda>r. r\<lparr>codecMeta := Some c\<rparr>)) (\<lambda>_. bindP ensureReusableSynthesisState (\<lambda>_. bindP (if b then rt_say x else retP ()) (\<lambda>_. rt_say y))))
      (\<lambda>_. manifest_loaded) (\<lambda>_. True)" for c b x y
    by (rule validE_bind [where R = "\<lambda>_. manifest_loaded"], rule validE_modify, simp add: manifest_loaded_def,
        rule say, intro keeps_rules all.keeps_quiet reuse)
  have tts: "keeps ?B (bindP (getsP f) (readJsonAsset P p))" for f p by (intro keeps_rules tts.keeps_quiet)
  have man: "keeps ?A (bindP (getsP f) (readJsonAsset P p))" for f p by (intro keeps_rules man.keeps_quiet)
  show ?thesis
    unfolding load_manifest_def
    apply (rule validE_bind [OF validE_True], rule validE_bind [OF validE_True], rule validE_prod)
    apply (rule validE_bind [where R = "\<lambda>_. ?A"], rule validE_modify, simp)
    apply (rule validE_bind [where R = "\<lambda>_. ?A"], rule validE_modify, simp)
    apply (rule validE_bind [OF keeps_any [OF man]])
    apply (rule validE_bind [where R = "\<lambda>_. ?B"], rule validE_modify, simp)
    apply (rule validE_bind [OF keeps_any [OF tts] last])
    done
qed

lemma ensureManifestLoaded_loads: "validE (\<lambda>_. True) (ensureManifestLoaded P) (\<lambda>_. manifest_loaded) (\<lambda>_. True)"
proof (rule validE_I)
  fix r x r'
  assume e: "ensureManifestLoaded P r = (Inr x, r')"
  show "manifest_loaded r'"
  proof (cases "manifest_loaded r")
    case True
    then show ?thesis using e by (simp add: ensureManifestLoaded_def manifest_loaded_def)
  next
    case False
    then have "load_manifest P r = (Inr x, r')" using e
      by (auto simp: ensureManifestLoaded_def manifest_loaded_def split: if_splits)
    then show ?thesis by (rule validE_Inr [OF load_manifest_loads TrueI])
  qed
qed auto

lemma manifest_loaded_skip: "manifest_loaded r \<Longrightarrow> ensureManifestLoaded P r = (Inr (), r)"
  by (simp add: ensureManifestLoaded_def manifest_loaded_def)

text \<open>What holds while the sessions are created: nothing is prepared, the files are those read, and the
  sessions \<open>D\<close> are there.\<close>

definition creating :: "tts_meta \<Rightarrow> codec_file \<Rightarrow> jsstr set \<Rightarrow> runtime \<Rightarrow> bool" where
  "creating t c D r \<longleftrightarrow> unprepared r \<and> rt_manifest r \<noteq> None \<and> ttsMeta r = Some t \<and> codecMeta r = Some c \<and> D \<subseteq> dom (sessions r)"

interpretation cr: quiet "creating t c D" for t c D
  by unfold_locales (simp_all add: creating_def unprepared_def)

lemma creating_unprepared: "creating t c D r \<Longrightarrow> unprepared r"
  by (simp add: creating_def)

lemma ensure_session_creates:
  "validE (creating t c D) (ensure_session P spec) (\<lambda>_. creating t c (insert (fst spec) D)) unprepared"
proof -
  obtain key path ext where spec: "spec = (key, path, ext)" by (cases spec)
  let ?new = "bindP (rt_say (js ''Creating ORT session: '' @ path)) (\<lambda>_. bindP (createOrtSession P path ext) (\<lambda>s.
      bindP (modifyP (\<lambda>r. r\<lparr>sessions := (sessions r)(key \<mapsto> s)\<rparr>)) (\<lambda>_. rt_say (js ''ORT session ready: '' @ path))))"
  have k: "validE (creating t c D) m (\<lambda>_. creating t c D) unprepared" if "keeps (creating t c D) m" for m :: "'x rt" and D
    by (rule validE_weaken [OF keeps_validE [OF that]]) (auto dest: creating_unprepared)
  have new: "validE (creating t c D) ?new (\<lambda>_. creating t c (insert key D)) unprepared"
    apply (rule validE_bind [OF k [OF cr.keeps_say]])
    apply (rule validE_bind [OF k [OF cr.keeps_createOrtSession]])
    apply (rule validE_bind [where R = "\<lambda>_. creating t c (insert key D)"], rule validE_modify)
    apply (auto simp: creating_def unprepared_def intro!: k cr.keeps_say)
    done
  have run: "ensure_session P spec r = (if sessions r key = None then ?new r else (Inr (), r))" for r
    by (simp add: ensure_session_def spec bindP_def getsP_def retP_def)
  show ?thesis
  proof (rule validE_I)
    fix r x r'
    assume c: "creating t c D r" and e: "ensure_session P spec r = (Inr x, r')"
    show "creating t c (insert (fst spec) D) r'"
    proof (cases "sessions r key = None")
      case True
      then have "?new r = (Inr x, r')" using e by (simp add: run)
      then show ?thesis using validE_Inr [OF new c, of x r'] by (simp add: spec)
    next
      case False
      then have "r' = r" using e by (auto simp: run)
      then show ?thesis using c False by (auto simp: spec creating_def)
    qed
  next
    fix r e r'
    assume c: "creating t c D r" and e: "ensure_session P spec r = (Inl e, r')"
    then have "?new r = (Inl e, r')" by (simp add: run split: if_splits)
    then show "unprepared r'" by (rule validE_Inl [OF new c])
  qed
qed

lemma forP_creates:
  "validE (creating t c D) (forP specs (ensure_session P)) (\<lambda>_. creating t c (D \<union> fst ` set specs)) unprepared"
proof (induction specs arbitrary: D)
  case Nil
  show ?case by (rule validE_I) (auto simp: retP_def)
next
  case (Cons spec specs)
  have "validE (creating t c D) (bindP (ensure_session P spec) (\<lambda>_. forP specs (ensure_session P)))
      (\<lambda>_. creating t c (insert (fst spec) D \<union> fst ` set specs)) unprepared"
    by (rule validE_bind [OF ensure_session_creates Cons])
  then show ?case by (simp add: Un_commute insert_commute)
qed


section \<open>Loading the sessions\<close>

lemma load_sessions_prepares:
  assumes "unprepared r" "manifest_loaded r"
  shows "case load_sessions P r of (Inr _, r') \<Rightarrow> prepared r' \<and> runtime_ok r' | (Inl _, r') \<Rightarrow> unprepared r'"
proof -
  obtain t c where tc: "ttsMeta r = Some t" "codecMeta r = Some c" using assms(2) by (auto simp: manifest_loaded_def)
  define r1 where "r1 = r\<lparr>rt_log := rt_log r @ pf_ort_banner P (ortThreads r)\<rparr>"
  define specs where "specs = sessionSpecs t c (parent_dir (ttsMetaRelativePath r1)) (parent_dir (codecMetaRelativePath r1))"
  have c0: "creating t c {} r1" using assms tc by (simp add: creating_def unprepared_def manifest_loaded_def r1_def)
  have run: "load_sessions P r = bindP (forP specs (ensure_session P)) (\<lambda>_. modifyP (\<lambda>r. r\<lparr>codecStreamingSession :=
           (if sessions r (js ''codecDecodeStep'') \<noteq> None \<and> cf_streaming c then Some (new_codec_session (cf_meta c)) else None),
         prepared := True\<rparr>)) r1"
    unfolding load_sessions_def by (simp add: bindP_def modifyP_def needP_def getsP_def tc r1_def specs_def)
  show ?thesis
  proof (cases "forP specs (ensure_session P) r1")
    case (Pair x r2)
    show ?thesis
    proof (cases x)
      case (Inl e)
      then show ?thesis using validE_Inl [OF forP_creates c0, of specs P e r2] Pair by (simp add: run bindP_def)
    next
      case (Inr u)
      then have "creating t c (fst ` set specs) r2" using validE_Inr [OF forP_creates c0, of specs P u r2] Pair by simp
      then have "creating t c (wanted_sessions t c) r2" by (simp add: specs_def spec_keys)
      then show ?thesis using Pair Inr
        by (auto simp: run bindP_def modifyP_def creating_def runtime_ok_def manifest_loaded_def unprepared_def)
    qed
  qed
qed


text \<open>The methods of the runtime are asynchronous, and each is modelled as a whole. Were another request to
  configure the runtime while the last session of a load is being created, with the same path or
  another, the load would go on with the emptied runtime and declare it prepared.\<close>

definition interrupted_load :: "platform \<Rightarrow> jsstr \<Rightarrow> int \<Rightarrow> unit rt" where
  "interrupted_load P path n =
     bindP (modifyP (\<lambda>r. r\<lparr>rt_log := rt_log r @ pf_ort_banner P (ortThreads r)\<rparr>)) (\<lambda>_.
     bindP (needP ttsMeta) (\<lambda>t. bindP (needP codecMeta) (\<lambda>c.
     bindP (getsP (\<lambda>r. sessionSpecs t c (parent_dir (ttsMetaRelativePath r)) (parent_dir (codecMetaRelativePath r)))) (\<lambda>specs.
     bindP (forP specs (ensure_session P)) (\<lambda>_.
     bindP (configure path n) (\<lambda>_.
       modifyP (\<lambda>r. r\<lparr>codecStreamingSession :=
           (if sessions r (js ''codecDecodeStep'') \<noteq> None \<and> cf_streaming c then Some (new_codec_session (cf_meta c)) else None),
         prepared := True\<rparr>)))))))"

interpretation np: quiet "\<lambda>r. \<not> prepared r"
  by unfold_locales simp_all

lemma np_ensure_session: "keeps (\<lambda>r. \<not> prepared r) (ensure_session P spec)"
  unfolding ensure_session_def
  by (cases spec) (auto intro!: keeps_rules np.keeps_quiet keeps_modify)

lemma configure_unprepared:
  assumes "\<not> prepared r" and "normalizeLocalDirectoryPath path = Inr d"
  shows "\<exists>r'. configure path n r = (Inr (), r') \<and> sessions r' = Map.empty \<and> rt_manifest r' = None"
  using assms by (simp add: configure_def bindP_def liftP_def modifyP_def Let_def resetRuntimeCaches_def)

lemma configure_during_load:
  assumes "\<not> prepared r" and "load_sessions P r = (Inr (), r1)" and "normalizeLocalDirectoryPath path = Inr d"
  shows "\<exists>r2. interrupted_load P path n r = (Inr (), r2) \<and> prepared r2 \<and> sessions r2 = Map.empty \<and> \<not> runtime_ok r2"
proof -
  define r0 where "r0 = r\<lparr>rt_log := rt_log r @ pf_ort_banner P (ortThreads r)\<rparr>"
  obtain t c where tc: "ttsMeta r = Some t" "codecMeta r = Some c"
    using assms(2) by (auto simp: load_sessions_def bindP_def modifyP_def needP_def split: option.splits)
  define specs where "specs = sessionSpecs t c (parent_dir (ttsMetaRelativePath r)) (parent_dir (codecMetaRelativePath r))"
  obtain u r' where f: "forP specs (ensure_session P) r0 = (Inr u, r')"
    using assms(2) tc by (auto simp: load_sessions_def bindP_def modifyP_def needP_def getsP_def r0_def specs_def
      split: prod.splits sum.splits)
  have "\<not> prepared r'"
    by (rule keepsD [OF keeps_for [OF np_ensure_session] _ f]) (simp add: r0_def assms(1))
  from configure_unprepared [OF this assms(3), of n] obtain r2
    where c: "configure path n r' = (Inr (), r2)" "sessions r2 = Map.empty" "rt_manifest r2 = None" by blast
  show ?thesis
    using tc f c by (auto simp: interrupted_load_def bindP_def modifyP_def needP_def getsP_def r0_def specs_def
      runtime_ok_def manifest_loaded_def)
qed

lemma ensureSynthesisLoaded_cases:
  assumes "runtime_ok r"
  shows "(prepared r \<and> ensureSynthesisLoaded P r = (Inr (), r\<lparr>ortThreads := getEffectiveThreadCount P r\<rparr>))
    \<or> (unprepared r \<and> (case ensureSynthesisLoaded P r of (Inr _, r') \<Rightarrow> prepared r' \<and> runtime_ok r' | (Inl _, r') \<Rightarrow> unprepared r'))"
proof (cases "prepared r")
  case True
  then have "manifest_loaded r" using assms by (simp add: runtime_ok_def)
  then show ?thesis using True
    by (simp add: ensureSynthesisLoaded_def bindP_def manifest_loaded_skip ensureOrtConfigured_def modifyP_def getsP_def retP_def)
next
  case False
  then have u: "unprepared r" using assms by (rule ok_unprepared [rotated])
  show ?thesis
  proof (cases "ensureManifestLoaded P r")
    case (Pair x r1)
    then have u1: "unprepared r1" by (rule keepsD [OF un_m.keeps_ensureManifestLoaded u])
    show ?thesis
    proof (cases x)
      case (Inl e)
      then show ?thesis using u u1 Pair by (simp add: ensureSynthesisLoaded_def bindP_def)
    next
      case (Inr v)
      define r2 where "r2 = r1\<lparr>ortThreads := getEffectiveThreadCount P r1\<rparr>"
      have "manifest_loaded r1" using Pair Inr by (auto intro: validE_Inr [OF ensureManifestLoaded_loads TrueI])
      then have "unprepared r2" "manifest_loaded r2" using u1 by (simp_all add: r2_def unprepared_def manifest_loaded_def)
      then have "case load_sessions P r2 of (Inr _, r') \<Rightarrow> prepared r' \<and> runtime_ok r' | (Inl _, r') \<Rightarrow> unprepared r'"
        by (rule load_sessions_prepares)
      moreover have "ensureSynthesisLoaded P r = load_sessions P r2"
        using Pair Inr u1 by (simp add: ensureSynthesisLoaded_def bindP_def ensureOrtConfigured_def modifyP_def getsP_def r2_def unprepared_def)
      ultimately show ?thesis using u by simp
    qed
  qed
qed

lemma ok_manifest: "runtime_ok r \<Longrightarrow> ensureManifestLoaded P r = (x, r') \<Longrightarrow> runtime_ok r'"
proof (cases "prepared r")
  case True
  assume "runtime_ok r" "ensureManifestLoaded P r = (x, r')"
  then show ?thesis using True by (auto simp: runtime_ok_def manifest_loaded_skip)
next
  case False
  assume "runtime_ok r" "ensureManifestLoaded P r = (x, r')"
  then show ?thesis using keepsD [OF un_m.keeps_ensureManifestLoaded ok_unprepared [OF _ False]] unprepared_ok by blast
qed

lemma ok_add_session: "runtime_ok r \<Longrightarrow> k \<noteq> js ''codecDecodeStep'' \<Longrightarrow> runtime_ok (r\<lparr>sessions := (sessions r)(k \<mapsto> s)\<rparr>)"
proof -
  assume r: "runtime_ok r" and k: "k \<noteq> js ''codecDecodeStep''"
  have "dom ((sessions r)(k \<mapsto> s)) = insert k (dom (sessions r))" by auto
  moreover have "wanted_sessions t c \<subseteq> insert k (dom (sessions r))" if "wanted_sessions t c \<subseteq> dom (sessions r)" for t c
    using that by blast
  ultimately show ?thesis using r k by (simp add: runtime_ok_def manifest_loaded_def)
qed

lemma ok_ensure_session: "fst spec \<noteq> js ''codecDecodeStep'' \<Longrightarrow> keeps runtime_ok (ensure_session P spec)"
  unfolding ensure_session_def
  by (cases spec) (auto intro!: keeps_rules ok.keeps_quiet keeps_modify ok_add_session)

lemma ok_ensureOrt: "keeps runtime_ok (ensureOrtConfigured P)"
  unfolding ensureOrtConfigured_def by (rule keeps_modify) (simp add: runtime_ok_def manifest_loaded_def)

lemma ok_ensureManifest: "keeps runtime_ok (ensureManifestLoaded P)"
  by (rule keepsI) (rule ok_manifest)

lemma ok_ensureCodecEncode: "keeps runtime_ok (ensureCodecEncodeLoaded P)"
  unfolding ensureCodecEncodeLoaded_def
  by (intro keeps_rules ok_ensureManifest ok_ensureOrt ok_ensure_session) (simp add: session_spec_def)

lemma ok_ensureTokenizer: "keeps runtime_ok (ensureTokenizerLoaded P)"
  unfolding ensureTokenizerLoaded_def resolveManifestRelativeAssetPath_def
  by (intro keeps_rules ok_ensureManifest ok.keeps_quiet keeps_modify) (simp add: runtime_ok_def manifest_loaded_def)

lemma ok_ensureSynthesis: "keeps runtime_ok (ensureSynthesisLoaded P)"
proof (rule keepsI)
  fix r x r'
  assume "runtime_ok r" and e: "ensureSynthesisLoaded P r = (x, r')"
  with ensureSynthesisLoaded_cases [of r P] show "runtime_ok r'"
    by (cases x) (auto simp: unprepared_ok, simp add: runtime_ok_def manifest_loaded_def)
qed

lemma ok_configure: "keeps runtime_ok (configure path n)"
  unfolding configure_def
  by (intro keeps_rules keeps_modify) (auto simp: runtime_ok_def manifest_loaded_def resetRuntimeCaches_def)

lemma ok_prepareText: "keeps runtime_ok (prepareSynthesisText P t a b)"
  unfolding prepareSynthesisText_def
  by (intro keeps_rules ok.keeps_quiet keeps_modify) (simp_all add: runtime_ok_def manifest_loaded_def)

text \<open>The runtime stays consistent through every operation, also when one fails halfway: a prepared runtime
  has its manifest and metadata and every session that the model's files ask for, a streaming session
  exists exactly when the model has one, and nothing counts as warmed up that is not prepared. It holds
  of a new runtime and is kept by configuring, by each of the loading operations and by preparing text,
  whether they return or throw.\<close>

theorem runtime_stays_consistent:
  "runtime_ok (new_runtime st) \<and> keeps runtime_ok (configure path threads) \<and> keeps runtime_ok (ensureManifestLoaded P)
   \<and> keeps runtime_ok (ensureSynthesisLoaded P) \<and> keeps runtime_ok (ensureCodecEncodeLoaded P)
   \<and> keeps runtime_ok (ensureTokenizerLoaded P) \<and> keeps runtime_ok (prepareSynthesisText P t optNorm optWetext)"
  using ok_configure ok_ensureManifest ok_ensureSynthesis ok_ensureCodecEncode ok_ensureTokenizer ok_prepareText
  by (auto simp: new_runtime_def resetRuntimeCaches_def runtime_ok_def)


section \<open>Loading once\<close>

definition settled :: "platform \<Rightarrow> jsstr \<Rightarrow> runtime \<Rightarrow> bool" where
  "settled P k r \<longleftrightarrow> ortThreads r = getEffectiveThreadCount P r \<and> lastPreparedKey r = k"

interpretation st: quiet "settled P k" for P k
  by unfold_locales (simp_all add: settled_def getEffectiveThreadCount_def)

lemma settled_cong: "ortThreads r' = ortThreads r \<Longrightarrow> threadCount r' = threadCount r \<Longrightarrow> lastPreparedKey r' = lastPreparedKey r
  \<Longrightarrow> settled P k r' = settled P k r"
  by (simp add: settled_def getEffectiveThreadCount_def)

lemma settled_load_sessions: "keeps (settled P k) (load_sessions P)"
  unfolding load_sessions_def ensure_session_def
  by (intro keeps_rules st.keeps_quiet keeps_modify) (simp_all cong: settled_cong)

lemma settled_ensureSynthesis:
  assumes "lastPreparedKey r = k" and "ensureSynthesisLoaded P r = (Inr x, r')"
  shows "settled P k r'"
proof -
  obtain r1 where m: "ensureManifestLoaded P r = (Inr (), r1)" and
    r': "r' = r1\<lparr>ortThreads := getEffectiveThreadCount P r1\<rparr> \<or> load_sessions P (r1\<lparr>ortThreads := getEffectiveThreadCount P r1\<rparr>) = (Inr x, r')"
    using assms(2) by (auto simp: ensureSynthesisLoaded_def bindP_Inr ensureOrtConfigured_def modifyP_def getsP_def split: if_splits)
  have "lastPreparedKey r1 = k" using keepsD [OF key_m.keeps_ensureManifestLoaded assms(1) m] .
  then have "settled P k (r1\<lparr>ortThreads := getEffectiveThreadCount P r1\<rparr>)" by (simp add: settled_def getEffectiveThreadCount_def)
  then show ?thesis using r' keepsD [OF settled_load_sessions] by blast
qed

text \<open>C23: A model is loaded once: after configuring a root and loading it, configuring the same root with the same
  number of threads again and loading again change nothing at all, and so read nothing and create no
  session.\<close>

theorem loading_is_done_once:
  assumes "runtime_ok r" and "configure path threads r = (Inr (), r1)" and "ensureSynthesisLoaded P r1 = (Inr (), r2)"
  shows "configure path threads r2 = (Inr (), r2) \<and> ensureSynthesisLoaded P r2 = (Inr (), r2)"
proof -
  obtain p where p: "normalizeLocalDirectoryPath path = Inr p"
    using assms(2) by (auto simp: configure_def bindP_Inr liftP_def)
  let ?k = "preparation_key p (next_thread_count threads)"
  have k1: "lastPreparedKey r1 = ?k"
    using assms(2) p by (auto simp: configure_def bindP_Inr liftP_def Let_def modifyP_def resetRuntimeCaches_def split: if_splits)
  have ok1: "runtime_ok r1" using keepsD [OF ok_configure assms(1,2)] .
  have s2: "settled P ?k r2" by (rule settled_ensureSynthesis [OF k1 assms(3)])
  have p2: "prepared r2" using ensureSynthesisLoaded_cases [OF ok1, of P] assms(3) by auto
  have ok2: "runtime_ok r2" using keepsD [OF ok_ensureSynthesis ok1 assms(3)] .
  have "r2\<lparr>ortThreads := getEffectiveThreadCount P r2\<rparr> = r2" using s2 by (simp add: settled_def)
  then have "ensureSynthesisLoaded P r2 = (Inr (), r2)"
    using ensureSynthesisLoaded_cases [OF ok2, of P] p2 by (auto simp: unprepared_def)
  moreover have "configure path threads r2 = (Inr (), r2)"
    using p p2 s2 by (simp add: configure_def bindP_def liftP_def Let_def modifyP_def settled_def)
  ultimately show ?thesis by simp
qed

section \<open>A small model\<close>

text \<open>A model with one code per frame, a greedy session and no streaming decoder, for examples.\<close>

definition small_session :: ort_session where
  "small_session = \<lparr>ort_run = (\<lambda>f. Inr
     [js ''global_hidden'' \<mapsto> float_tensor [Fin 0] [1, 1], js ''should_continue'' \<mapsto> int_tensor [1] [1],
      js ''frame_token_ids'' \<mapsto> int_tensor [5] [1, 1], js ''audio'' \<mapsto> float_tensor [Fin 1, Fin 1] [1, 1, 2],
      js ''audio_lengths'' \<mapsto> int_tensor [2] [1]]), ort_inputNames = []\<rparr>"

definition small_manifest :: manifest where
  "small_manifest =
     \<lparr>m_tts_config = \<lparr>n_vq = 1, audio_pad_token_id = 9, audio_start_token_id = 1, audio_end_token_id = 2,
        audio_user_slot_token_id = 3, audio_assistant_slot_token_id = 4\<rparr>,
      m_templates = \<lparr>user_prompt_prefix_token_ids = [6], user_prompt_after_reference_token_ids = [7],
        assistant_prompt_prefix_token_ids = [8]\<rparr>,
      m_defaults = \<lparr>max_new_frames = 2, do_sample = Some False, sample_mode = None, text_temperature = Fin 1, text_top_k = 1,
        text_top_p = Fin 1, audio_temperature = Fin 1, audio_top_k = 1, audio_top_p = Fin 1, audio_repetition_penalty = Fin 1\<rparr>,
      builtin_voices = [], text_samples = [], file_tts_meta = js ''t'', file_codec_meta = js ''c'', file_tokenizer_model = None\<rparr>"

definition small_tts :: tts_meta where
  "small_tts =
     \<lparr>tf_prefill = js ''p'', tf_decode_step = js ''d'', tf_local_decoder = None, tf_local_greedy_frame = Some (js ''g''),
      tf_local_fixed_sampled_frame = None, tf_local_cached_step = Some (js ''l''), tts_external_data = Map.empty,
      local_heads = 1, local_head_dim = 1, audio_codebook_sizes = [8], decode_input_names = [], decode_output_names = [],
      local_cached_input_names = None, local_cached_output_names = Some []\<rparr>"

definition small_codec_file :: codec_file where
  "small_codec_file =
     \<lparr>cf_meta = \<lparr>codec_config = \<lparr>sample_rate = 4, codec_channels = 1, num_quantizers = 1\<rparr>, transformer_offsets = [], attention_caches = []\<rparr>,
      cf_downsample_rate = 1, cf_encode = js ''e'', cf_decode_full = js ''f'', cf_decode_step = None,
      cf_external_data = Map.empty, cf_streaming = False\<rparr>"

definition small_platform :: platform where
  "small_platform =
     \<lparr>pf_reader = Some \<lparr>ar_readText = Some (\<lambda>_ _. Inr []), ar_readBuffer = Some (\<lambda>_ _. Inr [])\<rparr>, pf_has_store = False,
      pf_store_env = \<lparr>env_storage = False, env_net = (\<lambda>_ _ _. Inl TypeError), env_write = (\<lambda>_. None)\<rparr>,
      pf_net = \<lparr>new_url = (\<lambda>_ _. Inl TypeError), fetch = (\<lambda>_. Inl TypeError), utf8_decode = (\<lambda>b. b)\<rparr>,
      pf_parse_manifest = (\<lambda>_. Inr small_manifest), pf_parse_tts = (\<lambda>_. Inr small_tts), pf_parse_codec = (\<lambda>_. Inr small_codec_file),
      pf_ort_banner = (\<lambda>_. []), pf_create_session = (\<lambda>_ _. Inr small_session), pf_load_tokenizer = (\<lambda>_ _. Inr ()),
      pf_encode = (\<lambda>_ t. Inr (map int t)), pf_hardware = 4, pf_isolated = True, pf_ucd = \<lparr>ucd_C = (\<lambda>_. False), ucd_P = (\<lambda>_. True)\<rparr>,
      pf_exp = (\<lambda>x. Fin 1), pf_now = (\<lambda>n. Fin (of_nat n)), pf_random = (\<lambda>_. Fin (1/2)), pf_cancelled = (\<lambda>_. False), pf_on_chunk = (\<lambda>_. Inr ()),
      pf_on_prepared = (\<lambda>_. Inr ()), pf_error_text = (\<lambda>_. [])\<rparr>"

definition small_start :: runtime where
  "small_start = snd (configure (js ''/m'') 2 (new_runtime \<lparr>fs = FDir (\<lambda>_. None), sent = [], progressLog = []\<rparr>))"

definition small_loaded :: runtime where
  "small_loaded = snd (ensureSynthesisLoaded small_platform small_start)"


lemma small_start_steps:
  "configure (js ''/m'') 2 (new_runtime \<lparr>fs = FDir (\<lambda>_. None), sent = [], progressLog = []\<rparr>) = (Inr (), small_start)"
proof -
  have "fst (configure (js ''/m'') 2 (new_runtime \<lparr>fs = FDir (\<lambda>_. None), sent = [], progressLog = []\<rparr>)) = Inr ()" by code_simp
  then show ?thesis unfolding small_start_def by (metis prod.collapse)
qed

lemma small_loaded_steps: "ensureSynthesisLoaded small_platform small_start = (Inr (), small_loaded)"
proof -
  have "fst (ensureSynthesisLoaded small_platform small_start) = Inr ()" by code_simp
  then show ?thesis unfolding small_loaded_def by (metis prod.collapse)
qed

theorem loading_is_done_once_witness:
  "configure (js ''/m'') 2 small_loaded = (Inr (), small_loaded)
   \<and> ensureSynthesisLoaded small_platform small_loaded = (Inr (), small_loaded)"
proof (rule loading_is_done_once [OF _ small_start_steps small_loaded_steps])
  show "runtime_ok (new_runtime \<lparr>fs = FDir (\<lambda>_. None), sent = [], progressLog = []\<rparr>)"
    by (simp add: new_runtime_def resetRuntimeCaches_def runtime_ok_def)
qed

end
