(* ===== verification/Generation.thy ===== *)
theory Generation
  imports RuntimeLoading
begin

text \<open>
  Generation of audio codes and decoding of audio: the calls of the local model's sessions
  (\<open>runLocalDecoder\<close>, \<open>runLocalCachedStep\<close>, \<open>runLocalGreedyFrame\<close>, \<open>runLocalFixedSampledFrame\<close>), the
  decoding of generated frames in one go and in batches, and the autoregressive loop
  \<open>generateAudioFrames\<close> with all its branches. An output that a session should produce and does not is a
  \<open>TypeError\<close> where the code reads a property of it; a session gives as many token ids as it has
  channels, and audio lengths as numbers that are not negative.
\<close>

section \<open>Outputs\<close>

definition run_session :: "string \<Rightarrow> feeds \<Rightarrow> feeds rt" where
  "run_session key f r =
     (case sessions r (js key) of
        None \<Rightarrow> (Inl TypeError, r)
      | Some s \<Rightarrow> (ort_run s f, r\<lparr>runs := runs r @ [(js key, f)]\<rparr>))"

definition out_tensor :: "feeds \<Rightarrow> string \<Rightarrow> tensor result" where
  "out_tensor outputs name = (case outputs (js name) of None \<Rightarrow> Inl TypeError | Some t \<Rightarrow> Inr t)"

fun num_trunc :: "num \<Rightarrow> int" where
  "num_trunc (Fin x) = (if x < 0 then \<lceil>x\<rceil> else \<lfloor>x\<rfloor>)"
| "num_trunc _ = 0"

definition int_cells :: "tensor \<Rightarrow> int list" where
  "int_cells t = (case tdata t of IntData xs \<Rightarrow> xs | FloatData xs \<Rightarrow> map num_trunc xs)"

definition float_cells :: "tensor \<Rightarrow> num list" where
  "float_cells t = (case tdata t of IntData xs \<Rightarrow> map (\<lambda>x. Fin (of_int x)) xs | FloatData xs \<Rightarrow> xs)"

definition first_cell :: "tensor \<Rightarrow> int" where
  "first_cell t = (case int_cells t of [] \<Rightarrow> 0 | x # _ \<Rightarrow> x)"

definition int_str :: "int \<Rightarrow> jsstr" where
  "int_str k = (if k < 0 then 45 # nat_str (nat (- k)) else nat_str (nat k))"

definition with_hidden :: "tensor \<Rightarrow> feeds \<Rightarrow> feeds" where
  "with_hidden h f = f(js ''global_hidden'' \<mapsto> h)"

section \<open>The local model\<close>

record local_result =
  textLogits :: "num list"
  audioLogits :: "tensor option"

definition local_outputs :: "feeds \<Rightarrow> local_result result" where
  "local_outputs outputs =
     bindR (out_tensor outputs ''text_logits'') (\<lambda>t.
       Inr \<lparr>textLogits = float_cells t, audioLogits = outputs (js ''audio_logits'')\<rparr>)"

definition prefix_length :: "feeds \<Rightarrow> nat" where
  "prefix_length f = (case f (js ''audio_prefix_token_ids'') of None \<Rightarrow> 0 | Some t \<Rightarrow> length (int_cells t))"

definition runLocalDecoder :: "tensor \<Rightarrow> int \<Rightarrow> int list \<Rightarrow> local_result rt" where
  "runLocalDecoder globalHidden textTokenId framePrefix =
     bindP ensureReusableSynthesisState (\<lambda>_.
     bindP (needP (\<lambda>r. reusableLocalDecoderFeeds (cached r))) (\<lambda>f.
     bindP (needP rt_manifest) (\<lambda>m.
       (let n = prefix_length f;
            row = take n framePrefix @ replicate (n - length framePrefix) (audio_pad_token_id (m_tts_config m));
            f' = with_hidden globalHidden (f(js ''text_token_id'' \<mapsto> int_tensor [textTokenId] [1],
              js ''audio_prefix_token_ids'' \<mapsto> int_tensor row [1, n]))
        in bindP (modifyP (\<lambda>r. r\<lparr>cached := (cached r)\<lparr>reusableLocalDecoderFeeds := Some f'\<rparr>\<rparr>)) (\<lambda>_.
           bindP (run_session ''localDecoder'' f') (\<lambda>outputs. liftP (local_outputs outputs)))))))"

definition createEmptyLocalCachedPast :: "feeds option rt" where
  "createEmptyLocalCachedPast = bindP ensureReusableSynthesisState (\<lambda>_. getsP (\<lambda>r. emptyLocalCachedPast (cached r)))"

record cached_step =
  cs_textTokenId :: int
  cs_audioTokenId :: int
  cs_channelIndex :: nat
  cs_stepType :: nat
  cs_pastValidLength :: nat

definition cached_step_feeds :: "tensor \<Rightarrow> cached_step \<Rightarrow> feeds \<Rightarrow> feeds" where
  "cached_step_feeds globalHidden a f =
     (with_hidden globalHidden f)(js ''text_token_id'' \<mapsto> int_tensor [cs_textTokenId a] [1],
        js ''audio_token_id'' \<mapsto> int_tensor [cs_audioTokenId a] [1],
        js ''channel_index'' \<mapsto> int_tensor [int (cs_channelIndex a)] [1],
        js ''step_type'' \<mapsto> int_tensor [int (cs_stepType a)] [1],
        js ''past_valid_lengths'' \<mapsto> int_tensor [int (cs_pastValidLength a)] [1])"

definition runLocalCachedStep :: "tensor \<Rightarrow> cached_step \<Rightarrow> local_result rt" where
  "runLocalCachedStep globalHidden a =
     bindP ensureReusableSynthesisState (\<lambda>_.
     bindP (needP (\<lambda>r. reusableLocalCachedFeeds (cached r))) (\<lambda>f.
       (let f' = cached_step_feeds globalHidden a f
        in bindP (modifyP (\<lambda>r. r\<lparr>cached := (cached r)\<lparr>reusableLocalCachedFeeds := Some f'\<rparr>\<rparr>)) (\<lambda>_.
           bindP (run_session ''localCachedStep'' f') (\<lambda>outputs.
           bindP (modifyP (\<lambda>r. r\<lparr>cached := (cached r)\<lparr>reusableLocalCachedFeeds := Some
               (carry_past (localCachedPastInputNames (cached r)) (localCachedPresentOutputNames (cached r)) outputs f')\<rparr>\<rparr>)) (\<lambda>_.
             liftP (local_outputs outputs)))))))"

text \<open>The mask of the tokens each channel has produced: row after row, one cell per token of the codebook.\<close>

definition mark_token :: "nat \<Rightarrow> nat \<Rightarrow> int list \<Rightarrow> int \<Rightarrow> int list" where
  "mark_token bookSize channel seen tokenId =
     (if 0 \<le> tokenId \<and> tokenId < int bookSize then seen[channel * bookSize + nat tokenId := 1] else seen)"

fun mark_channels :: "nat \<Rightarrow> nat \<Rightarrow> int list \<Rightarrow> int list list \<Rightarrow> int list" where
  "mark_channels bookSize channel seen [] = seen"
| "mark_channels bookSize channel seen (toks # rest) =
     mark_channels bookSize (Suc channel) (foldl (mark_token bookSize channel) seen toks) rest"

definition seen_mask :: "tensor \<Rightarrow> int list list \<Rightarrow> tensor" where
  "seen_mask t tokenSets =
     (let bookSize = (if 2 < length (tdims t) then tdims t ! 2 else 0)
      in t\<lparr>tdata := IntData (mark_channels bookSize 0 (replicate (length (int_cells t)) 0) tokenSets)\<rparr>)"

definition mask_feed :: "feeds \<Rightarrow> int list list \<Rightarrow> feeds result" where
  "mask_feed f tokenSets =
     (case f (js ''repetition_seen_mask'') of None \<Rightarrow> Inl TypeError
      | Some t \<Rightarrow> Inr (f(js ''repetition_seen_mask'' \<mapsto> seen_mask t tokenSets)))"

record frame_result =
  shouldContinue :: bool
  frame_tokens :: "int list"

definition frame_outputs :: "manifest \<Rightarrow> feeds \<Rightarrow> frame_result result" where
  "frame_outputs m outputs =
     bindR (out_tensor outputs ''frame_token_ids'') (\<lambda>ids.
     bindR (out_tensor outputs ''should_continue'') (\<lambda>go.
       (let n = n_vq (m_tts_config m); cells = int_cells ids
        in Inr \<lparr>shouldContinue = first_cell go > 0, frame_tokens = take n cells @ replicate (n - length cells) 0\<rparr>)))"

definition runLocalGreedyFrame :: "tensor \<Rightarrow> int list list \<Rightarrow> generation_defaults \<Rightarrow> frame_result rt" where
  "runLocalGreedyFrame globalHidden tokenSets d =
     bindP ensureReusableSynthesisState (\<lambda>_.
     bindP (needP (\<lambda>r. reusableLocalGreedyFeeds (cached r))) (\<lambda>f.
     bindP (liftP (mask_feed f tokenSets)) (\<lambda>f1.
       (let f' = with_hidden globalHidden (f1(js ''repetition_penalty'' \<mapsto> float_tensor [audio_repetition_penalty d] [1]))
        in bindP (modifyP (\<lambda>r. r\<lparr>cached := (cached r)\<lparr>reusableLocalGreedyFeeds := Some f'\<rparr>\<rparr>)) (\<lambda>_.
           bindP (run_session ''localGreedyFrame'' f') (\<lambda>outputs.
           bindP (needP rt_manifest) (\<lambda>m. liftP (frame_outputs m outputs))))))))"

definition draw :: "platform \<Rightarrow> num rt" where
  "draw P r = (Inr (pf_random P (random_reads r)), r\<lparr>random_reads := Suc (random_reads r)\<rparr>)"

fun draw_many :: "platform \<Rightarrow> nat \<Rightarrow> num list rt" where
  "draw_many P 0 = retP []"
| "draw_many P (Suc n) = bindP (draw P) (\<lambda>u. bindP (draw_many P n) (\<lambda>us. retP (drawClampedRandomU u # us)))"

definition runLocalFixedSampledFrame :: "platform \<Rightarrow> tensor \<Rightarrow> int list list \<Rightarrow> frame_result rt" where
  "runLocalFixedSampledFrame P globalHidden tokenSets =
     bindP ensureReusableSynthesisState (\<lambda>_.
     bindP (needP (\<lambda>r. reusableLocalFixedSampledFeeds (cached r))) (\<lambda>f.
     bindP (liftP (mask_feed f tokenSets)) (\<lambda>f1.
     bindP (draw_many P 1) (\<lambda>assistantU.
     bindP (draw_many P (case f (js ''audio_random_u'') of None \<Rightarrow> 0 | Some t \<Rightarrow> length (float_cells t))) (\<lambda>audioU.
       (let f' = with_hidden globalHidden (f1(js ''assistant_random_u'' \<mapsto> float_tensor assistantU [1],
              js ''audio_random_u'' \<mapsto> float_tensor audioU [1, length audioU]))
        in bindP (modifyP (\<lambda>r. r\<lparr>cached := (cached r)\<lparr>reusableLocalFixedSampledFeeds := Some f'\<rparr>\<rparr>)) (\<lambda>_.
           bindP (run_session ''localFixedSampledFrame'' f') (\<lambda>outputs.
           bindP (needP rt_manifest) (\<lambda>m. liftP (frame_outputs m outputs))))))))))"

definition sliceAudioChannelLogits :: "tensor option \<Rightarrow> nat \<Rightarrow> num list result" where
  "sliceAudioChannelLogits logits channelIndex =
     (case logits of None \<Rightarrow> Inl TypeError
      | Some t \<Rightarrow>
          (let perChannel = int (last (tdims t)); start = int channelIndex * perChannel
           in Inr (subarray (float_cells t) start (start + perChannel))))"

section \<open>Decoding audio\<close>

definition decodeFullAudio :: "int list list \<Rightarrow> feeds option rt" where
  "decodeFullAudio generatedFrames =
     (if generatedFrames = [] then retP None
      else
        bindP ensureReusableSynthesisState (\<lambda>_.
        bindP (liftP (flatten3dInt32 [generatedFrames])) (\<lambda>(cells, dims).
        bindP (needP (\<lambda>r. reusableCodecDecodeFullLength (cached r))) (\<lambda>_.
          (let len = int_tensor [int (length generatedFrames)] [1]
           in bindP (modifyP (\<lambda>r. r\<lparr>cached := (cached r)\<lparr>reusableCodecDecodeFullLength := Some len\<rparr>\<rparr>)) (\<lambda>_.
              bindP (run_session ''codecDecode'' [js ''audio_codes'' \<mapsto> \<lparr>tdata = IntData cells, tdims = dims\<rparr>, js ''audio_code_lengths'' \<mapsto> len])
                (\<lambda>outputs. retP (Some outputs))))))))"

text \<open>The streaming session's \<open>reset\<close> and \<open>runFrames\<close>, called through the runtime.\<close>

definition stream_reset :: "unit rt" where
  "stream_reset =
     bindP (needP codecStreamingSession) (\<lambda>cs.
     bindP (needP codecMeta) (\<lambda>c.
       modifyP (\<lambda>r. r\<lparr>codecStreamingSession := Some (codec_reset (cf_meta c) cs)\<rparr>)))"

definition stream_run :: "int list list \<Rightarrow> decoded_audio option rt" where
  "stream_run rows r =
     (case (codecStreamingSession r, codecMeta r, sessions r (js ''codecDecodeStep'')) of
        (Some cs, Some c, Some s) \<Rightarrow>
          (case runFrames (cf_meta c) (ort_run s) rows cs of (x, cs') \<Rightarrow>
             (x, r\<lparr>codecStreamingSession := Some cs',
                runs := (if rows = [] then runs r
                  else runs r @ [(js ''codecDecodeStep'', runFeeds (prepare_run (cf_meta c) rows cs))])\<rparr>))
      | _ \<Rightarrow> (Inl TypeError, r))"

text \<open>The audio of a decoded batch, \<open>None\<close> when it is empty.\<close>

definition decoded_samples :: "decoded_audio option \<Rightarrow> (nat \<times> nat \<times> num list list) option result" where
  "decoded_samples decoded =
     (case decoded of
        None \<Rightarrow> Inr None
      | Some d \<Rightarrow>
          bindR (case audio_lengths d of None \<Rightarrow> Inl TypeError | Some t \<Rightarrow> Inr (first_cell t)) (\<lambda>len.
            if \<not> len > 0 then Inr None
            else bindR (case audio d of None \<Rightarrow> Inl TypeError | Some t \<Rightarrow> Inr t) (\<lambda>a.
              Inr (Some (tdims a ! 1, nat len, sliceChannelMajorAudio (float_cells a) (tdims a) 0 len)))))"

definition push_chunks :: "num list list \<Rightarrow> num list option list list \<Rightarrow> num list option list list" where
  "push_chunks chunkData merged =
     map (\<lambda>(c, chunks). chunks @ [if c < length chunkData then Some (chunkData ! c) else None]) (enumerate 0 merged)"

function incremental_loop :: "int list list \<Rightarrow> num list option list list \<Rightarrow> num list option list list rt" where
  "incremental_loop frames merged =
     (if frames = [] then retP merged
      else bindP (stream_run (take 8 frames)) (\<lambda>decoded.
           bindP (liftP (decoded_samples decoded)) (\<lambda>samples.
             incremental_loop (drop 8 frames)
               (case samples of None \<Rightarrow> merged | Some (_, _, chunkData) \<Rightarrow> push_chunks chunkData merged))))"
  by pat_completeness auto
termination
  by (relation "measure (\<lambda>(frames, merged). length frames)") auto

declare incremental_loop.simps [simp del]

text \<open>\<open>try ... finally\<close> with a final step.\<close>

definition finallyP :: "('s, 'a) proc \<Rightarrow> ('s, unit) proc \<Rightarrow> ('s, 'a) proc" where
  "finallyP m fin s = (case m s of (x, s1) \<Rightarrow> (case fin s1 of (Inl e, s2) \<Rightarrow> (Inl e, s2) | (Inr _, s2) \<Rightarrow> (x, s2)))"

definition decodeFullAudioIncremental :: "int list list \<Rightarrow> rt_chunk option rt" where
  "decodeFullAudioIncremental generatedFrames =
     bindP (getsP codecStreamingSession) (\<lambda>cs.
       if generatedFrames = [] \<or> cs = None then retP None
       else
         bindP (needP codecMeta) (\<lambda>c.
           (let cfg = codec_config (cf_meta c)
            in bindP stream_reset (\<lambda>_.
               bindP (finallyP (incremental_loop generatedFrames (replicate (codec_channels cfg) [])) stream_reset) (\<lambda>merged.
               bindP (liftP (mergeFloat32Chunks (Fin 0) merged)) (\<lambda>chunkData.
                 retP (Some \<lparr>rc_channels = codec_channels cfg, rc_sampleRate = sample_rate cfg, rc_data = chunkData, rc_pause = False\<rparr>)))))))"


section \<open>The generation loop\<close>

text \<open>\<open>isCancelled()\<close>: the caller's answer.\<close>

definition poll :: "platform \<Rightarrow> bool rt" where
  "poll P r = (Inr (pf_cancelled P (cancel_polls r)), r\<lparr>cancel_polls := Suc (cancel_polls r)\<rparr>)"

text \<open>What the channels have produced: the list of tokens, and the set in insertion order.\<close>

record history =
  prevTokens :: "int list list"
  prevSets :: "int list list"

definition empty_history :: "nat \<Rightarrow> history" where
  "empty_history n = \<lparr>prevTokens = replicate n [], prevSets = replicate n []\<rparr>"

definition set_add :: "'a \<Rightarrow> 'a list \<Rightarrow> 'a list" where
  "set_add x xs = (if x \<in> set xs then xs else xs @ [x])"

definition note_token :: "nat \<Rightarrow> int \<Rightarrow> history \<Rightarrow> history result" where
  "note_token c tok h =
     (if c < length (prevTokens h)
      then Inr (h\<lparr>prevTokens := (prevTokens h)[c := prevTokens h ! c @ [tok]], prevSets := (prevSets h)[c := set_add tok (prevSets h ! c)]\<rparr>)
      else Inl TypeError)"

fun note_frame :: "nat \<Rightarrow> int list \<Rightarrow> history \<Rightarrow> history result" where
  "note_frame c [] h = Inr h"
| "note_frame c (tok # toks) h = bindR (note_token c tok h) (\<lambda>h'. note_frame (Suc c) toks h')"

text \<open>How the code for one frame ends: with a frame, with the end of generation, or cancelled.\<close>

datatype frame_outcome = NewFrame "int list" history | EndOfAudio | CancelledFrame

definition stop_log :: "nat \<Rightarrow> int \<Rightarrow> frame_outcome rt" where
  "stop_log stepIndex tok =
     bindP (rt_say (js ''Generation stopped at step '' @ nat_str stepIndex @ js '' with token='' @ int_str tok)) (\<lambda>_. retP EndOfAudio)"

definition take_frame :: "manifest \<Rightarrow> nat \<Rightarrow> history \<Rightarrow> frame_result \<Rightarrow> frame_outcome rt" where
  "take_frame m stepIndex h res =
     (if \<not> shouldContinue res then stop_log stepIndex (audio_end_token_id (m_tts_config m))
      else bindP (liftP (note_frame 0 (frame_tokens res) h)) (\<lambda>h'. retP (NewFrame (frame_tokens res) h')))"

definition random_if :: "platform \<Rightarrow> generation_defaults \<Rightarrow> num rt" where
  "random_if P d = (if sampling_on d then draw P else retP (Fin 0))"

definition choose_audio :: "platform \<Rightarrow> generation_defaults \<Rightarrow> nat \<Rightarrow> local_result \<Rightarrow> history \<Rightarrow> int rt" where
  "choose_audio P d c res h =
     bindP (liftP (sliceAudioChannelLogits (audioLogits res) c)) (\<lambda>logits.
     bindP (if c < length (prevTokens h) then retP () else throwP TypeError) (\<lambda>_.
     bindP (random_if P d) (\<lambda>u.
     bindP (liftP (sampleAudioToken (pf_exp P) u logits (prevTokens h ! c) (prevSets h ! c) d)) (\<lambda>tok. retP (int tok)))))"

text \<open>The channels from 1 on in the branch of the cached step; \<open>n\<close> channels are left, \<open>c\<close> is the next.\<close>

fun cached_channels ::
  "platform \<Rightarrow> generation_defaults \<Rightarrow> tensor \<Rightarrow> nat \<Rightarrow> nat \<Rightarrow> int list \<Rightarrow> history \<Rightarrow> frame_outcome rt" where
  "cached_channels P d hid 0 c frame h = retP (NewFrame frame h)"
| "cached_channels P d hid (Suc n) c frame h =
     bindP (if c mod 4 = 0 then poll P else retP False) (\<lambda>stop.
       if stop then retP CancelledFrame
       else
         bindP (runLocalCachedStep hid \<lparr>cs_textTokenId = 0, cs_audioTokenId = last frame, cs_channelIndex = c - 1,
             cs_stepType = 2, cs_pastValidLength = Suc c\<rparr>) (\<lambda>res.
         bindP (choose_audio P d c res h) (\<lambda>tok.
         bindP (liftP (note_token c tok h)) (\<lambda>h'.
           cached_channels P d hid n (Suc c) (frame @ [tok]) h'))))"

definition cached_frame :: "platform \<Rightarrow> manifest \<Rightarrow> generation_defaults \<Rightarrow> nat \<Rightarrow> tensor \<Rightarrow> history \<Rightarrow> frame_outcome rt" where
  "cached_frame P m d stepIndex hid h =
     bindP resetLocalCachedState (\<lambda>_.
     bindP (runLocalCachedStep hid \<lparr>cs_textTokenId = 0, cs_audioTokenId = 0, cs_channelIndex = 0, cs_stepType = 0,
         cs_pastValidLength = 0\<rparr>) (\<lambda>textResult.
     bindP (random_if P d) (\<lambda>u.
     bindP (liftP (sampleAssistantTextToken (pf_exp P) u (textLogits textResult) (m_tts_config m) d)) (\<lambda>nextTextToken2.
       if nextTextToken2 \<noteq> audio_assistant_slot_token_id (m_tts_config m) then stop_log stepIndex nextTextToken2
       else
         bindP (runLocalCachedStep hid \<lparr>cs_textTokenId = nextTextToken2, cs_audioTokenId = 0, cs_channelIndex = 0,
             cs_stepType = 1, cs_pastValidLength = 1\<rparr>) (\<lambda>res.
         bindP (choose_audio P d 0 res h) (\<lambda>tok.
         bindP (liftP (note_token 0 tok h)) (\<lambda>h'.
           cached_channels P d hid (n_vq (m_tts_config m) - 1) 1 [tok] h')))))))"

text \<open>The last branch names a variable that is not declared; reading it throws, in the first channel.\<close>

definition fallback_frame :: "manifest \<Rightarrow> history \<Rightarrow> frame_outcome rt" where
  "fallback_frame m h =
     (if n_vq (m_tts_config m) = 0 then retP (NewFrame [] h) else throwP (ReferenceError (js ''nextTextToken'')))"

definition one_frame :: "platform \<Rightarrow> manifest \<Rightarrow> generation_defaults \<Rightarrow> nat \<Rightarrow> tensor \<Rightarrow> history \<Rightarrow> frame_outcome rt" where
  "one_frame P m d stepIndex hid h =
     bindP (getsP sessions) (\<lambda>ss.
       if ss (js ''localGreedyFrame'') \<noteq> None \<and> \<not> sampling_on d
       then bindP (runLocalGreedyFrame hid (prevSets h) d) (take_frame m stepIndex h)
       else if ss (js ''localFixedSampledFrame'') \<noteq> None \<and> sample_mode d = Some SAMPLE_MODE_FIXED
       then bindP (runLocalFixedSampledFrame P hid (prevSets h)) (take_frame m stepIndex h)
       else if ss (js ''localCachedStep'') \<noteq> None then cached_frame P m d stepIndex hid h
       else fallback_frame m h)"

definition decode_row :: "manifest \<Rightarrow> int list \<Rightarrow> nat \<Rightarrow> int list" where
  "decode_row m frame width = take width (audio_assistant_slot_token_id (m_tts_config m) # frame
     @ replicate (width - 1 - length frame) (audio_pad_token_id (m_tts_config m)))"

text \<open>One run of the global model on the new frame.\<close>

definition decode_step :: "manifest \<Rightarrow> int list \<Rightarrow> int \<Rightarrow> tensor rt" where
  "decode_step m frame pastValidLength =
     bindP (needP (\<lambda>r. reusableDecodeFeeds (cached r))) (\<lambda>f.
       (let width = n_vq (m_tts_config m) + 1;
            f' = f(js ''input_ids'' \<mapsto> int_tensor (decode_row m frame width) [1, 1, width],
              js ''past_valid_lengths'' \<mapsto> int_tensor [pastValidLength] [1])
        in bindP (modifyP (\<lambda>r. r\<lparr>cached := (cached r)\<lparr>reusableDecodeFeeds := Some f'\<rparr>\<rparr>)) (\<lambda>_.
           bindP (run_session ''decode'' f') (\<lambda>outputs.
           bindP (liftP (bindR (out_tensor outputs ''global_hidden'') extractLastHiddenTensor)) (\<lambda>hid.
           bindP (updateDecodePastFeeds outputs) (\<lambda>_. retP hid))))))"

text \<open>The loop: \<open>n\<close> steps may still be taken. \<open>onFrame\<close> is the caller's callback, if there is one.\<close>

fun generate_loop ::
  "platform \<Rightarrow> manifest \<Rightarrow> generation_defaults \<Rightarrow> (nat \<Rightarrow> int list \<Rightarrow> unit rt) option \<Rightarrow> nat \<Rightarrow> nat \<Rightarrow> tensor \<Rightarrow> int \<Rightarrow>
     history \<Rightarrow> int list list \<Rightarrow> int list list rt" where
  "generate_loop P m d onFrame 0 stepIndex hid past h frames = retP frames"
| "generate_loop P m d onFrame (Suc n) stepIndex hid past h frames =
     bindP (poll P) (\<lambda>stop.
       if stop then retP frames
       else
         bindP (one_frame P m d stepIndex hid h) (\<lambda>out.
           case out of
             EndOfAudio \<Rightarrow> retP frames
           | CancelledFrame \<Rightarrow> retP frames
           | NewFrame frame h' \<Rightarrow>
               bindP (decode_step m frame past) (\<lambda>hid'.
               bindP (case onFrame of None \<Rightarrow> retP () | Some f \<Rightarrow> f stepIndex frame) (\<lambda>_.
                 generate_loop P m d onFrame n (Suc stepIndex) hid' (past + 1) h' (frames @ [frame])))))"

definition mask_sum :: "int list list \<Rightarrow> int" where
  "mask_sum attn = (case attn of [] \<Rightarrow> 0 | row # _ \<Rightarrow> sum_list row)"

text \<open>The run of the whole prompt, and the loop.\<close>

definition prefill :: "request_rows \<Rightarrow> feeds rt" where
  "prefill rows =
     bindP (liftP (flatten3dInt32 [inputIds rows])) (\<lambda>(ids, idDims).
     bindP (liftP (flatten2dInt32 (attentionMask rows))) (\<lambda>(attn, attnDims).
       run_session ''prefill'' [js ''input_ids'' \<mapsto> \<lparr>tdata = IntData ids, tdims = idDims\<rparr>,
         js ''attention_mask'' \<mapsto> \<lparr>tdata = IntData attn, tdims = attnDims\<rparr>]))"

definition generateAudioFrames ::
  "platform \<Rightarrow> request_rows \<Rightarrow> (nat \<Rightarrow> int list \<Rightarrow> unit rt) option \<Rightarrow> bool option \<Rightarrow> jsstr option \<Rightarrow> int list list rt" where
  "generateAudioFrames P rows onFrame optDoSample optSampleMode =
     bindP ensureReusableSynthesisState (\<lambda>_.
     bindP (needP rt_manifest) (\<lambda>m.
     bindP (prefill rows) (\<lambda>outputs.
     bindP (liftP (bindR (out_tensor outputs ''global_hidden'') extractLastHiddenTensor)) (\<lambda>hid.
     bindP (updateDecodePastFeeds outputs) (\<lambda>_.
       generate_loop P m (resolveGenerationDefaults (m_defaults m) optDoSample optSampleMode) onFrame
         (max_new_frames (m_defaults m)) 0 hid (mask_sum (attentionMask rows)) (empty_history (n_vq (m_tts_config m))) [])))))"

end
