(* ===== verification/Synthesis.thy ===== *)
theory Synthesis
  imports Generation
begin

text \<open>
  The public methods that turn a request into audio: \<open>synthesizeSingleChunk\<close> with its streaming and its
  one-shot branch, \<open>synthesizeVoiceClone\<close>, \<open>warmup\<close>, and the encoding of a reference recording. The callback
  \<open>onAudioChunk\<close> is always there (the host passes one): \<open>emitted\<close> records what it was given, and
  \<open>pf_on_chunk\<close> says how each call ends. The variables the streaming callbacks share are the field \<open>live\<close>
  of the runtime. The browser's audio decoder is a parameter (\<open>audio_env\<close>).
\<close>

section \<open>Streaming\<close>

definition emit_chunk :: "platform \<Rightarrow> rt_chunk \<Rightarrow> unit rt" where
  "emit_chunk P chunk r = (pf_on_chunk P (length (emitted r)), r\<lparr>emitted := emitted r @ [chunk]\<rparr>)"

definition read_clock :: "platform \<Rightarrow> num rt" where
  "read_clock P r = (Inr (pf_now P (clock_reads r)), r\<lparr>clock_reads := Suc (clock_reads r)\<rparr>)"

text \<open>\<open>computeStreamLeadSeconds\<close> reads the clock only past its early return.\<close>

definition lead_clock :: "platform \<Rightarrow> nat \<Rightarrow> num rt" where
  "lead_clock P rate =
     bindP (getsP (\<lambda>r. firstAudioEmittedAtSeconds (live r))) (\<lambda>first.
       if truthy first \<and> rate \<noteq> 0 then read_clock P else retP (Fin 0))"

definition should_decode :: "stream_state \<Rightarrow> num \<Rightarrow> nat \<Rightarrow> bool" where
  "should_decode s lead budget \<longleftrightarrow> \<not> truthy (firstAudioEmittedAtSeconds s) \<or> num_lt lead (round64 (45 / 100))
     \<or> budget \<le> length (pendingDecodeFrames s) \<or> num_lt lead (Fin 0)"

definition frame_budget :: "bool \<Rightarrow> stream_state \<Rightarrow> nat \<Rightarrow> nat" where
  "frame_budget force s budget =
     (if force then length (pendingDecodeFrames s) else min (length (pendingDecodeFrames s)) (max 1 budget))"

definition take_pending :: "nat \<Rightarrow> int list list rt" where
  "take_pending n r =
     (Inr (take n (pendingDecodeFrames (live r))),
      r\<lparr>live := (live r)\<lparr>pendingDecodeFrames := drop n (pendingDecodeFrames (live r))\<rparr>\<rparr>)"

definition note_first_audio :: "platform \<Rightarrow> unit rt" where
  "note_first_audio P =
     bindP (getsP (\<lambda>r. truthy (firstAudioEmittedAtSeconds (live r)))) (\<lambda>started.
       if started then retP ()
       else bindP (read_clock P) (\<lambda>now.
         modifyP (\<lambda>r. r\<lparr>live := (live r)\<lparr>firstAudioEmittedAtSeconds := Some (num_div now (Fin 1000))\<rparr>\<rparr>)))"

definition queue_chunk :: "platform \<Rightarrow> jsstr \<Rightarrow> nat \<Rightarrow> nat \<Rightarrow> nat \<times> nat \<times> num list list \<Rightarrow> unit rt" where
  "queue_chunk P label rate frameCount samples =
     (case samples of (chans, audioLength, chunkData) \<Rightarrow>
        (let chunk = \<lparr>rc_channels = chans, rc_sampleRate = rate, rc_data = chunkData, rc_pause = False\<rparr>
         in bindP (note_first_audio P) (\<lambda>_.
            bindP (modifyP (\<lambda>r. r\<lparr>live := (live r)\<lparr>emittedSamplesTotal := emittedSamplesTotal (live r) + audioLength,
                stream_chunks := stream_chunks (live r) @ [chunk]\<rparr>\<rparr>)) (\<lambda>_.
            bindP (emit_chunk P chunk) (\<lambda>_.
            bindP (getsP (\<lambda>r. emittedSamplesTotal (live r))) (\<lambda>total.
              rt_say (js ''Streaming chunk queued step='' @ label @ js '' frames='' @ nat_str frameCount
                @ js '' emitted_samples='' @ nat_str total)))))))"

definition decode_batch :: "platform \<Rightarrow> jsstr \<Rightarrow> nat \<Rightarrow> nat \<Rightarrow> unit rt" where
  "decode_batch P label rate n =
     bindP (take_pending n) (\<lambda>frameChunk.
     bindP (stream_run frameChunk) (\<lambda>decoded.
     bindP (liftP (decoded_samples decoded)) (\<lambda>samples.
       case samples of None \<Rightarrow> retP () | Some x \<Rightarrow> queue_chunk P label rate (length frameChunk) x)))"

definition decodePendingFrames :: "platform \<Rightarrow> bool \<Rightarrow> jsstr \<Rightarrow> unit rt" where
  "decodePendingFrames P force label =
     bindP (getsP (\<lambda>r. pendingDecodeFrames (live r))) (\<lambda>pending.
       if pending = [] then retP ()
       else
         bindP (needP codecMeta) (\<lambda>c.
           (let rate = sample_rate (codec_config (cf_meta c))
            in bindP (lead_clock P rate) (\<lambda>now1.
               bindP (lead_clock P rate) (\<lambda>now2.
               bindP (getsP live) (\<lambda>s.
                 (let lead = computeStreamLeadSeconds now1 (emittedSamplesTotal s) rate (firstAudioEmittedAtSeconds s);
                      budget = resolveStreamDecodeFrameBudget now2 (emittedSamplesTotal s) rate (firstAudioEmittedAtSeconds s)
                  in if \<not> force \<and> \<not> should_decode s lead budget then retP ()
                     else decode_batch P label rate (frame_budget force s budget))))))))"

text \<open>Before the first audio the clock plays no part; for evaluation.\<close>

lemma decodePendingFrames_code [code]:
  "decodePendingFrames P force label r =
     (if pendingDecodeFrames (live r) = [] then (Inr (), r)
      else (case codecMeta r of None \<Rightarrow> (Inl TypeError, r)
        | Some c \<Rightarrow>
            (let rate = sample_rate (codec_config (cf_meta c)); s = live r
             in if \<not> truthy (firstAudioEmittedAtSeconds s)
                then decode_batch P label rate (if force then length (pendingDecodeFrames s) else 1) r
                else bindP (lead_clock P rate) (\<lambda>now1.
                  bindP (lead_clock P rate) (\<lambda>now2.
                  bindP (getsP live) (\<lambda>s.
                    (let lead = computeStreamLeadSeconds now1 (emittedSamplesTotal s) rate (firstAudioEmittedAtSeconds s);
                         budget = resolveStreamDecodeFrameBudget now2 (emittedSamplesTotal s) rate (firstAudioEmittedAtSeconds s)
                     in if \<not> force \<and> \<not> should_decode s lead budget then retP ()
                        else decode_batch P label rate (frame_budget force s budget))))) r)))"
proof -
  have early: "frame_budget force s (resolveStreamDecodeFrameBudget t n rate (firstAudioEmittedAtSeconds s))
      = (if force then length (pendingDecodeFrames s) else 1)"
    if "pendingDecodeFrames s \<noteq> []" "\<not> truthy (firstAudioEmittedAtSeconds s)" for s t n rate
    using that by (cases "pendingDecodeFrames s") (auto simp: frame_budget_def resolveStreamDecodeFrameBudget_def Let_def)
  have clock: "lead_clock P rate r = (Inr (Fin 0), r)" if "\<not> truthy (firstAudioEmittedAtSeconds (live r))" for rate
    using that by (simp add: lead_clock_def bindP_def getsP_def retP_def)
  have go: "should_decode s lead budget" if "\<not> truthy (firstAudioEmittedAtSeconds s)" for s lead budget
    using that by (simp add: should_decode_def)
  show ?thesis
  proof (cases "pendingDecodeFrames (live r) = [] \<or> codecMeta r = None")
    case True
    then show ?thesis by (auto simp: decodePendingFrames_def bindP_def getsP_def retP_def needP_def)
  next
    case False
    then obtain c where c: "codecMeta r = Some c" and p: "pendingDecodeFrames (live r) \<noteq> []" by auto
    show ?thesis
    proof (cases "truthy (firstAudioEmittedAtSeconds (live r))")
      case True
      then show ?thesis using c p by (simp add: decodePendingFrames_def bindP_def [of "getsP f" for f] bindP_def [of "needP f" for f]
            getsP_def needP_def Let_def)
    next
      case False
      have "decodePendingFrames P force label r = decode_batch P label (sample_rate (codec_config (cf_meta c)))
          (frame_budget force (live r) (resolveStreamDecodeFrameBudget (Fin 0) (emittedSamplesTotal (live r))
            (sample_rate (codec_config (cf_meta c))) (firstAudioEmittedAtSeconds (live r)))) r"
        using c p by (simp add: decodePendingFrames_def bindP_def getsP_def needP_def Let_def clock [OF False] go [OF False])
      then show ?thesis using c p False early [OF p False] by (simp add: Let_def)
    qed
  qed
qed

definition push_frame :: "int list \<Rightarrow> unit rt" where
  "push_frame frame =
     modifyP (\<lambda>r. r\<lparr>live := (live r)\<lparr>pendingDecodeFrames := pendingDecodeFrames (live r) @ [frame]\<rparr>\<rparr>)"

definition on_stream_frame :: "platform \<Rightarrow> nat \<Rightarrow> int list \<Rightarrow> unit rt" where
  "on_stream_frame P stepIndex frame =
     bindP (push_frame frame) (\<lambda>_. decodePendingFrames P False (nat_str stepIndex))"

section \<open>One chunk of text\<close>

record chunk_request =
  q_text :: jsstr
  q_textTokenIds :: "int list option"
  q_promptAudioCodes :: "int list list"
  q_streaming :: bool
  q_doSample :: "bool option"
  q_sampleMode :: "jsstr option"

record chunk_result =
  cr_frames :: nat
  cr_chunks :: "rt_chunk list"

definition full_chunk :: "feeds option \<Rightarrow> rt_chunk option rt" where
  "full_chunk decoded =
     (case decoded of
        None \<Rightarrow> retP None
      | Some outputs \<Rightarrow>
          bindP (liftP (out_tensor outputs ''audio_lengths'')) (\<lambda>lens.
          bindP (liftP (out_tensor outputs ''audio'')) (\<lambda>a.
          bindP (needP codecMeta) (\<lambda>c.
            retP (Some \<lparr>rc_channels = tdims a ! 1, rc_sampleRate = sample_rate (codec_config (cf_meta c)),
              rc_data = sliceChannelMajorAudio (float_cells a) (tdims a) 0 (first_cell lens), rc_pause = False\<rparr>)))))"

definition alloc_failure :: "platform \<Rightarrow> js_error \<Rightarrow> bool" where
  "alloc_failure P e \<longleftrightarrow> str_includes (lower (pf_error_text P e)) (js ''alloc'')"

definition incremental_fallback :: "platform \<Rightarrow> int list list \<Rightarrow> js_error \<Rightarrow> rt_chunk option rt" where
  "incremental_fallback P frames e =
     bindP (getsP codecStreamingSession) (\<lambda>cs.
       if cs = None \<or> \<not> alloc_failure P e then throwP e
       else bindP (rt_say (js ''Full codec decode failed, falling back to incremental decode: '' @ pf_error_text P e)) (\<lambda>_.
         decodeFullAudioIncremental frames))"

definition synthesize_full :: "platform \<Rightarrow> request_rows \<Rightarrow> chunk_request \<Rightarrow> chunk_result rt" where
  "synthesize_full P rows q =
     bindP (generateAudioFrames P rows None (q_doSample q) (q_sampleMode q)) (\<lambda>frames.
     bindP (catchP (bindP (decodeFullAudio frames) full_chunk) (incremental_fallback P frames)) (\<lambda>chunk.
       case chunk of
         None \<Rightarrow> retP \<lparr>cr_frames = 0, cr_chunks = []\<rparr>
       | Some c \<Rightarrow> bindP (emit_chunk P c) (\<lambda>_. retP \<lparr>cr_frames = length frames, cr_chunks = [c]\<rparr>)))"

definition start_stream :: "unit rt" where
  "start_stream = bindP stream_reset (\<lambda>_. modifyP (\<lambda>r. r\<lparr>live := new_stream\<rparr>))"

definition synthesize_stream :: "platform \<Rightarrow> request_rows \<Rightarrow> chunk_request \<Rightarrow> chunk_result rt" where
  "synthesize_stream P rows q =
     bindP start_stream (\<lambda>_.
     bindP (generateAudioFrames P rows (Some (on_stream_frame P)) (q_doSample q) (q_sampleMode q)) (\<lambda>frames.
     bindP (decodePendingFrames P True (js ''flush'')) (\<lambda>_.
     bindP (getsP (\<lambda>r. stream_chunks (live r))) (\<lambda>chunks.
       retP \<lparr>cr_frames = length frames, cr_chunks = chunks\<rparr>))))"

definition resolve_token_ids :: "platform \<Rightarrow> chunk_request \<Rightarrow> int list rt" where
  "resolve_token_ids P q = (case q_textTokenIds q of Some ids \<Rightarrow> retP ids | None \<Rightarrow> encodeText P (q_text q))"

definition synthesizeSingleChunk :: "platform \<Rightarrow> chunk_request \<Rightarrow> chunk_result rt" where
  "synthesizeSingleChunk P q =
     bindP (if q_textTokenIds q = None then ensureTokenizerLoaded P else retP ()) (\<lambda>_.
     bindP (ensureSynthesisLoaded P) (\<lambda>_.
     bindP (resolve_token_ids P q) (\<lambda>ids.
     bindP (needP rt_manifest) (\<lambda>m.
     bindP (getsP codecStreamingSession) (\<lambda>cs.
       (let rows = buildVoiceCloneRequestRows (m_tts_config m) (m_templates m) (q_promptAudioCodes q) ids
        in if \<not> q_streaming q \<or> cs = None then synthesize_full P rows q else synthesize_stream P rows q))))))"

section \<open>A voice-clone request\<close>

record clone_request =
  c_text :: jsstr
  c_voiceName :: "jsstr option"
  c_promptAudioCodes :: "int list list option"
  c_preencoded :: "int list option"
  c_extraVoices :: "voice_preset list"
  c_doSample :: "bool option"
  c_sampleMode :: "jsstr option"
  c_streaming :: bool
  c_maxTextTokens :: "int option"
  c_normalize :: "bool option"
  c_wetext :: "bool option"

record clone_result =
  textChunks :: "jsstr list"
  outputs :: "chunk_result list"

definition chunk_of_request :: "clone_request \<Rightarrow> int list list \<Rightarrow> jsstr \<Rightarrow> int list option \<Rightarrow> chunk_request" where
  "chunk_of_request q codes t ids =
     \<lparr>q_text = t, q_textTokenIds = ids, q_promptAudioCodes = codes, q_streaming = c_streaming q,
      q_doSample = c_doSample q, q_sampleMode = c_sampleMode q\<rparr>"

text \<open>\<open>Math.max(0, Math.round(x))\<close> of a finite number.\<close>

definition round_samples :: "num \<Rightarrow> nat" where
  "round_samples x = (case x of Fin y \<Rightarrow> nat \<lfloor>y + 1 / 2\<rfloor> | _ \<Rightarrow> 0)"

definition pause_samples :: "codec_file \<Rightarrow> jsstr \<Rightarrow> nat" where
  "pause_samples c t =
     round_samples (num_mul (Fin (of_nat (sample_rate (codec_config (cf_meta c))))) (estimateVoiceCloneInterChunkPauseSeconds t))"

definition pause_chunk :: "codec_file \<Rightarrow> nat \<Rightarrow> rt_chunk" where
  "pause_chunk c n =
     \<lparr>rc_channels = codec_channels (codec_config (cf_meta c)), rc_sampleRate = sample_rate (codec_config (cf_meta c)),
      rc_data = replicate (codec_channels (codec_config (cf_meta c))) (replicate n (Fin 0)), rc_pause = True\<rparr>"

definition emit_pause :: "platform \<Rightarrow> jsstr \<Rightarrow> chunk_result list rt" where
  "emit_pause P t =
     bindP (needP codecMeta) (\<lambda>c.
       if pause_samples c t > 0
       then bindP (emit_chunk P (pause_chunk c (pause_samples c t))) (\<lambda>_.
         retP [\<lparr>cr_frames = 0, cr_chunks = [pause_chunk c (pause_samples c t)]\<rparr>])
       else retP [])"

fun clone_loop :: "platform \<Rightarrow> clone_request \<Rightarrow> int list list \<Rightarrow> jsstr list \<Rightarrow> chunk_result list rt" where
  "clone_loop P q codes [] = retP []"
| "clone_loop P q codes (t # ts) =
     bindP (poll P) (\<lambda>stop.
       if stop then retP []
       else
         bindP (synthesizeSingleChunk P (chunk_of_request q codes t None)) (\<lambda>out.
         bindP (if ts = [] then retP [] else emit_pause P t) (\<lambda>pause.
         bindP (clone_loop P q codes ts) (\<lambda>rest.
           retP (out # pause @ rest)))))"

definition resolve_voice :: "clone_request \<Rightarrow> int list list rt" where
  "resolve_voice q =
     bindP (getsP (\<lambda>r. case c_promptAudioCodes q of Some cs \<Rightarrow> Some cs
         | None \<Rightarrow> map_option prompt_audio_codes (findVoicePreset r (c_voiceName q) (c_extraVoices q)))) (\<lambda>codes.
       case codes of
         Some (row # rows) \<Rightarrow> retP (row # rows)
       | _ \<Rightarrow> throwP (Error (js ''Voice preset not found or empty: ''
           @ (case c_voiceName q of Some n \<Rightarrow> n | None \<Rightarrow> js ''null''))))"

text \<open>The token counts of the splitter change nothing: the tokenizer is loaded by then.\<close>

definition split_request :: "platform \<Rightarrow> jsstr \<Rightarrow> int option \<Rightarrow> jsstr list rt" where
  "split_request P t maxTokens r = (splitVoiceCloneText (\<lambda>s. fst (countTextTokens P s r)) t maxTokens, r)"

definition has_preencoded :: "clone_request \<Rightarrow> bool" where
  "has_preencoded q = (case c_preencoded q of Some (_ # _) \<Rightarrow> True | _ \<Rightarrow> False)"

definition synthesizeVoiceClone :: "platform \<Rightarrow> clone_request \<Rightarrow> clone_result rt" where
  "synthesizeVoiceClone P q =
     bindP (resolve_voice q) (\<lambda>codes.
     bindP (prepareSynthesisText P (c_text q) (c_normalize q) (c_wetext q)) (\<lambda>info.
     bindP (liftP (pf_on_prepared P info)) (\<lambda>_.
       if has_preencoded q \<and> pt_text info = c_text q
       then bindP (synthesizeSingleChunk P (chunk_of_request q codes (pt_text info) (c_preencoded q))) (\<lambda>out.
         retP \<lparr>textChunks = [pt_text info], outputs = [out]\<rparr>)
       else
         bindP (if has_preencoded q
           then rt_say (js ''Skipping preencoded text token ids because browser-side normalization changed the text.'')
           else retP ()) (\<lambda>_.
         bindP (ensureTokenizerLoaded P) (\<lambda>_.
         bindP (split_request P (pt_text info) (c_maxTextTokens q)) (\<lambda>ts.
         bindP (clone_loop P q codes ts) (\<lambda>outs. retP \<lparr>textChunks = ts, outputs = outs\<rparr>)))))))"

text \<open>What the host page asks for: its request settings as the options of the runtime.\<close>

record settings =
  s_sampleMode :: "jsstr option"
  s_doSample :: "bool option"
  s_realtimeStreamingDecode :: bool
  s_enableNormalizeTtsText :: "bool option"
  s_enableWeTextProcessing :: "bool option"
  s_voiceCloneMaxTextTokens :: "int option"

definition host_request :: "jsstr \<Rightarrow> jsstr option \<Rightarrow> voice_preset list \<Rightarrow> settings option \<Rightarrow> clone_request" where
  "host_request t voiceName extraVoices opt =
     \<lparr>c_text = t, c_voiceName = voiceName, c_promptAudioCodes = None, c_preencoded = None, c_extraVoices = extraVoices,
      c_doSample = Option.bind opt s_doSample, c_sampleMode = Option.bind opt s_sampleMode,
      c_streaming = (case opt of None \<Rightarrow> False | Some s \<Rightarrow> s_realtimeStreamingDecode s),
      c_maxTextTokens = Option.bind opt s_voiceCloneMaxTextTokens,
      c_normalize = Some (Option.bind opt s_enableNormalizeTtsText \<noteq> Some False),
      c_wetext = Some (Option.bind opt s_enableWeTextProcessing \<noteq> Some False)\<rparr>"

section \<open>Warm-up and reference recordings\<close>

definition warmup_frame :: "platform \<Rightarrow> manifest \<Rightarrow> tensor \<Rightarrow> unit rt" where
  "warmup_frame P m hid =
     (let d = resolveGenerationDefaults (m_defaults m) None None; n = n_vq (m_tts_config m)
      in bindP (getsP sessions) (\<lambda>ss.
           if ss (js ''localFixedSampledFrame'') \<noteq> None \<and> sample_mode d = Some SAMPLE_MODE_FIXED
           then bindP (runLocalFixedSampledFrame P hid (replicate n [])) (\<lambda>_. retP ())
           else if ss (js ''localGreedyFrame'') \<noteq> None \<and> sample_mode d = Some SAMPLE_MODE_GREEDY
           then bindP (runLocalGreedyFrame hid (replicate n []) d) (\<lambda>_. retP ())
           else bindP (runLocalDecoder hid (audio_assistant_slot_token_id (m_tts_config m)) []) (\<lambda>_. retP ())))"

definition warmup_codec :: "nat \<Rightarrow> unit rt" where
  "warmup_codec n =
     bindP (decodeFullAudio [replicate n 0]) (\<lambda>_.
     bindP (getsP codecStreamingSession) (\<lambda>cs.
       if cs = None then retP ()
       else bindP stream_reset (\<lambda>_. bindP (stream_run [replicate n 0]) (\<lambda>_. stream_reset))))"

definition warmup_generation :: "platform \<Rightarrow> manifest \<Rightarrow> voice_preset \<Rightarrow> int list \<Rightarrow> unit rt" where
  "warmup_generation P m voice ids =
     bindP (prefill (buildVoiceCloneRequestRows (m_tts_config m) (m_templates m) (prompt_audio_codes voice) ids)) (\<lambda>outs.
     bindP (liftP (bindR (out_tensor outs ''global_hidden'') extractLastHiddenTensor)) (\<lambda>hid.
     bindP (getsP (\<lambda>r. sessions r (js ''localCachedStep''))) (\<lambda>s.
     bindP (if s = None then retP ()
       else bindP (runLocalCachedStep hid \<lparr>cs_textTokenId = 0, cs_audioTokenId = 0, cs_channelIndex = 0, cs_stepType = 0,
           cs_pastValidLength = 0\<rparr>) (\<lambda>_. resetLocalCachedState)) (\<lambda>_.
     bindP (warmup_frame P m hid) (\<lambda>_. warmup_codec (n_vq (m_tts_config m)))))))"

definition warmup_encoder :: "unit rt" where
  "warmup_encoder =
     bindP (needP codecMeta) (\<lambda>c.
       (let chans = codec_channels (codec_config (cf_meta c)); len = max (cf_downsample_rate c) 4096
        in bindP (buildCodecEncodeFeeds (replicate (chans * len) (Fin 0)) len) (\<lambda>f.
           bindP (run_session ''codecEncode'' f) (\<lambda>_. retP ()))))"

definition warmup :: "platform \<Rightarrow> unit rt" where
  "warmup P =
     bindP (ensureSynthesisLoaded P) (\<lambda>_.
     bindP (getsP warmedUp) (\<lambda>warm.
       if warm then retP ()
       else
         bindP (needP rt_manifest) (\<lambda>m.
         bindP (case (builtin_voices m, text_samples m) of
             (voice # _, ids # _) \<Rightarrow> warmup_generation P m voice ids | _ \<Rightarrow> retP ()) (\<lambda>_.
         bindP warmup_encoder (\<lambda>_.
         bindP (modifyP (\<lambda>r. r\<lparr>warmedUp := True\<rparr>)) (\<lambda>_.
           rt_say (js ''Browser ONNX runtime warmed up.'')))))))"

record audio_buffer =
  ab_sampleRate :: num
  ab_duration :: num
  ab_channels :: "num list list"

record audio_env =
  decodeAudioData :: "nat \<Rightarrow> nat list \<Rightarrow> audio_buffer result"
  startRendering :: "nat \<Rightarrow> nat \<Rightarrow> nat \<Rightarrow> audio_buffer \<Rightarrow> audio_buffer result"

definition ab_length :: "audio_buffer \<Rightarrow> nat" where
  "ab_length b = (case ab_channels b of [] \<Rightarrow> 0 | ch # _ \<Rightarrow> length ch)"

definition frame_count :: "num \<Rightarrow> nat \<Rightarrow> nat" where
  "frame_count duration rate =
     (case num_mul duration (Fin (of_nat rate)) of Fin x \<Rightarrow> max 1 (nat \<lceil>x\<rceil>) | _ \<Rightarrow> 1)"

definition render_audio :: "audio_env \<Rightarrow> codec_config \<Rightarrow> audio_buffer \<Rightarrow> audio_buffer result" where
  "render_audio env cfg b =
     (if ab_sampleRate b \<noteq> Fin (of_nat (sample_rate cfg)) \<or> length (ab_channels b) \<noteq> codec_channels cfg
      then startRendering env (codec_channels cfg) (frame_count (ab_duration b) (sample_rate cfg)) (sample_rate cfg) b
      else Inr b)"

definition pack_waveform :: "nat \<Rightarrow> audio_buffer \<Rightarrow> num list result" where
  "pack_waveform chans b =
     foldR (\<lambda>w c. array_set w (ab_channels b ! min c (length (ab_channels b) - 1)) (c * ab_length b))
       (replicate (chans * ab_length b) (Fin 0)) [0..<chans]"

definition decodeAudioToWaveform :: "audio_env \<Rightarrow> nat list \<Rightarrow> (num list \<times> nat) rt" where
  "decodeAudioToWaveform env bytes =
     bindP (needP codecMeta) (\<lambda>c.
       (let cfg = codec_config (cf_meta c)
        in liftP (bindR (decodeAudioData env (sample_rate cfg) bytes) (\<lambda>b.
           bindR (render_audio env cfg b) (\<lambda>rendered.
           bindR (pack_waveform (codec_channels cfg) rendered) (\<lambda>w. Inr (w, ab_length rendered)))))))"

text \<open>A code past the end of the output is \<open>undefined\<close>; where the rows are used, in a typed array, it is 0.\<close>

definition code_rows :: "nat \<Rightarrow> nat \<Rightarrow> int list \<Rightarrow> int list list" where
  "code_rows codeLength numQuantizers cells =
     map (\<lambda>f. map (\<lambda>k. let i = f * numQuantizers + k in if i < length cells then cells ! i else 0) [0..<numQuantizers])
       [0..<codeLength]"

definition encodeReferenceAudioFromFile :: "platform \<Rightarrow> audio_env \<Rightarrow> nat list \<Rightarrow> int list list rt" where
  "encodeReferenceAudioFromFile P env bytes =
     bindP (ensureManifestLoaded P) (\<lambda>_.
     bindP (ensureCodecEncodeLoaded P) (\<lambda>_.
     bindP (decodeAudioToWaveform env bytes) (\<lambda>(waveform, waveformLength).
     bindP (buildCodecEncodeFeeds waveform waveformLength) (\<lambda>f.
     bindP (run_session ''codecEncode'' f) (\<lambda>outs.
     bindP (liftP (out_tensor outs ''audio_code_lengths'')) (\<lambda>lens.
     bindP (needP codecMeta) (\<lambda>c.
     bindP (if first_cell lens > 0 \<and> num_quantizers (codec_config (cf_meta c)) > 0
         then liftP (bindR (out_tensor outs ''audio_codes'') (\<lambda>t. Inr (int_cells t))) else retP []) (\<lambda>cells.
       retP (code_rows (nat (first_cell lens)) (num_quantizers (codec_config (cf_meta c))) cells)))))))))"

section \<open>A small streaming model\<close>

text \<open>A prepared runtime whose sessions all answer alike, for examples; its clock stands still.\<close>

definition stream_codec_file :: codec_file where
  "stream_codec_file = small_codec_file\<lparr>cf_decode_step := Some (js ''s''), cf_streaming := True\<rparr>"

definition stream_platform :: platform where
  "stream_platform = small_platform\<lparr>pf_parse_codec := (\<lambda>_. Inr stream_codec_file), pf_now := (\<lambda>_. Fin 0)\<rparr>"

definition stream_ready :: runtime where
  "stream_ready = (new_runtime \<lparr>fs = FDir (\<lambda>_. None), sent = [], progressLog = []\<rparr>)\<lparr>rt_manifest := Some small_manifest,
     ttsMeta := Some small_tts, codecMeta := Some stream_codec_file, sessions := (\<lambda>_. Some small_session),
     codecStreamingSession := Some (new_codec_session (cf_meta stream_codec_file)), prepared := True, tokenizer := Some []\<rparr>"

definition stream_rows :: request_rows where
  "stream_rows = buildVoiceCloneRequestRows (m_tts_config small_manifest) (m_templates small_manifest) [[1]] [5]"

definition stream_request :: chunk_request where
  "stream_request = \<lparr>q_text = js ''a'', q_textTokenIds = None, q_promptAudioCodes = [[1]], q_streaming = True,
     q_doSample = None, q_sampleMode = None\<rparr>"

definition short_request :: clone_request where
  "short_request = \<lparr>c_text = js ''A.'', c_voiceName = None, c_promptAudioCodes = Some [[1]], c_preencoded = None, c_extraVoices = [],
     c_doSample = None, c_sampleMode = None, c_streaming = False, c_maxTextTokens = None, c_normalize = Some False,
     c_wetext = Some False\<rparr>"

text \<open>A procedure returned.\<close>

definition returned :: "'a result \<times> 's \<Rightarrow> bool" where
  "returned p = (case fst p of Inl _ \<Rightarrow> False | Inr _ \<Rightarrow> True)"

lemma returnedE: "returned p \<Longrightarrow> \<exists>x s'. p = (Inr x, s')"
  by (cases p) (auto simp: returned_def split: sum.splits)

end
