(* ===== verification/Delivery.thy ===== *)
theory Delivery
  imports Synthesis
begin

text \<open>
  What is generated, decoded and delivered. The locale \<open>local_quiet\<close> is the interface between the local
  model, which chooses the codes of a frame, and the facts about the rest of the runtime; it is proved
  once and read through its interpretations. The theorems follow the frames from the generation loop
  through the streaming decoder to the caller.
\<close>

section \<open>The local model touches little\<close>

definition local_keys :: "jsstr set" where
  "local_keys = {js ''localDecoder'', js ''localCachedStep'', js ''localGreedyFrame'', js ''localFixedSampledFrame''}"

text \<open>A predicate that reads none of what choosing a frame writes.\<close>

locale local_quiet = quiet +
  assumes quiet_cached: "I (r\<lparr>cached := c\<rparr>) = I r"
    and quiet_random: "I (r\<lparr>random_reads := n\<rparr>) = I r"
    and quiet_polls: "I (r\<lparr>cancel_polls := n\<rparr>) = I r"
    and quiet_runs: "key \<in> local_keys \<Longrightarrow> I (r\<lparr>runs := runs r @ [(key, f)]\<rparr>) = I r"
begin

lemma keeps_reusable: "keeps I ensureReusableSynthesisState"
  by (rule keeps_ensureReusable) (rule quiet_cached)

lemma keeps_set_cached: "keeps I (modifyP (\<lambda>r. r\<lparr>cached := f r\<rparr>))"
  by (rule keeps_modify) (simp add: quiet_cached)

lemma keeps_run_local: "js key \<in> local_keys \<Longrightarrow> keeps I (run_session key f)"
  by (rule keepsI) (auto simp: run_session_def quiet_runs split: option.splits)

lemma keeps_resetLocal: "keeps I resetLocalCachedState"
  unfolding resetLocalCachedState_def by (rule keeps_set_cached)

lemma keeps_runLocalDecoder: "keeps I (runLocalDecoder h t p)"
  unfolding runLocalDecoder_def
  by (intro keeps_rules keeps_reusable keeps_set_cached keeps_run_local) (simp add: local_keys_def)

lemma keeps_runLocalCachedStep: "keeps I (runLocalCachedStep h a)"
  unfolding runLocalCachedStep_def
  by (intro keeps_rules keeps_reusable keeps_set_cached keeps_run_local) (simp add: local_keys_def)

lemma keeps_runLocalGreedyFrame: "keeps I (runLocalGreedyFrame h s d)"
  unfolding runLocalGreedyFrame_def
  by (intro keeps_rules keeps_reusable keeps_set_cached keeps_run_local) (simp add: local_keys_def)

lemma keeps_draw: "keeps I (draw P)"
  by (rule keepsI) (auto simp: draw_def quiet_random)

lemma keeps_draw_many: "keeps I (draw_many P n)"
  by (induction n) (auto intro!: keeps_rules keeps_draw)

lemma keeps_runLocalFixedSampledFrame: "keeps I (runLocalFixedSampledFrame P h s)"
  unfolding runLocalFixedSampledFrame_def
  by (intro keeps_rules keeps_reusable keeps_set_cached keeps_run_local keeps_draw_many) (simp add: local_keys_def)

lemma keeps_poll: "keeps I (poll P)"
  by (rule keepsI) (auto simp: poll_def quiet_polls)

lemma keeps_choose_audio: "keeps I (choose_audio P d c res h)"
  unfolding choose_audio_def random_if_def by (intro keeps_rules keeps_draw)

lemma keeps_cached_channels: "keeps I (cached_channels P d hid n c frame h)"
proof (induction n arbitrary: c frame h)
  case (Suc n)
  show ?case unfolding cached_channels.simps
    by (intro keeps_rules keeps_poll keeps_runLocalCachedStep keeps_choose_audio Suc)
qed (auto intro: keeps_rules)

lemma keeps_cached_frame: "keeps I (cached_frame P m d i hid h)"
  unfolding cached_frame_def stop_log_def random_if_def
  by (intro keeps_rules keeps_resetLocal keeps_runLocalCachedStep keeps_choose_audio keeps_draw keeps_say keeps_cached_channels)

lemma keeps_take_frame: "keeps I (take_frame m i h res)"
  unfolding take_frame_def stop_log_def by (intro keeps_rules keeps_say)

lemma keeps_one_frame: "keeps I (one_frame P m d i hid h)"
  unfolding one_frame_def fallback_frame_def
  by (intro keeps_rules keeps_runLocalGreedyFrame keeps_runLocalFixedSampledFrame keeps_take_frame keeps_cached_frame)

end

section \<open>What the theorems observe\<close>

definition decode_runs :: "runtime \<Rightarrow> feeds list" where
  "decode_runs r = map snd (filter (\<lambda>(k, f). k = js ''decode'') (runs r))"

definition codec_runs :: "runtime \<Rightarrow> feeds list" where
  "codec_runs r = map snd (filter (\<lambda>(k, f). k = js ''codecDecodeStep'') (runs r))"

record view =
  v_manifest :: "manifest option"
  v_codec :: "codec_file option"
  v_sessions :: "jsstr \<rightharpoonup> ort_session"
  v_session :: "codec_session option"
  v_live :: stream_state
  v_emitted :: "rt_chunk list"
  v_decode :: "feeds list"
  v_codec_runs :: "feeds list"

definition view :: "runtime \<Rightarrow> view" where
  "view r = \<lparr>v_manifest = rt_manifest r, v_codec = codecMeta r, v_sessions = sessions r, v_session = codecStreamingSession r,
     v_live = live r, v_emitted = emitted r, v_decode = decode_runs r, v_codec_runs = codec_runs r\<rparr>"

interpretation vw: local_quiet "\<lambda>r. view r = v" for v
  by unfold_locales (auto simp: view_def decode_runs_def codec_runs_def local_keys_def)

lemma one_frame_view: "one_frame P m d i hid h r = (x, r') \<Longrightarrow> view r' = view r"
  using keepsD [OF vw.keeps_one_frame [of "view r"]] by blast

lemma view_D:
  assumes "view r' = view r"
  shows "rt_manifest r' = rt_manifest r" "codecMeta r' = codecMeta r" "sessions r' = sessions r"
    "codecStreamingSession r' = codecStreamingSession r" "live r' = live r" "emitted r' = emitted r"
    "decode_runs r' = decode_runs r" "codec_runs r' = codec_runs r"
  using assms by (simp_all add: view_def)

section \<open>The width of a frame\<close>

definition history_ok :: "manifest \<Rightarrow> history \<Rightarrow> bool" where
  "history_ok m h \<longleftrightarrow> length (prevTokens h) = n_vq (m_tts_config m)"

lemma note_token_ok: "note_token c tok h = Inr h' \<Longrightarrow> history_ok m h' = history_ok m h"
  by (auto simp: note_token_def history_ok_def split: if_splits)

lemma note_frame_ok: "note_frame c toks h = Inr h' \<Longrightarrow> history_ok m h' = history_ok m h"
  by (induction c toks h rule: note_frame.induct) (auto simp: bindR_Inr dest: note_token_ok)

text \<open>A frame has a code for every channel.\<close>

definition good_frame :: "manifest \<Rightarrow> frame_outcome \<Rightarrow> bool" where
  "good_frame m out = (case out of NewFrame frame h \<Rightarrow> length frame = n_vq (m_tts_config m) \<and> history_ok m h | _ \<Rightarrow> True)"

lemma frame_outputs_width: "frame_outputs m outs = Inr res \<Longrightarrow> length (frame_tokens res) = n_vq (m_tts_config m)"
  by (auto simp: frame_outputs_def bindR_Inr Let_def)

lemma take_frame_good:
  "take_frame m i h res r = (Inr out, r') \<Longrightarrow> length (frame_tokens res) = n_vq (m_tts_config m) \<Longrightarrow> history_ok m h
    \<Longrightarrow> good_frame m out"
  by (auto simp: take_frame_def stop_log_def bindP_Inr liftP_def retP_def good_frame_def note_frame_ok split: if_splits)

lemma cached_channels_good:
  "cached_channels P d hid n c frame h r = (Inr out, r') \<Longrightarrow> length frame + n = n_vq (m_tts_config m) \<Longrightarrow> history_ok m h
    \<Longrightarrow> good_frame m out"
proof (induction n arbitrary: c frame h r)
  case (Suc n)
  then show ?case
    by (fastforce simp: bindP_Inr liftP_def retP_def good_frame_def note_token_ok split: if_splits)
qed (auto simp: retP_def good_frame_def)

lemma choose_audio_channel: "choose_audio P d c res h r = (Inr tok, r') \<Longrightarrow> c < length (prevTokens h)"
  by (auto simp: choose_audio_def bindP_Inr throwP_def split: if_splits)

lemma cached_frame_good:
  assumes "cached_frame P m d i hid h r = (Inr out, r')" and "history_ok m h"
  shows "good_frame m out"
proof -
  from assms(1) consider "out = EndOfAudio"
    | res tok h' r1 r2 where "choose_audio P d 0 res h r1 = (Inr tok, r2)" "note_token 0 tok h = Inr h'"
      "cached_channels P d hid (n_vq (m_tts_config m) - 1) 1 [tok] h' r2 = (Inr out, r')"
    by (auto simp: cached_frame_def stop_log_def bindP_Inr liftP_def retP_def split: if_splits)
  then show ?thesis
  proof cases
    case 2
    have "0 < n_vq (m_tts_config m)" using choose_audio_channel [OF 2(1)] assms(2) unfolding history_ok_def by linarith
    then show ?thesis using cached_channels_good [OF 2(3)] note_token_ok [OF 2(2)] assms(2) by simp
  qed (simp add: good_frame_def)
qed

lemma greedy_width:
  "runLocalGreedyFrame hid s d r = (Inr res, r') \<Longrightarrow> rt_manifest r = Some m \<Longrightarrow> length (frame_tokens res) = n_vq (m_tts_config m)"
proof -
  assume run: "runLocalGreedyFrame hid s d r = (Inr res, r')" and m: "rt_manifest r = Some m"
  from run obtain m' r1 outs where "frame_outputs m' outs = Inr res" "rt_manifest r' = Some m'"
    unfolding runLocalGreedyFrame_def by (auto simp: proc_Inr Let_def)
  moreover have "rt_manifest r' = rt_manifest r"
    by (rule view_D(1), rule keepsD [OF vw.keeps_runLocalGreedyFrame refl run])
  ultimately show ?thesis using m by (auto dest: frame_outputs_width)
qed

lemma fixed_width:
  "runLocalFixedSampledFrame P hid s r = (Inr res, r') \<Longrightarrow> rt_manifest r = Some m \<Longrightarrow> length (frame_tokens res) = n_vq (m_tts_config m)"
proof -
  assume run: "runLocalFixedSampledFrame P hid s r = (Inr res, r')" and m: "rt_manifest r = Some m"
  from run obtain m' r1 outs where "frame_outputs m' outs = Inr res" "rt_manifest r' = Some m'"
    unfolding runLocalFixedSampledFrame_def by (auto simp: proc_Inr Let_def)
  moreover have "rt_manifest r' = rt_manifest r"
    by (rule view_D(1), rule keepsD [OF vw.keeps_runLocalFixedSampledFrame refl run])
  ultimately show ?thesis using m by (auto dest: frame_outputs_width)
qed

lemma one_frame_good:
  assumes "one_frame P m d i hid h r = (Inr out, r')" and "rt_manifest r = Some m" and "history_ok m h"
  shows "good_frame m out"
proof -
  from assms(1) consider
    res r1 where "runLocalGreedyFrame hid (prevSets h) d r = (Inr res, r1)" "take_frame m i h res r1 = (Inr out, r')"
  | res r1 where "runLocalFixedSampledFrame P hid (prevSets h) r = (Inr res, r1)" "take_frame m i h res r1 = (Inr out, r')"
  | "cached_frame P m d i hid h r = (Inr out, r')" | "fallback_frame m h r = (Inr out, r')"
    unfolding one_frame_def by (auto simp: proc_Inr split: if_splits)
  then show ?thesis
  proof cases
    case 1
    then show ?thesis using take_frame_good greedy_width assms(2,3) by blast
  next
    case 2
    then show ?thesis using take_frame_good fixed_width assms(2,3) by blast
  next
    case 3
    then show ?thesis using cached_frame_good assms(3) by blast
  next
    case 4
    then show ?thesis using assms(3) by (auto simp: fallback_frame_def proc_Inr good_frame_def split: if_splits)
  qed
qed

section \<open>The generation loop\<close>

text \<open>What the global model is given: one row per frame, made of the assistant slot and the frame's codes, the
  position one further each time.\<close>

definition decode_log :: "runtime \<Rightarrow> (tensor option \<times> tensor option) list" where
  "decode_log r = map (\<lambda>f. (f (js ''input_ids''), f (js ''past_valid_lengths''))) (decode_runs r)"

fun decode_trace :: "manifest \<Rightarrow> int \<Rightarrow> int list list \<Rightarrow> (tensor option \<times> tensor option) list" where
  "decode_trace m past [] = []"
| "decode_trace m past (frame # frames) =
     (Some (int_tensor (audio_assistant_slot_token_id (m_tts_config m) # frame) [1, 1, n_vq (m_tts_config m) + 1]),
      Some (int_tensor [past] [1])) # decode_trace m (past + 1) frames"

lemma decode_row_full:
  "length frame = n_vq (m_tts_config m) \<Longrightarrow> decode_row m frame (n_vq (m_tts_config m) + 1)
     = audio_assistant_slot_token_id (m_tts_config m) # frame"
  by (simp add: decode_row_def)

lemma decode_step_trace:
  assumes "decode_step m frame past r = (Inr hid, r')" and "rt_manifest r = Some m"
    and "length frame = n_vq (m_tts_config m)"
  shows "rt_manifest r' = Some m \<and> decode_log r' = decode_log r @ decode_trace m past [frame]"
  using assms
  by (auto simp: decode_step_def proc_Inr Let_def run_session_def decode_log_def decode_runs_def updateDecodePastFeeds_def
      decode_row_full [simplified] split: option.splits if_splits)

text \<open>A caller's callback that leaves the manifest and the runs of the global model alone.\<close>

locale frame_sink =
  fixes sink :: "(nat \<Rightarrow> int list \<Rightarrow> unit rt) option"
  assumes sink_manifest: "sink = Some g \<Longrightarrow> g i frame r = (Inr u, r') \<Longrightarrow> rt_manifest r' = rt_manifest r"
    and sink_runs: "sink = Some g \<Longrightarrow> g i frame r = (Inr u, r') \<Longrightarrow> decode_runs r' = decode_runs r"
begin

lemma sink_ok:
  assumes "(case sink of None \<Rightarrow> retP () | Some f \<Rightarrow> f i frame) r = (Inr u, r')"
  shows "rt_manifest r' = rt_manifest r" "decode_runs r' = decode_runs r"
proof -
  show "rt_manifest r' = rt_manifest r"
    by (cases sink) (use assms in \<open>auto simp: proc_Inr dest: sink_manifest\<close>)
  show "decode_runs r' = decode_runs r"
    by (cases sink) (use assms in \<open>auto simp: proc_Inr dest: sink_runs\<close>)
qed

lemma generate_loop_trace:
  assumes "generate_loop P m d sink n i hid past h frames r = (Inr out, r')" and "rt_manifest r = Some m" and "history_ok m h"
  shows "\<exists>new. out = frames @ new \<and> length new \<le> n \<and> (\<forall>f\<in>set new. length f = n_vq (m_tts_config m))
    \<and> rt_manifest r' = Some m \<and> decode_log r' = decode_log r @ decode_trace m past new"
  using assms
proof (induction n arbitrary: i hid past h frames r)
  case 0
  then show ?case by (simp add: proc_Inr)
next
  case (Suc n)
  from Suc.prems(1) obtain stop r1 where p: "poll P r = (Inr stop, r1)" by (auto simp: proc_Inr)
  have v1: "view r1 = view r" by (rule keepsD [OF vw.keeps_poll refl p])
  note w1 = view_D [OF v1]
  show ?case
  proof (cases stop)
    case True
    then show ?thesis using Suc.prems p w1 by (auto simp: proc_Inr decode_log_def)
  next
    case False
    with Suc.prems(1) p obtain o1 r2 where f: "one_frame P m d i hid h r1 = (Inr o1, r2)"
      and rest: "(case o1 of EndOfAudio \<Rightarrow> retP frames | CancelledFrame \<Rightarrow> retP frames
           | NewFrame frame h' \<Rightarrow> bindP (decode_step m frame past) (\<lambda>hid'.
               bindP (case sink of None \<Rightarrow> retP () | Some f \<Rightarrow> f i frame) (\<lambda>_.
                 generate_loop P m d sink n (Suc i) hid' (past + 1) h' (frames @ [frame])))) r2 = (Inr out, r')"
      by (auto simp: proc_Inr)
    have v2: "view r2 = view r" using one_frame_view [OF f] v1 by simp
    note w2 = view_D [OF v2]
    have good: "good_frame m o1" by (rule one_frame_good [OF f]) (use Suc.prems w1 in simp_all)
    show ?thesis
    proof (cases o1)
      case (NewFrame frame h')
      with rest obtain hid' r3 r4 where d: "decode_step m frame past r2 = (Inr hid', r3)"
        and c: "(case sink of None \<Rightarrow> retP () | Some f \<Rightarrow> f i frame) r3 = (Inr (), r4)"
        and l: "generate_loop P m d sink n (Suc i) hid' (past + 1) h' (frames @ [frame]) r4 = (Inr out, r')"
        by (auto simp: proc_Inr)
      have m2: "rt_manifest r2 = Some m" using Suc.prems w2 by simp
      have "length frame = n_vq (m_tts_config m)" using good by (simp add: good_frame_def NewFrame)
      note ds = decode_step_trace [OF d m2 this]
      have c': "rt_manifest r4 = rt_manifest r3" "decode_runs r4 = decode_runs r3" by (rule sink_ok [OF c])+
      obtain new where new: "out = (frames @ [frame]) @ new" "length new \<le> n" "\<forall>f\<in>set new. length f = n_vq (m_tts_config m)"
        "rt_manifest r' = Some m" "decode_log r' = decode_log r4 @ decode_trace m (past + 1) new"
        using Suc.IH [OF l] ds c'(1) good by (auto simp: good_frame_def NewFrame)
      show ?thesis
        by (rule exI [of _ "frame # new"])
          (use new good NewFrame ds c' w2 in \<open>auto simp: good_frame_def decode_log_def\<close>)
    qed (use rest w2 Suc.prems in \<open>auto simp: proc_Inr decode_log_def\<close>)
  qed
qed

end

interpretation none: frame_sink None
  by unfold_locales auto

text \<open>Two rules for the calls of the streaming session.\<close>

lemma keeps_stream_runI:
  assumes "\<And>r cs c s x cs' rs. codecStreamingSession r = Some cs \<Longrightarrow> codecMeta r = Some c \<Longrightarrow> I r
    \<Longrightarrow> runFrames (cf_meta c) (ort_run (s :: ort_session)) rows cs = (x, cs') \<Longrightarrow> rs = runs r \<or> (\<exists>f. rs = runs r @ [(js ''codecDecodeStep'', f)])
    \<Longrightarrow> I (r\<lparr>codecStreamingSession := Some cs', runs := rs\<rparr>)"
  shows "keeps I (stream_run rows)"
proof (rule keepsI)
  fix r x r'
  assume I: "I r" and e: "stream_run rows r = (x, r')"
  show "I r'"
  proof (cases "\<exists>cs c s. codecStreamingSession r = Some cs \<and> codecMeta r = Some c \<and> sessions r (js ''codecDecodeStep'') = Some s")
    case True
    then obtain cs c s where s: "codecStreamingSession r = Some cs" "codecMeta r = Some c"
      "sessions r (js ''codecDecodeStep'') = Some s" by blast
    obtain y cs' where run: "runFrames (cf_meta c) (ort_run s) rows cs = (y, cs')" by fastforce
    then show ?thesis using assms [OF s(1,2) I run] e s by (auto simp: stream_run_def)
  next
    case False
    then show ?thesis using I e by (auto simp: stream_run_def split: option.splits)
  qed
qed

lemma keeps_stream_resetI:
  assumes "\<And>r cs c. codecStreamingSession r = Some cs \<Longrightarrow> codecMeta r = Some c \<Longrightarrow> I r
    \<Longrightarrow> I (r\<lparr>codecStreamingSession := Some (codec_reset (cf_meta c) cs)\<rparr>)"
  shows "keeps I stream_reset"
  by (rule keepsI) (auto simp: stream_reset_def bindP_def needP_def modifyP_def assms split: option.splits)

text \<open>A predicate that decoding the pending frames keeps.\<close>

locale stream_quiet = quiet +
  assumes quiet_live: "I (r\<lparr>live := s\<rparr>) = I r"
    and quiet_clock: "I (r\<lparr>clock_reads := n\<rparr>) = I r"
    and quiet_emitted: "I (r\<lparr>emitted := e\<rparr>) = I r"
    and keeps_stream_run: "keeps I (stream_run rows)"
    and keeps_stream_reset: "keeps I stream_reset"
begin

lemma keeps_live: "keeps I (modifyP (\<lambda>r. r\<lparr>live := f r\<rparr>))"
  by (rule keeps_modify) (simp add: quiet_live)

lemma keeps_clock: "keeps I (read_clock P)"
  by (rule keepsI) (auto simp: read_clock_def quiet_clock)

lemma keeps_emit: "keeps I (emit_chunk P c)"
  by (rule keepsI) (auto simp: emit_chunk_def quiet_emitted)

lemma keeps_take_pending: "keeps I (take_pending n)"
  by (rule keepsI) (auto simp: take_pending_def quiet_live)

lemma keeps_queue_chunk: "keeps I (queue_chunk P label rate n x)"
  unfolding queue_chunk_def note_first_audio_def by (intro keeps_rules keeps_clock keeps_live keeps_emit keeps_say)

lemma keeps_decodePendingFrames: "keeps I (decodePendingFrames P force label)"
  unfolding decodePendingFrames_def decode_batch_def lead_clock_def
  by (intro keeps_rules keeps_clock keeps_take_pending keeps_stream_run keeps_queue_chunk)

lemma keeps_on_stream_frame: "keeps I (on_stream_frame P i frame)"
  unfolding on_stream_frame_def push_frame_def by (intro keeps_rules keeps_live keeps_decodePendingFrames)

end

interpretation sk: stream_quiet "\<lambda>r. rt_manifest r = m \<and> decode_runs r = d" for m d
  by unfold_locales (auto simp: decode_runs_def intro!: keeps_stream_runI keeps_stream_resetI)

interpretation stream: frame_sink "Some (on_stream_frame P)" for P
proof
  fix g i frame r u r'
  assume g: "Some (on_stream_frame P) = Some g" "g i frame r = (Inr u, r')"
  then have "on_stream_frame P i frame r = (Inr u, r')" by simp
  from keepsD [OF sk.keeps_on_stream_frame [of "rt_manifest r" "decode_runs r"] _ this]
  show "rt_manifest r' = rt_manifest r" "decode_runs r' = decode_runs r" by simp_all
qed

text \<open>Everything before the loop: the prompt is run and its key and value tensors are kept.\<close>

lemma history_ok_empty [simp]: "history_ok m (empty_history (n_vq (m_tts_config m)))"
  by (simp add: history_ok_def empty_history_def)

lemma keeps_prefill: "(\<And>r f. I (r\<lparr>runs := runs r @ [(js ''prefill'', f)]\<rparr>) = I r) \<Longrightarrow> keeps I (prefill rows)"
  unfolding prefill_def
  by (intro keeps_rules, rule keepsI) (auto simp: run_session_def split: option.splits)

lemma keeps_updatePast: "(\<And>r c. I (r\<lparr>cached := c\<rparr>) = I r) \<Longrightarrow> keeps I (updateDecodePastFeeds outs)"
  by (rule keepsI) (auto simp: updateDecodePastFeeds_def Let_def split: option.splits if_splits)

lemma generateAudioFrames_loop:
  assumes "generateAudioFrames P rows sink ds sm r = (Inr frames, r')"
  obtains m hid r1 where "view r1 = view r" "rt_manifest r = Some m"
    "generate_loop P m (resolveGenerationDefaults (m_defaults m) ds sm) sink (max_new_frames (m_defaults m)) 0 hid
       (mask_sum (attentionMask rows)) (empty_history (n_vq (m_tts_config m))) [] r1 = (Inr frames, r')"
proof -
  from assms obtain r0 m outs r2 hid r3 where
    s: "ensureReusableSynthesisState r = (Inr (), r0)" "rt_manifest r0 = Some m" "prefill rows r0 = (Inr outs, r2)"
      "updateDecodePastFeeds outs r2 = (Inr (), r3)"
      "generate_loop P m (resolveGenerationDefaults (m_defaults m) ds sm) sink (max_new_frames (m_defaults m)) 0 hid
         (mask_sum (attentionMask rows)) (empty_history (n_vq (m_tts_config m))) [] r3 = (Inr frames, r')"
    unfolding generateAudioFrames_def by (auto simp: proc_Inr)
  have v0: "view r0 = view r" by (rule keepsD [OF vw.keeps_reusable refl s(1)])
  have v2: "view r2 = view r0"
    by (rule keepsD [OF keeps_prefill refl s(3)]) (simp add: view_def decode_runs_def codec_runs_def)
  have v3: "view r3 = view r2"
    by (rule keepsD [OF keeps_updatePast refl s(4)]) (simp add: view_def decode_runs_def codec_runs_def)
  show thesis using that [OF _ _ s(5)] v0 v2 v3 s(2) view_D(1) [OF v0] by simp
qed

lemma generated_trace:
  assumes "generateAudioFrames P rows sink ds sm r = (Inr frames, r')" and "rt_manifest r = Some m"
    and "sink = None \<or> sink = Some (on_stream_frame P)"
  shows "length frames \<le> max_new_frames (m_defaults m) \<and> (\<forall>f\<in>set frames. length f = n_vq (m_tts_config m))
    \<and> decode_log r' = decode_log r @ decode_trace m (mask_sum (attentionMask rows)) frames"
proof -
  obtain m' hid r1 where v: "view r1 = view r" and m': "rt_manifest r = Some m'"
    and l: "generate_loop P m' (resolveGenerationDefaults (m_defaults m') ds sm) sink (max_new_frames (m_defaults m')) 0 hid
       (mask_sum (attentionMask rows)) (empty_history (n_vq (m_tts_config m'))) [] r1 = (Inr frames, r')"
    by (rule generateAudioFrames_loop [OF assms(1)])
  have m: "m' = m" and m1: "rt_manifest r1 = Some m'" using m' assms(2) view_D(1) [OF v] by simp_all
  have log: "decode_log r1 = decode_log r" using view_D(7) [OF v] by (simp add: decode_log_def)
  from assms(3) show ?thesis
  proof
    assume "sink = None"
    then show ?thesis using none.generate_loop_trace [OF _ m1] l history_ok_empty by (fastforce simp: m log)
  next
    assume "sink = Some (on_stream_frame P)"
    then show ?thesis using stream.generate_loop_trace [OF _ m1] l history_ok_empty by (fastforce simp: m log)
  qed
qed

text \<open>C6: Generation feeds back what it returns: at most \<open>max_new_frames\<close> frames come out, each with one code per
  channel, and the global model is run once per returned frame, in order, on the row made of the
  assistant slot and the frame's codes, at the position that starts at the sum of the prompt's
  attention mask and grows by one. It holds with no callback and with the streaming callback, for every choice the local
  model makes and wherever generation stops.\<close>

theorem generated_frames_fed_back:
  assumes "generateAudioFrames P rows sink ds sm r = (Inr frames, r')" and "rt_manifest r = Some m"
    and "sink = None \<or> sink = Some (on_stream_frame P)" and "attentionMask rows \<noteq> []"
  shows "length frames \<le> max_new_frames (m_defaults m) \<and> (\<forall>f\<in>set frames. length f = n_vq (m_tts_config m))
    \<and> decode_log r' = decode_log r @ decode_trace m (sum_list (hd (attentionMask rows))) frames"
  using generated_trace [OF assms(1-3)] assms(4) by (cases "attentionMask rows") (auto simp: mask_sum_def)

section \<open>Streaming\<close>

text \<open>The codes of frames as the codec gets them, and all codes fed to it so far.\<close>

definition codec_codes :: "codec_file \<Rightarrow> int list list \<Rightarrow> int list" where
  "codec_codes c frames = concat (map (frame_codes (num_quantizers (codec_config (cf_meta c)))) frames)"

definition fed_codes :: "runtime \<Rightarrow> int list" where
  "fed_codes r = concat (map (\<lambda>f. case f AUDIO_CODES of None \<Rightarrow> [] | Some t \<Rightarrow> int_cells t) (codec_runs r))"

lemma codec_codes_simps [simp]: "codec_codes c [] = []" "codec_codes c (a @ b) = codec_codes c a @ codec_codes c b"
  by (simp_all add: codec_codes_def)

definition codec_ready :: "codec_file \<Rightarrow> runtime \<Rightarrow> bool" where
  "codec_ready c r \<longleftrightarrow> codecMeta r = Some c \<and> (\<exists>cs. codecStreamingSession r = Some cs \<and> session_ok (cf_meta c) cs)"

definition stream_inv :: "codec_file \<Rightarrow> int list \<Rightarrow> rt_chunk list \<Rightarrow> int list list \<Rightarrow> runtime \<Rightarrow> bool" where
  "stream_inv c C0 E0 frames r \<longleftrightarrow> codec_ready c r
     \<and> fed_codes r @ codec_codes c (pendingDecodeFrames (live r)) = C0 @ codec_codes c frames
     \<and> emitted r = E0 @ stream_chunks (live r)"

lemma stream_run_codes:
  assumes "codec_ready c r" and "stream_run rows r = (Inr d, r')"
  shows "codec_ready c r' \<and> fed_codes r' = fed_codes r @ codec_codes c rows \<and> live r' = live r \<and> emitted r' = emitted r"
proof -
  obtain cs s where cs: "codecMeta r = Some c" "codecStreamingSession r = Some cs" "session_ok (cf_meta c) cs"
    "sessions r (js ''codecDecodeStep'') = Some s"
    using assms by (auto simp: codec_ready_def stream_run_def split: option.splits)
  obtain x cs' where run: "runFrames (cf_meta c) (ort_run s) rows cs = (x, cs')" by fastforce
  have "session_ok (cf_meta c) cs'" by (rule session_ok_run [OF cs(3) run])
  then show ?thesis using assms(2) cs run prepare_run_feeds [OF cs(3), of rows]
    by (auto simp: stream_run_def codec_ready_def fed_codes_def codec_runs_def codec_codes_def int_cells_def AUDIO_CODES_def
        AUDIO_CODE_LENGTHS_def)
qed

lemma queue_chunk_emits:
  assumes "queue_chunk P label rate n x r = (Inr u, r')"
  shows "\<exists>chunk. emitted r' = emitted r @ [chunk] \<and> stream_chunks (live r') = stream_chunks (live r) @ [chunk]
    \<and> pendingDecodeFrames (live r') = pendingDecodeFrames (live r) \<and> codecMeta r' = codecMeta r
    \<and> codecStreamingSession r' = codecStreamingSession r \<and> codec_runs r' = codec_runs r"
  using assms
  by (auto simp: queue_chunk_def note_first_audio_def emit_chunk_def read_clock_def rt_say_def proc_Inr codec_runs_def Let_def
      split: prod.splits if_splits)

lemma decode_batch_inv:
  assumes "stream_inv c C0 E0 frames r" and "decode_batch P label rate n r = (Inr u, r')"
  shows "stream_inv c C0 E0 frames r' \<and> pendingDecodeFrames (live r') = drop n (pendingDecodeFrames (live r))"
proof -
  let ?r1 = "r\<lparr>live := (live r)\<lparr>pendingDecodeFrames := drop n (pendingDecodeFrames (live r))\<rparr>\<rparr>"
  let ?rows = "take n (pendingDecodeFrames (live r))"
  from assms(2) obtain d r2 x where run: "stream_run ?rows ?r1 = (Inr d, r2)"
    and q: "(case x of None \<Rightarrow> retP () | Some y \<Rightarrow> queue_chunk P label rate (length ?rows) y) r2 = (Inr u, r')"
    by (auto simp: decode_batch_def take_pending_def proc_Inr)
  have ready: "codec_ready c ?r1" using assms(1) by (simp add: stream_inv_def codec_ready_def)
  have split: "codec_codes c (pendingDecodeFrames (live r)) = codec_codes c ?rows @ codec_codes c (drop n (pendingDecodeFrames (live r)))"
    by (metis append_take_drop_id codec_codes_simps(2))
  have fed: "fed_codes ?r1 = fed_codes r" by (simp add: fed_codes_def codec_runs_def)
  have 2: "stream_inv c C0 E0 frames r2 \<and> pendingDecodeFrames (live r2) = drop n (pendingDecodeFrames (live r))"
    using stream_run_codes [OF ready run] assms(1) split fed by (simp add: stream_inv_def)
  show ?thesis
  proof (cases x)
    case None
    then show ?thesis using q 2 by (simp add: proc_Inr)
  next
    case (Some y)
    then have "queue_chunk P label rate (length ?rows) y r2 = (Inr u, r')" using q by simp
    from queue_chunk_emits [OF this] 2 show ?thesis by (auto simp: stream_inv_def codec_ready_def fed_codes_def)
  qed
qed

lemma lead_clock_keeps:
  assumes "lead_clock P rate r = (Inr t, r')"
  shows "stream_inv c C0 E0 frames r' = stream_inv c C0 E0 frames r \<and> live r' = live r \<and> codecMeta r' = codecMeta r"
  using assms
  by (auto simp: lead_clock_def read_clock_def proc_Inr stream_inv_def codec_ready_def fed_codes_def codec_runs_def split: if_splits)

lemma decodePendingFrames_inv:
  assumes "stream_inv c C0 E0 frames r" and "decodePendingFrames P force label r = (Inr u, r')"
  shows "stream_inv c C0 E0 frames r' \<and> (force \<longrightarrow> pendingDecodeFrames (live r') = [])"
proof (cases "pendingDecodeFrames (live r) = []")
  case True
  then show ?thesis using assms by (auto simp: decodePendingFrames_def proc_Inr)
next
  case False
  have c: "codecMeta r = Some c" using assms(1) by (simp add: stream_inv_def codec_ready_def)
  let ?rate = "sample_rate (codec_config (cf_meta c))"
  from assms(2) False obtain t1 r1 t2 r2 where k: "lead_clock P ?rate r = (Inr t1, r1)" "lead_clock P ?rate r1 = (Inr t2, r2)"
    and go: "(if \<not> force \<and> \<not> should_decode (live r2)
         (computeStreamLeadSeconds t1 (emittedSamplesTotal (live r2)) ?rate (firstAudioEmittedAtSeconds (live r2)))
         (resolveStreamDecodeFrameBudget t2 (emittedSamplesTotal (live r2)) ?rate (firstAudioEmittedAtSeconds (live r2)))
       then retP () else decode_batch P label ?rate (frame_budget force (live r2)
         (resolveStreamDecodeFrameBudget t2 (emittedSamplesTotal (live r2)) ?rate (firstAudioEmittedAtSeconds (live r2))))) r2 = (Inr u, r')"
    using c by (auto simp: decodePendingFrames_def proc_Inr Let_def)
  have 2: "stream_inv c C0 E0 frames r2" using lead_clock_keeps [OF k(1)] lead_clock_keeps [OF k(2)] assms(1) by simp
  show ?thesis using go decode_batch_inv [OF 2] 2 by (auto simp: proc_Inr frame_budget_def split: if_splits)
qed

lemma on_stream_frame_inv:
  assumes "stream_inv c C0 E0 frames r" and "on_stream_frame P i frame r = (Inr u, r')"
  shows "stream_inv c C0 E0 (frames @ [frame]) r'"
proof -
  let ?r1 = "r\<lparr>live := (live r)\<lparr>pendingDecodeFrames := pendingDecodeFrames (live r) @ [frame]\<rparr>\<rparr>"
  have "decodePendingFrames P False (nat_str i) ?r1 = (Inr u, r')"
    using assms(2) by (auto simp: on_stream_frame_def push_frame_def proc_Inr)
  moreover have "stream_inv c C0 E0 (frames @ [frame]) ?r1"
    using assms(1) by (auto simp: stream_inv_def codec_ready_def fed_codes_def codec_runs_def)
  ultimately show ?thesis using decodePendingFrames_inv by blast
qed

text \<open>The part of the runtime the streaming invariant reads.\<close>

lemma stream_inv_view: "view r' = view r \<Longrightarrow> stream_inv c C0 E0 frames r' = stream_inv c C0 E0 frames r"
  unfolding stream_inv_def codec_ready_def fed_codes_def by (simp add: view_def)

lemma decode_step_inv:
  assumes "decode_step m frame past r = (Inr hid, r')"
  shows "stream_inv c C0 E0 frames r' = stream_inv c C0 E0 frames r"
  using assms
  by (auto simp: decode_step_def proc_Inr Let_def run_session_def updateDecodePastFeeds_def stream_inv_def codec_ready_def
      fed_codes_def codec_runs_def split: option.splits if_splits)

lemma generate_loop_inv:
  assumes "generate_loop P m d (Some (on_stream_frame P)) n i hid past h frames r = (Inr out, r')"
    and "stream_inv c C0 E0 frames r"
  shows "stream_inv c C0 E0 out r'"
  using assms
proof (induction n arbitrary: i hid past h frames r)
  case 0
  then show ?case by (simp add: proc_Inr)
next
  case (Suc n)
  from Suc.prems(1) obtain stop r1 where p: "poll P r = (Inr stop, r1)" by (auto simp: proc_Inr)
  have i1: "stream_inv c C0 E0 frames r1"
    using stream_inv_view [OF keepsD [OF vw.keeps_poll refl p]] Suc.prems(2) by blast
  show ?case
  proof (cases stop)
    case True
    then show ?thesis using Suc.prems(1) p i1 by (auto simp: proc_Inr)
  next
    case False
    with Suc.prems(1) p obtain o1 r2 where f: "one_frame P m d i hid h r1 = (Inr o1, r2)"
      and rest: "(case o1 of EndOfAudio \<Rightarrow> retP frames | CancelledFrame \<Rightarrow> retP frames
           | NewFrame frame h' \<Rightarrow> bindP (decode_step m frame past) (\<lambda>hid'.
               bindP (on_stream_frame P i frame) (\<lambda>_.
                 generate_loop P m d (Some (on_stream_frame P)) n (Suc i) hid' (past + 1) h' (frames @ [frame])))) r2 = (Inr out, r')"
      by (auto simp: proc_Inr)
    have i2: "stream_inv c C0 E0 frames r2" using stream_inv_view [OF one_frame_view [OF f]] i1 by blast
    show ?thesis
    proof (cases o1)
      case (NewFrame frame h')
      with rest obtain hid' r3 r4 where d: "decode_step m frame past r2 = (Inr hid', r3)"
        and cb: "on_stream_frame P i frame r3 = (Inr (), r4)"
        and l: "generate_loop P m d (Some (on_stream_frame P)) n (Suc i) hid' (past + 1) h' (frames @ [frame]) r4 = (Inr out, r')"
        by (auto simp: proc_Inr)
      have "stream_inv c C0 E0 frames r3" using decode_step_inv [OF d] i2 by blast
      then show ?thesis by (rule Suc.IH [OF l on_stream_frame_inv [OF _ cb]])
    qed (use rest i2 in \<open>auto simp: proc_Inr\<close>)
  qed
qed

lemma start_stream_inv:
  assumes "start_stream r = (Inr u, r')" and "codec_ready c r"
  shows "stream_inv c (fed_codes r) (emitted r) [] r' \<and> decode_log r' = decode_log r \<and> rt_manifest r' = rt_manifest r"
  using assms
  by (auto simp: start_stream_def stream_reset_def proc_Inr stream_inv_def codec_ready_def new_stream_def fed_codes_def
      codec_runs_def decode_log_def decode_runs_def session_ok_reset)

text \<open>C5: Streaming decodes every generated frame exactly once and in order: when a streamed chunk of text is done,
  there are frames, as many as the result says, such that the global model was run on exactly these, the
  codes handed to the codec are exactly the codes of these frames, one after the other with none left
  pending, however the clock cut them into batches, and the caller was given exactly the chunks of the
  result, in order.\<close>

theorem streaming_decodes_every_frame:
  assumes "synthesize_stream P rows q r = (Inr res, r')" and "codec_ready c r" and "rt_manifest r = Some m"
  shows "\<exists>frames. length frames = cr_frames res \<and> length frames \<le> max_new_frames (m_defaults m)
    \<and> decode_log r' = decode_log r @ decode_trace m (mask_sum (attentionMask rows)) frames
    \<and> fed_codes r' = fed_codes r @ codec_codes c frames
    \<and> emitted r' = emitted r @ cr_chunks res"
proof -
  from assms(1) obtain r1 frames r2 r3 where s: "start_stream r = (Inr (), r1)"
    "generateAudioFrames P rows (Some (on_stream_frame P)) (q_doSample q) (q_sampleMode q) r1 = (Inr frames, r2)"
    "decodePendingFrames P True (js ''flush'') r2 = (Inr (), r')"
    "res = \<lparr>cr_frames = length frames, cr_chunks = stream_chunks (live r')\<rparr>"
    unfolding synthesize_stream_def by (auto simp: proc_Inr)
  have 1: "stream_inv c (fed_codes r) (emitted r) [] r1" "decode_log r1 = decode_log r" "rt_manifest r1 = Some m"
    using start_stream_inv [OF s(1) assms(2)] assms(3) by simp_all
  have t: "length frames \<le> max_new_frames (m_defaults m)"
    "decode_log r2 = decode_log r1 @ decode_trace m (mask_sum (attentionMask rows)) frames"
    using generated_trace [OF s(2) 1(3)] by simp_all
  have 2: "stream_inv c (fed_codes r) (emitted r) frames r2"
  proof (rule generateAudioFrames_loop [OF s(2)])
    fix m' hid r0
    assume v: "view r0 = view r1" and g: "generate_loop P m' (resolveGenerationDefaults (m_defaults m') (q_doSample q) (q_sampleMode q))
      (Some (on_stream_frame P)) (max_new_frames (m_defaults m')) 0 hid (mask_sum (attentionMask rows))
      (empty_history (n_vq (m_tts_config m'))) [] r0 = (Inr frames, r2)"
    have "stream_inv c (fed_codes r) (emitted r) [] r0" by (rule stream_inv_view [OF v, THEN iffD2, OF 1(1)])
    then show ?thesis by (rule generate_loop_inv [OF g])
  qed
  have d: "decode_runs r' = decode_runs r2"
    using keepsD [OF sk.keeps_decodePendingFrames [of "rt_manifest r2" "decode_runs r2"] _ s(3)] by simp
  have "fed_codes r' = fed_codes r @ codec_codes c frames" "emitted r' = emitted r @ stream_chunks (live r')"
    using decodePendingFrames_inv [OF 2 s(3)] by (auto simp: stream_inv_def)
  then show ?thesis using t 1(2) d s(4) by (intro exI [of _ frames]) (simp add: decode_log_def)
qed

section \<open>What the caller is given\<close>

text \<open>The streaming part of \<open>emitted\<close>: what was given since the streaming synthesis began, also when the callback
  throws.\<close>

definition given :: "rt_chunk list \<Rightarrow> runtime \<Rightarrow> bool" where
  "given E r \<longleftrightarrow> emitted r = E @ stream_chunks (live r)"

interpretation gv: local_quiet "given E" for E
  by unfold_locales (simp_all add: given_def)

interpretation em: local_quiet "\<lambda>r. emitted r = E" for E
  by unfold_locales simp_all

lemma keeps_decode_step:
  assumes "\<And>r c. I (r\<lparr>cached := c\<rparr>) = I r" and "\<And>r f. I (r\<lparr>runs := runs r @ [(js ''decode'', f)]\<rparr>) = I r"
  shows "keeps I (decode_step m frame past)"
  unfolding decode_step_def
  by (intro keeps_rules keeps_modify keeps_updatePast, simp add: assms, rule keepsI)
    (auto simp: run_session_def assms split: option.splits)

text \<open>A predicate that choosing frames, running the global model and the callback keep is kept by generation.\<close>

lemma keeps_generate_loop:
  assumes "keeps I (poll P)" and "\<And>i hid h. keeps I (one_frame P m d i hid h)" and "\<And>frame past. keeps I (decode_step m frame past)"
    and "\<And>g i frame. sink = Some g \<Longrightarrow> keeps I (g i frame)"
  shows "keeps I (generate_loop P m d sink n i hid past h frames)"
proof (induction n arbitrary: i hid past h frames)
  case (Suc n)
  have k: "keeps I (case sink of None \<Rightarrow> retP () | Some f \<Rightarrow> f i frame)" for i frame
    using assms(4) by (cases sink) auto
  have "keeps I (case out of EndOfAudio \<Rightarrow> retP frames | CancelledFrame \<Rightarrow> retP frames
       | NewFrame frame h' \<Rightarrow> bindP (decode_step m frame past) (\<lambda>hid'.
           bindP (case sink of None \<Rightarrow> retP () | Some f \<Rightarrow> f i frame) (\<lambda>_.
             generate_loop P m d sink n (Suc i) hid' (past + 1) h' (frames @ [frame]))))" for out
    by (cases out) (auto intro!: keeps_rules assms(3) k Suc)
  then show ?case unfolding generate_loop.simps by (intro keeps_rules assms(1,2))
qed (auto intro: keeps_rules)

context local_quiet
begin

lemma keeps_generateAudioFrames:
  assumes "\<And>k r f. k \<in> {''prefill'', ''decode''} \<Longrightarrow> I (r\<lparr>runs := runs r @ [(js k, f)]\<rparr>) = I r"
    and "\<And>g i frame. sink = Some g \<Longrightarrow> keeps I (g i frame)"
  shows "keeps I (generateAudioFrames P rows sink ds sm)"
  unfolding generateAudioFrames_def
  by (intro keeps_rules keeps_reusable keeps_prefill keeps_updatePast keeps_generate_loop keeps_poll keeps_one_frame
      keeps_decode_step quiet_cached assms) simp_all

end

lemma given_queue_chunk: "keeps (given E) (queue_chunk P label rate n x)"
  by (rule keepsI)
    (auto simp: queue_chunk_def note_first_audio_def emit_chunk_def read_clock_def rt_say_def given_def bindP_def getsP_def
      modifyP_def retP_def Let_def split: prod.splits if_splits sum.splits)

lemma given_decodePendingFrames: "keeps (given E) (decodePendingFrames P force label)"
proof -
  have clock: "keeps (given E) (read_clock P)" by (rule keepsI) (auto simp: read_clock_def given_def)
  have pend: "keeps (given E) (take_pending n)" for n by (rule keepsI) (auto simp: take_pending_def given_def)
  have run: "keeps (given E) (stream_run rows)" for rows by (rule keeps_stream_runI) (simp add: given_def)
  show ?thesis unfolding decodePendingFrames_def decode_batch_def lead_clock_def
    by (intro keeps_rules clock pend run given_queue_chunk)
qed

lemma given_on_stream_frame: "keeps (given E) (on_stream_frame P i frame)"
  unfolding on_stream_frame_def push_frame_def
  by (intro keeps_rules given_decodePendingFrames keeps_modify) (simp add: given_def)

lemma synthesize_stream_given:
  assumes "synthesize_stream P rows q r = (Inr res, r')"
  shows "emitted r' = emitted r @ cr_chunks res"
proof -
  from assms obtain r1 frames r2 where s: "start_stream r = (Inr (), r1)"
    "generateAudioFrames P rows (Some (on_stream_frame P)) (q_doSample q) (q_sampleMode q) r1 = (Inr frames, r2)"
    "decodePendingFrames P True (js ''flush'') r2 = (Inr (), r')"
    "res = \<lparr>cr_frames = length frames, cr_chunks = stream_chunks (live r')\<rparr>"
    unfolding synthesize_stream_def by (auto simp: proc_Inr)
  have 1: "given (emitted r) r1"
    using s(1) by (auto simp: start_stream_def stream_reset_def proc_Inr given_def new_stream_def)
  have gen: "keeps (given (emitted r)) (generateAudioFrames P rows (Some (on_stream_frame P)) (q_doSample q) (q_sampleMode q))"
    by (rule gv.keeps_generateAudioFrames) (auto simp: given_def given_on_stream_frame)
  have "given (emitted r) r'" using keepsD [OF given_decodePendingFrames keepsD [OF gen 1 s(2)] s(3)] .
  then show ?thesis by (simp add: given_def s(4))
qed

lemma emitted_run_session: "keeps (\<lambda>r. emitted r = E) (run_session k f)"
  by (rule keepsI) (auto simp: run_session_def split: option.splits)

lemma emitted_decodeFullAudio: "keeps (\<lambda>r. emitted r = E) (decodeFullAudio frames)"
  unfolding decodeFullAudio_def by (intro keeps_rules em.keeps_reusable em.keeps_set_cached emitted_run_session)

lemma emitted_incremental_loop: "keeps (\<lambda>r. emitted r = E) (incremental_loop frames merged)"
proof (induction frames merged rule: incremental_loop.induct)
  case (1 frames merged)
  have run: "keeps (\<lambda>r. emitted r = E) (stream_run rows)" for rows by (rule keeps_stream_runI) simp
  show ?case by (subst incremental_loop.simps) (intro keeps_rules run 1, auto)
qed

lemma keeps_finally: "keeps I m \<Longrightarrow> keeps I fin \<Longrightarrow> keeps I (finallyP m fin)"
  by (rule keepsI) (auto simp: finallyP_def split: prod.splits sum.splits dest: keepsD)

lemma emitted_incremental: "keeps (\<lambda>r. emitted r = E) (decodeFullAudioIncremental frames)"
proof -
  have reset: "keeps (\<lambda>r. emitted r = E) stream_reset" by (rule keeps_stream_resetI) simp
  show ?thesis unfolding decodeFullAudioIncremental_def
    by (intro keeps_rules keeps_finally reset emitted_incremental_loop)
qed

lemma synthesize_full_given:
  assumes "synthesize_full P rows q r = (Inr res, r')"
  shows "emitted r' = emitted r @ cr_chunks res"
proof -
  let ?decode = "\<lambda>frames. catchP (bindP (decodeFullAudio frames) full_chunk) (incremental_fallback P frames)"
  from assms obtain frames r1 chunk r2 where s: "generateAudioFrames P rows None (q_doSample q) (q_sampleMode q) r = (Inr frames, r1)"
    "?decode frames r1 = (Inr chunk, r2)"
    "(case chunk of None \<Rightarrow> retP \<lparr>cr_frames = 0, cr_chunks = []\<rparr>
       | Some c \<Rightarrow> bindP (emit_chunk P c) (\<lambda>_. retP \<lparr>cr_frames = length frames, cr_chunks = [c]\<rparr>)) r2 = (Inr res, r')"
    unfolding synthesize_full_def by (auto simp: proc_Inr)
  have gen: "keeps (\<lambda>r. emitted r = E) (generateAudioFrames P rows None (q_doSample q) (q_sampleMode q))" for E
    by (rule em.keeps_generateAudioFrames) simp_all
  have dec: "keeps (\<lambda>r. emitted r = E) (?decode frames)" for E
    unfolding full_chunk_def incremental_fallback_def
    by (intro keeps_rules emitted_decodeFullAudio emitted_incremental em.keeps_say)
  have "emitted r2 = emitted r" using keepsD [OF dec keepsD [OF gen refl s(1)] s(2)] .
  then show ?thesis using s(3) by (cases chunk) (auto simp: proc_Inr emit_chunk_def)
qed

text \<open>A predicate that loading a model keeps.\<close>

locale loading_quiet = quiet +
  assumes keeps_manifest: "keeps I (ensureManifestLoaded P)"
    and quiet_ort: "I (r\<lparr>ortThreads := n\<rparr>) = I r"
    and quiet_sessions: "I (r\<lparr>sessions := s\<rparr>) = I r"
    and quiet_ready: "I (r\<lparr>codecStreamingSession := cs, prepared := b\<rparr>) = I r"
    and quiet_tokenizer: "I (r\<lparr>tokenizer := t, tokenizerModelKey := k\<rparr>) = I r"
begin

lemma keeps_ensureTokenizer: "keeps I (ensureTokenizerLoaded P)"
  unfolding ensureTokenizerLoaded_def resolveManifestRelativeAssetPath_def
  by (intro keeps_rules keeps_manifest keeps_quiet keeps_modify) (simp add: quiet_tokenizer)

lemma keeps_ensureSynthesis: "keeps I (ensureSynthesisLoaded P)"
  unfolding ensureSynthesisLoaded_def ensureOrtConfigured_def load_sessions_def ensure_session_def
  by (intro keeps_rules keeps_manifest keeps_quiet keeps_modify)
    (simp_all add: quiet_ort quiet_sessions quiet_ready quiet_log)

lemma keeps_encodeText: "keeps I (encodeText P t)"
  unfolding encodeText_def by (intro keeps_rules keeps_ensureTokenizer)

end

interpretation em_m: manifest_quiet "\<lambda>r. emitted r = E" for E
  by unfold_locales simp_all

interpretation em_l: loading_quiet "\<lambda>r. emitted r = E" for E
  by unfold_locales (simp_all add: em_m.keeps_ensureManifestLoaded)

lemma validE_returned:
  "(\<And>s x s'. P s \<Longrightarrow> m s = (Inr x, s') \<Longrightarrow> Q x s') \<Longrightarrow> validE P m Q (\<lambda>_. True)"
  by (rule validE_I) auto

lemma single_chunk_given:
  "validE (\<lambda>r. emitted r = E) (synthesizeSingleChunk P q) (\<lambda>res r. emitted r = E @ cr_chunks res) (\<lambda>_. True)"
proof -
  have full: "validE (\<lambda>r. emitted r = E) (synthesize_full P rows q) (\<lambda>res r. emitted r = E @ cr_chunks res) (\<lambda>_. True)" for rows
    by (rule validE_returned) (auto dest: synthesize_full_given)
  have stream: "validE (\<lambda>r. emitted r = E) (synthesize_stream P rows q) (\<lambda>res r. emitted r = E @ cr_chunks res) (\<lambda>_. True)" for rows
    by (rule validE_returned) (auto dest: synthesize_stream_given)
  have load: "keeps (\<lambda>r. emitted r = E) (if q_textTokenIds q = None then ensureTokenizerLoaded P else retP ())"
    "keeps (\<lambda>r. emitted r = E) (resolve_token_ids P q)"
    unfolding resolve_token_ids_def by (intro keeps_rules em_l.keeps_ensureTokenizer em_l.keeps_encodeText)+
  show ?thesis unfolding synthesizeSingleChunk_def
    by (rule validE_bind [OF keeps_any [OF load(1)]], rule validE_bind [OF keeps_any [OF em_l.keeps_ensureSynthesis]],
        rule validE_bind [OF keeps_any [OF load(2)]], rule validE_bind [OF keeps_any [OF keeps_need]],
        rule validE_bind [OF keeps_any [OF keeps_gets]])
      (simp add: Let_def full stream)
qed

lemmas synthesizeSingleChunk_given = validE_Inr [OF single_chunk_given refl]

lemma clone_loop_given:
  "clone_loop P q codes ts r = (Inr outs, r') \<Longrightarrow> emitted r' = emitted r @ concat (map cr_chunks outs)"
proof (induction ts arbitrary: r outs)
  case (Cons t ts)
  from Cons.prems obtain stop r1 where p: "poll P r = (Inr stop, r1)" by (auto simp: proc_Inr)
  have e1: "emitted r1 = emitted r" by (rule keepsD [OF em.keeps_poll refl p])
  show ?case
  proof (cases stop)
    case True
    then show ?thesis using Cons.prems p e1 by (auto simp: proc_Inr)
  next
    case False
    with Cons.prems p obtain out r2 pause r3 rest where s: "synthesizeSingleChunk P (chunk_of_request q codes t None) r1 = (Inr out, r2)"
      "(if ts = [] then retP [] else emit_pause P t) r2 = (Inr pause, r3)" "clone_loop P q codes ts r3 = (Inr rest, r')"
      "outs = out # pause @ rest" by (auto simp: proc_Inr)
    have "emitted r3 = emitted r2 @ concat (map cr_chunks pause)"
      using s(2) by (auto simp: emit_pause_def emit_chunk_def proc_Inr split: if_splits)
    then show ?thesis using synthesizeSingleChunk_given [OF s(1)] Cons.IH [OF s(3)] e1 s(4) by simp
  qed
qed (simp add: proc_Inr)

lemma resolve_voice_state: "resolve_voice q r = (Inr codes, r') \<Longrightarrow> r' = r"
  by (auto simp: resolve_voice_def proc_Inr throwP_def split: option.splits list.splits)

text \<open>C4: The caller hears what the result reports: when a voice-clone request returns, the audio chunks the
  callback was given are exactly the chunks of the result's outputs, pauses included, in the same order,
  on every path: streamed, decoded in one go, decoded in batches after a failed allocation, with
  pre-encoded tokens, or cut short by a cancellation.\<close>

theorem voice_clone_delivers:
  assumes "synthesizeVoiceClone P q r = (Inr res, r')"
  shows "emitted r' = emitted r @ concat (map cr_chunks (outputs res))"
proof -
  from assms obtain codes r0 info r1 where v: "resolve_voice q r = (Inr codes, r0)"
    and p: "prepareSynthesisText P (c_text q) (c_normalize q) (c_wetext q) r0 = (Inr info, r1)"
    and rest: "(if has_preencoded q \<and> pt_text info = c_text q
       then bindP (synthesizeSingleChunk P (chunk_of_request q codes (pt_text info) (c_preencoded q))) (\<lambda>out.
         retP \<lparr>textChunks = [pt_text info], outputs = [out]\<rparr>)
       else bindP (if has_preencoded q
           then rt_say (js ''Skipping preencoded text token ids because browser-side normalization changed the text.'')
           else retP ()) (\<lambda>_. bindP (ensureTokenizerLoaded P) (\<lambda>_.
         bindP (split_request P (pt_text info) (c_maxTextTokens q)) (\<lambda>ts.
         bindP (clone_loop P q codes ts) (\<lambda>outs. retP \<lparr>textChunks = ts, outputs = outs\<rparr>))))) r1 = (Inr res, r')"
    unfolding synthesizeVoiceClone_def by (auto simp: proc_Inr)
  have prep: "keeps (\<lambda>r. emitted r = E) (prepareSynthesisText P t a b)" for E t a b
    unfolding prepareSynthesisText_def by (intro keeps_rules em.keeps_say keeps_modify) simp_all
  have e1: "emitted r1 = emitted r" using keepsD [OF prep refl p] resolve_voice_state [OF v] by simp
  show ?thesis
  proof (cases "has_preencoded q \<and> pt_text info = c_text q")
    case True
    then show ?thesis using rest e1 synthesizeSingleChunk_given by (auto simp: proc_Inr)
  next
    case False
    then obtain r2 r3 ts outs where s: "(if has_preencoded q
           then rt_say (js ''Skipping preencoded text token ids because browser-side normalization changed the text.'')
           else retP ()) r1 = (Inr (), r2)" "ensureTokenizerLoaded P r2 = (Inr (), r3)"
        "clone_loop P q codes ts r3 = (Inr outs, r')" "outputs res = outs"
      using rest by (auto simp: proc_Inr split_request_def)
    have "emitted r2 = emitted r1" using s(1) by (auto simp: rt_say_def proc_Inr split: if_splits)
    then show ?thesis using keepsD [OF em_l.keeps_ensureTokenizer refl s(2)] clone_loop_given [OF s(3)] e1 s(4) by simp
  qed
qed

section \<open>Examples\<close>

lemma stream_ready_facts:
  "rt_manifest stream_ready = Some small_manifest" "codec_ready stream_codec_file stream_ready" "emitted stream_ready = []"
  "decode_log stream_ready = []" "fed_codes stream_ready = []"
  by (simp_all add: stream_ready_def new_runtime_def resetRuntimeCaches_def codec_ready_def session_ok_new decode_log_def
      decode_runs_def fed_codes_def codec_runs_def)

theorem generated_frames_fed_back_witness:
  "\<exists>frames r'. generateAudioFrames stream_platform stream_rows None None None stream_ready = (Inr frames, r')
     \<and> length frames \<le> 2 \<and> decode_log r' = decode_trace small_manifest 8 frames"
proof -
  have "returned (generateAudioFrames stream_platform stream_rows None None None stream_ready)" by code_simp
  then obtain frames r' where g: "generateAudioFrames stream_platform stream_rows None None None stream_ready = (Inr frames, r')"
    using returnedE by blast
  have "sum_list (hd (attentionMask stream_rows)) = 8" "max_new_frames (m_defaults small_manifest) = 2"
    "attentionMask stream_rows \<noteq> []" by code_simp+
  then show ?thesis using g generated_frames_fed_back [OF g stream_ready_facts(1)] by (auto simp: stream_ready_facts)
qed

theorem streaming_decodes_every_frame_witness:
  "\<exists>res r' frames. synthesize_stream stream_platform stream_rows stream_request stream_ready = (Inr res, r')
     \<and> length frames = cr_frames res \<and> fed_codes r' = codec_codes stream_codec_file frames \<and> emitted r' = cr_chunks res"
proof -
  have "returned (synthesize_stream stream_platform stream_rows stream_request stream_ready)" by code_simp
  then obtain res r' where g: "synthesize_stream stream_platform stream_rows stream_request stream_ready = (Inr res, r')"
    using returnedE by blast
  then show ?thesis using streaming_decodes_every_frame [OF g stream_ready_facts(2,1)] by (auto simp: stream_ready_facts)
qed

theorem voice_clone_delivers_witness:
  "\<exists>res r'. synthesizeVoiceClone stream_platform short_request stream_ready = (Inr res, r')
     \<and> emitted r' = concat (map cr_chunks (outputs res))"
proof -
  have "returned (synthesizeVoiceClone stream_platform short_request stream_ready)" by code_simp
  then obtain res r' where g: "synthesizeVoiceClone stream_platform short_request stream_ready = (Inr res, r')"
    using returnedE by blast
  then show ?thesis using voice_clone_delivers [OF g] by (auto simp: stream_ready_facts)
qed

end
