(* ===== verification/Soundness.thy ===== *)
theory Soundness
  imports Delivery
begin

text \<open>
  The invariant of the runtime through its whole public interface, the shape of the result of a
  voice-clone request, the shapes of the tensors that start a generation, and two defects: a model
  without the cached local step cannot generate when it samples fully, and a model with it cannot be
  warmed up then.
\<close>

section \<open>Synthesis keeps what loading keeps\<close>

lemma keeps_conj: "keeps A m \<Longrightarrow> keeps B m \<Longrightarrow> keeps (\<lambda>r. A r \<and> B r) m"
  by (rule keepsI) (blast dest: keepsD)

text \<open>A predicate that every step of a synthesis keeps.\<close>

locale synthesis_quiet = local_quiet I + stream_quiet I for I +
  assumes quiet_all_runs: "I (r\<lparr>runs := rs\<rparr>) = I r"
    and keeps_tokenizer: "keeps I (ensureTokenizerLoaded P)"
    and keeps_synthesis: "keeps I (ensureSynthesisLoaded P)"
    and quiet_warned: "I (r\<lparr>hasWarnedWetextUnavailable := b\<rparr>) = I r"
    and quiet_info: "I (r\<lparr>lastPreparedTextInfo := i\<rparr>) = I r"
begin

lemma keeps_run_session: "keeps I (run_session k f)"
  by (rule keepsI) (auto simp: run_session_def quiet_all_runs split: option.splits)

lemma keeps_decodeFullAudio: "keeps I (decodeFullAudio frames)"
  unfolding decodeFullAudio_def by (intro keeps_rules keeps_reusable keeps_set_cached keeps_run_session)

lemma keeps_incremental_loop: "keeps I (incremental_loop frames merged)"
proof (induction frames merged rule: incremental_loop.induct)
  case (1 frames merged)
  show ?case by (subst incremental_loop.simps) (intro keeps_rules keeps_stream_run 1, auto)
qed

lemma keeps_incremental: "keeps I (decodeFullAudioIncremental frames)"
  unfolding decodeFullAudioIncremental_def by (intro keeps_rules keeps_finally keeps_stream_reset keeps_incremental_loop)

lemma keeps_generate: "sink = None \<or> sink = Some (on_stream_frame P) \<Longrightarrow> keeps I (generateAudioFrames P rows sink ds sm)"
  by (rule keeps_generateAudioFrames) (auto simp: quiet_all_runs keeps_on_stream_frame)

lemma keeps_full: "keeps I (synthesize_full P rows q)"
  unfolding synthesize_full_def full_chunk_def incremental_fallback_def
  by (intro keeps_rules keeps_generate keeps_decodeFullAudio keeps_incremental keeps_say keeps_emit) simp

lemma keeps_stream: "keeps I (synthesize_stream P rows q)"
  unfolding synthesize_stream_def start_stream_def
  by (intro keeps_rules keeps_generate keeps_stream_reset keeps_live keeps_decodePendingFrames) simp

lemma keeps_single: "keeps I (synthesizeSingleChunk P q)"
  unfolding synthesizeSingleChunk_def resolve_token_ids_def encodeText_def
  by (intro keeps_rules keeps_tokenizer keeps_synthesis keeps_full keeps_stream)

lemma keeps_clone_loop: "keeps I (clone_loop P q cs ts)"
proof (induction ts)
  case (Cons t ts)
  show ?case unfolding clone_loop.simps emit_pause_def
    by (intro keeps_rules keeps_poll keeps_single keeps_emit Cons)
qed (auto intro: keeps_rules)

lemma keeps_prepare: "keeps I (prepareSynthesisText P t a b)"
  unfolding prepareSynthesisText_def
  by (intro keeps_rules keeps_say keeps_modify) (simp_all add: quiet_warned quiet_info)

lemma keeps_split: "keeps I (split_request P t n)"
  by (rule keepsI) (simp add: split_request_def)

lemma keeps_resolve_voice: "keeps I (resolve_voice q)"
  by (rule keepsI) (auto simp: resolve_voice_def bindP_def getsP_def retP_def throwP_def split: option.splits list.splits)

lemma keeps_voice_clone: "keeps I (synthesizeVoiceClone P q)"
  unfolding synthesizeVoiceClone_def
  by (intro keeps_rules keeps_resolve_voice keeps_prepare keeps_single keeps_say keeps_tokenizer keeps_split keeps_clone_loop)

lemma keeps_encode_feeds: "keeps I (buildCodecEncodeFeeds w n)"
  unfolding buildCodecEncodeFeeds_def by (intro keeps_rules keeps_say)

lemma keeps_warmup_encoder: "keeps I warmup_encoder"
  unfolding warmup_encoder_def by (intro keeps_rules keeps_run_session keeps_encode_feeds)

lemma keeps_warmup_generation: "keeps I (warmup_generation P m v ids)"
proof -
  have "keeps I (prefill rows)" for rows by (rule keeps_prefill) (rule quiet_all_runs)
  then show ?thesis unfolding warmup_generation_def warmup_frame_def warmup_codec_def
    by (intro keeps_rules keeps_runLocalCachedStep keeps_resetLocal keeps_runLocalFixedSampledFrame keeps_runLocalGreedyFrame
        keeps_runLocalDecoder keeps_decodeFullAudio keeps_stream_run keeps_stream_reset)
qed

end

section \<open>The invariant\<close>

text \<open>A consistent runtime whose streaming session is well-formed for the codec that is loaded.\<close>

definition codec_sound :: "runtime \<Rightarrow> bool" where
  "codec_sound r \<longleftrightarrow> runtime_ok r
     \<and> (\<forall>c cs. codecMeta r = Some c \<longrightarrow> codecStreamingSession r = Some cs \<longrightarrow> session_ok (cf_meta c) cs)"

lemma unprepared_sound: "unprepared r \<Longrightarrow> codec_sound r"
  by (auto simp: codec_sound_def unprepared_ok) (simp add: unprepared_def)

lemma sound_ok: "codec_sound r \<Longrightarrow> runtime_ok r"
  by (simp add: codec_sound_def)

lemma sound_manifest: "keeps codec_sound (ensureManifestLoaded P)"
proof (rule keepsI)
  fix r x r'
  assume s: "codec_sound r" and e: "ensureManifestLoaded P r = (x, r')"
  show "codec_sound r'"
  proof (cases "prepared r")
    case True
    then have "manifest_loaded r" using s by (simp add: codec_sound_def runtime_ok_def)
    then show ?thesis using s e by (simp add: manifest_loaded_skip)
  next
    case False
    then have "unprepared r" using ok_unprepared [OF sound_ok [OF s]] by simp
    then show ?thesis by (rule unprepared_sound [OF keepsD [OF un_m.keeps_ensureManifestLoaded _ e]])
  qed
qed

interpretation cm: quiet "\<lambda>r. codecMeta r = Some c" for c
  by unfold_locales simp_all

lemma load_sessions_session:
  assumes "load_sessions P r = (Inr u, r')"
  shows "\<exists>c. codecMeta r' = Some c
    \<and> (codecStreamingSession r' = None \<or> codecStreamingSession r' = Some (new_codec_session (cf_meta c)))"
proof -
  define r1 where "r1 = r\<lparr>rt_log := rt_log r @ pf_ort_banner P (ortThreads r)\<rparr>"
  from assms obtain c specs r2 where f: "forP specs (ensure_session P) r1 = (Inr (), r2)" and c: "codecMeta r1 = Some c"
    and r': "codecMeta r' = codecMeta r2"
      "codecStreamingSession r' = None \<or> codecStreamingSession r' = Some (new_codec_session (cf_meta c))"
    unfolding load_sessions_def by (simp add: proc_Inr r1_def) force
  have "keeps (\<lambda>r. codecMeta r = Some c) (forP specs (ensure_session P))"
    unfolding ensure_session_def by (intro keeps_rules cm.keeps_quiet keeps_modify) simp
  then have "codecMeta r2 = Some c" using c f by (rule keepsD)
  then show ?thesis using r' by simp
qed

lemma sound_synthesis: "keeps codec_sound (ensureSynthesisLoaded P)"
proof (rule keepsI)
  fix r x r'
  assume s: "codec_sound r" and e: "ensureSynthesisLoaded P r = (x, r')"
  from ensureSynthesisLoaded_cases [OF sound_ok [OF s], of P] show "codec_sound r'"
  proof
    assume "prepared r \<and> ensureSynthesisLoaded P r = (Inr (), r\<lparr>ortThreads := getEffectiveThreadCount P r\<rparr>)"
    then show ?thesis using s e by (auto simp: codec_sound_def runtime_ok_def manifest_loaded_def)
  next
    assume u: "unprepared r \<and> (case ensureSynthesisLoaded P r of (Inr _, r') \<Rightarrow> prepared r' \<and> runtime_ok r' | (Inl _, r') \<Rightarrow> unprepared r')"
    show ?thesis
    proof (cases x)
      case (Inl err)
      then show ?thesis using u e by (simp add: unprepared_sound)
    next
      case (Inr v)
      from e Inr obtain r1 where m: "ensureManifestLoaded P r = (Inr (), r1)"
        and r': "prepared r1 \<or> load_sessions P (r1\<lparr>ortThreads := getEffectiveThreadCount P r1\<rparr>) = (Inr v, r')"
        by (auto simp: ensureSynthesisLoaded_def ensureOrtConfigured_def proc_Inr split: if_splits)
      have "unprepared r1" using u by (auto intro: keepsD [OF un_m.keeps_ensureManifestLoaded _ m])
      then have "load_sessions P (r1\<lparr>ortThreads := getEffectiveThreadCount P r1\<rparr>) = (Inr v, r')"
        using r' by (simp add: unprepared_def)
      from load_sessions_session [OF this] show ?thesis using u e Inr by (auto simp: codec_sound_def session_ok_new)
    qed
  qed
qed

interpretation so: quiet codec_sound
  by unfold_locales (simp_all add: codec_sound_def runtime_ok_def manifest_loaded_def)

lemma sound_tokenizer: "keeps codec_sound (ensureTokenizerLoaded P)"
  unfolding ensureTokenizerLoaded_def resolveManifestRelativeAssetPath_def
  by (intro keeps_rules sound_manifest so.keeps_quiet keeps_modify) (simp add: codec_sound_def runtime_ok_def manifest_loaded_def)

lemma sound_ort: "keeps codec_sound (ensureOrtConfigured P)"
  unfolding ensureOrtConfigured_def by (rule keeps_modify) (simp add: codec_sound_def runtime_ok_def manifest_loaded_def)

lemma sound_ensure_session: "fst spec \<noteq> js ''codecDecodeStep'' \<Longrightarrow> keeps codec_sound (ensure_session P spec)"
  unfolding ensure_session_def
  by (cases spec) (auto simp: codec_sound_def intro!: keeps_rules so.keeps_quiet keeps_modify ok_add_session)

lemma sound_encoder: "keeps codec_sound (ensureCodecEncodeLoaded P)"
  unfolding ensureCodecEncodeLoaded_def
  by (intro keeps_rules sound_manifest sound_ort sound_ensure_session) (simp add: session_spec_def)

lemma sound_configure: "keeps codec_sound (configure path n)"
  unfolding configure_def
  by (intro keeps_rules keeps_modify) (auto simp: codec_sound_def runtime_ok_def manifest_loaded_def resetRuntimeCaches_def)

lemma sound_stream_run: "keeps codec_sound (stream_run rows)"
  by (rule keeps_stream_runI)
    (auto simp: codec_sound_def runtime_ok_def manifest_loaded_def dest: session_ok_run)

lemma sound_stream_reset: "keeps codec_sound stream_reset"
  by (rule keeps_stream_resetI) (auto simp: codec_sound_def runtime_ok_def manifest_loaded_def session_ok_reset)

interpretation sy: synthesis_quiet codec_sound
  by unfold_locales
    (simp_all add: codec_sound_def runtime_ok_def manifest_loaded_def sound_stream_run sound_stream_reset sound_tokenizer
      sound_synthesis)

interpretation pr: manifest_quiet prepared
  by unfold_locales simp_all

lemma prepared_synthesis: "keeps prepared (ensureSynthesisLoaded P)"
  unfolding ensureSynthesisLoaded_def ensureOrtConfigured_def load_sessions_def ensure_session_def
  by (intro keeps_rules pr.keeps_ensureManifestLoaded pr.keeps_quiet keeps_modify) simp_all

lemma prepared_tokenizer: "keeps prepared (ensureTokenizerLoaded P)"
  unfolding ensureTokenizerLoaded_def resolveManifestRelativeAssetPath_def
  by (intro keeps_rules pr.keeps_ensureManifestLoaded pr.keeps_quiet keeps_modify) simp

interpretation sp: synthesis_quiet prepared
  by unfold_locales
    (simp_all add: prepared_synthesis prepared_tokenizer keeps_stream_runI keeps_stream_resetI)

lemma synthesis_loaded_prepared: "codec_sound r \<Longrightarrow> ensureSynthesisLoaded P r = (Inr u, r') \<Longrightarrow> prepared r'"
  using ensureSynthesisLoaded_cases [OF sound_ok, of r P] by auto

lemma sound_warmup: "keeps codec_sound (warmup P)"
proof -
  let ?I = "\<lambda>r. codec_sound r \<and> prepared r"
  have gen: "keeps ?I (warmup_generation P m v ids)" for m v ids
    by (rule keeps_conj [OF sy.keeps_warmup_generation sp.keeps_warmup_generation])
  have enc: "keeps ?I warmup_encoder" by (rule keeps_conj [OF sy.keeps_warmup_encoder sp.keeps_warmup_encoder])
  have say: "keeps ?I (rt_say x)" for x by (rule keeps_conj [OF so.keeps_say pr.keeps_say])
  have mark: "keeps ?I (modifyP (\<lambda>r. r\<lparr>warmedUp := True\<rparr>))"
    by (rule keeps_modify) (simp add: codec_sound_def runtime_ok_def manifest_loaded_def)
  have body: "keeps ?I (bindP (getsP warmedUp) (\<lambda>warm. if warm then retP () else
         bindP (needP rt_manifest) (\<lambda>m.
         bindP (case (builtin_voices m, text_samples m) of
             (voice # _, ids # _) \<Rightarrow> warmup_generation P m voice ids | _ \<Rightarrow> retP ()) (\<lambda>_.
         bindP warmup_encoder (\<lambda>_.
         bindP (modifyP (\<lambda>r. r\<lparr>warmedUp := True\<rparr>)) (\<lambda>_.
           rt_say (js ''Browser ONNX runtime warmed up.'')))))))"
    by (intro keeps_rules enc mark say) (auto intro!: gen keeps_rules split: list.splits)
  have load: "validE codec_sound (ensureSynthesisLoaded P) (\<lambda>_. ?I) codec_sound"
    by (rule validE_I) (auto dest: synthesis_loaded_prepared intro: keepsD [OF sound_synthesis])
  show ?thesis unfolding keeps_def warmup_def
    by (rule validE_bind [OF load], rule validE_weaken [OF keeps_validE [OF body]]) auto
qed

lemma sound_reference: "keeps codec_sound (encodeReferenceAudioFromFile P env bytes)"
proof -
  have "keeps codec_sound (decodeAudioToWaveform env bytes)"
    unfolding decodeAudioToWaveform_def by (intro keeps_rules)
  then show ?thesis unfolding encodeReferenceAudioFromFile_def
    by (intro keeps_rules sound_manifest sound_encoder sy.keeps_encode_feeds sy.keeps_run_session)
qed

text \<open>C7: The runtime stays sound through its whole interface when its methods run one after the other, also
  when one fails halfway: a prepared runtime has its manifest and metadata and every session the model's
  files ask for (prefill, decode, codec decoder and encoder; the greedy, the fixed frame and the codec
  step model when they are named; the cached step, or the local decoder without one), a streaming
  session exists exactly when the model has one and is well-formed for the loaded codec, and nothing
  counts as warmed up that is not prepared. It holds of a new runtime and is kept by configuring, by
  loading, by preparing text, by a voice-clone request, by the warm-up and by encoding a reference
  recording, whether they return or throw and whatever the platform answers.\<close>

theorem runtime_stays_sound:
  "codec_sound (new_runtime st) \<and> keeps codec_sound (configure path threads) \<and> keeps codec_sound (ensureManifestLoaded P)
   \<and> keeps codec_sound (ensureSynthesisLoaded P) \<and> keeps codec_sound (ensureCodecEncodeLoaded P)
   \<and> keeps codec_sound (ensureTokenizerLoaded P) \<and> keeps codec_sound (prepareSynthesisText P t optNorm optWetext)
   \<and> keeps codec_sound (synthesizeVoiceClone P q) \<and> keeps codec_sound (warmup P)
   \<and> keeps codec_sound (encodeReferenceAudioFromFile P env bytes)"
  using sound_configure sound_manifest sound_synthesis sound_encoder sound_tokenizer sy.keeps_prepare sy.keeps_voice_clone
    sound_warmup sound_reference
  by (auto simp: new_runtime_def resetRuntimeCaches_def codec_sound_def runtime_ok_def)

section \<open>The shape of a result\<close>

text \<open>The pause after a text: silence in every channel, at the codec's rate, for 0.4 seconds after at most four
  words and 0.24 seconds after more, rounded to whole samples; none if that is less than one sample.\<close>

definition silence :: "codec_file \<Rightarrow> jsstr \<Rightarrow> chunk_result list" where
  "silence c t =
     (let rate = sample_rate (codec_config (cf_meta c)); channels = codec_channels (codec_config (cf_meta c));
          seconds = (if length (words (trim t)) \<le> 4 then round64 (4 / 10) else round64 (24 / 100));
          n = (case num_mul (Fin (of_nat rate)) seconds of Fin x \<Rightarrow> nat \<lfloor>x + 1 / 2\<rfloor> | _ \<Rightarrow> 0)
      in if n = 0 then []
         else [\<lparr>cr_frames = 0, cr_chunks = [\<lparr>rc_channels = channels, rc_sampleRate = rate,
           rc_data = replicate channels (replicate n (Fin 0)), rc_pause = True\<rparr>]\<rparr>])"

text \<open>The outputs of a request: one per chunk of text that was spoken, and a pause after every chunk but the
  last one of the request.\<close>

fun weave :: "codec_file \<Rightarrow> jsstr list \<Rightarrow> chunk_result list \<Rightarrow> chunk_result list" where
  "weave c (t # ts) (x # xs) = x # (if ts = [] then [] else silence c t) @ weave c ts xs"
| "weave c ts xs = []"

lemma silence_pause:
  "silence c t = (if pause_samples c t > 0 then [\<lparr>cr_frames = 0, cr_chunks = [pause_chunk c (pause_samples c t)]\<rparr>] else [])"
  by (simp add: silence_def Let_def pause_samples_def round_samples_def pause_chunk_def
      estimateVoiceCloneInterChunkPauseSeconds_def pause_short_def pause_long_def)

definition codec_loaded :: "codec_file \<Rightarrow> runtime \<Rightarrow> bool" where
  "codec_loaded c r \<longleftrightarrow> manifest_loaded r \<and> codecMeta r = Some c"

lemma loaded_manifest: "keeps (codec_loaded c) (ensureManifestLoaded P)"
  by (rule keepsI) (auto simp: codec_loaded_def manifest_loaded_skip)

interpretation cl: loading_quiet "codec_loaded c" for c
  by unfold_locales (simp_all add: loaded_manifest, simp_all add: codec_loaded_def manifest_loaded_def)

lemma loaded_stream: "keeps (codec_loaded c) (stream_run rows)" "keeps (codec_loaded c) stream_reset"
  by (rule keeps_stream_runI keeps_stream_resetI, simp add: codec_loaded_def manifest_loaded_def)+

interpretation cs: synthesis_quiet "codec_loaded c" for c
  by unfold_locales
    (simp_all add: cl.keeps_ensureTokenizer cl.keeps_ensureSynthesis loaded_stream codec_loaded_def manifest_loaded_def)

text \<open>The output \<open>x\<close> is what one run of \<open>synthesizeSingleChunk\<close> returned for the text \<open>t\<close>.\<close>

definition spoken :: "platform \<Rightarrow> clone_request \<Rightarrow> int list list \<Rightarrow> jsstr \<Rightarrow> chunk_result \<Rightarrow> bool" where
  "spoken P q cs t x \<longleftrightarrow> (\<exists>s s'. synthesizeSingleChunk P (chunk_of_request q cs t None) s = (Inr x, s'))"

lemma clone_loop_weaves:
  assumes "clone_loop P q cs ts r = (Inr outs, r')" and "codec_loaded c r"
  shows "\<exists>xs. outs = weave c ts xs \<and> length xs \<le> length ts \<and> list_all2 (spoken P q cs) (take (length xs) ts) xs
    \<and> ((\<forall>n. \<not> pf_cancelled P n) \<longrightarrow> length xs = length ts)"
  using assms
proof (induction ts arbitrary: r outs)
  case (Cons t ts)
  from Cons.prems(1) obtain stop r1 where p: "poll P r = (Inr stop, r1)" by (auto simp: proc_Inr)
  show ?case
  proof (cases stop)
    case True
    then have "pf_cancelled P (cancel_polls r)" "outs = []" using Cons.prems(1) p by (auto simp: proc_Inr poll_def)
    then show ?thesis by (intro exI [of _ "[]"]) auto
  next
    case False
    with Cons.prems(1) p obtain out r2 pause r3 rest where s: "synthesizeSingleChunk P (chunk_of_request q cs t None) r1 = (Inr out, r2)"
      "(if ts = [] then retP [] else emit_pause P t) r2 = (Inr pause, r3)" "clone_loop P q cs ts r3 = (Inr rest, r')"
      "outs = out # pause @ rest" by (auto simp: proc_Inr)
    have 2: "codec_loaded c r2"
      by (rule keepsD [OF cs.keeps_single keepsD [OF cs.keeps_poll Cons.prems(2) p] s(1)])
    then have 3: "codec_loaded c r3" "pause = (if ts = [] then [] else silence c t)"
      using s(2) by (auto simp: silence_pause emit_pause_def emit_chunk_def proc_Inr codec_loaded_def manifest_loaded_def split: if_splits)
    obtain xs where xs: "rest = weave c ts xs" "length xs \<le> length ts" "list_all2 (spoken P q cs) (take (length xs) ts) xs"
      "(\<forall>n. \<not> pf_cancelled P n) \<longrightarrow> length xs = length ts"
      using Cons.IH [OF s(3) 3(1)] by blast
    have "spoken P q cs t out" using s(1) by (auto simp: spoken_def)
    then show ?thesis by (intro exI [of _ "out # xs"]) (use xs s(4) 3(2) in auto)
  qed
qed (auto simp: proc_Inr intro!: exI [of _ "[]"])

lemma tokenizer_loads_codec: "ensureTokenizerLoaded P r = (Inr u, r') \<Longrightarrow> \<exists>c. codec_loaded c r'"
proof -
  assume e: "ensureTokenizerLoaded P r = (Inr u, r')"
  then obtain r1 where m: "ensureManifestLoaded P r = (Inr (), r1)" and t: "ensureTokenizerLoaded P r1 = (Inr u, r')"
    by (auto simp: ensureTokenizerLoaded_def proc_Inr manifest_loaded_skip validE_Inr [OF ensureManifestLoaded_loads TrueI])
  from validE_Inr [OF ensureManifestLoaded_loads TrueI m] obtain c where "codec_loaded c r1"
    by (auto simp: codec_loaded_def manifest_loaded_def)
  then show ?thesis using keepsD [OF cl.keeps_ensureTokenizer _ t] by blast
qed

text \<open>C3: A request is spoken chunk by chunk: for a voice-clone request that does not bring its own token ids, the
  outputs are, for a leading part of its text chunks, what the synthesis of each chunk returned, in
  order and each exactly once, with a pause of zeros, 0.4 or 0.24 seconds long, after every chunk but
  the last of the request; and when the request is never cancelled, every chunk of the text is spoken.\<close>

theorem voice_clone_speaks_all:
  assumes "synthesizeVoiceClone P q r = (Inr res, r')" and "\<not> has_preencoded q"
  shows "\<exists>c cs xs. outputs res = weave c (textChunks res) xs \<and> list_all2 (spoken P q cs) (take (length xs) (textChunks res)) xs
    \<and> length xs \<le> length (textChunks res) \<and> ((\<forall>n. \<not> pf_cancelled P n) \<longrightarrow> length xs = length (textChunks res))"
proof -
  from assms obtain cs r1 r2 ts outs where s: "ensureTokenizerLoaded P r1 = (Inr (), r2)"
    "clone_loop P q cs ts r2 = (Inr outs, r')" "res = \<lparr>textChunks = ts, outputs = outs\<rparr>"
    unfolding synthesizeVoiceClone_def by (auto simp: proc_Inr split_request_def)
  from tokenizer_loads_codec [OF s(1)] obtain c where "codec_loaded c r2" by blast
  from clone_loop_weaves [OF s(2) this] show ?thesis unfolding s(3) by auto
qed

section \<open>The tensors of a generation\<close>

definition well_shaped :: "tensor \<Rightarrow> bool" where
  "well_shaped t \<longleftrightarrow> (case tdata t of IntData xs \<Rightarrow> length xs | FloatData xs \<Rightarrow> length xs) = multiplyShape (tdims t)"

lemma flatten_rows:
  assumes "rows \<noteq> []" and "\<forall>row\<in>set rows. length row = w"
  shows "flatten3dInt32 [rows] = Inr (concat (map (frame_codes w) rows), [1, length rows, w])"
proof -
  obtain row rest where r: "rows = row # rest" using assms(1) by (cases rows) auto
  have "flat_row w rows j = Inr (frame_codes w (rows ! j))" if "j \<in> set [0..<length rows]" for j
    using that by (simp add: flat_row_def frame_codes_cells)
  then have "foldR (\<lambda>acc j. bindR (flat_row w rows j) (\<lambda>row. Inr (acc @ row))) [] [0..<length rows]
      = Inr ([] @ concat (map (\<lambda>j. frame_codes w (rows ! j)) [0..<length rows]))"
    by (rule foldR_append)
  moreover have "map (\<lambda>j. frame_codes w (rows ! j)) [0..<length rows] = map (frame_codes w) rows"
    by (rule nth_equalityI) simp_all
  moreover have "length row = w" using assms(2) r by simp
  ultimately show ?thesis by (simp add: flatten3dInt32_def Let_def r [symmetric]) (simp add: r)
qed

lemma request_rows_width: "row \<in> set (inputIds (buildVoiceCloneRequestRows cfg tpl cs ids)) \<Longrightarrow> length row = n_vq cfg + 1"
  by (auto simp: buildVoiceCloneRequestRows_def buildTextRows_def buildAudioPrefixRows_def Let_def)

text \<open>C22: The prompt is well-typed for the model: for every voice, template and text, running the prompt hands the
  prefill session a token tensor of shape 1 by rows by (channels + 1) and a mask of shape 1 by rows, each
  with exactly as many cells as its shape says, and the position at which generation starts is the
  number of rows. No prompt makes the flattening throw.\<close>

theorem prefill_well_shaped:
  assumes "sessions r (js ''prefill'') = Some s"
  shows "\<exists>ids attn. prefill (buildVoiceCloneRequestRows cfg tpl cs toks) r
       = (ort_run s [js ''input_ids'' \<mapsto> ids, js ''attention_mask'' \<mapsto> attn],
          r\<lparr>runs := runs r @ [(js ''prefill'', [js ''input_ids'' \<mapsto> ids, js ''attention_mask'' \<mapsto> attn])]\<rparr>)
     \<and> well_shaped ids \<and> well_shaped attn
     \<and> tdims ids = [1, length (inputIds (buildVoiceCloneRequestRows cfg tpl cs toks)), n_vq cfg + 1]
     \<and> tdims attn = [1, length (inputIds (buildVoiceCloneRequestRows cfg tpl cs toks))]
     \<and> mask_sum (attentionMask (buildVoiceCloneRequestRows cfg tpl cs toks))
         = int (length (inputIds (buildVoiceCloneRequestRows cfg tpl cs toks)))"
proof -
  let ?q = "buildVoiceCloneRequestRows cfg tpl cs toks"
  let ?n = "length (inputIds ?q)" and ?w = "n_vq cfg + 1"
  have ne: "inputIds ?q \<noteq> []" by (simp add: buildVoiceCloneRequestRows_def buildTextRows_def Let_def)
  have mask: "attentionMask ?q = [replicate ?n 1]" by (simp add: buildVoiceCloneRequestRows_def Let_def)
  have f3: "flatten3dInt32 [inputIds ?q] = Inr (concat (map (frame_codes ?w) (inputIds ?q)), [1, ?n, ?w])"
    by (rule flatten_rows [OF ne]) (simp add: request_rows_width)
  have l3: "length (concat (map (frame_codes ?w) (inputIds ?q))) = ?n * ?w"
    using length_concat_const [of "map (frame_codes ?w) (inputIds ?q)" ?w] by (simp add: frame_codes_cells)
  obtain cells where f2: "flatten2dInt32 (attentionMask ?q) = Inr (cells, [1, ?n])" and l2: "length cells = ?n"
    by (simp add: mask flatten2dInt32_def Let_def)
  let ?ids = "\<lparr>tdata = IntData (concat (map (frame_codes ?w) (inputIds ?q))), tdims = [1, ?n, ?w]\<rparr>"
  let ?attn = "\<lparr>tdata = IntData cells, tdims = [1, ?n]\<rparr>"
  have run: "prefill ?q r = run_session ''prefill'' [js ''input_ids'' \<mapsto> ?ids, js ''attention_mask'' \<mapsto> ?attn] r"
    unfolding prefill_def bindP_def liftP_def f3 f2 by simp
  have shape: "well_shaped ?ids" unfolding well_shaped_def multiplyShape_def using l3 by simp
  have "mask_sum (attentionMask ?q) = int ?n" unfolding mask mask_sum_def by (simp add: sum_list_replicate)
  then show ?thesis using run shape l2 assms
    by (intro exI [of _ ?ids] exI [of _ ?attn]) (simp add: run_session_def well_shaped_def multiplyShape_def)
qed

section \<open>Decoding in batches\<close>

lemma stream_run_count:
  assumes "codec_ready c r" and "stream_run rows r = (Inr d, r')" and "rows \<noteq> []"
  shows "length (codec_runs r') = Suc (length (codec_runs r))"
  using assms by (auto simp: codec_ready_def stream_run_def codec_runs_def split: option.splits prod.splits)

lemma batches_Suc: "frames \<noteq> [] \<Longrightarrow> (length frames + 7) div 8 = Suc ((length (drop 8 frames) + 7) div 8)"
  by (cases "length frames \<le> 8") (simp_all add: le_div_geq div_if length_greater_0_conv [symmetric] del: length_greater_0_conv)

lemma incremental_loop_codes:
  assumes "incremental_loop frames merged r = (Inr out, r')" and "codec_ready c r"
  shows "codec_ready c r' \<and> fed_codes r' = fed_codes r @ codec_codes c frames
    \<and> length (codec_runs r') = length (codec_runs r) + (length frames + 7) div 8"
  using assms
proof (induction frames merged arbitrary: r rule: incremental_loop.induct)
  case (1 frames merged)
  show ?case
  proof (cases "frames = []")
    case True
    then show ?thesis using "1.prems" by (simp add: incremental_loop.simps proc_Inr)
  next
    case False
    then obtain d r1 x where s: "stream_run (take 8 frames) r = (Inr d, r1)" "decoded_samples d = Inr x"
      "incremental_loop (drop 8 frames) (case x of None \<Rightarrow> merged | Some (_, _, chunkData) \<Rightarrow> push_chunks chunkData merged) r1 = (Inr out, r')"
      using "1.prems"(1) by (subst (asm) incremental_loop.simps) (auto simp: proc_Inr)
    note a = stream_run_codes [OF "1.prems"(2) s(1)] and n = stream_run_count [OF "1.prems"(2) s(1)]
    have ih: "codec_ready c r' \<and> fed_codes r' = fed_codes r1 @ codec_codes c (drop 8 frames)
      \<and> length (codec_runs r') = length (codec_runs r1) + (length (drop 8 frames) + 7) div 8"
      using "1.IH" [OF False s(3)] a by blast
    have "codec_codes c frames = codec_codes c (take 8 frames) @ codec_codes c (drop 8 frames)"
      by (metis append_take_drop_id codec_codes_simps(2))
    then show ?thesis using ih a n batches_Suc [OF False] False by simp
  qed
qed

text \<open>C27: The fallback decoder loses nothing: when decoding in batches after a failed allocation returns, it has made
  one codec run per batch of eight frames and so as many as the number of frames divided by eight, rounded up; the
  codes of all frames go through the codec once and in order, the same codes that decoding in one go
  hands over; and the streaming session is left reset.\<close>

theorem incremental_decode_complete:
  assumes "decodeFullAudioIncremental frames r = (Inr out, r')" and "codec_ready c r" and "frames \<noteq> []"
  shows "fed_codes r' = fed_codes r @ codec_codes c frames
    \<and> length (codec_runs r') = length (codec_runs r) + (length frames + 7) div 8
    \<and> (\<exists>cs. codecStreamingSession r' = Some cs \<and> stateFeeds cs = fresh_state (cf_meta c))
    \<and> ((\<forall>f\<in>set frames. length f = num_quantizers (codec_config (cf_meta c)))
        \<longrightarrow> flatten3dInt32 [frames] = Inr (codec_codes c frames, [1, length frames, num_quantizers (codec_config (cf_meta c))]))"
proof -
  obtain cs where cs: "codecMeta r = Some c" "codecStreamingSession r = Some cs" "session_ok (cf_meta c) cs"
    using assms(2) by (auto simp: codec_ready_def)
  let ?r1 = "r\<lparr>codecStreamingSession := Some (codec_reset (cf_meta c) cs)\<rparr>"
  from assms(1,3) cs obtain merged r2 where
    loop: "incremental_loop frames (replicate (codec_channels (codec_config (cf_meta c))) []) ?r1 = (Inr merged, r2)"
    and reset: "stream_reset r2 = (Inr (), r')"
    unfolding decodeFullAudioIncremental_def finallyP_def
    by (auto simp: proc_Inr Let_def stream_reset_def split: prod.splits sum.splits)
  have ready: "codec_ready c ?r1" using cs by (simp add: codec_ready_def session_ok_reset)
  have same: "fed_codes ?r1 = fed_codes r" "codec_runs ?r1 = codec_runs r" by (simp_all add: fed_codes_def codec_runs_def)
  note l = incremental_loop_codes [OF loop ready]
  then obtain cs2 where cs2: "codecMeta r2 = Some c" "codecStreamingSession r2 = Some cs2" by (auto simp: codec_ready_def)
  then have r': "r' = r2\<lparr>codecStreamingSession := Some (codec_reset (cf_meta c) cs2)\<rparr>"
    using reset by (auto simp: stream_reset_def proc_Inr)
  have "fed_codes r' = fed_codes r2" "codec_runs r' = codec_runs r2" by (simp_all add: r' fed_codes_def codec_runs_def)
  moreover have "stateFeeds (codec_reset (cf_meta c) cs2) = fresh_state (cf_meta c)" by (simp add: codec_reset_def Let_def)
  ultimately show ?thesis using l same flatten_rows [OF assms(3)] by (simp add: r' codec_codes_def)
qed

section \<open>Two defects\<close>

lemma full_sampling: "sample_mode (resolveGenerationDefaults b ds sm) = Some SAMPLE_MODE_FULL \<Longrightarrow> sampling_on (resolveGenerationDefaults b ds sm)"
  by (auto simp: resolveGenerationDefaults_def sampling_on_def Let_def SAMPLE_MODE_FULL_def SAMPLE_MODE_GREEDY_def)

lemma full_not_others: "SAMPLE_MODE_FULL \<noteq> SAMPLE_MODE_FIXED" "SAMPLE_MODE_FULL \<noteq> SAMPLE_MODE_GREEDY"
  by (simp_all add: SAMPLE_MODE_FULL_def SAMPLE_MODE_FIXED_def SAMPLE_MODE_GREEDY_def)

lemma fallback_throws:
  assumes "sample_mode d = Some SAMPLE_MODE_FULL" and "sampling_on d" and "sessions r (js ''localCachedStep'') = None"
    and "0 < n_vq (m_tts_config m)" and "\<forall>n. \<not> pf_cancelled P n" and "0 < n"
  shows "\<exists>r'. generate_loop P m d sink n i hid past h frames r = (Inl (ReferenceError (js ''nextTextToken'')), r')"
  using assms
  by (cases n) (auto simp: bindP_def poll_def one_frame_def getsP_def fallback_frame_def throwP_def full_not_others)

text \<open>C40: A model without the cached local step cannot sample: with the sampling mode \<open>full\<close>, for a model without
  a session \<open>localCachedStep\<close> that has at least one channel and allows at least one frame, a generation
  that is never cancelled returns no audio codes. As soon as the prompt itself has run, it ends in a
  \<open>ReferenceError\<close> at the first frame: the branch for such models names a variable that is not declared.\<close>

theorem no_cached_step_never_generates:
  assumes "rt_manifest r = Some m" and "sessions r (js ''localCachedStep'') = None"
    and "sample_mode (resolveGenerationDefaults (m_defaults m) ds sm) = Some SAMPLE_MODE_FULL"
    and "0 < n_vq (m_tts_config m)" and "0 < max_new_frames (m_defaults m)" and "\<forall>n. \<not> pf_cancelled P n"
  shows "(\<nexists>frames r'. generateAudioFrames P rows sink ds sm r = (Inr frames, r'))
    \<and> (\<forall>r0 outs r1 hid r2. ensureReusableSynthesisState r = (Inr (), r0) \<and> prefill rows r0 = (Inr outs, r1)
         \<and> bindR (out_tensor outs ''global_hidden'') extractLastHiddenTensor = Inr hid
         \<and> updateDecodePastFeeds outs r1 = (Inr (), r2)
         \<longrightarrow> (\<exists>r'. generateAudioFrames P rows sink ds sm r = (Inl (ReferenceError (js ''nextTextToken'')), r')))"
proof -
  have fails: "\<exists>r2. generate_loop P m (resolveGenerationDefaults (m_defaults m) ds sm) sink (max_new_frames (m_defaults m)) 0 hid
       (mask_sum (attentionMask rows)) (empty_history (n_vq (m_tts_config m))) [] r1 = (Inl (ReferenceError (js ''nextTextToken'')), r2)"
    if "view r1 = view r" for hid r1
  proof -
    have "sessions r1 (js ''localCachedStep'') = None" using view_D(3) [OF that] assms(2) by simp
    from fallback_throws [OF assms(3) full_sampling [OF assms(3)] this assms(4,6,5)] show ?thesis by blast
  qed
  have "(Inr frames, r') \<noteq> generateAudioFrames P rows sink ds sm r" for frames r'
  proof
    assume "(Inr frames, r') = generateAudioFrames P rows sink ds sm r"
    then obtain m' hid r1 where v: "view r1 = view r" and m': "rt_manifest r = Some m'"
      and l: "generate_loop P m' (resolveGenerationDefaults (m_defaults m') ds sm) sink (max_new_frames (m_defaults m')) 0 hid
         (mask_sum (attentionMask rows)) (empty_history (n_vq (m_tts_config m'))) [] r1 = (Inr frames, r')"
      by (rule generateAudioFrames_loop [OF sym])
    then show False using fails [OF v, of hid] assms(1) by auto
  qed
  moreover have "\<exists>r'. generateAudioFrames P rows sink ds sm r = (Inl (ReferenceError (js ''nextTextToken'')), r')"
    if s: "ensureReusableSynthesisState r = (Inr (), r0)" "prefill rows r0 = (Inr outs, r1)"
      "bindR (out_tensor outs ''global_hidden'') extractLastHiddenTensor = Inr hid"
      "updateDecodePastFeeds outs r1 = (Inr (), r2)" for r0 outs r1 hid r2
  proof -
    have v0: "view r0 = view r" by (rule keepsD [OF vw.keeps_reusable refl s(1)])
    have v1: "view r1 = view r0"
      by (rule keepsD [OF keeps_prefill refl s(2)]) (simp add: view_def decode_runs_def codec_runs_def)
    have "view r2 = view r1"
      by (rule keepsD [OF keeps_updatePast refl s(4)]) (simp add: view_def decode_runs_def codec_runs_def)
    then have "view r2 = view r" using v0 v1 by simp
    moreover have "rt_manifest r0 = Some m" using view_D(1) [OF v0] assms(1) by simp
    ultimately show ?thesis
      using s fails unfolding generateAudioFrames_def by (simp add: bindP_def needP_def liftP_def)
  qed
  ultimately show ?thesis by metis
qed

lemma runLocalDecoder_needs_session:
  assumes "sessions r (js ''localDecoder'') = None"
  shows "runLocalDecoder hid t p r \<noteq> (Inr res, r')"
proof
  assume "runLocalDecoder hid t p r = (Inr res, r')"
  then obtain r1 f r2 outs where s: "ensureReusableSynthesisState r = (Inr (), r1)"
    "run_session ''localDecoder'' f (r1\<lparr>cached := (cached r1)\<lparr>reusableLocalDecoderFeeds := Some f\<rparr>\<rparr>) = (Inr outs, r2)"
    unfolding runLocalDecoder_def by (auto simp: proc_Inr Let_def)
  have "view r1 = view r" by (rule keepsD [OF vw.keeps_reusable refl s(1)])
  then have "sessions r1 (js ''localDecoder'') = None" using view_D(3) [of r1 r] assms by simp
  then show False using s(2) by (simp add: run_session_def)
qed

text \<open>A model with the cached local step cannot be warmed up in the sampling mode \<open>full\<close>: when its files ask for
  the cached step, no session \<open>localDecoder\<close> is created, and the warm-up of a model that has a built-in
  voice and a text sample and defaults to full sampling calls that session. It never returns, however
  often it is tried, and the runtime never counts as warmed up.\<close>

theorem warmup_fails_with_full_sampling:
  assumes "ensureSynthesisLoaded P r = (Inr (), r1)" and "\<not> warmedUp r1" and "rt_manifest r1 = Some m"
    and "builtin_voices m \<noteq> []" and "text_samples m \<noteq> []" and "sessions r1 (js ''localDecoder'') = None"
    and "sample_mode (resolveGenerationDefaults (m_defaults m) None None) = Some SAMPLE_MODE_FULL"
  shows "\<nexists>r'. warmup P r = (Inr (), r')"
proof clarify
  fix r'
  assume "warmup P r = (Inr (), r')"
  then obtain voice ids r2 where "warmup_generation P m voice ids r1 = (Inr (), r2)"
    using assms(1-5) unfolding warmup_def by (cases "builtin_voices m"; cases "text_samples m") (auto simp: proc_Inr)
  then obtain outs r3 hid r4 u where s: "prefill (buildVoiceCloneRequestRows (m_tts_config m) (m_templates m) (prompt_audio_codes voice) ids) r1 = (Inr outs, r3)"
    "(if sessions r3 (js ''localCachedStep'') = None then retP ()
       else bindP (runLocalCachedStep hid \<lparr>cs_textTokenId = 0, cs_audioTokenId = 0, cs_channelIndex = 0, cs_stepType = 0,
           cs_pastValidLength = 0\<rparr>) (\<lambda>_. resetLocalCachedState)) r3 = (Inr (), r4)"
    "warmup_frame P m hid r4 = (Inr u, r2) \<or> (\<exists>r5. warmup_frame P m hid r4 = (Inr u, r5))"
    unfolding warmup_generation_def by (auto simp: proc_Inr)
  have v3: "view r3 = view r1"
    by (rule keepsD [OF keeps_prefill refl s(1)]) (simp add: view_def decode_runs_def codec_runs_def)
  have k: "keeps (\<lambda>r. view r = v) (if sessions r3 (js ''localCachedStep'') = None then retP ()
       else bindP (runLocalCachedStep hid \<lparr>cs_textTokenId = 0, cs_audioTokenId = 0, cs_channelIndex = 0, cs_stepType = 0,
           cs_pastValidLength = 0\<rparr>) (\<lambda>_. resetLocalCachedState))" for v
    by (intro keeps_rules vw.keeps_runLocalCachedStep vw.keeps_resetLocal)
  have "view r4 = view r1" using keepsD [OF k refl s(2)] v3 by simp
  then have "sessions r4 (js ''localDecoder'') = None" using view_D(3) [of r4 r1] assms(6) by simp
  then show False using s(3) assms(7) runLocalDecoder_needs_session
    by (auto simp: warmup_frame_def Let_def proc_Inr full_not_others split: if_splits)
qed

section \<open>Examples\<close>

theorem voice_clone_speaks_all_witness:
  "\<exists>res r' c cs xs. synthesizeVoiceClone stream_platform short_request stream_ready = (Inr res, r')
     \<and> outputs res = weave c (textChunks res) xs \<and> list_all2 (spoken stream_platform short_request cs) (textChunks res) xs"
proof -
  have "returned (synthesizeVoiceClone stream_platform short_request stream_ready)" by code_simp
  then obtain res r' where g: "synthesizeVoiceClone stream_platform short_request stream_ready = (Inr res, r')"
    using returnedE by blast
  have "\<not> has_preencoded short_request" "\<forall>n. \<not> pf_cancelled stream_platform n"
    by (simp_all add: has_preencoded_def short_request_def stream_platform_def small_platform_def)
  then show ?thesis using g voice_clone_speaks_all [OF g] by fastforce
qed

theorem prefill_well_shaped_witness:
  "\<exists>ids attn. fst (prefill (buildVoiceCloneRequestRows (m_tts_config small_manifest) (m_templates small_manifest) [[1], [2]] [5]) stream_ready)
      = ort_run small_session [js ''input_ids'' \<mapsto> ids, js ''attention_mask'' \<mapsto> attn]
     \<and> well_shaped ids \<and> well_shaped attn"
proof -
  have "sessions stream_ready (js ''prefill'') = Some small_session" by (simp add: stream_ready_def)
  from prefill_well_shaped [OF this, of "m_tts_config small_manifest" "m_templates small_manifest" "[[1], [2]]" "[5]"]
  show ?thesis by (metis fst_conv)
qed

theorem incremental_decode_complete_witness:
  "\<exists>out r'. decodeFullAudioIncremental [[5], [6]] stream_ready = (Inr out, r') \<and> fed_codes r' = [5, 6]
     \<and> length (codec_runs r') = 1"
proof -
  have "returned (decodeFullAudioIncremental [[5], [6]] stream_ready)" by code_simp
  then obtain out r' where g: "decodeFullAudioIncremental [[5], [6]] stream_ready = (Inr out, r')" using returnedE by blast
  have "codec_codes stream_codec_file [[5], [6]] = [5, 6]" by code_simp
  moreover have "codec_runs stream_ready = []" by (simp add: stream_ready_def new_runtime_def resetRuntimeCaches_def codec_runs_def)
  ultimately show ?thesis using g incremental_decode_complete [OF g stream_ready_facts(2)] by (auto simp: stream_ready_facts)
qed

text \<open>The small model, sampling fully, without and with the cached step.\<close>

definition full_manifest :: manifest where
  "full_manifest = small_manifest\<lparr>m_defaults := (m_defaults small_manifest)\<lparr>do_sample := Some True, sample_mode := Some (js ''full'')\<rparr>,
     builtin_voices := [\<lparr>vp_voice = None, vp_id = None, vp_display_name = None, prompt_audio_codes = [[1]]\<rparr>], text_samples := [[5]]\<rparr>"

definition full_ready :: "string \<Rightarrow> runtime" where
  "full_ready missing = stream_ready\<lparr>rt_manifest := Some full_manifest,
     sessions := (\<lambda>k. if k = js missing then None else Some small_session)\<rparr>"

lemma full_mode: "sample_mode (resolveGenerationDefaults (m_defaults full_manifest) None None) = Some SAMPLE_MODE_FULL"
  by code_simp

theorem no_cached_step_never_generates_witness:
  "fst (generateAudioFrames stream_platform stream_rows None None None (full_ready ''localCachedStep''))
      = Inl (ReferenceError (js ''nextTextToken''))
   \<and> (\<nexists>frames r'. generateAudioFrames stream_platform stream_rows None None None (full_ready ''localCachedStep'') = (Inr frames, r'))"
proof -
  have "fst (generateAudioFrames stream_platform stream_rows None None None (full_ready ''localCachedStep''))
      = Inl (ReferenceError (js ''nextTextToken''))" by code_simp
  moreover have "\<nexists>frames r'. generateAudioFrames stream_platform stream_rows None None None (full_ready ''localCachedStep'') = (Inr frames, r')"
    by (rule no_cached_step_never_generates [where m = full_manifest, OF _ _ full_mode, THEN conjunct1])
      (simp_all add: full_ready_def full_manifest_def small_manifest_def stream_platform_def small_platform_def)
  ultimately show ?thesis by simp
qed

theorem warmup_fails_with_full_sampling_witness:
  "\<nexists>r'. warmup stream_platform (full_ready ''localDecoder'') = (Inr (), r')"
proof (rule warmup_fails_with_full_sampling [where m = full_manifest, OF _ _ _ _ _ _ full_mode])
  show "ensureSynthesisLoaded stream_platform (full_ready ''localDecoder'')
      = (Inr (), (full_ready ''localDecoder'')\<lparr>ortThreads := getEffectiveThreadCount stream_platform (full_ready ''localDecoder'')\<rparr>)"
    by (simp add: ensureSynthesisLoaded_def ensureManifestLoaded_def ensureOrtConfigured_def bindP_def modifyP_def getsP_def retP_def
        full_ready_def stream_ready_def)
qed (simp_all add: full_ready_def full_manifest_def stream_ready_def new_runtime_def resetRuntimeCaches_def)

end
