(* ===== verification/KittenNumbers.thy ===== *)
theory KittenNumbers
  imports Numbers
begin

text \<open>
  Numbers in words, the first part of the Kitten preprocessor (\<open>src/preprocess.js\<close> inside
  \<open>kitten-tts.browser.js\<close>): \<open>number_to_words\<close>, \<open>float_to_words\<close> and \<open>_ordinal_suffix\<close>, with the parts of the
  language they use: \<open>parseInt\<close> and \<open>parseFloat\<close> on decimal text and the shortest decimal text of a double.

  The reference is a reader of number words. It gets back every whole number below \<open>10 ^ 15\<close>; from
  there on the scale words run out.
\<close>

section \<open>Whole numbers as the language has them\<close>

text \<open>The values of \<open>parseInt\<close>: \<open>NaN\<close>, an infinity (\<open>True\<close> for the negative one) or a whole double.\<close>

datatype jsint = NotANumber | Infinite bool | Whole int

definition whole_of :: "num \<Rightarrow> jsint" where
  "whole_of x = (case x of NaN \<Rightarrow> NotANumber | PInf \<Rightarrow> Infinite False | NInf \<Rightarrow> Infinite True | Fin q \<Rightarrow> Whole \<lfloor>q\<rfloor>)"

definition digits_value :: "jsstr \<Rightarrow> nat" where
  "digits_value ds = foldl (\<lambda>v d. 10 * v + (d - 48)) 0 ds"

definition signed_part :: "jsstr \<Rightarrow> bool \<times> jsstr" where
  "signed_part s = (case ltrim s of [] \<Rightarrow> (False, [])
     | c # cs \<Rightarrow> if c = 45 then (True, cs) else if c = 43 then (False, cs) else (False, c # cs))"

text \<open>\<open>parseInt(s, 10)\<close>: white space, a sign, the longest run of digits; the value is rounded to a double.\<close>

definition parseInt10 :: "jsstr \<Rightarrow> jsint" where
  "parseInt10 s =
     (let (neg, t) = signed_part s; ds = takeWhile is_digit t
      in if ds = [] then NotANumber
         else (let v = of_nat (digits_value ds) in whole_of (round64 (if neg then - v else v))))"

text \<open>\<open>parseFloat(s)\<close> on text without an exponent, as the patterns of the preprocessor cut it out.\<close>

definition parseFloat10 :: "jsstr \<Rightarrow> num" where
  "parseFloat10 s =
     (let (neg, t) = signed_part s; ds = takeWhile is_digit t; rest = dropWhile is_digit t;
          fs = (case rest of [] \<Rightarrow> [] | c # cs \<Rightarrow> if c = 46 then takeWhile is_digit cs else [])
      in if ds = [] \<and> fs = [] then NaN
         else let v = of_nat (digits_value (ds @ fs)) / 10 ^ length fs in round64 (if neg then - v else v))"

text \<open>\<open>Math.floor(n / 1e3)\<close> of a whole double that is not negative.\<close>

definition thousands :: "int \<Rightarrow> int" where
  "thousands n = (case round64 (of_int n / 1000) of Fin q \<Rightarrow> \<lfloor>q\<rfloor> | _ \<Rightarrow> 0)"

section \<open>The text of a number\<close>

text \<open>\<open>String(x)\<close>: the fewest digits that round back to \<open>x\<close>. For a positive \<open>x\<close>, \<open>10 ^ (n - 1) \<le> x < 10 ^ n\<close> for
  the decimal exponent \<open>n\<close>; \<open>nearest_digits\<close> tries the two \<open>k\<close>-digit numbers around \<open>x\<close>, the closer one first.\<close>

definition decimal_exponent :: "rat \<Rightarrow> int" where
  "decimal_exponent x =
     (if 1 \<le> x then int (length (nat_str (nat \<lfloor>x\<rfloor>))) else 1 - int (length (nat_str (nat (\<lceil>1 / x\<rceil> - 1)))))"

definition nearest_digits :: "rat \<Rightarrow> int \<Rightarrow> nat \<Rightarrow> nat option" where
  "nearest_digits x n k =
     (let y = x / 10 powi (n - int k); lo = nat \<lfloor>y\<rfloor>; hi = nat \<lceil>y\<rceil>;
          ok = (\<lambda>c. 0 < c \<and> round64 (of_nat c * 10 powi (n - int k)) = Fin x);
          (c, d) = (if y - of_nat lo \<le> of_nat hi - y then (lo, hi) else (hi, lo))
      in if ok c then Some c else if ok d then Some d else None)"

fun shortest_from :: "rat \<Rightarrow> int \<Rightarrow> nat list \<Rightarrow> nat \<times> int" where
  "shortest_from x n [] = (nat \<lfloor>x\<rfloor>, 0)"
| "shortest_from x n (k # ks) = (case nearest_digits x n k of Some c \<Rightarrow> (c, n - int k) | None \<Rightarrow> shortest_from x n ks)"

definition strip_zeros :: "jsstr \<Rightarrow> jsstr" where
  "strip_zeros ds = rev (dropWhile (\<lambda>c. c = 48) (rev ds))"

definition exponent_text :: "int \<Rightarrow> jsstr" where
  "exponent_text e = js ''e'' @ (if e < 0 then js ''-'' else js ''+'') @ nat_str (nat \<bar>e\<bar>)"

definition decimal_text :: "jsstr \<Rightarrow> int \<Rightarrow> jsstr" where
  "decimal_text ds n =
     (let k = length ds in
      if int k \<le> n \<and> n \<le> 21 then ds @ replicate (nat n - k) 48
      else if 0 < n \<and> n \<le> 21 then take (nat n) ds @ js ''.'' @ drop (nat n) ds
      else if - 6 < n \<and> n \<le> 0 then js ''0.'' @ replicate (nat (- n)) 48 @ ds
      else if k = 1 then ds @ exponent_text (n - 1)
      else take 1 ds @ js ''.'' @ drop 1 ds @ exponent_text (n - 1))"

definition positive_text :: "rat \<Rightarrow> jsstr" where
  "positive_text x =
     (let (c, e) = shortest_from x (decimal_exponent x) [1..<18]; ds = nat_str c
      in decimal_text (strip_zeros ds) (e + int (length ds)))"

definition num_text :: "num \<Rightarrow> jsstr" where
  "num_text x =
     (case x of NaN \<Rightarrow> js ''NaN'' | PInf \<Rightarrow> js ''Infinity'' | NInf \<Rightarrow> js ''-Infinity''
      | Fin q \<Rightarrow> if q = 0 then js ''0'' else if q < 0 then js ''-'' @ positive_text (- q) else positive_text q)"

section \<open>Number words\<close>

definition ONES :: "jsstr list" where
  "ONES = map js ['''', ''one'', ''two'', ''three'', ''four'', ''five'', ''six'', ''seven'', ''eight'', ''nine'', ''ten'', ''eleven'',
     ''twelve'', ''thirteen'', ''fourteen'', ''fifteen'', ''sixteen'', ''seventeen'', ''eighteen'', ''nineteen'']"

definition TENS :: "jsstr list" where
  "TENS = map js ['''', '''', ''twenty'', ''thirty'', ''forty'', ''fifty'', ''sixty'', ''seventy'', ''eighty'', ''ninety'']"

definition SCALE :: "jsstr list" where
  "SCALE = map js ['''', ''thousand'', ''million'', ''billion'', ''trillion'']"

definition ORDINAL_EXCEPTIONS :: "(jsstr \<times> jsstr) list" where
  "ORDINAL_EXCEPTIONS = map (\<lambda>(a, b). (js a, js b)) [(''one'', ''first''), (''two'', ''second''), (''three'', ''third''),
     (''four'', ''fourth''), (''five'', ''fifth''), (''six'', ''sixth''), (''seven'', ''seventh''), (''eight'', ''eighth''),
     (''nine'', ''ninth''), (''twelve'', ''twelfth'')]"

definition three_digits_to_words :: "nat \<Rightarrow> jsstr" where
  "three_digits_to_words n =
     (if n = 0 then []
      else
        (let hundreds = n div 100; remainder = n mod 100;
             parts = (if hundreds \<noteq> 0 then [ONES ! hundreds @ js '' hundred''] else []);
             low = (if remainder < 20 then (if remainder \<noteq> 0 then [ONES ! remainder] else [])
                    else
                      (let tens_word = TENS ! (remainder div 10); ones_word = ONES ! (remainder mod 10)
                       in [if ones_word \<noteq> [] then tens_word @ js ''-'' @ ones_word else tens_word]))
         in join_with (js '' '') (parts @ low)))"

text \<open>The loop over the scales: the parts, lowest first.\<close>

fun scale_parts :: "jsstr list \<Rightarrow> int \<Rightarrow> jsstr list" where
  "scale_parts [] n = []"
| "scale_parts (scale # scales) n =
     (let chunk = nat (n mod 1000);
          words = three_digits_to_words chunk;
          part = (if chunk \<noteq> 0 then [if scale \<noteq> [] then trim (words @ js '' '' @ scale) else words] else []);
          next = thousands n
      in part @ (if next = 0 then [] else scale_parts scales next))"

definition positive_words :: "int \<Rightarrow> jsstr" where
  "positive_words n =
     (let hundreds = nat (n div 100)
      in if 100 \<le> n \<and> n \<le> 9999 \<and> n mod 100 = 0 \<and> n mod 1000 \<noteq> 0 \<and> hundreds < 20
         then ONES ! hundreds @ js '' hundred''
         else join_with (js '' '') (rev (scale_parts SCALE n)))"

text \<open>An infinity has no remainder modulo 1000, so no part is pushed for it.\<close>

definition number_to_words :: "jsint \<Rightarrow> jsstr" where
  "number_to_words v =
     (case v of
        NotANumber \<Rightarrow> []
      | Infinite neg \<Rightarrow> if neg then js ''negative '' else []
      | Whole n \<Rightarrow> if n = 0 then js ''zero'' else if n < 0 then js ''negative '' @ positive_words (- n) else positive_words n)"

text \<open>\<open>float_to_words\<close> on the text of its value; \<open>digit_map\<close> is indexed with \<open>parseInt\<close> of one character, and a
  missing entry is joined as the empty string.\<close>

definition digit_word :: "nat \<Rightarrow> jsstr" where
  "digit_word d = (if d = 48 then js ''zero'' else if is_digit d then ONES ! (d - 48) else [])"

definition float_to_words :: "jsstr \<Rightarrow> jsstr" where
  "float_to_words text =
     (let negative = starts_with text (js ''-''); val_str = (if negative then drop 1 text else text);
          result = (if 46 \<in> set val_str
            then (let pieces = split_char 46 val_str; int_part = pieces ! 0; dec_part = pieces ! 1;
                      int_words = (if int_part \<noteq> [] then number_to_words (parseInt10 int_part) else js ''zero'')
                  in int_words @ js '' point '' @ join_with (js '' '') (map digit_word dec_part))
            else number_to_words (parseInt10 val_str))
      in if negative then js ''negative '' @ result else result)"

text \<open>\<open>s.lastIndexOf(c)\<close> for a character that occurs: what is before it and what is after it.\<close>

definition split_last :: "nat \<Rightarrow> jsstr \<Rightarrow> jsstr \<times> jsstr" where
  "split_last c s = (let after = rev (takeWhile (\<lambda>x. x \<noteq> c) (rev s)) in (take (length s - length after - 1) s, after))"

definition last_ordinal :: "jsstr \<Rightarrow> jsstr" where
  "last_ordinal w =
     (case map_of ORDINAL_EXCEPTIONS w of
        Some x \<Rightarrow> x
      | None \<Rightarrow> if ends_with w (js ''t'') then w @ js ''h''
                else if ends_with w (js ''e'') then butlast w @ js ''th'' else w @ js ''th'')"

definition ordinal_suffix :: "jsint \<Rightarrow> jsstr" where
  "ordinal_suffix n =
     (let word = number_to_words n;
          (prefix, last_word, joiner) =
            (if 45 \<in> set word then (let (a, b) = split_last 45 word in (a, b, js ''-''))
             else if 32 \<in> set word then (let (a, b) = split_last 32 word in (a, b, js '' '')) else ([], word, []))
      in if prefix \<noteq> [] then prefix @ joiner @ last_ordinal last_word else last_ordinal last_word)"

section \<open>A reader of number words\<close>

definition hyphen_value :: "jsstr \<Rightarrow> nat option" where
  "hyphen_value w =
     (let units = map_of (zip (drop 1 ONES) [1..<20]); tens = map_of (zip (drop 2 TENS) [20, 30, 40, 50, 60, 70, 80, 90]) in
      case split_char 45 w of
        [a] \<Rightarrow> (case units a of Some v \<Rightarrow> Some v | None \<Rightarrow> tens a)
      | [a, b] \<Rightarrow> (case (tens a, units b) of (Some x, Some y) \<Rightarrow> if y < 10 then Some (x + y) else None | _ \<Rightarrow> None)
      | _ \<Rightarrow> None)"

definition scale_value :: "jsstr \<Rightarrow> nat option" where
  "scale_value w = map_of (zip (drop 1 SCALE) [10 ^ 3, 10 ^ 6, 10 ^ 9, 10 ^ 12]) w"

text \<open>The reader's state: what is complete up to the last scale word, and the number being read.\<close>

definition read_word :: "(nat \<times> nat) option \<Rightarrow> jsstr \<Rightarrow> (nat \<times> nat) option" where
  "read_word st w =
     (case st of None \<Rightarrow> None
      | Some (done_part, cur) \<Rightarrow>
          if w = js ''hundred'' then Some (done_part, 100 * cur)
          else (case scale_value w of Some s \<Rightarrow> Some (done_part + s * cur, 0)
                | None \<Rightarrow> map_option (\<lambda>v. (done_part, cur + v)) (hyphen_value w)))"

definition read_positive :: "jsstr \<Rightarrow> int option" where
  "read_positive s = map_option (\<lambda>(t, c). int (t + c)) (foldl read_word (Some (0, 0)) (split_char 32 s))"

definition read_number :: "jsstr \<Rightarrow> int option" where
  "read_number s =
     (if s = js ''zero'' then Some 0
      else if starts_with s (js ''negative '') then map_option uminus (read_positive (drop 9 s))
      else read_positive s)"

section \<open>Division by a thousand\<close>

lemma round_even_ge: "of_int m \<le> x \<Longrightarrow> m \<le> round_even x"
proof -
  assume "of_int m \<le> x"
  then have "m \<le> \<lfloor>x\<rfloor>" by (simp add: le_floor_iff)
  then show ?thesis by (auto simp: round_even_def Let_def)
qed

text \<open>The quotient rounded to a double still has the right whole part.\<close>

lemma thousands_div:
  assumes "0 \<le> n" and "n < 8 * 10 ^ 15"
  shows "thousands n = n div 1000"
proof (cases "n = 0")
  case True
  then show ?thesis by (simp add: thousands_def r64.rnd_zero)
next
  case False
  define x where "x = (of_int n :: rat) / 1000"
  define k where "k = n div 1000"
  define E where "E = max (ilog2 x) (- 1022)"
  define q where "q = quantum 53 (- 1022) x"
  define y where "y = of_int (round_even (x / q)) * q"
  have x0: "0 < x" using assms(1) False by (simp add: x_def)
  have k0: "0 \<le> k" "k < 8 * 10 ^ 12" using assms by (simp_all add: k_def)
  have n: "1000 * k \<le> n" "n \<le> 1000 * k + 999" by (simp_all add: k_def)
  have "(of_int (1000 * k) :: rat) \<le> of_int n" "(of_int n :: rat) \<le> of_int (1000 * k + 999)" using n by (simp_all only: of_int_le_iff)
  then have kx: "of_int k \<le> x" and xk: "x \<le> of_int k + 1 - 1 / 1000" by (simp_all add: x_def field_simps)
  have "(of_int k :: rat) < of_int (8 * 10 ^ 12)" using k0(2) by (simp only: of_int_less_iff)
  then have x43: "x < 2 powi (42 + 1)" using xk by simp
  have E42: "E \<le> 42" using ilog2_le [OF x0 x43] by (simp add: E_def)
  have q: "q = 2 powi (E - 52)" using x0 by (simp add: q_def quantum_def E_def)
  define M where "M = (2 :: int) ^ nat (52 - E)"
  have M: "of_int M * q = 1" using E42 powi_int_part [of "52 - E"] powi_split [of 0 "E - 52"] by (simp add: q M_def)
  have Mq: "1 / q = of_int M" using M by (metis mult_eq_0_iff nonzero_eq_divide_eq zero_neq_one)
  have "(2 :: int) ^ 10 \<le> M" unfolding M_def using E42 by (intro power_increasing) simp_all
  then have "of_int (2 ^ 10) \<le> (of_int M :: rat)" by (simp only: of_int_le_iff)
  then have M10: "(1024 :: rat) \<le> of_int M" by simp
  have xq: "x / q = x * of_int M" using Mq by (metis divide_inverse inverse_eq_divide mult.commute)
  have lo: "k * M \<le> round_even (x / q)"
    using kx M10 by (intro round_even_ge) (simp add: xq)
  have "x * of_int M \<le> (of_int k + 1 - 1 / 1000) * of_int M" using xk M10 by (intro mult_right_mono) simp_all
  then have "x / q < of_int ((k + 1) * M - 1) + 1 / 2" using M10 by (simp add: xq algebra_simps)
  then have hi: "round_even (x / q) \<le> (k + 1) * M - 1" by (rule round_even_less)
  have qpos: "0 < q" by (simp add: q)
  have "(of_int (k * M) :: rat) \<le> of_int (round_even (x / q))" using lo by (simp only: of_int_le_iff)
  then have "of_int (k * M) * q \<le> y" unfolding y_def using qpos by (intro mult_right_mono) simp_all
  then have ky: "of_int k \<le> y" using M by (simp add: mult.assoc)
  have "(of_int (round_even (x / q)) :: rat) < of_int ((k + 1) * M)" using hi by (simp only: of_int_less_iff)
  then have "y < of_int ((k + 1) * M) * q" unfolding y_def using qpos by (intro mult_strict_right_mono) simp_all
  then have yk: "y < of_int k + 1" using M by (simp add: mult.assoc)
  have "y < 2 powi (43 + 1)" using yk \<open>(of_int k :: rat) < of_int (8 * 10 ^ 12)\<close> by simp
  then have "y \<noteq> 0 \<Longrightarrow> ilog2 \<bar>y\<bar> \<le> 43" using ky k0(1) ilog2_le [of y 43] by (auto simp: le_less)
  then have "round64 x = Fin y" using x0 by (auto simp: round64_def ieee_round_def Let_def q_def y_def)
  moreover have "\<lfloor>y\<rfloor> = k" using ky yk by (simp add: floor_eq_iff)
  ultimately show ?thesis by (simp add: thousands_def x_def k_def)
qed

lemma thousands_code [code]:
  "thousands n = (if 0 \<le> n \<and> n < 8000000000000000 then n div 1000
     else (case round64 (of_int n / 1000) of Fin q \<Rightarrow> \<lfloor>q\<rfloor> | _ \<Rightarrow> 0))"
proof (cases "0 \<le> n \<and> n < 8000000000000000")
  case True
  then show ?thesis using thousands_div [of n] by simp
next
  case False
  then show ?thesis by (simp only: thousands_def if_False)
qed

lemma round64_whole:
  assumes "\<bar>k\<bar> \<le> 2 ^ 53"
  shows "round64 (of_int k) = Fin (of_int k)"
proof -
  have r: "representable 53 (- 1022) (of_int k)"
    unfolding representable_def using assms by (intro exI [of _ k] exI [of _ 52]) simp
  have "(of_int \<bar>k\<bar> :: rat) \<le> of_int (2 ^ 53)" using assms by (simp only: of_int_le_iff)
  then have "k \<noteq> 0 \<Longrightarrow> ilog2 \<bar>of_int k\<bar> \<le> 53" using ilog2_le [of "\<bar>of_int k\<bar>" 53] by simp
  then have "(of_int k :: rat) = 0 \<or> ilog2 \<bar>of_int k\<bar> \<le> 1023" by fastforce
  then show ?thesis unfolding round64_def using r by (intro ieee_round_keeps) simp_all
qed

lemma parseInt10_code [code]:
  "parseInt10 s =
     (let (neg, t) = signed_part s; ds = takeWhile is_digit t
      in if ds = [] then NotANumber
         else (let v = digits_value ds in
           if v \<le> 9007199254740992 then Whole (if neg then - int v else int v)
           else whole_of (round64 (if neg then - of_nat v else of_nat v))))"
proof -
  have "round64 (if neg then - of_nat v else of_nat v) = Fin (of_int (if neg then - int v else int v))"
    if "v \<le> 9007199254740992" for neg v
    using round64_whole [of "int v"] round64_whole [of "- int v"] that by simp
  then show ?thesis by (auto simp: parseInt10_def Let_def whole_of_def split: prod.splits)
qed

section \<open>The words, one by one\<close>

lemma join_append:
  "xs \<noteq> [] \<Longrightarrow> ys \<noteq> [] \<Longrightarrow> join_with sep (xs @ ys) = join_with sep xs @ sep @ join_with sep ys"
proof (induction xs)
  case (Cons x xs)
  then show ?case by (cases xs; cases ys) auto
qed simp

lemma join_concat: "\<forall>ts\<in>set tss. ts \<noteq> [] \<Longrightarrow> join_with sep (map (join_with sep) tss) = join_with sep (concat tss)"
proof (induction tss)
  case (Cons ts tss)
  show ?case
  proof (cases tss)
    case Nil
    then show ?thesis by simp
  next
    case (Cons us uss)
    then have "concat tss \<noteq> []" using \<open>\<forall>ts\<in>set (ts # tss). ts \<noteq> []\<close> by simp
    then show ?thesis using \<open>\<forall>ts\<in>set (ts # tss). ts \<noteq> []\<close> Cons.IH Cons join_append [of ts "concat tss" sep] by simp
  qed
qed simp

definition low_tokens :: "nat \<Rightarrow> jsstr list" where
  "low_tokens r = (if r < 20 then (if r \<noteq> 0 then [ONES ! r] else [])
     else [if ONES ! (r mod 10) \<noteq> [] then TENS ! (r div 10) @ js ''-'' @ ONES ! (r mod 10) else TENS ! (r div 10)])"

definition chunk_tokens :: "nat \<Rightarrow> jsstr list" where
  "chunk_tokens n = (if n div 100 \<noteq> 0 then [ONES ! (n div 100), js ''hundred''] else []) @ low_tokens (n mod 100)"

fun part_tokens :: "jsstr list \<Rightarrow> int \<Rightarrow> jsstr list list" where
  "part_tokens [] n = []"
| "part_tokens (scale # scales) n =
     (let c = nat (n mod 1000) in
      (if c \<noteq> 0 then [chunk_tokens c @ (if scale \<noteq> [] then [scale] else [])] else [])
        @ (if thousands n = 0 then [] else part_tokens scales (thousands n)))"

definition good_token :: "jsstr \<Rightarrow> bool" where
  "good_token w \<longleftrightarrow> w \<noteq> [] \<and> list_all (\<lambda>c. \<not> js_space c) w"

text \<open>A word that the reader adds to the number it is reading.\<close>

definition counts :: "nat \<Rightarrow> jsstr \<Rightarrow> bool" where
  "counts v w \<longleftrightarrow> good_token w \<and> w \<noteq> js ''hundred'' \<and> scale_value w = None \<and> hyphen_value w = Some v"

lemma low_table: "list_all (\<lambda>r. list_all (counts r) (low_tokens r)) [0..<100]"
  by code_simp

lemma low_counts: "r < 100 \<Longrightarrow> w \<in> set (low_tokens r) \<Longrightarrow> counts r w"
  using low_table unfolding list_all_iff by auto

lemma low_nonempty: "low_tokens r = [] \<longleftrightarrow> r = 0"
  by (auto simp: low_tokens_def)

lemma ones_counts: "0 < i \<Longrightarrow> i < 20 \<Longrightarrow> counts i (ONES ! i)"
  using low_counts [of i "ONES ! i"] by (simp add: low_tokens_def)

lemma hundred_good: "good_token (js ''hundred'')"
  by code_simp

lemma scale_good: "scale \<in> set SCALE \<Longrightarrow> scale \<noteq> [] \<Longrightarrow> good_token scale"
proof -
  have "list_all (\<lambda>w. w \<noteq> [] \<longrightarrow> good_token w) SCALE" by code_simp
  then show "scale \<in> set SCALE \<Longrightarrow> scale \<noteq> [] \<Longrightarrow> good_token scale" by (simp add: list_all_iff)
qed

lemma chunk_good: "n < 1000 \<Longrightarrow> w \<in> set (chunk_tokens n) \<Longrightarrow> good_token w"
  using ones_counts [of "n div 100"] low_counts [of "n mod 100" w]
  by (auto simp: chunk_tokens_def counts_def hundred_good split: if_splits)

lemma chunk_nonempty: "chunk_tokens n = [] \<longleftrightarrow> n = 0"
  by (auto simp: chunk_tokens_def low_nonempty)

lemma three_digits_tokens: "three_digits_to_words n = join_with (js '' '') (chunk_tokens n)"
proof -
  have "js '' hundred'' = js '' '' @ js ''hundred''" by code_simp
  then show ?thesis
    by (auto simp: three_digits_to_words_def chunk_tokens_def low_tokens_def Let_def)
qed

lemma trim_words:
  assumes "ts \<noteq> []" and "\<forall>w\<in>set ts. good_token w"
  shows "trim (join_with (js '' '') ts) = join_with (js '' '') ts"
proof (rule trim_id)
  have hd: "hd (join_with sep ts) = hd (hd ts)" "join_with sep ts \<noteq> []" if "ts \<noteq> []" "hd ts \<noteq> []" for sep and ts :: "jsstr list"
    using that by (cases ts; cases "tl ts"; auto)+
  have last: "last (join_with sep ts) = last (last ts)" if "ts \<noteq> []" "\<forall>w\<in>set ts. w \<noteq> []" for sep and ts :: "jsstr list"
    using that
  proof (induction ts)
    case (Cons t ts)
    then show ?case using hd(2) [of ts sep] by (cases ts) auto
  qed simp
  have ne: "\<forall>w\<in>set ts. w \<noteq> []" "hd ts \<noteq> []" using assms by (auto simp: good_token_def)
  have "hd ts \<in> set ts" "last ts \<in> set ts" using assms(1) by simp_all
  then have "\<not> js_space (hd (hd ts))" "\<not> js_space (last (last ts))"
    using assms(2) by (auto simp: good_token_def list_all_iff)
  then show "join_with (js '' '') ts = [] \<or> (\<not> js_space (hd (join_with (js '' '') ts)) \<and> \<not> js_space (last (join_with (js '' '') ts)))"
    using hd [OF assms(1) ne(2)] last [OF assms(1) ne(1)] by simp
qed

lemma scale_parts_tokens:
  "set scales \<subseteq> set SCALE \<Longrightarrow> scale_parts scales n = map (join_with (js '' '')) (part_tokens scales n)"
proof (induction scales arbitrary: n)
  case (Cons scale scales)
  define c where "c = nat (n mod 1000)"
  have c: "c < 1000" by (simp add: c_def)
  have "trim (three_digits_to_words c @ js '' '' @ scale) = join_with (js '' '') (chunk_tokens c @ [scale])" if "c \<noteq> 0" "scale \<noteq> []"
    using trim_words [of "chunk_tokens c @ [scale]"] chunk_good [OF c] scale_good [of scale] that Cons.prems
      join_append [of "chunk_tokens c" "[scale]" "js '' ''"] chunk_nonempty [of c]
    by (auto simp: three_digits_tokens)
  then show ?case using Cons by (auto simp: Let_def c_def [symmetric] three_digits_tokens)
qed simp

lemma part_tokens_good:
  "set scales \<subseteq> set SCALE \<Longrightarrow> ts \<in> set (part_tokens scales n) \<Longrightarrow> ts \<noteq> [] \<and> (\<forall>w\<in>set ts. good_token w)"
proof (induction scales arbitrary: n)
  case (Cons scale scales)
  then show ?case
    using chunk_good [of "nat (n mod 1000)"] scale_good [of scale] chunk_nonempty [of "nat (n mod 1000)"]
    by (auto simp: Let_def split: if_splits)
qed simp


section \<open>Reading back\<close>

lemma read_counts: "counts v w \<Longrightarrow> read_word (Some (t, c)) w = Some (t, c + v)"
  by (simp add: counts_def read_word_def)

lemma read_chunk:
  assumes "n < 1000"
  shows "foldl read_word (Some (t, 0)) (chunk_tokens n) = Some (t, n)"
proof -
  have low: "foldl read_word (Some (t, c)) (low_tokens r) = Some (t, c + r)" if "r < 100" for c r
    using low_counts [OF that] read_counts low_nonempty [of r] by (auto simp: low_tokens_def split: if_splits)
  have hundred: "read_word (Some (t, c)) (js ''hundred'') = Some (t, 100 * c)" for c by (simp add: read_word_def)
  have "read_word (Some (t, 0)) (ONES ! (n div 100)) = Some (t, n div 100)" if "n div 100 \<noteq> 0"
    using read_counts [OF ones_counts, of "n div 100" t 0] that assms by simp
  then show ?thesis using low [of "n mod 100"] hundred div_mult_mod_eq [of n 100]
    by (cases "n div 100 = 0") (simp_all add: chunk_tokens_def del: div_mult_mod_eq)
qed

lemma read_scale:
  assumes "0 < i" and "i < 5"
  shows "read_word (Some (t, c)) (SCALE ! i) = Some (t + 1000 ^ i * c, 0)"
proof -
  have "list_all (\<lambda>i. SCALE ! i \<noteq> js ''hundred'' \<and> scale_value (SCALE ! i) = Some (1000 ^ i)) [1..<5]" by code_simp
  then have "SCALE ! i \<noteq> js ''hundred'' \<and> scale_value (SCALE ! i) = Some (1000 ^ i)"
    using assms by (simp add: list_all_iff)
  then show ?thesis by (simp add: read_word_def)
qed

lemma scales: "length SCALE = 5" "SCALE ! 0 = []" "0 < i \<Longrightarrow> i < 5 \<Longrightarrow> SCALE ! i \<noteq> []"
proof -
  have "list_all (\<lambda>i. SCALE ! i \<noteq> []) [1..<5]" by code_simp
  then show "0 < i \<Longrightarrow> i < 5 \<Longrightarrow> SCALE ! i \<noteq> []" by (simp add: list_all_iff)
qed (code_simp, code_simp)

lemma drop_scale: "i < 5 \<Longrightarrow> drop i SCALE = SCALE ! i # drop (Suc i) SCALE"
  using scales(1) by (simp add: Cons_nth_drop_Suc)

lemma part_tokens_step:
  assumes "i < 5" and "0 \<le> n" and "n < 8 * 10 ^ 15"
  shows "part_tokens (drop i SCALE) n =
    (if nat (n mod 1000) \<noteq> 0 then [chunk_tokens (nat (n mod 1000)) @ (if i = 0 then [] else [SCALE ! i])] else [])
      @ (if n div 1000 = 0 then [] else part_tokens (drop (Suc i) SCALE) (n div 1000))"
  unfolding drop_scale [OF assms(1)] part_tokens.simps thousands_div [OF assms(2,3)] Let_def
  using scales(2) scales(3) [of i] assms(1) by (cases "i = 0") simp_all

text \<open>The parts from the scale \<open>i\<close> on are read as what the remaining scales can hold of the number.\<close>

lemma read_parts:
  assumes "0 < i" and "0 \<le> n" and "n < 8 * 10 ^ 15"
  shows "foldl read_word (Some (0, 0)) (concat (rev (part_tokens (drop i SCALE) n))) = Some (1000 ^ i * (nat n mod 1000 ^ (5 - i)), 0)"
  using assms
proof (induction "5 - i" arbitrary: i n)
  case 0
  then show ?case using scales(1) by simp
next
  case (Suc k)
  then have i: "i < 5" "k = 5 - Suc i" "5 - i = Suc k" by simp_all
  define c where "c = nat (n mod 1000)"
  have c: "c < 1000" "c = nat n mod 1000" using Suc.prems by (simp_all add: c_def nat_mod_distrib)
  have "foldl read_word (Some (0, 0)) (concat (rev (part_tokens (drop (Suc i) SCALE) (n div 1000))))
      = Some (1000 ^ Suc i * (nat (n div 1000) mod 1000 ^ k), 0)"
    using Suc.hyps(1) [OF i(2), of "n div 1000"] Suc.prems i(2) by simp
  moreover define hs where "hs = (if n div 1000 = 0 then [] else part_tokens (drop (Suc i) SCALE) (n div 1000))"
  ultimately have hi: "foldl read_word (Some (0, 0)) (concat (rev hs)) = Some (1000 ^ Suc i * (nat (n div 1000) mod 1000 ^ k), 0)"
    by auto
  have "nat n mod 1000 ^ Suc k = 1000 * (nat n div 1000 mod 1000 ^ k) + c"
    unfolding c(2) by (simp add: mod_mult2_eq)
  then have "1000 ^ i * (nat n mod 1000 ^ Suc k) = 1000 ^ Suc i * (nat (n div 1000) mod 1000 ^ k) + 1000 ^ i * c"
    using Suc.prems(2) by (simp add: nat_div_distrib algebra_simps)
  then show ?case
    unfolding part_tokens_step [OF i(1) Suc.prems(2,3)] hs_def [symmetric] c_def [symmetric]
    using hi read_scale [OF Suc.prems(1) i(1)] read_chunk [OF c(1)] Suc.prems(1) by (simp add: i(3))
qed

lemma read_all_parts:
  assumes "0 \<le> n" and "n < 8 * 10 ^ 15"
  shows "map_option (\<lambda>(t, c). int (t + c)) (foldl read_word (Some (0, 0)) (concat (rev (part_tokens SCALE n)))) = Some (n mod 10 ^ 15)"
proof -
  define c where "c = nat (n mod 1000)"
  have c: "c < 1000" by (simp add: c_def)
  have "foldl read_word (Some (0, 0)) (concat (rev (part_tokens (drop 1 SCALE) (n div 1000)))) = Some (1000 * (nat (n div 1000) mod 1000 ^ 4), 0)"
    using read_parts [of 1 "n div 1000"] assms by simp
  moreover define hs where "hs = (if n div 1000 = 0 then [] else part_tokens (drop (Suc 0) SCALE) (n div 1000))"
  ultimately have hi: "foldl read_word (Some (0, 0)) (concat (rev hs)) = Some (1000 * (nat (n div 1000) mod 1000 ^ 4), 0)"
    by auto
  have "int (1000 * (nat (n div 1000) mod 1000 ^ 4) + c) = 1000 * (n div 1000 mod 1000 ^ 4) + n mod 1000"
    using assms by (simp add: c_def zmod_int)
  also have "\<dots> = n mod (1000 * 1000 ^ 4)" by (rule zmod_zmult2_eq [symmetric]) simp
  finally have v: "int (1000 * (nat (n div 1000) mod 1000 ^ 4) + c) = n mod 10 ^ 15" by simp
  have "part_tokens SCALE n = (if c \<noteq> 0 then [chunk_tokens c] else []) @ hs"
    using part_tokens_step [of 0 n] assms unfolding hs_def [symmetric] c_def [symmetric] by simp
  then show ?thesis using hi v read_chunk [OF c] by simp
qed

lemma space_js: "js '' '' = [32]"
  by code_simp

lemma foldl_read_None: "foldl read_word None ws = None"
  by (induction ws) (simp_all add: read_word_def)

lemma read_positive_tokens:
  assumes "ts \<noteq> []" and "\<forall>w\<in>set ts. good_token w"
  shows "read_positive (join_with (js '' '') ts) = map_option (\<lambda>(t, c). int (t + c)) (foldl read_word (Some (0, 0)) ts)"
proof -
  have "js_space 32" by code_simp
  then have "\<forall>w\<in>set ts. 32 \<notin> set w" using assms(2) by (auto simp: good_token_def list_all_iff)
  then show ?thesis using assms(1) by (simp add: read_positive_def space_js split_join_char)
qed

lemma read_positive_word:
  assumes "read_word (Some (0, 0)) w = None" and "32 \<notin> set w"
  shows "read_positive (w @ 32 # rest) = None" and "read_positive w = None"
  using assms by (simp_all add: read_positive_def split_char_append split_char_plain foldl_read_None)

lemma read_positive_plain:
  assumes "read_positive s = Some v"
  shows "read_number s = Some v"
proof -
  have none: "read_word (Some (0, 0)) (js ''negative'') = None" "read_word (Some (0, 0)) (js ''zero'') = None"
    "32 \<notin> set (js ''negative'')" "32 \<notin> set (js ''zero'')" by code_simp+
  have neg: "js ''negative '' = js ''negative'' @ [32]" by code_simp
  have "\<not> starts_with s (js ''negative '')"
  proof
    assume "starts_with s (js ''negative '')"
    then have "s = js ''negative '' @ drop (length (js ''negative '')) s" unfolding starts_with_def by (metis append_take_drop_id)
    then obtain r where "s = js ''negative'' @ 32 # r" unfolding neg by auto
    then show False using assms read_positive_word(1) [OF none(1,3)] by simp
  qed
  moreover have "s \<noteq> js ''zero''" using assms read_positive_word(2) [OF none(2,4)] by auto
  ultimately show ?thesis using assms by (simp add: read_number_def)
qed

lemma empty_read: "read_positive [] = None"
  by code_simp

lemma read_positive_words:
  assumes "0 < n" and "n < 8 * 10 ^ 15"
  shows "read_positive (positive_words n) = (if positive_words n = [] then None else Some (n mod 10 ^ 15))
    \<and> (positive_words n = [] \<longrightarrow> n mod 10 ^ 15 = 0)"
proof (cases "100 \<le> n \<and> n \<le> 9999 \<and> n mod 100 = 0 \<and> n mod 1000 \<noteq> 0 \<and> nat (n div 100) < 20")
  case True
  define h where "h = nat (n div 100)"
  have h: "0 < h" "h < 20" "int (100 * h) = n" using True by (auto simp: h_def)
  have "js '' hundred'' = js '' '' @ js ''hundred''" by code_simp
  then have "positive_words n = join_with (js '' '') [ONES ! h, js ''hundred'']"
    using True by (simp add: positive_words_def h_def)
  then have "read_positive (positive_words n) = Some n"
    using read_positive_tokens [of "[ONES ! h, js ''hundred'']"] ones_counts [OF h(1,2)] hundred_good read_counts [OF ones_counts [OF h(1,2)]] h(3)
    by (simp add: counts_def read_word_def)
  moreover have "positive_words n \<noteq> []" using calculation by (auto simp: empty_read)
  ultimately show ?thesis using True by simp
next
  case False
  define tss where "tss = rev (part_tokens SCALE n)"
  have good: "\<forall>ts\<in>set tss. ts \<noteq> [] \<and> (\<forall>w\<in>set ts. good_token w)"
    using part_tokens_good [of SCALE _ n] by (simp add: tss_def)
  have w: "positive_words n = join_with (js '' '') (concat tss)"
    using False join_concat [of tss "js '' ''"] good
    by (auto simp: positive_words_def scale_parts_tokens tss_def rev_map simp del: join_concat)
  have read: "map_option (\<lambda>(t, c). int (t + c)) (foldl read_word (Some (0, 0)) (concat tss)) = Some (n mod 10 ^ 15)"
    using read_all_parts [of n] assms by (simp add: tss_def)
  show ?thesis
  proof (cases "concat tss = []")
    case True
    then have "positive_words n = []" "n mod 10 ^ 15 = 0" using w read unfolding True by simp_all
    then show ?thesis using empty_read by simp
  next
    case False
    then have r: "read_positive (positive_words n) = Some (n mod 10 ^ 15)"
      using read_positive_tokens [OF False] good read by (auto simp: w)
    then have "positive_words n \<noteq> []" using empty_read by auto
    then show ?thesis using r by simp
  qed
qed

lemma words_read_back:
  assumes "\<bar>n\<bar> < 10 ^ 15"
  shows "read_number (number_to_words (Whole n)) = Some n"
proof -
  have pos: "read_positive (positive_words m) = Some m" if "0 < m" "m < 10 ^ 15" for m
    using read_positive_words [of m] that by (auto split: if_splits)
  have neg: "js ''negative '' = 110 # js ''egative ''" "length (js ''negative '') = 9" "js ''zero'' = 122 # js ''ero''" by code_simp+
  have "read_number (js ''negative '' @ s) = map_option uminus (read_positive s)" for s
    unfolding read_number_def starts_with_def neg(2) [symmetric] append_eq_conv_conj [symmetric] using neg(1,3) by simp
  moreover have "read_number (js ''zero'') = Some 0" by (simp add: read_number_def)
  ultimately show ?thesis using pos [of n] pos [of "- n"] read_positive_plain [of "positive_words n"] assms
    by (auto simp: number_to_words_def)
qed

text \<open>C18: Numbers are spoken right: reading the words of a whole number below \<open>10 ^ 15\<close> in absolute value gives the
  number back, the special forms like \<open>twelve hundred\<close> and the negative numbers included; so no two such
  numbers sound the same. The division by a thousand goes through double-precision rounding.\<close>

theorem number_to_words_read:
  assumes "\<bar>n\<bar> < 10 ^ 15"
  shows "read_number (number_to_words (Whole n)) = Some n"
  by (rule words_read_back [OF assms])

text \<open>From \<open>10 ^ 15\<close> on the scale words run out: what is spoken is empty or reads as the remainder of the number
  modulo \<open>10 ^ 15\<close>, so the number is not spoken. A quadrillion is silent.\<close>

theorem number_to_words_runs_out:
  assumes "10 ^ 15 \<le> n" and "n < 8 * 10 ^ 15"
  shows "number_to_words (Whole n) = [] \<and> n mod 10 ^ 15 = 0 \<or> read_number (number_to_words (Whole n)) = Some (n mod 10 ^ 15)"
  using read_positive_words [of n] read_positive_plain [of "positive_words n" "n mod 10 ^ 15"] assms
  by (auto simp: number_to_words_def split: if_splits)

text \<open>Ordinals of the tens are misspelt: for every multiple of ten from twenty to ninety the ordinal is the
  number word with \<open>th\<close> put behind its \<open>y\<close>, as in \<open>twentyth\<close>; and a unit behind a hyphenated scale loses its
  irregular form, so that the 21001st is \<open>twenty-one thousand onth\<close>.\<close>

theorem ordinal_suffix_misspells:
  "list_all (\<lambda>k. ordinal_suffix (Whole (10 * k)) = TENS ! nat k @ js ''th'') [2..9]
   \<and> ordinal_suffix (Whole 20) = js ''twentyth'' \<and> ordinal_suffix (Whole 21001) = js ''twenty-one thousand onth''"
  by (intro conjI; code_simp)

theorem number_to_words_read_witness: "read_number (number_to_words (Whole (- 1204))) = Some (- 1204)"
  using number_to_words_read [of "- 1204"] by simp

theorem number_to_words_runs_out_witness:
  "number_to_words (Whole (10 ^ 15)) = [] \<and> read_number (number_to_words (Whole (10 ^ 15 + 7))) = Some 7"
proof -
  have "number_to_words (Whole (10 ^ 15)) = []" "number_to_words (Whole (10 ^ 15 + 7)) \<noteq> []" by code_simp+
  then show ?thesis using number_to_words_runs_out [of "10 ^ 15 + 7"] by simp
qed

end
