(* ===== verification/JsReplace.thy ===== *)
theory JsReplace
  imports JsRegex
begin

text \<open>
  Replacing as a scan of the text from left to right, for patterns without the flag \<open>u\<close>: where the pattern
  does not match, one code unit is kept; where it matches, the replacement is put and the scan goes on
  behind the match. The rule \<open>rx_replace_rule\<close> proves a property of a replaced text along this scan.
\<close>

definition replaced_from :: "rx \<Rightarrow> (jsstr \<Rightarrow> rmatch \<Rightarrow> jsstr) \<Rightarrow> jsstr \<Rightarrow> nat \<Rightarrow> jsstr" where
  "replaced_from r f s i = subst_matches s (f s) i (rx_all False r s i)"

lemma advance_False: "advance False s i = Suc i"
  by (simp add: advance_def read_char_def)

lemma rx_all_start: "m \<in> set (rx_all u r s i) \<Longrightarrow> i \<le> fst m"
proof (induction u r s i rule: rx_all.induct)
  case (1 u r s i)
  have a: "i < advance u s i" by (rule advance_gt)
  show ?case
    using "1.prems" "1.IH" a rx_exec_bounds [of u r s i]
    by (subst (asm) rx_all.simps) (force split: if_splits option.splits prod.splits)
qed

lemma subst_matches_shift:
  assumes "p \<le> j" and "j \<le> length s" and "\<forall>m\<in>set ms. j \<le> fst m"
  shows "subst_matches s f p ms = slice s p j @ subst_matches s f j ms"
proof (cases ms)
  case Nil
  have "drop p s = slice s p j @ drop j s"
    using assms(1,2) by (simp add: slice_def) (metis append_take_drop_id drop_drop le_add_diff_inverse2)
  then show ?thesis using Nil by simp
next
  case (Cons m ms')
  then have "slice s p (fst m) = slice s p j @ slice s j (fst m)" using assms by (simp add: slice_append)
  then show ?thesis using Cons by simp
qed

lemma replaced_skip:
  assumes "i < length s" and "rx_exec False r s i = None"
  shows "replaced_from r f s i = s ! i # replaced_from r f s (Suc i)"
proof -
  have "rx_all False r s i = rx_all False r s (Suc i)" using assms by (subst rx_all.simps) (simp add: advance_False)
  moreover have "subst_matches s (f s) i (rx_all False r s (Suc i)) = slice s i (Suc i) @ subst_matches s (f s) (Suc i) (rx_all False r s (Suc i))"
    using assms rx_all_start by (intro subst_matches_shift) auto
  ultimately show ?thesis using assms(1) by (simp add: replaced_from_def slice_def Cons_nth_drop_Suc [symmetric])
qed

lemma replaced_match:
  assumes "i \<le> length s" and "rx_exec False r s i = Some (e, c)" and "i < e"
  shows "replaced_from r f s i = f s (i, e, c) @ replaced_from r f s e"
proof -
  have "rx_all False r s i = (i, e, c) # rx_all False r s e" using assms by (subst rx_all.simps) simp
  then show ?thesis by (simp add: replaced_from_def slice_def)
qed

lemma replaced_end: "length s \<le> i \<Longrightarrow> rx_exec False r s i = None \<Longrightarrow> replaced_from r f s i = []"
  by (subst replaced_from_def, subst rx_all.simps, subst rx_all.simps) (simp add: advance_False)

text \<open>For a pattern whose matches are not empty, a property of what is left to scan and its replacement.\<close>

theorem rx_replace_rule:
  assumes nonempty: "\<And>i e c. rx_exec False r s i = Some (e, c) \<Longrightarrow> i < e"
    and fin: "P (length s) []"
    and skip: "\<And>i out. i < length s \<Longrightarrow> rx_exec False r s i = None \<Longrightarrow> P (Suc i) out \<Longrightarrow> P i (s ! i # out)"
    and hit: "\<And>i e c out. i < e \<Longrightarrow> e \<le> length s \<Longrightarrow> rx_exec False r s i = Some (e, c) \<Longrightarrow> P e out \<Longrightarrow> P i (f s (i, e, c) @ out)"
  shows "P 0 (rx_replace False r f s)"
proof -
  have "P i (replaced_from r f s i)" if "i \<le> length s" for i
    using that
  proof (induction "length s - i" arbitrary: i rule: less_induct)
    case less
    show ?case
    proof (cases "rx_exec False r s i")
      case None
      show ?thesis
      proof (cases "i < length s")
        case True
        then show ?thesis using less.hyps [of "Suc i"] None skip by (simp add: replaced_skip)
      next
        case False
        then show ?thesis using less.prems None fin by (simp add: replaced_end)
      qed
    next
      case (Some m)
      then obtain e c where m: "rx_exec False r s i = Some (e, c)" by (cases m) simp
      have e: "i < e" "e \<le> length s" using nonempty [OF m] rx_exec_bounds [OF m] less.prems by simp_all
      then show ?thesis using less.hyps [of e] less.prems m hit by (simp add: replaced_match)
    qed
  qed
  then show ?thesis by (simp add: rx_replace_def replaced_from_def [symmetric])
qed

end
