(* ===== verification/KittenText.thy ===== *)
theory KittenText
  imports KittenNumbers JsReplace
begin

text \<open>
  The Kitten text preprocessor (\<open>TextPreprocessor\<close> of \<open>src/preprocess.js\<close> inside \<open>kitten-tts.browser.js\<close>): the
  patterns and the passes of \<open>process\<close>, one definition per pass, in the order of the code. The engine's
  Unicode data (\<open>normalize("NFC")\<close>, \<open>toLowerCase\<close> and the categories \<open>L\<close>, \<open>M\<close> and \<open>N\<close>) are a parameter.

  The flag \<open>i\<close> without \<open>u\<close> compares code units by their upper case, which lets an ASCII letter match its
  two cases only; the micro sign also matches the Greek letter mu.
\<close>

section \<open>Unicode data and pattern pieces\<close>

record unicode =
  nfc :: "jsstr \<Rightarrow> jsstr"
  to_lower :: "jsstr \<Rightarrow> jsstr"
  ucd_LMN :: "nat \<Rightarrow> bool"

definition same_letter :: "nat \<Rightarrow> nat \<Rightarrow> bool" where
  "same_letter a c \<longleftrightarrow> lower [c] = lower [a]"

definition rx_ci :: "string \<Rightarrow> rx" where
  "rx_ci s = foldr (\<lambda>a r. RxSeq (RxCls (same_letter a)) r) (js s) RxEps"

definition rx_between :: "nat \<Rightarrow> nat \<Rightarrow> rx \<Rightarrow> rx" where
  "rx_between a b r = RxRep True a (Some b) r"

abbreviation "D \<equiv> RxCls is_digit"
abbreviation "SP \<equiv> rx_star (RxCls js_space)"

definition digit_comma :: "nat \<Rightarrow> bool" where
  "digit_comma c \<longleftrightarrow> is_digit c \<or> c = 44"

text \<open>\<open>[\\d,]+(?:\\.\\d+)?\<close> and \<open>\\d+(?:\\.\\d+)?\<close>.\<close>

definition rx_fraction :: rx where
  "rx_fraction = rx_opt (RxSeq (RxCls (is_char 46)) (rx_plus D))"

definition rx_comma_number :: rx where
  "rx_comma_number = RxSeq (rx_plus (RxCls digit_comma)) rx_fraction"

definition rx_number :: rx where
  "rx_number = RxSeq (rx_plus D) rx_fraction"

definition letter_or_digit :: "nat \<Rightarrow> bool" where
  "letter_or_digit c \<longleftrightarrow> is_alpha c \<or> is_digit c"

section \<open>Patterns\<close>

definition RE_URL :: rx where
  "RE_URL = RxAlt (rx_seq [rx_lit (js ''http''), rx_opt (RxCls (is_char 115)), rx_lit (js ''://''), rx_plus (RxCls (\<lambda>c. \<not> js_space c))])
     (rx_seq [rx_lit (js ''www.''), rx_plus (RxCls (\<lambda>c. \<not> js_space c))])"

definition RE_EMAIL :: rx where
  "RE_EMAIL = rx_seq [RxWordB, rx_plus (RxCls (\<lambda>c. is_word c \<or> one_of [46, 43, 45] c)), RxCls (is_char 64),
     rx_plus (RxCls (\<lambda>c. is_word c \<or> c = 45)), RxCls (is_char 46), RxRep True 2 None (RxCls is_alpha), RxWordB]"

definition RE_HASHTAG :: rx where
  "RE_HASHTAG = RxSeq (RxCls (is_char 35)) (rx_plus (RxCls is_word))"

definition RE_MENTION :: rx where
  "RE_MENTION = RxSeq (RxCls (is_char 64)) (rx_plus (RxCls is_word))"

definition RE_HTML :: rx where
  "RE_HTML = rx_seq [RxCls (is_char 60), rx_plus (RxCls (\<lambda>c. c \<noteq> 62)), RxCls (is_char 62)]"

definition RE_PUNCT :: "unicode \<Rightarrow> rx" where
  "RE_PUNCT uc = RxCls (\<lambda>c. \<not> ucd_LMN uc c \<and> \<not> js_space c \<and> none_of [46, 44, 63, 33, 59, 58, 45, 8212, 8211, 8230] c)"

definition RE_SPACES :: rx where
  "RE_SPACES = rx_plus (RxCls js_space)"

definition RE_NUMBER :: rx where
  "RE_NUMBER = rx_seq [RxNotBehind [is_alpha], rx_opt (RxCls (is_char 45)), rx_comma_number]"

definition RE_ORDINAL :: rx where
  "RE_ORDINAL = rx_seq [RxWordB, RxGrp 1 (rx_plus D), RxGrp 2 (rx_alts [rx_ci ''st'', rx_ci ''nd'', rx_ci ''rd'', rx_ci ''th'']), RxWordB]"

definition RE_PERCENT :: rx where
  "RE_PERCENT = rx_seq [RxGrp 1 (RxSeq (rx_opt (RxCls (is_char 45))) rx_comma_number), SP, RxCls (is_char 37)]"

definition RE_CURRENCY :: rx where
  "RE_CURRENCY = rx_seq [RxGrp 1 (RxCls (one_of [36, 8364, 163, 165, 8377, 8361, 8383])), SP, RxGrp 2 rx_comma_number, SP,
     rx_opt (RxGrp 3 (RxCls (one_of [75, 77, 66, 84]))), RxAhead False (RxCls letter_or_digit)]"

definition RE_TIME :: rx where
  "RE_TIME = rx_seq [RxWordB, RxGrp 1 (rx_between 1 2 D), RxCls (is_char 58), RxGrp 2 (rx_between 2 2 D),
     rx_opt (RxSeq (RxCls (is_char 58)) (RxGrp 3 (rx_between 2 2 D))), SP, rx_opt (RxGrp 4 (RxAlt (rx_ci ''am'') (rx_ci ''pm''))), RxWordB]"

definition RE_RANGE :: rx where
  "RE_RANGE = rx_seq [RxNotBehind [is_word], RxGrp 1 (rx_plus D), RxCls (is_char 45), RxGrp 2 (rx_plus D), RxAhead False (RxCls is_word)]"

definition RE_MODEL_VER :: rx where
  "RE_MODEL_VER = rx_seq [RxWordB, RxGrp 1 (RxSeq (RxCls is_alpha) (rx_star (RxCls letter_or_digit))), RxCls (is_char 45),
     RxGrp 2 (RxSeq D (rx_star (RxCls (\<lambda>c. is_digit c \<or> c = 46)))),
     RxAhead True (RxAlt (RxCls (\<lambda>c. \<not> is_digit c \<and> c \<noteq> 46)) RxEol)]"

definition RE_UNIT :: rx where
  "RE_UNIT = rx_seq [RxGrp 1 rx_number, SP, RxGrp 2 (rx_alts (map rx_ci [''km'', ''kg'', ''mg'', ''ml'', ''gb'', ''mb'', ''kb'', ''tb'',
       ''hz'', ''khz'', ''mhz'', ''ghz'', ''mph'', ''kph'']
     @ [RxSeq (RxCls (is_char 176)) (RxCls (one_of [99, 67, 102, 70])), RxSeq (RxCls (one_of [99, 67, 102, 70])) (RxCls (is_char 176)),
        rx_ci ''ms'', rx_ci ''ns'', RxSeq (RxCls (one_of [181, 956, 924])) (rx_ci ''s'')])), RxWordB]"

definition RE_SCALE :: rx where
  "RE_SCALE = rx_seq [RxNotBehind [is_alpha], RxGrp 1 rx_number, SP, RxGrp 2 (RxCls (one_of [75, 77, 66, 84])), RxAhead False (RxCls letter_or_digit)]"

definition RE_SCI :: rx where
  "RE_SCI = rx_seq [RxNotBehind [letter_or_digit], RxGrp 1 (RxSeq (rx_opt (RxCls (is_char 45))) rx_number), RxCls (one_of [101, 69]),
     RxGrp 2 (RxSeq (rx_opt (RxCls (one_of [43, 45]))) (rx_plus D)), RxAhead False (RxCls letter_or_digit)]"

definition RE_FRACTION :: rx where
  "RE_FRACTION = rx_seq [RxWordB, RxGrp 1 (rx_plus D), SP, RxCls (is_char 47), SP, RxGrp 2 (rx_plus D), RxWordB]"

definition RE_DECADE :: rx where
  "RE_DECADE = rx_seq [RxWordB, RxGrp 1 (rx_between 1 3 D), RxCls (is_char 48), RxCls (same_letter 115), RxWordB]"

definition RE_LEAD_DEC :: rx where
  "RE_LEAD_DEC = rx_seq [RxNotBehind [is_digit], RxCls (is_char 46), RxGrp 1 D]"

section \<open>The passes\<close>

text \<open>\<open>\<dots>.replace(/,/g, "")\<close>.\<close>

definition no_commas :: "jsstr \<Rightarrow> jsstr" where
  "no_commas s = filter (\<lambda>c. c \<noteq> 44) s"

definition number_words :: "jsstr \<Rightarrow> jsstr" where
  "number_words s = number_to_words (parseInt10 s)"

text \<open>The spoken form of a number's text: kept as text, or read as a double first.\<close>

definition text_words :: "jsstr \<Rightarrow> jsstr" where
  "text_words raw = (if 46 \<in> set raw then float_to_words raw else number_words raw)"

definition value_words :: "jsstr \<Rightarrow> jsstr" where
  "value_words raw = (if 46 \<in> set raw then float_to_words (num_text (parseFloat10 raw)) else number_words raw)"

definition contraction :: "string \<Rightarrow> rx" where
  "contraction s = rx_seq [RxWordB, rx_ci s, RxWordB]"

definition word_contraction :: "string \<Rightarrow> rx" where
  "word_contraction s = rx_seq [RxWordB, RxGrp 1 (rx_plus (RxCls is_word)), rx_ci s, RxWordB]"

definition contractions :: "(rx \<times> (jsstr \<Rightarrow> rmatch \<Rightarrow> jsstr)) list" where
  "contractions =
     [(contraction ''can't'', to_text (js ''cannot'')), (contraction ''won't'', to_text (js ''will not'')),
      (contraction ''shan't'', to_text (js ''shall not'')), (contraction ''ain't'', to_text (js ''is not'')),
      (contraction ''let's'', to_text (js ''let us'')),
      (word_contraction ''n't'', to_group [] (js '' not'') 1), (word_contraction '''re'', to_group [] (js '' are'') 1),
      (word_contraction '''ve'', to_group [] (js '' have'') 1), (word_contraction '''ll'', to_group [] (js '' will'') 1),
      (word_contraction '''d'', to_group [] (js '' would'') 1), (word_contraction '''m'', to_group [] (js '' am'') 1),
      (contraction ''it's'', to_text (js ''it is''))]"

definition expand_contractions :: "jsstr \<Rightarrow> jsstr" where
  "expand_contractions t = foldl (\<lambda>t (p, r). rx_replace False p r t) t contractions"

text \<open>The digits of an octet or of a part of a telephone number, one word each.\<close>

definition octet :: "jsstr \<Rightarrow> jsstr" where
  "octet s = join_with (js '' '') (map digit_word s)"

definition RE_IP :: rx where
  "RE_IP = (let o3 = (\<lambda>k. RxGrp k (rx_between 1 3 D)); dot = RxCls (is_char 46)
     in rx_seq [RxWordB, o3 1, dot, o3 2, dot, o3 3, dot, o3 4, RxWordB])"

definition expand_ip_addresses :: "jsstr \<Rightarrow> jsstr" where
  "expand_ip_addresses = rx_replace False RE_IP (\<lambda>s m. join_with (js '' dot '') (map (\<lambda>k. octet (m_dollar s m k)) [1, 2, 3, 4]))"

text \<open>\<open>"$10.$2"\<close>: the pattern has two groups, so \<open>$10\<close> is \<open>$1\<close> followed by the digit 0.\<close>

definition RE_LEAD_NEG :: rx where
  "RE_LEAD_NEG = rx_seq [RxNotBehind [is_digit], RxGrp 1 (RxCls (is_char 45)), RxCls (is_char 46), RxGrp 2 D]"

definition normalize_leading_decimals :: "jsstr \<Rightarrow> jsstr" where
  "normalize_leading_decimals t = rx_replace False RE_LEAD_DEC (to_group (js ''0.'') [] 1)
     (rx_replace False RE_LEAD_NEG (\<lambda>s m. m_dollar s m 1 @ js ''0.'' @ m_dollar s m 2) t)"

definition CURRENCY_SYMBOLS :: "(nat \<times> jsstr) list" where
  "CURRENCY_SYMBOLS = [(36, js ''dollar''), (8364, js ''euro''), (163, js ''pound''), (165, js ''yen''), (8377, js ''rupee''),
     (8361, js ''won''), (8383, js ''bitcoin'')]"

definition smap :: "jsstr \<Rightarrow> jsstr" where
  "smap s = (if s = js ''K'' then js ''thousand'' else if s = js ''M'' then js ''million''
     else if s = js ''B'' then js ''billion'' else js ''trillion'')"

definition currency_unit :: "jsstr \<Rightarrow> jsstr" where
  "currency_unit symb = (case map_of CURRENCY_SYMBOLS (hd symb) of Some u \<Rightarrow> u | None \<Rightarrow> js ''dollar'')"

definition cents :: "jsstr \<Rightarrow> jsint" where
  "cents dec_p = parseInt10 (take 2 (take 2 dec_p @ js ''00''))"

definition currency_words :: "jsstr \<Rightarrow> jsstr \<Rightarrow> jsstr option \<Rightarrow> jsstr" where
  "currency_words symb raw0 suffix =
     (let raw = no_commas raw0; unit = currency_unit symb in
      case suffix of
        Some suf \<Rightarrow> trim (text_words raw @ js '' '' @ smap suf @ js '' '' @ unit @ js ''s'')
      | None \<Rightarrow>
          if 46 \<in> set raw
          then (let ps = split_char 46 raw; dec_val = cents (ps ! 1); res = number_words (ps ! 0) @ js '' '' @ unit @ js ''s''
                in if dec_val = Whole 0 \<or> dec_val = NotANumber then res
                   else res @ js '' and '' @ number_to_words dec_val @ js '' cent'' @ (if dec_val \<noteq> Whole 1 then js ''s'' else []))
          else (let val = parseInt10 raw
                in number_to_words val @ js '' '' @ unit @ (if val = Whole 1 then [] else js ''s'')))"

definition expand_currency :: "jsstr \<Rightarrow> jsstr" where
  "expand_currency = rx_replace False RE_CURRENCY (\<lambda>s m. currency_words (m_dollar s m 1) (m_dollar s m 2) (m_cap s m 3))"

definition expand_percentages :: "jsstr \<Rightarrow> jsstr" where
  "expand_percentages = rx_replace False RE_PERCENT (\<lambda>s m. value_words (no_commas (m_dollar s m 1)) @ js '' percent'')"

definition time_words :: "jsstr \<Rightarrow> jsstr \<Rightarrow> jsstr option \<Rightarrow> jsstr" where
  "time_words h m ampm =
     (let hh = number_words h; mm = parseInt10 m; suf = (case ampm of None \<Rightarrow> [] | Some a \<Rightarrow> js '' '' @ lower a)
      in if mm = Whole 0 then (if ampm = None then hh @ js '' hundred'' else hh @ suf)
         else (case mm of Whole k \<Rightarrow> if k < 10 then hh @ js '' oh '' @ number_to_words mm @ suf else hh @ js '' '' @ number_to_words mm @ suf
               | _ \<Rightarrow> hh @ js '' '' @ number_to_words mm @ suf))"

definition expand_time :: "jsstr \<Rightarrow> jsstr" where
  "expand_time = rx_replace False RE_TIME (\<lambda>s m. time_words (m_dollar s m 1) (m_dollar s m 2) (m_cap s m 4))"

definition expand_ranges :: "jsstr \<Rightarrow> jsstr" where
  "expand_ranges = rx_replace False RE_RANGE (\<lambda>s m. number_words (m_dollar s m 1) @ js '' to '' @ number_words (m_dollar s m 2))"

definition expand_model_names :: "jsstr \<Rightarrow> jsstr" where
  "expand_model_names = rx_replace False RE_MODEL_VER (\<lambda>s m. m_dollar s m 1 @ js '' '' @ m_dollar s m 2)"

definition umap :: "(jsstr \<times> jsstr) list" where
  "umap = map (\<lambda>(a, b). (js a, js b)) [(''km'', ''kilometers''), (''kg'', ''kilograms''), (''mg'', ''milligrams''), (''ml'', ''milliliters''),
     (''gb'', ''gigabytes''), (''mb'', ''megabytes''), (''kb'', ''kilobytes''), (''tb'', ''terabytes''), (''hz'', ''hertz''),
     (''khz'', ''kilohertz''), (''mhz'', ''megahertz''), (''ghz'', ''gigahertz''), (''mph'', ''miles per hour''),
     (''kph'', ''kilometers per hour''), (''ms'', ''milliseconds''), (''ns'', ''nanoseconds'')]
     @ [([181, 115], js ''microseconds''), ([176, 99], js ''degrees Celsius''), ([99, 176], js ''degrees Celsius''),
        ([176, 102], js ''degrees Fahrenheit''), ([102, 176], js ''degrees Fahrenheit'')]"

definition expand_units :: "unicode \<Rightarrow> jsstr \<Rightarrow> jsstr" where
  "expand_units uc = rx_replace False RE_UNIT (\<lambda>s m.
     (let unit = m_dollar s m 2 in value_words (m_dollar s m 1) @ js '' ''
        @ (case map_of umap (to_lower uc unit) of Some e \<Rightarrow> e | None \<Rightarrow> unit)))"

definition jsint_abs :: "jsint \<Rightarrow> jsint" where
  "jsint_abs v = (case v of Whole n \<Rightarrow> Whole \<bar>n\<bar> | Infinite _ \<Rightarrow> Infinite False | NotANumber \<Rightarrow> NotANumber)"

definition jsint_negative :: "jsint \<Rightarrow> bool" where
  "jsint_negative v = (case v of Whole n \<Rightarrow> n < 0 | Infinite neg \<Rightarrow> neg | NotANumber \<Rightarrow> False)"

definition expand_scientific_notation :: "jsstr \<Rightarrow> jsstr" where
  "expand_scientific_notation = rx_replace False RE_SCI (\<lambda>s m.
     (let e = parseInt10 (m_dollar s m 2)
      in text_words (m_dollar s m 1) @ js '' times ten to the '' @ (if jsint_negative e then js ''negative '' else [])
           @ number_to_words (jsint_abs e)))"

definition expand_scale_suffixes :: "jsstr \<Rightarrow> jsstr" where
  "expand_scale_suffixes = rx_replace False RE_SCALE (\<lambda>s m. text_words (m_dollar s m 1) @ js '' '' @ smap (m_dollar s m 2))"

definition fraction_words :: "jsstr \<Rightarrow> jsint \<Rightarrow> jsint \<Rightarrow> jsstr" where
  "fraction_words whole n d =
     (if d = Whole 0 then whole
      else number_to_words n @ js '' ''
        @ (if d = Whole 2 then (if n = Whole 1 then js ''half'' else js ''halves'')
           else if d = Whole 4 then (if n = Whole 1 then js ''quarter'' else js ''quarters'')
           else ordinal_suffix d @ (if n \<noteq> Whole 1 then js ''s'' else [])))"

definition expand_fractions :: "jsstr \<Rightarrow> jsstr" where
  "expand_fractions = rx_replace False RE_FRACTION (\<lambda>s m.
     fraction_words (m_text s m) (parseInt10 (m_dollar s m 1)) (parseInt10 (m_dollar s m 2)))"

definition expand_ordinals :: "jsstr \<Rightarrow> jsstr" where
  "expand_ordinals = rx_replace False RE_ORDINAL (\<lambda>s m. ordinal_suffix (parseInt10 (m_dollar s m 1)))"

definition DECADES :: "jsstr list" where
  "DECADES = map js [''hundreds'', ''tens'', ''twenties'', ''thirties'', ''forties'', ''fifties'', ''sixties'', ''seventies'',
     ''eighties'', ''nineties'']"

text \<open>\<open>yr\<close> has one to three digits, so its value is exact.\<close>

definition decade_words :: "jsstr \<Rightarrow> jsstr" where
  "decade_words yr =
     (let base = digits_value yr; dec = DECADES ! (base mod 10)
      in if base < 10 then dec else number_to_words (Whole (int (base div 10))) @ js '' '' @ dec)"

definition expand_decades :: "jsstr \<Rightarrow> jsstr" where
  "expand_decades = rx_replace False RE_DECADE (\<lambda>s m. decade_words (m_dollar s m 1))"

definition digits_group :: "nat \<Rightarrow> nat \<Rightarrow> nat \<Rightarrow> rx" where
  "digits_group k a b = RxGrp k (rx_between a b D)"

definition no_dash_digit :: rx where
  "no_dash_digit = RxAhead False (RxSeq (RxCls (is_char 45)) D)"

definition RE_PHONE11 :: rx where
  "RE_PHONE11 = rx_seq [RxNotBehind [is_digit, is_char 45], RxNotBehind [is_digit], RxWordB, digits_group 1 1 2, RxCls (is_char 45),
     digits_group 2 3 3, RxCls (is_char 45), digits_group 3 3 3, RxCls (is_char 45), digits_group 4 4 4, RxWordB, no_dash_digit]"

definition RE_PHONE10 :: rx where
  "RE_PHONE10 = rx_seq [RxNotBehind [is_digit, is_char 45], RxNotBehind [is_digit], RxWordB, digits_group 1 3 3, RxCls (is_char 45),
     digits_group 2 3 3, RxCls (is_char 45), digits_group 3 4 4, RxWordB, no_dash_digit]"

definition RE_PHONE7 :: rx where
  "RE_PHONE7 = rx_seq [RxNotBehind [is_digit, is_char 45], RxWordB, digits_group 1 3 3, RxCls (is_char 45), digits_group 2 4 4,
     RxWordB, no_dash_digit]"

definition phone_words :: "nat list \<Rightarrow> jsstr \<Rightarrow> rmatch \<Rightarrow> jsstr" where
  "phone_words ks s m = join_with (js '' '') (map (\<lambda>k. octet (m_dollar s m k)) ks)"

definition expand_phone_numbers :: "jsstr \<Rightarrow> jsstr" where
  "expand_phone_numbers t = rx_replace False RE_PHONE7 (phone_words [1, 2])
     (rx_replace False RE_PHONE10 (phone_words [1, 2, 3]) (rx_replace False RE_PHONE11 (phone_words [1, 2, 3, 4]) t))"

definition number_match :: "bool \<Rightarrow> jsstr \<Rightarrow> jsstr" where
  "number_match replace_floats m =
     (let raw = no_commas m in if 46 \<in> set raw \<and> replace_floats then float_to_words raw else number_words raw)"

definition replace_numbers :: "bool \<Rightarrow> jsstr \<Rightarrow> jsstr" where
  "replace_numbers fl = rx_replace False RE_NUMBER (\<lambda>s m. number_match fl (m_text s m))"

section \<open>The preprocessor\<close>

record preprocess_config =
  cfg_lowercase :: bool
  cfg_replace_numbers :: bool
  cfg_replace_floats :: bool
  cfg_expand_contractions :: bool
  cfg_expand_model_names :: bool
  cfg_expand_ordinals :: bool
  cfg_expand_percentages :: bool
  cfg_expand_currency :: bool
  cfg_expand_time :: bool
  cfg_expand_ranges :: bool
  cfg_expand_units :: bool
  cfg_expand_scale_suffixes :: bool
  cfg_expand_scientific_notation :: bool
  cfg_expand_fractions :: bool
  cfg_expand_decades :: bool
  cfg_expand_phone_numbers :: bool
  cfg_expand_ip_addresses :: bool
  cfg_normalize_leading_decimals :: bool
  cfg_expand_roman_numerals :: bool
  cfg_remove_urls :: bool
  cfg_remove_emails :: bool
  cfg_remove_html :: bool
  cfg_remove_hashtags :: bool
  cfg_remove_mentions :: bool
  cfg_remove_punctuation :: bool
  cfg_remove_stopwords :: bool
  cfg_normalize_unicode :: bool
  cfg_remove_accents :: bool
  cfg_remove_extra_whitespace :: bool

definition default_config :: preprocess_config where
  "default_config = \<lparr>cfg_lowercase = True, cfg_replace_numbers = True, cfg_replace_floats = True, cfg_expand_contractions = True,
     cfg_expand_model_names = True, cfg_expand_ordinals = True, cfg_expand_percentages = True, cfg_expand_currency = True,
     cfg_expand_time = True, cfg_expand_ranges = True, cfg_expand_units = True, cfg_expand_scale_suffixes = True,
     cfg_expand_scientific_notation = True, cfg_expand_fractions = True, cfg_expand_decades = True, cfg_expand_phone_numbers = True,
     cfg_expand_ip_addresses = True, cfg_normalize_leading_decimals = True, cfg_expand_roman_numerals = False, cfg_remove_urls = True,
     cfg_remove_emails = True, cfg_remove_html = True, cfg_remove_hashtags = False, cfg_remove_mentions = False,
     cfg_remove_punctuation = True, cfg_remove_stopwords = False, cfg_normalize_unicode = True, cfg_remove_accents = False,
     cfg_remove_extra_whitespace = True\<rparr>"

definition collapse_spaces :: "jsstr \<Rightarrow> jsstr" where
  "collapse_spaces t = trim (rx_replace False RE_SPACES (to_text (js '' '')) t)"

text \<open>The passes of \<open>process\<close> with the options that turn them on, in the order of the code.\<close>

definition passes :: "unicode \<Rightarrow> preprocess_config \<Rightarrow> (bool \<times> (jsstr \<Rightarrow> jsstr)) list" where
  "passes uc cfg =
     [(cfg_normalize_unicode cfg, nfc uc),
      (cfg_remove_html cfg, rx_replace False RE_HTML (to_text (js '' ''))),
      (cfg_remove_urls cfg, \<lambda>t. trim (rx_replace False RE_URL (to_text []) t)),
      (cfg_remove_emails cfg, \<lambda>t. trim (rx_replace False RE_EMAIL (to_text []) t)),
      (cfg_remove_hashtags cfg, rx_replace False RE_HASHTAG (to_text [])),
      (cfg_remove_mentions cfg, rx_replace False RE_MENTION (to_text [])),
      (cfg_expand_contractions cfg, expand_contractions),
      (cfg_expand_ip_addresses cfg, expand_ip_addresses),
      (cfg_normalize_leading_decimals cfg, normalize_leading_decimals),
      (cfg_expand_currency cfg, expand_currency),
      (cfg_expand_percentages cfg, expand_percentages),
      (cfg_expand_time cfg, expand_time),
      (cfg_expand_ranges cfg, expand_ranges),
      (cfg_expand_model_names cfg, expand_model_names),
      (cfg_expand_units cfg, expand_units uc),
      (cfg_expand_scientific_notation cfg, expand_scientific_notation),
      (cfg_expand_scale_suffixes cfg, expand_scale_suffixes),
      (cfg_expand_fractions cfg, expand_fractions),
      (cfg_expand_ordinals cfg, expand_ordinals),
      (cfg_expand_decades cfg, expand_decades),
      (cfg_expand_phone_numbers cfg, expand_phone_numbers),
      (cfg_replace_numbers cfg, replace_numbers (cfg_replace_floats cfg)),
      (cfg_remove_punctuation cfg, rx_replace True (RE_PUNCT uc) (to_text (js '' ''))),
      (cfg_lowercase cfg, to_lower uc),
      (cfg_remove_extra_whitespace cfg, collapse_spaces)]"

definition process :: "unicode \<Rightarrow> preprocess_config \<Rightarrow> jsstr \<Rightarrow> jsstr" where
  "process uc cfg text = foldl (\<lambda>t (on, pass). if on then pass t else t) text (passes uc cfg)"

text \<open>Unicode data for text in ASCII.\<close>

definition ascii_unicode :: unicode where
  "ascii_unicode = \<lparr>nfc = id, to_lower = lower, ucd_LMN = (\<lambda>c. is_alnum c)\<rparr>"

definition kitten_config :: preprocess_config where
  "kitten_config = default_config\<lparr>cfg_remove_punctuation := False\<rparr>"

section \<open>Words without digits\<close>

definition spoken :: "jsstr \<Rightarrow> bool" where
  "spoken s \<longleftrightarrow> list_all (\<lambda>c. \<not> is_digit c) s"

lemma spoken_simps [simp]: "spoken []" "spoken (c # s) \<longleftrightarrow> \<not> is_digit c \<and> spoken s" "spoken (s @ t) \<longleftrightarrow> spoken s \<and> spoken t"
  by (simp_all add: spoken_def)

lemma spoken_subset: "set s \<subseteq> set t \<Longrightarrow> spoken t \<Longrightarrow> spoken s"
  by (auto simp: spoken_def list_all_iff)

lemma spoken_join: "spoken sep \<Longrightarrow> \<forall>w\<in>set ws. spoken w \<Longrightarrow> spoken (join_with sep ws)"
  by (induction sep ws rule: join_with.induct) auto

lemma spoken_literals:
  "spoken (js '' '')" "spoken (js '' hundred'')" "spoken (js ''negative '')" "spoken (js ''zero'')" "spoken (js '' point '')"
  by code_simp+

lemma spoken_ones: "i < 20 \<Longrightarrow> spoken (ONES ! i)"
proof -
  have "list_all spoken ONES" "length ONES = 20" by code_simp+
  then show "i < 20 \<Longrightarrow> spoken (ONES ! i)" by (simp add: list_all_length)
qed

lemma spoken_chunk: "n < 1000 \<Longrightarrow> spoken (three_digits_to_words n)"
proof -
  assume n: "n < 1000"
  have t: "list_all (\<lambda>r. list_all spoken (low_tokens r)) [0..<100]" "spoken (js ''hundred'')" by code_simp+
  then have "\<forall>w\<in>set (low_tokens (n mod 100)). spoken w" by (auto simp: list_all_iff)
  then show ?thesis using t(2) spoken_ones [of "n div 100"] n unfolding three_digits_tokens
    by (intro spoken_join spoken_literals) (auto simp: chunk_tokens_def)
qed

lemma spoken_parts: "\<forall>w\<in>set scales. spoken w \<Longrightarrow> \<forall>w\<in>set (scale_parts scales n). spoken w"
proof (induction scales arbitrary: n)
  case (Cons scale scales)
  have "spoken (trim (three_digits_to_words (nat (n mod 1000)) @ js '' '' @ scale))"
    using spoken_chunk [of "nat (n mod 1000)"] Cons.prems spoken_literals(1) by (intro spoken_subset [OF set_trim]) simp
  then show ?case using Cons spoken_chunk [of "nat (n mod 1000)"] by (auto simp: Let_def)
qed simp

lemma spoken_number: "spoken (number_to_words v)"
proof -
  have "list_all spoken SCALE" by code_simp
  then have "\<forall>w\<in>set (scale_parts SCALE n). spoken w" for n by (intro spoken_parts) (simp add: list_all_iff)
  then have "spoken (join_with (js '' '') (rev (scale_parts SCALE n)))" for n by (intro spoken_join spoken_literals) simp
  then have "spoken (positive_words n)" for n
    using spoken_ones spoken_literals(2) by (simp add: positive_words_def Let_def)
  then show ?thesis using spoken_literals by (auto simp: number_to_words_def split: jsint.splits)
qed

lemma spoken_digit_word: "spoken (digit_word d)"
  using spoken_literals(4) spoken_ones [of "d - 48"] by (auto simp: digit_word_def is_digit_def)

lemma spoken_float: "spoken (float_to_words s)"
proof -
  have "spoken (join_with (js '' '') (map digit_word ds))" for ds
    using spoken_digit_word by (intro spoken_join spoken_literals) simp
  then show ?thesis unfolding float_to_words_def Let_def using spoken_number spoken_literals by simp
qed

lemma spoken_match: "spoken (number_match fl m)"
  by (simp add: number_match_def Let_def spoken_float spoken_number number_words_def)

section \<open>Runs of digits\<close>

lemma rx_m_plus:
  assumes "plain P"
  shows "rx_m u s (rx_plus (RxCls P)) (i, c) = map (\<lambda>j. (i + j, c)) (rev [1..<Suc (run_len P s i)])"
  using rx_rep_cls [OF assms, of s i 1 "Suc (length s - i + 1)" u c] by (simp add: rx_plus_def del: rx_rep.simps)

lemma plain_digits: "plain is_digit" "plain digit_comma" "plain (is_char 45)" "plain (is_char 46)"
  by (auto simp: plain_def is_digit_def digit_comma_def is_char_def)

text \<open>The order and the shape of the passes make some texts come out wrong: in \<open>B12\<close> only the second digit counts as a
  number; the comma after a year goes with the number; the space between an amount and a bracket is lost;
  the seconds of a time are dropped; and a telephone number, which the telephone pass would spell digit
  by digit, is read as a range, because the pass for ranges comes first and leaves the telephone pass
  nothing to find.\<close>

theorem preprocessor_misreads:
  "process ascii_unicode kitten_config (js ''B12'') = js ''b1two''
   \<and> replace_numbers True (js ''2024, we'') = js ''two thousand twenty-four we''
   \<and> expand_currency (js ''$5 (net)'') = js ''five dollars(net)''
   \<and> expand_time (js ''10:30:45'') = js ''ten thirty''
   \<and> expand_phone_numbers (js ''100-2000'') = js ''one zero zero two zero zero zero''
   \<and> expand_ranges (js ''100-2000'') = js ''one hundred to two thousand''
   \<and> expand_phone_numbers (js ''one hundred to two thousand'') = js ''one hundred to two thousand''"
  by (intro conjI; code_simp)

end
