(* ===== verification/KittenSpeech.thy ===== *)
theory KittenSpeech
  imports KittenText
begin

text \<open>
  The number pass of the Kitten preprocessor (\<open>replace_numbers\<close>), which runs after all the others, against a
  description of its own: \<open>take_number\<close> scans a number off the front of a text, \<open>number_said\<close> says which words
  stand for it, by way of the independent reader of number words, and \<open>said_text\<close> relates a text to what is
  spoken for it. The code, a regular expression with a replacement function, is shown to satisfy it.
\<close>

section \<open>The description\<close>

text \<open>A number at the front of a text: a minus sign or none, digits and commas, and a fraction if there is one; with
  what follows it.\<close>

definition take_number :: "jsstr \<Rightarrow> (bool \<times> jsstr \<times> jsstr option \<times> jsstr) option" where
  "take_number t =
     (let neg = (t \<noteq> [] \<and> hd t = 45); u = (if neg then tl t else t);
          body = takeWhile (\<lambda>c. is_digit c \<or> c = 44) u; v = dropWhile (\<lambda>c. is_digit c \<or> c = 44) u;
          fs = takeWhile is_digit (tl v)
      in if body = [] then None
         else if v \<noteq> [] \<and> hd v = 46 \<and> fs \<noteq> [] then Some (neg, body, Some fs, dropWhile is_digit (tl v))
         else Some (neg, body, None, v))"

definition digit_name :: "nat \<Rightarrow> jsstr" where
  "digit_name d = map js [''zero'', ''one'', ''two'', ''three'', ''four'', ''five'', ''six'', ''seven'', ''eight'', ''nine''] ! (d - 48)"

text \<open>The words \<open>w\<close> for a number with the digits \<open>ds\<close> before the point and \<open>fra\<close> behind it. They hold no digit; without digits before the point nothing
  is said, or \<open>zero\<close> when a fraction follows that is to be spoken; a number below \<open>10 ^ 15\<close> reads back as its value; with a fraction, when fractions are to be
  spoken, the whole part comes first, then the digits one by one.\<close>

definition number_said :: "bool \<Rightarrow> bool \<Rightarrow> jsstr \<Rightarrow> jsstr option \<Rightarrow> jsstr \<Rightarrow> bool" where
  "number_said floats neg ds fra w \<longleftrightarrow> list_all (\<lambda>c. \<not> is_digit c) w \<and>
     (if floats \<and> fra \<noteq> None
      then \<exists>whole. w = (if neg then js ''negative '' else []) @ whole @ js '' point '' @ join_with (js '' '') (map digit_name (the fra))
        \<and> (if ds = [] then whole = js ''zero'' else digits_value ds < 10 ^ 15 \<longrightarrow> read_number whole = Some (int (digits_value ds)))
      else if ds = [] then w = []
      else digits_value ds < 10 ^ 15 \<longrightarrow> read_number w = Some (if neg then - int (digits_value ds) else int (digits_value ds)))"

text \<open>A text and what is spoken for it, read from left to right; \<open>after\<close> says whether a letter stands before it. A
  character stays if a letter stands before it or no number starts with it; otherwise the number that
  starts there is spoken.\<close>

inductive said_text :: "bool \<Rightarrow> bool \<Rightarrow> jsstr \<Rightarrow> jsstr \<Rightarrow> bool" for floats where
  nothing: "said_text floats after [] []"
| kept: "after \<or> take_number (c # s) = None \<Longrightarrow> said_text floats (is_alpha c) s out \<Longrightarrow> said_text floats after (c # s) (c # out)"
| said: "take_number t = Some (neg, body, fra, rest) \<Longrightarrow> number_said floats neg (filter (\<lambda>c. c \<noteq> 44) body) fra w
    \<Longrightarrow> said_text floats False rest out \<Longrightarrow> said_text floats False t (w @ out)"

section \<open>What the pattern matches\<close>

lemma hd_concat_map: "xs \<noteq> [] \<Longrightarrow> f (hd xs) \<noteq> [] \<Longrightarrow> concat (map f xs) \<noteq> [] \<and> hd (concat (map f xs)) = hd (f (hd xs))"
  by (cases xs) auto

lemma plus_first:
  assumes "plain P"
  shows "rx_m u s (rx_plus (RxCls P)) (i, c) \<noteq> [] \<longleftrightarrow> 0 < run_len P s i"
    and "0 < run_len P s i \<Longrightarrow> hd (rx_m u s (rx_plus (RxCls P)) (i, c)) = (i + run_len P s i, c)"
  by (simp_all add: rx_m_plus [OF assms] hd_map hd_rev last_upt del: upt_Suc)

text \<open>An optional part that consumes something when it matches.\<close>

lemma opt_eq:
  assumes "\<And>st'. st' \<in> set (rx_m u s r (clear_caps (rx_groups r) st)) \<Longrightarrow> fst st < fst st' \<and> fst st' \<le> length s"
  shows "rx_m u s (rx_opt r) st = rx_m u s r (clear_caps (rx_groups r) st) @ [st]"
proof (cases "length s - fst st")
  case 0
  then have "rx_m u s r (clear_caps (rx_groups r) st) = []" using assms by (cases "rx_m u s r (clear_caps (rx_groups r) st)") fastforce+
  then show ?thesis by (simp add: rx_opt_def Let_def)
next
  case (Suc n)
  have c: "concat (map (\<lambda>st'. if fst st' = fst st then [] else [st']) xs) = xs" if "\<And>st'. st' \<in> set xs \<Longrightarrow> fst st < fst st'" for xs
    using that by (induction xs) fastforce+
  show ?thesis using c [of "rx_m u s r (clear_caps (rx_groups r) st)"] assms Suc by (simp add: rx_opt_def Let_def cong: if_cong)
qed

lemma clear_none [simp]: "clear_caps [] (i, c) = (i, c)"
  by (simp add: clear_caps_def)

definition fraction_len :: "jsstr \<Rightarrow> nat \<Rightarrow> nat" where
  "fraction_len s k = (if k < length s \<and> s ! k = 46 \<and> 0 < run_len is_digit s (Suc k) then Suc (run_len is_digit s (Suc k)) else 0)"

lemma fraction_first: "rx_m u s rx_fraction (k, c) \<noteq> [] \<and> hd (rx_m u s rx_fraction (k, c)) = (k + fraction_len s k, c)"
proof -
  let ?r = "RxSeq (RxCls (is_char 46)) (rx_plus (RxCls is_digit))"
  have m: "rx_m u s ?r (k, c) = (if k < length s \<and> s ! k = 46 then rx_m u s (rx_plus (RxCls is_digit)) (Suc k, c) else [])"
    by (auto simp: rx_m_cls plain_digits is_char_def simp del: rx_m.simps(2,5))
  have "fst st' \<le> length s" if "st' \<in> set (rx_m u s (rx_plus (RxCls is_digit)) (Suc k, c))" "k < length s" for st'
    using that run_len_bound [of is_digit s "Suc k"] by (auto simp: rx_m_plus plain_digits simp del: upt_Suc)
  moreover have "k < fst st'" if "st' \<in> set (rx_m u s (rx_plus (RxCls is_digit)) (Suc k, c))" for st'
    using that by (auto simp: rx_m_plus plain_digits simp del: upt_Suc)
  moreover have g: "rx_groups ?r = []" by (simp add: rx_plus_def)
  ultimately have "rx_m u s rx_fraction (k, c) = rx_m u s ?r (k, c) @ [(k, c)]"
    unfolding rx_fraction_def using m by (subst opt_eq) (auto simp: g split: if_splits simp del: rx_m.simps)
  then show ?thesis
    using plus_first [OF plain_digits(1), where u = u and s = s and i = "Suc k" and c = c] unfolding m
    by (auto simp: fraction_len_def hd_append)
qed

lemma comma_first:
  "(rx_m u s rx_comma_number (k, c) \<noteq> [] \<longleftrightarrow> 0 < run_len digit_comma s k)
   \<and> (0 < run_len digit_comma s k \<longrightarrow> hd (rx_m u s rx_comma_number (k, c))
       = (k + run_len digit_comma s k + fraction_len s (k + run_len digit_comma s k), c))"
proof (cases "0 < run_len digit_comma s k")
  case True
  note p = plus_first [OF plain_digits(2), where u = u and s = s and i = k and c = c]
  have "rx_m u s rx_comma_number (k, c) = concat (map (rx_m u s rx_fraction) (rx_m u s (rx_plus (RxCls digit_comma)) (k, c)))"
    by (simp add: rx_comma_number_def)
  then show ?thesis
    using hd_concat_map [of "rx_m u s (rx_plus (RxCls digit_comma)) (k, c)" "rx_m u s rx_fraction"] p True
      fraction_first [of u s "k + run_len digit_comma s k" c] by simp
next
  case False
  then show ?thesis using plus_first(1) [OF plain_digits(2), where u = u and s = s and i = k and c = c]
    by (simp add: rx_comma_number_def)
qed

text \<open>Where the number starts, behind its sign.\<close>

definition after_sign :: "jsstr \<Rightarrow> nat \<Rightarrow> nat" where
  "after_sign s i = (if i < length s \<and> s ! i = 45 then Suc i else i)"

lemma seq_eps: "rx_m u s (RxSeq r RxEps) = rx_m u s r"
proof
  fix st
  have "concat (map (rx_m u s RxEps) xs) = xs" for xs by (induction xs) simp_all
  then show "rx_m u s (RxSeq r RxEps) st = rx_m u s r st" by (simp del: rx_m.simps(1))
qed

lemma exec_number:
  "rx_exec False RE_NUMBER s i =
     (let k = after_sign s i; j = k + run_len digit_comma s k
      in if behind [is_alpha] s i \<or> run_len digit_comma s k = 0 then None else Some (j + fraction_len s j, \<lambda>_. None))"
proof -
  let ?c = "\<lambda>_. None"
  have sign: "rx_m False s (rx_opt (RxCls (is_char 45))) (i, ?c) = (if i < length s \<and> s ! i = 45 then [(Suc i, ?c), (i, ?c)] else [(i, ?c)])"
    by (subst opt_eq) (auto simp: rx_m_cls plain_digits is_char_def simp del: rx_m.simps)
  have m: "rx_m False s RE_NUMBER (i, ?c) = (if behind [is_alpha] s i then []
      else concat (map (rx_m False s rx_comma_number) (rx_m False s (rx_opt (RxCls (is_char 45))) (i, ?c))))"
  proof -
    have re: "RE_NUMBER = RxSeq (RxNotBehind [is_alpha]) (RxSeq (rx_opt (RxCls (is_char 45))) (RxSeq rx_comma_number RxEps))"
      by (simp add: RE_NUMBER_def rx_seq_def)
    have nb: "rx_m False s (RxSeq (RxNotBehind ps) r) st = (if behind ps s (fst st) then [] else rx_m False s r st)" for ps r st
      by simp
    have sq: "rx_m False s (RxSeq a (RxSeq b RxEps)) st = concat (map (rx_m False s b) (rx_m False s a st))" for a b st
      by (simp only: rx_m.simps(3) seq_eps)
    show ?thesis by (simp only: re nb sq fst_conv)
  qed
  have none: "rx_m False s rx_comma_number (i, ?c) = []" if "i < length s" "s ! i = 45"
    using that comma_first [of False s i ?c] run_len_step [of digit_comma s i] by (simp add: digit_comma_def is_digit_def)
  have "concat (map (rx_m False s rx_comma_number) (rx_m False s (rx_opt (RxCls (is_char 45))) (i, ?c)))
      = rx_m False s rx_comma_number (after_sign s i, ?c)"
    unfolding sign after_sign_def using none by auto
  then have "rx_m False s RE_NUMBER (i, ?c) = (if behind [is_alpha] s i then [] else rx_m False s rx_comma_number (after_sign s i, ?c))"
    using m by simp
  then show ?thesis using comma_first [of False s "after_sign s i" ?c]
    by (auto simp: rx_exec_def Let_def split: list.splits)
qed

text \<open>The scan of the description finds the same.\<close>

lemma digit_comma_eq: "(\<lambda>c. is_digit c \<or> c = 44) = digit_comma"
  by (simp add: digit_comma_def fun_eq_iff)

lemma take_number_split:
  assumes "take_number t = Some (neg, body, fra, rest)"
  shows "t = (if neg then [45] else []) @ body @ (case fra of None \<Rightarrow> [] | Some fs \<Rightarrow> 46 # fs) @ rest
     \<and> body \<noteq> [] \<and> list_all digit_comma body \<and> (\<forall>fs. fra = Some fs \<longrightarrow> fs \<noteq> [] \<and> list_all is_digit fs)"
proof -
  define n where "n = (t \<noteq> [] \<and> hd t = 45)"
  define u where "u = (if n then tl t else t)"
  define v where "v = dropWhile digit_comma u"
  have t: "t = (if n then [45] else []) @ u" by (cases t) (auto simp: u_def n_def)
  have u: "u = takeWhile digit_comma u @ v" by (simp add: v_def)
  have cls: "list_all digit_comma (takeWhile digit_comma u)" "list_all is_digit (takeWhile is_digit w)" for w
    by (auto simp: list_all_iff dest: set_takeWhileD)
  have r: "take_number t = (if takeWhile digit_comma u = [] then None
      else if v \<noteq> [] \<and> hd v = 46 \<and> takeWhile is_digit (tl v) \<noteq> []
      then Some (n, takeWhile digit_comma u, Some (takeWhile is_digit (tl v)), dropWhile is_digit (tl v))
      else Some (n, takeWhile digit_comma u, None, v))"
    unfolding take_number_def digit_comma_eq Let_def n_def [symmetric] u_def [symmetric] v_def [symmetric] ..
  have v: "v = 46 # takeWhile is_digit (tl v) @ dropWhile is_digit (tl v)" if "v \<noteq> []" "hd v = 46"
    using that by (cases v) simp_all
  show ?thesis
  proof (cases "v \<noteq> [] \<and> hd v = 46 \<and> takeWhile is_digit (tl v) \<noteq> []")
    case True
    then have "u = takeWhile digit_comma u @ 46 # takeWhile is_digit (tl v) @ dropWhile is_digit (tl v)" using u v by metis
    then show ?thesis using assms r True t cls by (auto split: if_splits)
  next
    case False
    then have "n = neg" "body = takeWhile digit_comma u" "fra = None" "rest = v" "takeWhile digit_comma u \<noteq> []"
      using assms r by (auto split: if_splits)
    then show ?thesis using t u cls by simp
  qed
qed

lemma number_there:
  assumes "i \<le> length s"
  shows "take_number (drop i s) = None \<longleftrightarrow> run_len digit_comma s (after_sign s i) = 0"
    and "take_number (drop i s) = Some (neg, body, fra, rest) \<Longrightarrow>
      (let j = after_sign s i + run_len digit_comma s (after_sign s i) in j + fraction_len s j = length s - length rest)"
proof -
  let ?k = "after_sign s i"
  let ?j = "?k + run_len digit_comma s ?k"
  have n: "(drop i s \<noteq> [] \<and> hd (drop i s) = 45) \<longleftrightarrow> i < length s \<and> s ! i = 45" by (auto simp: hd_drop_conv_nth)
  have u: "(if i < length s \<and> s ! i = 45 then tl (drop i s) else drop i s) = drop ?k s"
    unfolding after_sign_def by (simp add: drop_Suc tl_drop)
  have v: "dropWhile digit_comma (drop ?k s) = drop ?j s" by (simp add: drop_run_len)
  have w: "tl (drop ?j s) = drop (Suc ?j) s" by (simp add: drop_Suc tl_drop)
  have h: "drop ?j s \<noteq> [] \<and> hd (drop ?j s) = 46 \<and> C \<longleftrightarrow> ?j < length s \<and> s ! ?j = 46 \<and> C" for C by (auto simp: hd_drop_conv_nth)
  have tw: "takeWhile P (drop a s) = [] \<longleftrightarrow> run_len P s a = 0" for P a by (simp add: run_len_def)
  have r: "take_number (drop i s) = (if run_len digit_comma s ?k = 0 then None
      else if ?j < length s \<and> s ! ?j = 46 \<and> 0 < run_len is_digit s (Suc ?j)
      then Some (i < length s \<and> s ! i = 45, takeWhile digit_comma (drop ?k s), Some (takeWhile is_digit (drop (Suc ?j) s)),
             drop (Suc ?j + run_len is_digit s (Suc ?j)) s)
      else Some (i < length s \<and> s ! i = 45, takeWhile digit_comma (drop ?k s), None, drop ?j s))"
    unfolding take_number_def digit_comma_eq Let_def u v w n drop_run_len [where P = is_digit, symmetric]
    by (simp only: h tw neq0_conv)
  show "take_number (drop i s) = None \<longleftrightarrow> run_len digit_comma s ?k = 0" unfolding r by simp
  have "?k \<le> length s" using assms by (auto simp: after_sign_def)
  then have "?j \<le> length s" using run_len_bound [of digit_comma s ?k] by simp
  moreover have "Suc ?j + run_len is_digit s (Suc ?j) \<le> length s" if "?j < length s" using that run_len_bound [of is_digit s "Suc ?j"] by simp
  ultimately show "take_number (drop i s) = Some (neg, body, fra, rest) \<Longrightarrow>
      (let j = ?j in j + fraction_len s j = length s - length rest)"
    unfolding r Let_def fraction_len_def by (auto split: if_splits)
qed

lemma take_append_length: "take (length xs) (xs @ ys) = xs"
  by simp

section \<open>The words of a match\<close>

lemma digit_plain: "is_digit c \<Longrightarrow> \<not> js_space c \<and> c \<noteq> 44 \<and> c \<noteq> 45 \<and> c \<noteq> 43 \<and> c \<noteq> 46"
  by (auto simp: is_digit_def js_space_def)

lemma parse_signed:
  assumes "list_all is_digit ds" and "rest = [] \<or> \<not> is_digit (hd rest)" and "ds = [] \<Longrightarrow> neg \<or> rest = [] \<or> hd rest = 46"
  shows "parseInt10 ((if neg then [45] else []) @ ds @ rest) =
    (if ds = [] then NotANumber else whole_of (round64 (if neg then - of_nat (digits_value ds) else of_nat (digits_value ds))))"
proof -
  have tw: "takeWhile is_digit (ds @ rest) = ds" using assms(1,2) by (cases rest) (auto simp: list_all_iff takeWhile_append2)
  have sp: "\<not> js_space 45" "\<not> js_space 46" by (simp_all add: js_space_def)
  have "signed_part ((if neg then [45] else []) @ ds @ rest) = (neg, ds @ rest)"
  proof (cases neg)
    case True
    then show ?thesis using sp by (simp add: signed_part_def ltrim_def)
  next
    case False
    show ?thesis
    proof (cases ds)
      case Nil
      then show ?thesis using False assms(3) sp by (cases rest) (auto simp: signed_part_def ltrim_def)
    next
      case (Cons d ds')
      then have "is_digit d" using assms(1) by simp
      then show ?thesis using digit_plain [of d] Cons False by (simp add: signed_part_def ltrim_def)
    qed
  qed
  then show ?thesis by (simp add: parseInt10_def tw)
qed

lemma whole_small:
  assumes "v < 10 ^ 15"
  shows "whole_of (round64 (if neg then - of_nat v else of_nat v)) = Whole (if neg then - int v else int v)"
proof -
  have "(10 :: int) ^ 15 \<le> 2 ^ 53" by simp
  then have "\<bar>if neg then - int v else int v\<bar> \<le> 2 ^ 53" using assms by (cases neg) simp_all
  moreover have "\<lfloor>- rat_of_nat v\<rfloor> = - int v" by (metis floor_of_int of_int_minus of_int_of_nat_eq)
  ultimately show ?thesis using round64_whole by (cases neg) (fastforce simp: whole_of_def)+
qed

lemma digits_read:
  assumes "list_all is_digit ds" and "rest = [] \<or> \<not> is_digit (hd rest)" and "ds \<noteq> []" and "digits_value ds < 10 ^ 15"
  shows "read_number (number_to_words (parseInt10 ((if neg then [45] else []) @ ds @ rest)))
    = Some (if neg then - int (digits_value ds) else int (digits_value ds))"
proof -
  have "parseInt10 ((if neg then [45] else []) @ ds @ rest) = Whole (if neg then - int (digits_value ds) else int (digits_value ds))"
    using parse_signed [OF assms(1,2)] whole_small [OF assms(4)] assms(3) by simp
  then show ?thesis using assms(4) using words_read_back by (cases neg) simp_all
qed

lemma digit_word_name: "is_digit d \<Longrightarrow> digit_word d = digit_name d"
proof -
  assume "is_digit d"
  then have "48 \<le> d \<and> d < 58" by (simp add: is_digit_def)
  then have d: "d \<in> set [48..<58]" by (simp only: set_upt atLeastLessThan_iff)
  have "list_all (\<lambda>d. digit_word d = digit_name d) [48..<58]" by code_simp
  then show ?thesis using d unfolding list_all_iff by blast
qed

lemma match_said:
  assumes "list_all digit_comma body" and "\<And>fs. fra = Some fs \<Longrightarrow> fs \<noteq> [] \<and> list_all is_digit fs"
  shows "number_said fl neg (filter (\<lambda>c. c \<noteq> 44) body) fra
    (number_match fl ((if neg then [45] else []) @ body @ (case fra of None \<Rightarrow> [] | Some fs \<Rightarrow> 46 # fs)))"
proof -
  define ds where "ds = filter (\<lambda>c. c \<noteq> 44) body"
  let ?f = "case fra of None \<Rightarrow> [] | Some fs \<Rightarrow> 46 # fs"
  let ?raw = "(if neg then [45] else []) @ ds @ ?f"
  have ds: "list_all is_digit ds" using assms(1) by (auto simp: ds_def list_all_iff digit_comma_def)
  have f: "?f = [] \<or> \<not> is_digit (hd ?f)" "ds = [] \<Longrightarrow> neg \<or> ?f = [] \<or> hd ?f = 46" by (simp_all add: is_digit_def split: option.splits)
  have fs: "filter (\<lambda>c. c \<noteq> 44) fs = fs" if "fra = Some fs" for fs
    using assms(2) [OF that] digit_plain by (auto simp: filter_id_conv list_all_iff)
  have raw: "no_commas ((if neg then [45] else []) @ body @ ?f) = ?raw"
    using fs by (simp add: no_commas_def ds_def split: option.split)
  have no_point: "46 \<notin> set ds" using ds digit_plain by (auto simp: list_all_iff)
  then have point: "46 \<in> set ?raw \<longleftrightarrow> fra \<noteq> None" by (auto split: option.splits)
  have plain: "list_all (\<lambda>c. \<not> is_digit c) (number_match fl m)" for m
    using spoken_match unfolding spoken_def .
  show ?thesis
  proof (cases "fl \<and> fra \<noteq> None")
    case False
    then have "number_match fl ((if neg then [45] else []) @ body @ ?f) = number_to_words (parseInt10 ?raw)"
      unfolding number_match_def Let_def raw point by (auto simp: number_words_def)
    moreover have "ds = [] \<Longrightarrow> number_to_words (parseInt10 ?raw) = []"
      using parse_signed [OF ds f] by (simp add: number_to_words_def)
    ultimately show ?thesis using False digits_read [OF ds f(1), of neg]
      unfolding number_said_def ds_def [symmetric] by (intro conjI plain, simp only: if_False) (simp add: False)
  next
    case True
    then obtain fs where fra: "fra = Some fs" by auto
    have nf: "46 \<notin> set fs" using assms(2) [OF fra] digit_plain by (auto simp: list_all_iff)
    define whole where "whole = (if ds \<noteq> [] then number_to_words (parseInt10 ds) else js ''zero'')"
    have sw: "starts_with ?raw (js ''-'') = neg"
    proof (cases ds)
      case (Cons d ds')
      then have "d \<noteq> 45" using ds digit_plain [of d] by auto
      then show ?thesis using Cons by (simp add: starts_with_def js_def)
    qed (simp add: starts_with_def js_def fra)
    have v: "(if neg then drop 1 ?raw else ?raw) = ds @ 46 # fs" by (simp add: fra)
    have sp: "split_char 46 (ds @ 46 # fs) = [ds, fs]" using no_point nf by (simp add: split_char_append split_char_plain)
    have names: "map digit_word fs = map digit_name fs" using assms(2) [OF fra] digit_word_name by (simp add: list_all_iff)
    have "float_to_words ?raw = (if neg then js ''negative '' else []) @ whole @ js '' point '' @ join_with (js '' '') (map digit_name fs)"
      unfolding float_to_words_def Let_def sw v by (simp add: sp whole_def names)
    moreover have "number_match fl ((if neg then [45] else []) @ body @ ?f) = float_to_words ?raw"
      unfolding number_match_def Let_def raw point using True by simp
    moreover have "ds \<noteq> [] \<Longrightarrow> digits_value ds < 10 ^ 15 \<Longrightarrow> read_number whole = Some (int (digits_value ds))"
      using digits_read [OF ds, of "[]" False] by (simp add: whole_def)
    ultimately show ?thesis using True fra unfolding number_said_def ds_def [symmetric] by (intro conjI plain) (auto simp: whole_def)
  qed
qed

text \<open>C39: What the number pass returns is the text with its numbers spoken, and nothing else changed: read from left to
  right, a character stays when it follows a letter or starts no number; a number (a minus sign or none,
  digits and commas, a fraction or none) that does not follow a letter is replaced by words, without a digit; for a number
  below \<open>10 ^ 15\<close> these read back as its value, followed by the digits of its fraction one by one where
  fractions are spoken; without a digit before the point the whole part is \<open>zero\<close>, and commas that stand
  alone are dropped.\<close>

theorem replace_numbers_spoken: "said_text fl False t (replace_numbers fl t)"
proof -
  let ?f = "\<lambda>s m. number_match fl (m_text s m)"
  have hit: "\<exists>neg body fra rest. take_number (drop i t) = Some (neg, body, fra, rest) \<and> e = length t - length rest
      \<and> \<not> behind [is_alpha] t i \<and> i < e"
    if ex: "rx_exec False RE_NUMBER t i = Some (e, c)" for i e c
  proof -
    have l: "0 < run_len digit_comma t (after_sign t i)" "\<not> behind [is_alpha] t i"
      using ex by (auto simp: exec_number Let_def split: if_splits)
    then have i: "i \<le> length t" using run_len_bound [of digit_comma t "after_sign t i"] by (auto simp: after_sign_def split: if_splits)
    obtain neg body fra rest where n: "take_number (drop i t) = Some (neg, body, fra, rest)"
      using number_there(1) [OF i] l(1) by (metis not_gr_zero option.exhaust prod_cases4)
    have "e = length t - length rest"
      using ex number_there(2) [OF i n] by (auto simp: exec_number Let_def split: if_splits)
    moreover have "i < e" using ex l(1) by (auto simp: exec_number Let_def after_sign_def split: if_splits)
    ultimately show ?thesis using n l(2) by blast
  qed
  have "said_text fl (behind [is_alpha] t 0) (drop 0 t) (rx_replace False RE_NUMBER ?f t)"
  proof (rule rx_replace_rule [where P = "\<lambda>i out. said_text fl (behind [is_alpha] t i) (drop i t) out"])
    fix i out
    assume i: "i < length t" and none: "rx_exec False RE_NUMBER t i = None" and out: "said_text fl (behind [is_alpha] t (Suc i)) (drop (Suc i) t) out"
    have "behind [is_alpha] t (Suc i) = is_alpha (t ! i)" using i by (simp add: behind_def slice_def Cons_nth_drop_Suc [symmetric])
    moreover have "behind [is_alpha] t i \<or> take_number (drop i t) = None"
      using none number_there(1) [of i t] i by (auto simp: exec_number Let_def split: if_splits)
    ultimately show "said_text fl (behind [is_alpha] t i) (drop i t) (t ! i # out)"
      using out i by (simp add: Cons_nth_drop_Suc [symmetric] said_text.kept)
  next
    fix i e c out
    assume e: "i < e" "e \<le> length t" "rx_exec False RE_NUMBER t i = Some (e, c)" and out: "said_text fl (behind [is_alpha] t e) (drop e t) out"
    obtain neg body fra rest where n: "take_number (drop i t) = Some (neg, body, fra, rest)" "e = length t - length rest" "\<not> behind [is_alpha] t i"
      using hit [OF e(3)] by blast
    let ?m = "(if neg then [45] else []) @ body @ (case fra of None \<Rightarrow> [] | Some fs \<Rightarrow> 46 # fs)"
    note sp = take_number_split [OF n(1)]
    then have d: "drop i t = ?m @ rest" by simp
    have t: "t = (take i t @ ?m) @ rest" using d by (metis append.assoc append_take_drop_id)
    have len: "e = length (take i t @ ?m)" unfolding n(2) by (subst (1) t) simp
    have rest: "rest = drop e t" and tk: "take e t = take i t @ ?m" using t len by (metis append_eq_conv_conj)+
    have m: "m_text t (i, e, c) = ?m"
    proof -
      have "e - i = length ?m" using len e(1,2) by simp
      then have "slice t i e = take (length ?m) (?m @ rest)" by (simp only: slice_def d)
      then show ?thesis by (simp only: m_text_def fst_conv snd_conv append_eq_conv_conj [symmetric] take_append_length)
    qed
    have "digit_comma (last ?m)"
      using sp by (cases fra) (auto simp: list_all_iff digit_comma_def)
    then have "\<not> is_alpha (last ?m)" by (auto simp: digit_comma_def is_digit_def is_alpha_def is_upper_def is_lower_def)
    moreover have "t ! (e - 1) = last (take e t)"
      using e(1,2) by (subst last_conv_nth) (auto simp: min_def)
    ultimately have last: "\<not> is_alpha (t ! (e - 1))" using tk sp by simp
    have nb: "\<not> behind [is_alpha] t e" using e(1,2) last by (simp add: behind_def slice_def Cons_nth_drop_Suc [symmetric])
    have w: "number_said fl neg (filter (\<lambda>c. c \<noteq> 44) body) fra (number_match fl ?m)" using sp by (intro match_said) auto
    have o: "said_text fl False rest out" using out nb rest by simp
    show "said_text fl (behind [is_alpha] t i) (drop i t) (number_match fl (m_text t (i, e, c)) @ out)"
      using said_text.said [OF n(1) w o] n(3) unfolding m by simp
  next
    show "said_text fl (behind [is_alpha] t (length t)) (drop (length t) t) []" by (simp add: said_text.nothing)
  next
    fix i e c
    assume "rx_exec False RE_NUMBER t i = Some (e, c)"
    then show "i < e" using hit by blast
  qed
  then show ?thesis by (simp add: replace_numbers_def behind_def)
qed

end
