(* ===== verification/KittenChunking.thy ===== *)
theory KittenChunking
  imports JsReplace TextChunking
begin

text \<open>
  How \<open>KittenTTS\<close> cuts a text into the chunks it synthesizes (\<open>_ensurePunctuation\<close> and \<open>_chunkText\<close> of
  \<open>src/kitten-tts.js\<close> inside \<open>kitten-tts.browser.js\<close>), with the reference description of splitting at runs
  of a class of characters.
\<close>

section \<open>The code\<close>

definition MAX_CHUNK_CHARS :: nat where
  "MAX_CHUNK_CHARS = 400"

definition sentence_mark :: "nat \<Rightarrow> bool" where
  "sentence_mark c \<longleftrightarrow> one_of [46, 33, 63] c"

definition ensurePunctuation :: "jsstr \<Rightarrow> jsstr" where
  "ensurePunctuation text =
     (let t = trim text in if t = [] then t else if one_of [46, 33, 63, 44, 59, 58] (last t) then t else t @ [44])"

text \<open>The loop over the words of a long sentence; \<open>temp\<close> is the chunk being filled.\<close>

fun word_chunks :: "jsstr \<Rightarrow> jsstr list \<Rightarrow> jsstr list" where
  "word_chunks temp [] = (if temp \<noteq> [] then [ensurePunctuation (trim temp)] else [])"
| "word_chunks temp (word # rest) =
     (if length temp + length word + 1 \<le> MAX_CHUNK_CHARS
      then word_chunks (temp @ (if temp \<noteq> [] then 32 # word else word)) rest
      else (if temp \<noteq> [] then [ensurePunctuation (trim temp)] else []) @ word_chunks word rest)"

definition sentence_chunks :: "jsstr \<Rightarrow> jsstr list" where
  "sentence_chunks s =
     (let sentence = trim s in
      if sentence = [] then []
      else if length sentence \<le> MAX_CHUNK_CHARS then [ensurePunctuation sentence]
      else word_chunks [] (rx_split False (rx_plus (RxCls js_space)) sentence))"

definition chunkText :: "jsstr \<Rightarrow> jsstr list" where
  "chunkText text = concat (map sentence_chunks (rx_split False (rx_plus (RxCls sentence_mark)) text))"

section \<open>Splitting at runs\<close>

lemma split_runs_from:
  assumes "plain P" and "p \<le> q" and "q \<le> length s" and "\<forall>c\<in>set (slice s p q). \<not> P c"
  shows "concat (rx_split_from False (rx_plus (RxCls P)) [] s p q) = filter (\<lambda>c. \<not> P c) (drop p s)
    \<and> (\<forall>x\<in>set (rx_split_from False (rx_plus (RxCls P)) [] s p q). \<forall>c\<in>set x. \<not> P c)"
  using assms(2-)
proof (induction "length s - q" arbitrary: p q rule: less_induct)
  case less
  have split: "drop p s = slice s p q @ drop q s"
    using less.prems(1) by (simp add: slice_def) (metis append_take_drop_id drop_drop le_add_diff_inverse2)
  have front: "filter (\<lambda>c. \<not> P c) (slice s p q) = slice s p q" using less.prems(3) by (simp add: filter_id_conv)
  show ?case
  proof (cases "q < length s")
    case False
    then show ?thesis using split front less.prems by (subst (1 2) rx_split_from.simps) (auto simp: filter_id_conv)
  next
    case True
    have dq: "drop q s = s ! q # drop (Suc q) s" using True by (simp add: Cons_nth_drop_Suc)
    show ?thesis
    proof (cases "P (s ! q)")
      case False
      have "rx_exec False (rx_plus (RxCls P)) s q = None"
        using False run_len_step [of P s q] by (simp add: rx_plus_def rx_exec_run [OF assms(1)])
      then have "rx_split_from False (rx_plus (RxCls P)) [] s p q = rx_split_from False (rx_plus (RxCls P)) [] s p (Suc q)"
        using True by (subst rx_split_from.simps) (simp add: advance_False)
      moreover have "slice s p (Suc q) = slice s p q @ [s ! q]" using less.prems(1) True by (rule slice_Suc)
      ultimately show ?thesis using less.hyps [of "Suc q" p] less.prems True False by auto
    next
      case True
      define n where "n = run_len P s q"
      have n: "0 < n" "q + n \<le> length s" using True \<open>q < length s\<close> run_len_step [of P s q] run_len_bound [of P s q] by (auto simp: n_def)
      have ex: "rx_exec False (rx_plus (RxCls P)) s q = Some (q + n, \<lambda>_. None)"
        using n(1) by (simp add: rx_plus_def rx_exec_run [OF assms(1)] n_def)
      have step: "rx_split_from False (rx_plus (RxCls P)) [] s p q = slice s p q # rx_split_from False (rx_plus (RxCls P)) [] s (q + n) (q + n)"
        using \<open>q < length s\<close> ex n(1) less.prems(1) by (subst rx_split_from.simps) simp
      have "drop q s = takeWhile P (drop q s) @ drop (q + n) s" unfolding n_def drop_run_len by simp
      moreover have "filter (\<lambda>c. \<not> P c) (takeWhile P (drop q s)) = []" by (auto simp: filter_empty_conv dest: set_takeWhileD)
      ultimately have "filter (\<lambda>c. \<not> P c) (drop q s) = filter (\<lambda>c. \<not> P c) (drop (q + n) s)" by (metis append_Nil filter_append)
      then have "filter (\<lambda>c. \<not> P c) (drop p s) = slice s p q @ filter (\<lambda>c. \<not> P c) (drop (q + n) s)"
        by (simp only: split filter_append front)
      moreover have "\<forall>c\<in>set (slice s (q + n) (q + n)). \<not> P c" by (simp add: slice_def)
      ultimately show ?thesis using less.hyps [of "q + n" "q + n"] n \<open>q < length s\<close> less.prems(3)
        unfolding step by simp
    qed
  qed
qed

lemma split_runs:
  assumes "plain P"
  shows "concat (rx_split False (rx_plus (RxCls P)) s) = filter (\<lambda>c. \<not> P c) s"
    and "x \<in> set (rx_split False (rx_plus (RxCls P)) s) \<Longrightarrow> c \<in> set x \<Longrightarrow> \<not> P c"
proof -
  have g: "rx_groups (rx_plus (RxCls P)) = []" by (simp add: rx_plus_def)
  have e: "rx_split False (rx_plus (RxCls P)) s = (if s = [] then [[]] else rx_split_from False (rx_plus (RxCls P)) [] s 0 0)"
    using run_len_bound [of P "[]" 0] by (simp add: rx_split_def g rx_plus_def rx_exec_run [OF assms])
  note f = split_runs_from [OF assms, of 0 0 s]
  show "concat (rx_split False (rx_plus (RxCls P)) s) = filter (\<lambda>c. \<not> P c) s" using f by (simp add: e slice_def)
  show "x \<in> set (rx_split False (rx_plus (RxCls P)) s) \<Longrightarrow> c \<in> set x \<Longrightarrow> \<not> P c" using f by (auto simp: e slice_def split: if_splits)
qed

lemma plain_classes: "plain js_space" "plain sentence_mark"
  by (auto simp: plain_def js_space_def sentence_mark_def one_of_def)

section \<open>The pieces of a text\<close>

text \<open>The chunks before they get their punctuation.\<close>

fun word_groups :: "jsstr \<Rightarrow> jsstr list \<Rightarrow> jsstr list" where
  "word_groups temp [] = (if temp \<noteq> [] then [temp] else [])"
| "word_groups temp (word # rest) =
     (if length temp + length word + 1 \<le> MAX_CHUNK_CHARS
      then word_groups (temp @ (if temp \<noteq> [] then 32 # word else word)) rest
      else (if temp \<noteq> [] then [temp] else []) @ word_groups word rest)"

definition sentence_pieces :: "jsstr \<Rightarrow> jsstr list" where
  "sentence_pieces s =
     (let sentence = trim s in
      if sentence = [] then []
      else if length sentence \<le> MAX_CHUNK_CHARS then [sentence]
      else word_groups [] (rx_split False (rx_plus (RxCls js_space)) sentence))"

lemma ensurePunctuation_trim: "ensurePunctuation (trim s) = ensurePunctuation s"
  by (simp add: ensurePunctuation_def)

lemma word_chunks_groups: "word_chunks temp ws = map ensurePunctuation (word_groups temp ws)"
  by (induction temp ws rule: word_groups.induct) (simp_all add: ensurePunctuation_trim)

lemma sentence_chunks_pieces: "sentence_chunks s = map ensurePunctuation (sentence_pieces s)"
  by (simp add: sentence_chunks_def sentence_pieces_def Let_def word_chunks_groups)

lemma chunkText_pieces:
  "chunkText text = map ensurePunctuation (concat (map sentence_pieces (rx_split False (rx_plus (RxCls sentence_mark)) text)))"
  unfolding chunkText_def sentence_chunks_pieces [abs_def] map_concat map_map comp_def ..

text \<open>What is kept of a piece on the way: it starts with a letter, it is short enough or a single word.\<close>

definition piece_fits :: "jsstr \<Rightarrow> bool" where
  "piece_fits g \<longleftrightarrow> (g = [] \<or> \<not> js_space (hd g)) \<and> (length g \<le> MAX_CHUNK_CHARS \<or> list_all (\<lambda>c. \<not> js_space c) g)"

definition no_spaces :: "jsstr \<Rightarrow> bool" where
  "no_spaces w \<longleftrightarrow> list_all (\<lambda>c. \<not> js_space c) w"

lemma ink_no_spaces: "no_spaces w \<Longrightarrow> ink w = w"
  by (simp add: ink_def no_spaces_def filter_id_conv list_all_iff)

lemma ink_space: "ink (32 # w) = ink w"
  by (simp add: ink_def js_space_def)

lemma word_groups_ink: "\<forall>w\<in>set ws. no_spaces w \<Longrightarrow> concat (map ink (word_groups temp ws)) = ink temp @ concat ws"
  by (induction temp ws rule: word_groups.induct) (auto simp: ink_no_spaces ink_space)

lemma piece_fits_word: "no_spaces w \<Longrightarrow> piece_fits w"
  by (cases w) (simp_all add: piece_fits_def no_spaces_def)

lemma word_groups_fit:
  "\<forall>w\<in>set ws. no_spaces w \<Longrightarrow> piece_fits temp \<Longrightarrow> g \<in> set (word_groups temp ws) \<Longrightarrow> g \<noteq> [] \<and> piece_fits g"
proof (induction temp ws rule: word_groups.induct)
  case (2 temp word rest)
  have "piece_fits (temp @ (if temp \<noteq> [] then 32 # word else word))" if "length temp + length word + 1 \<le> MAX_CHUNK_CHARS"
    using that "2.prems" piece_fits_word [of word] by (auto simp: piece_fits_def)
  then show ?case using 2 piece_fits_word [of word] by (auto split: if_splits)
qed (auto split: if_splits)

lemma word_groups_chars: "g \<in> set (word_groups temp ws) \<Longrightarrow> set g \<subseteq> insert 32 (set temp \<union> set (concat ws))"
proof (induction temp ws rule: word_groups.induct)
  case (2 temp word rest)
  then show ?case by (cases "temp = []"; cases "length temp + length word + 1 \<le> MAX_CHUNK_CHARS") auto
qed (auto split: if_splits)

lemma split_spaces: "\<forall>w\<in>set (rx_split False (rx_plus (RxCls js_space)) s). no_spaces w"
  "concat (rx_split False (rx_plus (RxCls js_space)) s) = ink s"
  using split_runs [OF plain_classes(1)] by (auto simp: no_spaces_def list_all_iff ink_def)

lemma sentence_pieces_ink: "concat (map ink (sentence_pieces s)) = ink s"
  using ink_trim_Nil [of s] by (auto simp: sentence_pieces_def Let_def word_groups_ink split_spaces)

lemma sentence_pieces_fit:
  assumes "g \<in> set (sentence_pieces s)"
  shows "g \<noteq> []" "piece_fits g" "set g \<subseteq> insert 32 (set s)"
proof -
  let ?ws = "rx_split False (rx_plus (RxCls js_space)) (trim s)"
  have cases: "g = trim s \<and> trim s \<noteq> [] \<and> length (trim s) \<le> MAX_CHUNK_CHARS \<or> g \<in> set (word_groups [] ?ws)"
    using assms by (auto simp: sentence_pieces_def Let_def split: if_splits)
  have "piece_fits []" by (simp add: piece_fits_def)
  then have words: "g \<noteq> [] \<and> piece_fits g" if "g \<in> set (word_groups [] ?ws)" using word_groups_fit [OF split_spaces(1) _ that] by simp
  have whole: "piece_fits (trim s)" if "trim s \<noteq> []" "length (trim s) \<le> MAX_CHUNK_CHARS"
    using that trim_hd [of s] by (simp add: piece_fits_def)
  show "g \<noteq> []" using cases words by metis
  show "piece_fits g" using cases words whole by metis
  have "set (concat ?ws) \<subseteq> set s" unfolding split_spaces(2) using set_trim [of s] by (auto simp: ink_def)
  then show "set g \<subseteq> insert 32 (set s)" using cases word_groups_chars [of g "[]" ?ws] set_trim [of s] by auto
qed

lemma pieces_ink: "concat (map ink (concat (map sentence_pieces (rx_split False (rx_plus (RxCls sentence_mark)) text))))
    = filter (\<lambda>c. \<not> js_space c \<and> \<not> sentence_mark c) text"
proof -
  let ?ss = "rx_split False (rx_plus (RxCls sentence_mark)) text"
  have "concat (map ink (concat (map sentence_pieces ss))) = concat (map ink ss)" for ss
    by (induction ss) (simp_all add: sentence_pieces_ink)
  then have "concat (map ink (concat (map sentence_pieces ?ss))) = concat (map ink ?ss)" .
  also have "\<dots> = ink (concat ?ss)" by (simp add: ink_concat)
  also have "\<dots> = filter (\<lambda>c. \<not> js_space c \<and> \<not> sentence_mark c) text"
    by (simp add: split_runs [OF plain_classes(2)] ink_def conj_commute)
  finally show ?thesis .
qed

lemma ensurePunctuation_spelt:
  "trim g \<noteq> [] \<Longrightarrow> ensurePunctuation g = (if last (trim g) \<in> {46, 33, 63, 44, 59, 58} then trim g else trim g @ [44])"
  by (simp add: ensurePunctuation_def Let_def one_of_def)

lemma trimmed_piece:
  assumes "g \<noteq> []" and "piece_fits g"
  shows "trim g \<noteq> [] \<and> \<not> js_space (hd (trim g)) \<and> \<not> js_space (last (trim g))
    \<and> (length (trim g) \<le> 400 \<or> list_all (\<lambda>c. \<not> js_space c) (trim g))"
proof -
  have t: "trim g \<noteq> []" using assms trim_Nil_iff [of g] by (cases g) (auto simp: piece_fits_def)
  have "length (trim g) \<le> 400 \<or> list_all (\<lambda>c. \<not> js_space c) (trim g)"
    using assms(2) set_trim [of g] length_trim [of g] by (auto simp: piece_fits_def list_all_iff MAX_CHUNK_CHARS_def)
  then show ?thesis using t trim_hd [of g] trim_last [of g] by simp
qed

text \<open>C36: Cutting a text into chunks loses nothing but white space and sentence marks: each chunk is a piece of the text,
  in order, with a comma added exactly when the piece does not end in one of \<open>. ! ? , ; :\<close>; a piece is not
  empty, starts and ends with something that is not white space, and has at most 400 characters unless it
  is a single word; and the pieces hold exactly the characters of the text that are neither white space
  nor one of \<open>. ! ?\<close>.\<close>

theorem chunkText_lossless:
  "\<exists>pieces. chunkText text = map (\<lambda>g. if last g \<in> {46, 33, 63, 44, 59, 58} then g else g @ [44]) pieces
     \<and> list_all (\<lambda>g. g \<noteq> [] \<and> \<not> js_space (hd g) \<and> \<not> js_space (last g)
         \<and> (length g \<le> 400 \<or> list_all (\<lambda>c. \<not> js_space c) g)) pieces
     \<and> filter (\<lambda>c. \<not> js_space c) (concat pieces) = filter (\<lambda>c. \<not> js_space c \<and> c \<notin> {46, 33, 63}) text"
proof -
  let ?gs = "concat (map sentence_pieces (rx_split False (rx_plus (RxCls sentence_mark)) text))"
  have fit: "g \<noteq> [] \<and> piece_fits g" if "g \<in> set ?gs" for g using that sentence_pieces_fit(1,2) by auto
  note t = trimmed_piece [OF conjunct1 [OF fit] conjunct2 [OF fit]]
  have "chunkText text = map (\<lambda>g. if last g \<in> {46, 33, 63, 44, 59, 58} then g else g @ [44]) (map trim ?gs)"
    unfolding chunkText_pieces map_map comp_def using t by (intro map_cong refl ensurePunctuation_spelt) blast
  moreover have "list_all (\<lambda>g. g \<noteq> [] \<and> \<not> js_space (hd g) \<and> \<not> js_space (last g)
      \<and> (length g \<le> 400 \<or> list_all (\<lambda>c. \<not> js_space c) g)) (map trim ?gs)"
    unfolding list.pred_map comp_def list_all_iff [of _ ?gs] using t by blast
  moreover have "ink (concat (map trim ?gs)) = concat (map ink ?gs)" by (simp only: ink_concat map_map comp_def ink_trim)
  then have "filter (\<lambda>c. \<not> js_space c) (concat (map trim ?gs)) = filter (\<lambda>c. \<not> js_space c \<and> c \<notin> {46, 33, 63}) text"
    using pieces_ink [of "text"] by (simp add: ink_def sentence_mark_def one_of_def)
  ultimately show ?thesis by blast
qed

lemma ensurePunctuation_piece:
  assumes "g \<noteq> []" and "piece_fits g" and "list_all (\<lambda>c. \<not> sentence_mark c) g"
  shows "ensurePunctuation g \<noteq> [] \<and> one_of [44, 59, 58] (last (ensurePunctuation g))
    \<and> list_all (\<lambda>c. \<not> sentence_mark c) (ensurePunctuation g)
    \<and> (length (ensurePunctuation g) \<le> MAX_CHUNK_CHARS + 1 \<or> list_all (\<lambda>c. \<not> js_space c) (ensurePunctuation g))"
proof -
  have t: "trim g \<noteq> []" using assms(1,2) trim_Nil_iff [of g] by (cases g) (auto simp: piece_fits_def)
  have sub: "set (trim g) \<subseteq> set g" "length (trim g) \<le> length g" by (rule set_trim, rule length_trim)
  have m: "list_all (\<lambda>c. \<not> sentence_mark c) (trim g)" using sub(1) assms(3) by (auto simp: list_all_iff)
  then have lm: "\<not> sentence_mark (last (trim g))" using t by (simp add: list_all_iff)
  have l: "length (trim g) \<le> MAX_CHUNK_CHARS \<or> list_all (\<lambda>c. \<not> js_space c) (trim g)"
    using assms(2) sub by (auto simp: piece_fits_def list_all_iff)
  have comma: "\<not> sentence_mark 44" "\<not> js_space 44" by code_simp+
  show ?thesis using t m lm l comma by (auto simp: ensurePunctuation_def Let_def sentence_mark_def one_of_def)
qed

text \<open>A chunk fits the model: it is not empty, it ends in a comma, a colon or a semicolon, it has at most 401
  characters or is a single word, and it holds none of the marks the text was split at.\<close>

theorem chunkText_bounded:
  "list_all (\<lambda>k. k \<noteq> [] \<and> one_of [44, 59, 58] (last k) \<and> list_all (\<lambda>c. \<not> sentence_mark c) k
      \<and> (length k \<le> MAX_CHUNK_CHARS + 1 \<or> list_all (\<lambda>c. \<not> js_space c) k)) (chunkText text)"
proof -
  have "list_all (\<lambda>c. \<not> sentence_mark c) g"
    if g: "g \<in> set (sentence_pieces s)" "s \<in> set (rx_split False (rx_plus (RxCls sentence_mark)) text)" for g s
  proof -
    have "\<not> sentence_mark 32" by code_simp
    moreover have "\<not> sentence_mark c" if "c \<in> set s" for c using split_runs(2) [OF plain_classes(2) g(2) that] .
    moreover have "set g \<subseteq> insert 32 (set s)" by (rule sentence_pieces_fit(3) [OF g(1)])
    ultimately show ?thesis by (auto simp: list_all_iff)
  qed
  then have "ensurePunctuation g \<noteq> [] \<and> one_of [44, 59, 58] (last (ensurePunctuation g)) \<and> list_all (\<lambda>c. \<not> sentence_mark c) (ensurePunctuation g)
      \<and> (length (ensurePunctuation g) \<le> MAX_CHUNK_CHARS + 1 \<or> list_all (\<lambda>c. \<not> js_space c) (ensurePunctuation g))"
    if "g \<in> set (sentence_pieces s)" "s \<in> set (rx_split False (rx_plus (RxCls sentence_mark)) text)" for g s
    using that ensurePunctuation_piece [OF sentence_pieces_fit(1,2)] by blast
  then show ?thesis unfolding chunkText_pieces list.pred_map comp_def by (simp add: list_all_iff [of _ "concat _"])
qed

text \<open>No decimal point reaches the preprocessor: the text is split at full stops before numbers are read, so that an
  amount like \<open>$3.50\<close> is cut into \<open>$3\<close> and \<open>50\<close>, and the question mark of a question is lost.\<close>

theorem chunkText_cuts_decimals:
  "chunkText (js ''Pay $3.50 now?'') = [js ''Pay $3,'', js ''50 now,'']"
  by code_simp

end
