(* ===== verification/KittenLoader.thy ===== *)
theory KittenLoader
  imports ProcLogic Numbers
begin

text \<open>
  Downloading a Kitten model (\<open>src/model-loader.js\<close> inside \<open>kitten-tts.browser.js\<close>): the cache on disk under
  Node and the cache storage of the browser, the download through the cache and \<open>downloadModel\<close>.

  The network, failing writes and the parsed \<open>config.json\<close> are parameters. The two downloads that
  \<open>downloadModel\<close> awaits together are run one after the other; both are started before either may fail.
  The client's lemmas are proved once, for any cache that returns what was put into it, and hold of both caches.
\<close>

section \<open>Environment and state\<close>

record http_reply =
  reply_ok :: bool
  reply_status :: nat
  reply_body :: "nat list result"

text \<open>The fields of \<open>config.json\<close>; a missing text is empty, a missing number zero, a missing table empty.\<close>

record kitten_config_file =
  model_file :: jsstr
  voices_file :: jsstr
  sample_rate :: nat
  voice_aliases :: "(jsstr \<times> jsstr) list"
  speed_priors :: "jsstr \<rightharpoonup> num"

record kitten_env =
  env_isNode :: bool
  env_hasCaches :: bool
  env_fetch :: "nat \<Rightarrow> jsstr \<Rightarrow> http_reply result"
  env_put :: "jsstr \<Rightarrow> js_error option"
  env_config :: "nat list \<Rightarrow> kitten_config_file result"

record kitten_cache =
  node_modules :: bool
  cache_dir :: bool
  node_files :: "jsstr \<rightharpoonup> nat list"
  cache_storage :: "jsstr \<rightharpoonup> nat list"
  requested :: "jsstr list"
  console :: "jsstr list"

type_synonym 'a cache_proc = "(kitten_cache, 'a) proc"

section \<open>Operations\<close>

definition HF_BASE :: jsstr where
  "HF_BASE = js ''https://huggingface.co''"

definition MODELS :: "jsstr list" where
  "MODELS = [js ''KittenML/kitten-tts-nano-0.8'', js ''KittenML/kitten-tts-micro-0.8'', js ''KittenML/kitten-tts-mini-0.8'']"

definition getNodeModules :: "unit cache_proc" where
  "getNodeModules = modifyP (\<lambda>s. s\<lparr>node_modules := True\<rparr>)"

definition fetchBuffer :: "kitten_env \<Rightarrow> jsstr \<Rightarrow> nat list cache_proc" where
  "fetchBuffer env url =
     bindP (getsP (\<lambda>s. length (requested s))) (\<lambda>n.
     bindP (modifyP (\<lambda>s. s\<lparr>requested := requested s @ [url]\<rparr>)) (\<lambda>_.
     bindP (liftP (env_fetch env n url)) (\<lambda>resp.
       if \<not> reply_ok resp
       then throwP (Error (js ''HTTP '' @ nat_str (reply_status resp) @ js '' fetching '' @ url))
       else liftP (reply_body resp))))"

definition nodeCacheGet :: "jsstr \<Rightarrow> nat list option cache_proc" where
  "nodeCacheGet cacheKey = bindP getNodeModules (\<lambda>_. getsP (\<lambda>s. node_files s cacheKey))"

text \<open>A write that fails leaves what was there.\<close>

definition put_or_throw :: "kitten_env \<Rightarrow> jsstr \<Rightarrow> (kitten_cache \<Rightarrow> kitten_cache) \<Rightarrow> unit cache_proc" where
  "put_or_throw env cacheKey put = (case env_put env cacheKey of Some e \<Rightarrow> throwP e | None \<Rightarrow> modifyP put)"

definition nodeCacheSet :: "kitten_env \<Rightarrow> jsstr \<Rightarrow> nat list \<Rightarrow> unit cache_proc" where
  "nodeCacheSet env cacheKey buffer =
     bindP getNodeModules (\<lambda>_.
     bindP (modifyP (\<lambda>s. s\<lparr>cache_dir := True\<rparr>)) (\<lambda>_.
       put_or_throw env cacheKey (\<lambda>s. s\<lparr>node_files := (node_files s)(cacheKey \<mapsto> buffer)\<rparr>)))"

definition browserCacheGet :: "kitten_env \<Rightarrow> jsstr \<Rightarrow> nat list option cache_proc" where
  "browserCacheGet env cacheKey =
     (if \<not> env_hasCaches env then retP None else getsP (\<lambda>s. cache_storage s (js ''/'' @ cacheKey)))"

definition browserCacheSet :: "kitten_env \<Rightarrow> jsstr \<Rightarrow> nat list \<Rightarrow> unit cache_proc" where
  "browserCacheSet env cacheKey buffer =
     (if \<not> env_hasCaches env then retP ()
      else put_or_throw env cacheKey (\<lambda>s. s\<lparr>cache_storage := (cache_storage s)(js ''/'' @ cacheKey \<mapsto> buffer)\<rparr>))"

definition cacheGet :: "kitten_env \<Rightarrow> jsstr \<Rightarrow> nat list option cache_proc" where
  "cacheGet env key = (if env_isNode env then nodeCacheGet key else browserCacheGet env key)"

definition cacheSet :: "kitten_env \<Rightarrow> jsstr \<Rightarrow> nat list \<Rightarrow> unit cache_proc" where
  "cacheSet env key buffer = (if env_isNode env then nodeCacheSet env key buffer else browserCacheSet env key buffer)"

definition hfUrl :: "jsstr \<Rightarrow> jsstr \<Rightarrow> jsstr" where
  "hfUrl repoId filename = HF_BASE @ js ''/'' @ repoId @ js ''/resolve/main/'' @ filename"

text \<open>\<open>repoId.replace("/", "__")\<close> replaces the first slash only, \<open>filename.replace(/\\//g, "_")\<close> all of them.\<close>

fun replace_first_slash :: "jsstr \<Rightarrow> jsstr" where
  "replace_first_slash [] = []"
| "replace_first_slash (c # s) = (if c = 47 then js ''__'' @ s else c # replace_first_slash s)"

definition cache_key :: "jsstr \<Rightarrow> jsstr \<Rightarrow> jsstr" where
  "cache_key repoId filename = replace_first_slash repoId @ js ''__'' @ map (\<lambda>c. if c = 47 then 95 else c) filename"

text \<open>\<open>fetchCached\<close>, for any cache.\<close>

definition fetch_through ::
  "(jsstr \<Rightarrow> nat list option cache_proc) \<Rightarrow> (jsstr \<Rightarrow> nat list \<Rightarrow> unit cache_proc) \<Rightarrow> kitten_env \<Rightarrow> jsstr \<Rightarrow> jsstr \<Rightarrow> nat list cache_proc" where
  "fetch_through getC setC env repoId filename =
     (let cacheKey = cache_key repoId filename; url = hfUrl repoId filename in
      bindP (getC cacheKey) (\<lambda>cached.
        case cached of
          Some b \<Rightarrow> retP b
        | None \<Rightarrow>
            bindP (modifyP (\<lambda>s. s\<lparr>console := console s @ [js ''[kitten-tts] Downloading '' @ url @ [32, 8230]]\<rparr>)) (\<lambda>_.
            bindP (fetchBuffer env url) (\<lambda>buffer.
            bindP (setC cacheKey buffer) (\<lambda>_. retP buffer)))))"

definition fetchCached :: "kitten_env \<Rightarrow> jsstr \<Rightarrow> jsstr \<Rightarrow> nat list cache_proc" where
  "fetchCached env = fetch_through (cacheGet env) (cacheSet env) env"

text \<open>Two procedures started together: the first failure counts, but both run.\<close>

definition bothP :: "('s, 'a) proc \<Rightarrow> ('s, 'b) proc \<Rightarrow> ('s, 'a \<times> 'b) proc" where
  "bothP p q s = (let (r1, s1) = p s; (r2, s2) = q s1 in (bindR r1 (\<lambda>x. bindR r2 (\<lambda>y. Inr (x, y))), s2))"

record kitten_download =
  modelBuffer :: "nat list"
  voicesBuffer :: "nat list"
  dl_config :: kitten_config_file

definition downloadModel :: "kitten_env \<Rightarrow> jsstr \<Rightarrow> kitten_download cache_proc" where
  "downloadModel env repoId =
     (if repoId \<notin> set MODELS
      then throwP (Error (js ''Unknown model: '' @ repoId @ js ''. Available: '' @ join_with (js '', '') MODELS))
      else
        bindP (fetchCached env repoId (js ''config.json'')) (\<lambda>configBuffer.
        bindP (liftP (env_config env configBuffer)) (\<lambda>config.
          (let modelFile = model_file config;
               voicesFile = (if voices_file config \<noteq> [] then voices_file config else js ''voices.npz'')
           in if modelFile = [] then throwP (Error (js ''config.json missing 'model_file' for '' @ repoId))
              else bindP (bothP (fetchCached env repoId modelFile) (fetchCached env repoId voicesFile)) (\<lambda>(m, v).
                     retP \<lparr>modelBuffer = m, voicesBuffer = v, dl_config = config\<rparr>)))))"

section \<open>What a cache promises\<close>

text \<open>A cache whose content is \<open>held\<close>: reading gives the content and changes nothing else that a client sees, and a
  write that returns has stored the value.\<close>

locale byte_cache =
  fixes getC :: "jsstr \<Rightarrow> nat list option cache_proc"
    and setC :: "jsstr \<Rightarrow> nat list \<Rightarrow> unit cache_proc"
    and held :: "kitten_cache \<Rightarrow> jsstr \<rightharpoonup> nat list"
  assumes get_held: "\<exists>s'. getC k s = (Inr (held s k), s') \<and> held s' = held s \<and> requested s' = requested s"
    and set_held: "setC k v s = (r, s') \<Longrightarrow> requested s' = requested s \<and> (held s' = held s \<or> held s' = (held s)(k \<mapsto> v))
      \<and> (r = Inr () \<longrightarrow> held s' k = Some v)"
    and held_only: "held (s\<lparr>requested := us, console := ls\<rparr>) = held s"
begin

lemma held_console: "held (s\<lparr>console := ls\<rparr>) = held s"
  using held_only [where s = s and us = "requested s" and ls = ls] by simp

lemma held_requested: "held (s\<lparr>requested := us\<rparr>) = held s"
  using held_only [where s = s and us = us and ls = "console s"] by simp

lemma get_cases:
  obtains s' where "getC k s = (Inr (held s k), s')" "held s' = held s" "requested s' = requested s"
  using get_held by blast

lemma fetchBuffer_held: "fetchBuffer env url s = (r, s') \<Longrightarrow> held s' = held s"
  by (auto simp: fetchBuffer_def bindP_def getsP_def modifyP_def liftP_def throwP_def held_requested split: sum.splits if_splits)

text \<open>A file once held stays held with the same bytes, and is returned without a request.\<close>

lemma fetch_held:
  assumes "held s (cache_key repo f) = Some b"
  shows "\<exists>s'. fetch_through getC setC env repo f s = (Inr b, s') \<and> held s' = held s \<and> requested s' = requested s"
proof -
  obtain s' where "getC (cache_key repo f) s = (Inr (held s (cache_key repo f)), s')" "held s' = held s" "requested s' = requested s"
    by (rule get_cases)
  then show ?thesis using assms by (simp add: fetch_through_def Let_def bindP_def retP_def)
qed

lemma fetch_stores:
  assumes "fetch_through getC setC env repo f s = (r, s')"
  shows "held s \<subseteq>\<^sub>m held s' \<and> (\<forall>b. r = Inr b \<longrightarrow> held s' (cache_key repo f) = Some b)"
proof -
  let ?k = "cache_key repo f"
  obtain s1 where g: "getC ?k s = (Inr (held s ?k), s1)" "held s1 = held s" by (rule get_cases)
  show ?thesis
  proof (cases "held s ?k")
    case (Some b)
    then show ?thesis using assms g by (auto simp: fetch_through_def Let_def bindP_def retP_def)
  next
    case None
    define s2 where "s2 = s1\<lparr>console := console s1 @ [js ''[kitten-tts] Downloading '' @ hfUrl repo f @ [32, 8230]]\<rparr>"
    obtain rb s3 where b: "fetchBuffer env (hfUrl repo f) s2 = (rb, s3)" by (metis surj_pair)
    have h3: "held s3 = held s" using fetchBuffer_held [OF b] g(2) by (simp add: s2_def held_console)
    have run: "(case rb of Inl e \<Rightarrow> (Inl e, s3) | Inr v \<Rightarrow> bindP (setC ?k v) (\<lambda>_. retP v) s3) = (r, s')"
      using assms g None b by (simp add: fetch_through_def Let_def bindP_def modifyP_def s2_def [symmetric] split: sum.splits)
    show ?thesis
    proof (cases rb)
      case (Inl e)
      then show ?thesis using run h3 by auto
    next
      case (Inr v)
      obtain rs s4 where st: "setC ?k v s3 = (rs, s4)" by (metis surj_pair)
      have "s' = s4 \<and> (\<forall>b. r = Inr b \<longrightarrow> rs = Inr () \<and> b = v)"
        using run Inr st by (cases rs) (auto simp: bindP_def retP_def)
      then show ?thesis using set_held [OF st] h3 None by (auto simp: map_le_def)
    qed
  qed
qed

end

interpretation node_cache: byte_cache nodeCacheGet "nodeCacheSet env" node_files for env
  by unfold_locales
    (auto simp: nodeCacheGet_def nodeCacheSet_def getNodeModules_def put_or_throw_def bindP_def getsP_def modifyP_def throwP_def
      split: option.splits)

interpretation browser_cache: byte_cache "browserCacheGet (env\<lparr>env_hasCaches := True\<rparr>)" "browserCacheSet (env\<lparr>env_hasCaches := True\<rparr>)"
    "\<lambda>s k. cache_storage s (js ''/'' @ k)" for env
  by unfold_locales
    (auto simp: browserCacheGet_def browserCacheSet_def put_or_throw_def getsP_def modifyP_def throwP_def fun_eq_iff split: option.splits)

text \<open>The cache that \<open>cacheGet\<close> and \<open>cacheSet\<close> choose, and what it holds.\<close>

definition can_cache :: "kitten_env \<Rightarrow> bool" where
  "can_cache env \<longleftrightarrow> env_isNode env \<or> env_hasCaches env"

definition cache_held :: "kitten_env \<Rightarrow> kitten_cache \<Rightarrow> jsstr \<rightharpoonup> nat list" where
  "cache_held env s k = (if env_isNode env then node_files s k else cache_storage s (js ''/'' @ k))"

lemma chosen_cache: "can_cache env \<Longrightarrow> byte_cache (cacheGet env) (cacheSet env) (cache_held env)"
proof (cases "env_isNode env")
  case True
  have "cacheGet env = nodeCacheGet" "cacheSet env = nodeCacheSet env" "cache_held env = node_files"
    by (simp_all add: cacheGet_def cacheSet_def cache_held_def True fun_eq_iff)
  then show ?thesis using node_cache.byte_cache_axioms by simp
next
  case False
  assume "can_cache env"
  then have e: "env\<lparr>env_hasCaches := True\<rparr> = env" using False by (simp add: can_cache_def)
  have "cacheGet env = browserCacheGet env" "cacheSet env = browserCacheSet env" "cache_held env = (\<lambda>s k. cache_storage s (js ''/'' @ k))"
    by (simp_all add: cacheGet_def cacheSet_def cache_held_def False fun_eq_iff)
  then show ?thesis using browser_cache.byte_cache_axioms [of env] by (simp add: e)
qed

lemma fetchCached_held:
  "can_cache env \<Longrightarrow> cache_held env s (cache_key repo f) = Some b \<Longrightarrow>
     \<exists>s'. fetchCached env repo f s = (Inr b, s') \<and> cache_held env s' = cache_held env s \<and> requested s' = requested s"
  unfolding fetchCached_def by (rule byte_cache.fetch_held [OF chosen_cache])

lemma fetchCached_stores:
  "can_cache env \<Longrightarrow> fetchCached env repo f s = (r, s') \<Longrightarrow>
     cache_held env s \<subseteq>\<^sub>m cache_held env s' \<and> (\<forall>b. r = Inr b \<longrightarrow> cache_held env s' (cache_key repo f) = Some b)"
  unfolding fetchCached_def by (rule byte_cache.fetch_stores [OF chosen_cache])

section \<open>A model is downloaded once\<close>

lemma downloadModel_steps:
  assumes "downloadModel env repoId s = (Inr d, s')"
  obtains cb s1 s2 where "repoId \<in> set MODELS" "fetchCached env repoId (js ''config.json'') s = (Inr cb, s1)"
    "env_config env cb = Inr (dl_config d)" "model_file (dl_config d) \<noteq> []"
    "fetchCached env repoId (model_file (dl_config d)) s1 = (Inr (modelBuffer d), s2)"
    "fetchCached env repoId (if voices_file (dl_config d) \<noteq> [] then voices_file (dl_config d) else js ''voices.npz'') s2
       = (Inr (voicesBuffer d), s')"
  using assms unfolding downloadModel_def
  by (auto simp: proc_Inr Let_def bothP_def bindR_Inr split: if_splits prod.splits)

text \<open>C24: A model is downloaded once: when a download has returned and the environment has a cache, the same download
  returns the same model, voices and configuration again without a single request, under Node and in the
  browser alike.\<close>

theorem downloadModel_once:
  assumes "downloadModel env repoId s = (Inr d, s')" and "can_cache env"
  shows "\<exists>s''. downloadModel env repoId s' = (Inr d, s'') \<and> requested s'' = requested s'"
proof -
  let ?held = "cache_held env"
  let ?vf = "if voices_file (dl_config d) \<noteq> [] then voices_file (dl_config d) else js ''voices.npz''"
  obtain cb s1 s2 where r: "repoId \<in> set MODELS" "env_config env cb = Inr (dl_config d)" "model_file (dl_config d) \<noteq> []"
    and f: "fetchCached env repoId (js ''config.json'') s = (Inr cb, s1)"
      "fetchCached env repoId (model_file (dl_config d)) s1 = (Inr (modelBuffer d), s2)" "fetchCached env repoId ?vf s2 = (Inr (voicesBuffer d), s')"
    by (rule downloadModel_steps [OF assms(1)])
  note st = fetchCached_stores [OF assms(2) f(1)] fetchCached_stores [OF assms(2) f(2)] fetchCached_stores [OF assms(2) f(3)]
  have h: "?held s' (cache_key repoId (js ''config.json'')) = Some cb" "?held s' (cache_key repoId (model_file (dl_config d))) = Some (modelBuffer d)"
    "?held s' (cache_key repoId ?vf) = Some (voicesBuffer d)"
    using st by (auto simp: map_le_def dom_def)
  obtain t1 where t1: "fetchCached env repoId (js ''config.json'') s' = (Inr cb, t1)" "?held t1 = ?held s'" "requested t1 = requested s'"
    using fetchCached_held [OF assms(2) h(1)] by blast
  obtain t2 where t2: "fetchCached env repoId (model_file (dl_config d)) t1 = (Inr (modelBuffer d), t2)" "?held t2 = ?held s'" "requested t2 = requested s'"
    using fetchCached_held [OF assms(2), of t1 repoId "model_file (dl_config d)" "modelBuffer d"] h(2) t1(2,3) by auto
  obtain t3 where t3: "fetchCached env repoId ?vf t2 = (Inr (voicesBuffer d), t3)" "requested t3 = requested s'"
    using fetchCached_held [OF assms(2), of t2 repoId ?vf "voicesBuffer d"] h(3) t2(2,3) by auto
  show ?thesis
    using r t1(1) t2(1) t3 by (intro exI [of _ t3]) (simp add: downloadModel_def bindP_def liftP_def bothP_def Let_def retP_def)
qed

text \<open>An environment of a browser with a cache and a small model.\<close>

definition tiny_config :: kitten_config_file where
  "tiny_config = \<lparr>model_file = js ''m.onnx'', voices_file = [], sample_rate = 0, voice_aliases = [], speed_priors = Map.empty\<rparr>"

definition tiny_env :: kitten_env where
  "tiny_env = \<lparr>env_isNode = False, env_hasCaches = True,
     env_fetch = (\<lambda>n url. Inr \<lparr>reply_ok = True, reply_status = 200, reply_body = Inr [n]\<rparr>),
     env_put = Map.empty, env_config = (\<lambda>b. Inr tiny_config)\<rparr>"

definition empty_cache :: kitten_cache where
  "empty_cache = \<lparr>node_modules = False, cache_dir = False, node_files = Map.empty, cache_storage = Map.empty, requested = [], console = []\<rparr>"

theorem downloadModel_once_witness:
  "\<exists>d s' s''. downloadModel tiny_env (js ''KittenML/kitten-tts-nano-0.8'') empty_cache = (Inr d, s') \<and> length (requested s') = 3
     \<and> downloadModel tiny_env (js ''KittenML/kitten-tts-nano-0.8'') s' = (Inr d, s'') \<and> requested s'' = requested s'"
proof -
  let ?p = "downloadModel tiny_env (js ''KittenML/kitten-tts-nano-0.8'') empty_cache"
  have "case fst ?p of Inr _ \<Rightarrow> True | Inl _ \<Rightarrow> False" "length (requested (snd ?p)) = 3" by code_simp+
  then obtain d s' where p: "?p = (Inr d, s')" "length (requested s') = 3" by (cases ?p) (auto split: sum.splits)
  have "can_cache tiny_env" by code_simp
  then show ?thesis using downloadModel_once [OF p(1)] p by blast
qed

end
