(* ===== verification/KittenArrays.thy ===== *)
theory KittenArrays
  imports KittenNumbers JsRegex
begin

text \<open>
  The binary formats of the Kitten speech model: NumPy arrays (\<open>parseNpy\<close> and \<open>loadNpz\<close> of
  \<open>src/npz-loader.js\<close>) and WAV audio (\<open>encodeWav\<close> and \<open>RawAudio\<close> of \<open>src/audio.js\<close>), both inside
  \<open>kitten-tts.browser.js\<close>. A buffer is a list of bytes; the values of a typed array are numbers.

  Reading a zip archive (the vendored JSZip) and \<open>TextDecoder\<close> are parameters.
\<close>

section \<open>Bytes and numbers\<close>

definition le_value :: "nat list \<Rightarrow> nat" where
  "le_value bs = foldr (\<lambda>b v. b + 256 * v) bs 0"

fun le_bytes :: "nat \<Rightarrow> nat \<Rightarrow> nat list" where
  "le_bytes 0 v = []"
| "le_bytes (Suc n) v = v mod 256 # le_bytes n (v div 256)"

text \<open>The elements of a typed array over a buffer, \<open>k\<close> bytes each, little endian.\<close>

fun le_words :: "nat \<Rightarrow> nat \<Rightarrow> nat list \<Rightarrow> nat list" where
  "le_words k 0 bs = []"
| "le_words k (Suc n) bs = le_value (take k bs) # le_words k n (drop k bs)"

definition typed_words :: "nat \<Rightarrow> nat list \<Rightarrow> nat list result" where
  "typed_words k bs = (if length bs mod k \<noteq> 0 then Inl RangeError else Inr (le_words k (length bs div k) bs))"

text \<open>The value of a bit pattern with \<open>eb\<close> exponent bits and \<open>mb\<close> fraction bits.\<close>

definition float_bits :: "nat \<Rightarrow> nat \<Rightarrow> nat \<Rightarrow> num" where
  "float_bits eb mb w =
     (let neg = (w div 2 ^ (eb + mb)) mod 2 = 1; e = w div 2 ^ mb mod 2 ^ eb; m = w mod 2 ^ mb;
          bias = 2 ^ (eb - 1) - 1 :: int
      in if e = 2 ^ eb - 1 then (if m = 0 then (if neg then NInf else PInf) else NaN)
         else
           (let v = (if e = 0 then of_nat m * 2 powi (1 - bias - int mb)
                     else of_nat (2 ^ mb + m) * 2 powi (int e - bias - int mb))
            in Fin (if neg then - v else v)))"

abbreviation "float32 \<equiv> float_bits 8 23"
abbreviation "float64 \<equiv> float_bits 11 52"

definition signed_word :: "nat \<Rightarrow> nat \<Rightarrow> int" where
  "signed_word bits w = (if w < 2 ^ (bits - 1) then int w else int w - 2 ^ bits)"

section \<open>NumPy arrays\<close>

definition NPY_MAGIC :: "nat list" where
  "NPY_MAGIC = [147, 78, 85, 77, 80, 89]"

definition getUint :: "nat \<Rightarrow> nat \<Rightarrow> nat list \<Rightarrow> nat result" where
  "getUint offset n bs = (if length bs < offset + n then Inl RangeError else Inr (le_value (slice bs offset (offset + n))))"

text \<open>\<open>'descr'\\s*:\\s*'([^']+)'\<close> and the other two patterns of the header.\<close>

definition rx_field :: "string \<Rightarrow> rx \<Rightarrow> rx" where
  "rx_field name val = rx_seq [RxCls (is_char 39), rx_lit (js name), RxCls (is_char 39), rx_star (RxCls js_space), RxCls (is_char 58),
     rx_star (RxCls js_space), val]"

definition DESCR_RE :: rx where
  "DESCR_RE = rx_field ''descr'' (rx_seq [RxCls (is_char 39), RxGrp 1 (rx_plus (RxCls (\<lambda>c. c \<noteq> 39))), RxCls (is_char 39)])"

definition SHAPE_RE :: rx where
  "SHAPE_RE = rx_field ''shape'' (rx_seq [RxCls (is_char 40), RxGrp 1 (rx_star (RxCls (\<lambda>c. c \<noteq> 41))), RxCls (is_char 41)])"

definition FORTRAN_RE :: rx where
  "FORTRAN_RE = rx_field ''fortran_order'' (RxGrp 1 (RxAlt (rx_lit (js ''True'')) (rx_lit (js ''False''))))"

definition first_group :: "rx \<Rightarrow> jsstr \<Rightarrow> jsstr option" where
  "first_group r s = (case rx_all False r s 0 of [] \<Rightarrow> None | m # _ \<Rightarrow> Some (m_dollar s m 1))"

text \<open>\<open>Number\<close> of an entry of the shape: NumPy writes decimal digits; anything else counts as \<open>NaN\<close> here.\<close>

definition dim_number :: "jsstr \<Rightarrow> nat option" where
  "dim_number s = (if s \<noteq> [] \<and> list_all is_digit s then Some (digits_value s) else None)"

definition parse_shape :: "jsstr \<Rightarrow> nat option list" where
  "parse_shape s =
     (let shapeStr = trim s
      in if shapeStr = [] then [Some 1] else map dim_number (filter (\<lambda>p. p \<noteq> []) (map trim (split_char 44 shapeStr))))"

record npy_header =
  descr :: jsstr
  shape :: "nat option list"
  fortranOrder :: bool

definition parse_header :: "jsstr \<Rightarrow> npy_header result" where
  "parse_header header =
     (case (first_group DESCR_RE header, first_group SHAPE_RE header) of
        (Some d, Some s) \<Rightarrow> Inr \<lparr>descr = d, shape = parse_shape s,
          fortranOrder = (case first_group FORTRAN_RE header of Some f \<Rightarrow> f = js ''True'' | None \<Rightarrow> False)\<rparr>
      | _ \<Rightarrow> Inl (Error (js ''Cannot parse .npy header: '' @ header)))"

text \<open>\<open>descr.replace(/[<>|=]/, "")\<close>: the first of these marks is removed.\<close>

fun strip_order :: "jsstr \<Rightarrow> jsstr" where
  "strip_order [] = []"
| "strip_order (c # s) = (if one_of [60, 62, 124, 61] c then s else c # strip_order s)"

text \<open>The typed array that holds the data: its kind decides what a view over its buffer sees.\<close>

datatype npy_data = NpyFloat32 "num list" | NpyInt32 "nat list" | NpyUint8 "nat list"

definition read_data :: "jsstr \<Rightarrow> nat list \<Rightarrow> npy_data result" where
  "read_data d dataBuffer =
     (let dtype = strip_order d in
      if dtype = js ''f4'' then bindR (typed_words 4 dataBuffer) (\<lambda>ws. Inr (NpyFloat32 (map float32 ws)))
      else if dtype = js ''f8'' then bindR (typed_words 8 dataBuffer) (\<lambda>ws. Inr (NpyFloat32 (map (\<lambda>w. fround (float64 w)) ws)))
      else if dtype = js ''i4'' then bindR (typed_words 4 dataBuffer) (\<lambda>ws. Inr (NpyInt32 ws))
      else if dtype = js ''i8'' then bindR (typed_words 8 dataBuffer) (\<lambda>ws. Inr (NpyFloat32 (map (\<lambda>w. fround (round64 (of_int (signed_word 64 w)))) ws)))
      else if dtype = js ''u1'' then Inr (NpyUint8 dataBuffer)
      else Inl (Error (js ''Unsupported .npy dtype: '' @ d)))"

text \<open>The numbers that reading elements of the array gives.\<close>

definition npy_values :: "npy_data \<Rightarrow> num list" where
  "npy_values d = (case d of NpyFloat32 xs \<Rightarrow> xs | NpyInt32 ws \<Rightarrow> map (\<lambda>w. Fin (of_int (signed_word 32 w))) ws
     | NpyUint8 bs \<Rightarrow> map (\<lambda>b. Fin (of_nat b)) bs)"

text \<open>The loops that copy a column-major array; an element past the end is \<open>undefined\<close>, stored as \<open>NaN\<close>.\<close>

definition to_c_order :: "nat \<Rightarrow> nat \<Rightarrow> num list \<Rightarrow> num list" where
  "to_c_order rows cols xs =
     concat (map (\<lambda>r. map (\<lambda>c. if c * rows + r < length xs then fround (xs ! (c * rows + r)) else NaN) [0..<cols]) [0..<rows])"

text \<open>\<open>new Float32Array(data.buffer, data.byteOffset, data.length)\<close>: a view over the bytes of the array.\<close>

definition as_float32 :: "npy_data \<Rightarrow> num list result" where
  "as_float32 d = (case d of NpyFloat32 xs \<Rightarrow> Inr xs | NpyInt32 ws \<Rightarrow> Inr (map float32 ws)
     | NpyUint8 bs \<Rightarrow> if bs = [] then Inr [] else Inl RangeError)"

text \<open>A dimension that is not a number makes \<open>rows * cols\<close> \<open>NaN\<close>, so that the copied array is empty.\<close>

definition reorder :: "npy_header \<Rightarrow> npy_data \<Rightarrow> npy_data" where
  "reorder h d =
     (if fortranOrder h \<and> length (shape h) = 2
      then (case shape h of
              [Some rows, Some cols] \<Rightarrow> NpyFloat32 (to_c_order rows cols (npy_values d))
            | _ \<Rightarrow> NpyFloat32 [])
      else d)"

record npy_array =
  npy_floats :: "num list"
  npy_shape :: "nat option list"
  npy_dtype :: jsstr

definition parse_body :: "npy_header \<Rightarrow> nat list \<Rightarrow> npy_array result" where
  "parse_body h dataBuffer =
     bindR (read_data (descr h) dataBuffer) (\<lambda>d.
     bindR (as_float32 (reorder h d)) (\<lambda>xs. Inr \<lparr>npy_floats = xs, npy_shape = shape h, npy_dtype = strip_order (descr h)\<rparr>))"

definition parseNpy :: "(nat list \<Rightarrow> jsstr) \<Rightarrow> nat list \<Rightarrow> npy_array result" where
  "parseNpy decode buf =
     (if take 6 buf \<noteq> NPY_MAGIC then Inl (Error (js ''Not a valid .npy file (bad magic)''))
      else
        (let major = (if 6 < length buf then buf ! 6 else 0); n = (if 2 \<le> major then 4 else 2) in
         bindR (getUint 8 n buf) (\<lambda>headerLen.
           (let headerOffset = 8 + n; header = trim (decode (slice buf headerOffset (headerOffset + headerLen))) in
            bindR (parse_header header) (\<lambda>h. parse_body h (drop (headerOffset + headerLen) buf))))))"

text \<open>\<open>loadNpz\<close>: the entries of the archive that are NumPy files, by name without the ending.\<close>

record zip_entry =
  zip_name :: jsstr
  zip_dir :: bool
  zip_bytes :: "nat list result"

definition load_entry :: "(nat list \<Rightarrow> jsstr) \<Rightarrow> zip_entry \<Rightarrow> (jsstr \<times> npy_array) result" where
  "load_entry decode e =
     bindR (zip_bytes e) (\<lambda>b. bindR (parseNpy decode b) (\<lambda>a. Inr (take (length (zip_name e) - 4) (zip_name e), a)))"

definition loadNpz :: "(nat list \<Rightarrow> zip_entry list result) \<Rightarrow> (nat list \<Rightarrow> jsstr) \<Rightarrow> nat list \<Rightarrow> (jsstr \<times> npy_array) list result" where
  "loadNpz unzip decode npz =
     bindR (unzip npz) (\<lambda>es.
       foldR (\<lambda>acc e. bindR (load_entry decode e) (\<lambda>kv. Inr (acc @ [kv]))) []
         (filter (\<lambda>e. ends_with (zip_name e) (js ''.npy'') \<and> \<not> zip_dir e) es))"

section \<open>WAV audio\<close>

definition js_trunc :: "rat \<Rightarrow> int" where
  "js_trunc x = (if x < 0 then - \<lfloor>- x\<rfloor> else \<lfloor>x\<rfloor>)"

text \<open>What \<open>setInt16\<close> stores: \<open>NaN\<close> and the infinities as zero, other numbers cut to 16 bits.\<close>

definition to_uint16 :: "num \<Rightarrow> nat" where
  "to_uint16 v = (case v of Fin x \<Rightarrow> nat (js_trunc x mod 2 ^ 16) | _ \<Rightarrow> 0)"

definition scaled_sample :: "num \<Rightarrow> num" where
  "scaled_sample x =
     (let s = num_max (Fin (- 1)) (num_min (Fin 1) x)
      in if num_lt s (Fin 0) then num_mul s (Fin 32768) else num_mul s (Fin 32767))"

definition encodeWav :: "num list \<Rightarrow> nat \<Rightarrow> nat list" where
  "encodeWav samples sampleRate =
     (let bitsPerSample = 16; numChannels = 1; byteRate = sampleRate * numChannels * bitsPerSample div 8;
          blockAlign = numChannels * bitsPerSample div 8; dataSize = length samples * blockAlign
      in js ''RIFF'' @ le_bytes 4 (36 + dataSize) @ js ''WAVE'' @ js ''fmt '' @ le_bytes 4 16 @ le_bytes 2 1 @ le_bytes 2 numChannels
         @ le_bytes 4 sampleRate @ le_bytes 4 byteRate @ le_bytes 2 blockAlign @ le_bytes 2 bitsPerSample @ js ''data''
         @ le_bytes 4 dataSize @ concat (map (\<lambda>x. le_bytes 2 (to_uint16 (scaled_sample x))) samples))"

record raw_audio =
  audio_data :: "num list"
  sampling_rate :: nat

definition toWav :: "raw_audio \<Rightarrow> nat list" where
  "toWav a = encodeWav (audio_data a) (sampling_rate a)"

definition toBlob :: "raw_audio \<Rightarrow> nat list \<times> jsstr" where
  "toBlob a = (toWav a, js ''audio/wav'')"

definition duration :: "raw_audio \<Rightarrow> num" where
  "duration a = num_div (Fin (of_nat (length (audio_data a)))) (Fin (of_nat (sampling_rate a)))"

section \<open>Reading audio back\<close>

text \<open>A reader of 16-bit mono WAV files: the sample rate and the samples, when every field fits.\<close>

definition wav_field :: "nat \<Rightarrow> nat \<Rightarrow> nat list \<Rightarrow> nat" where
  "wav_field a n bs = le_value (slice bs a (a + n))"

definition read_wav :: "nat list \<Rightarrow> (nat \<times> int list) option" where
  "read_wav bs =
     (if slice bs 0 4 = js ''RIFF'' \<and> wav_field 4 4 bs + 8 = length bs \<and> slice bs 8 16 = js ''WAVEfmt '' \<and> wav_field 16 4 bs = 16
         \<and> wav_field 20 2 bs = 1 \<and> wav_field 22 2 bs = 1 \<and> wav_field 28 4 bs = 2 * wav_field 24 4 bs \<and> wav_field 32 2 bs = 2
         \<and> wav_field 34 2 bs = 16 \<and> slice bs 36 40 = js ''data'' \<and> wav_field 40 4 bs + 44 = length bs
      then Some (wav_field 24 4 bs, map (signed_word 16) (le_words 2 ((length bs - 44) div 2) (drop 44 bs)))
      else None)"

text \<open>The whole number a sample is stored as.\<close>

definition pcm :: "num \<Rightarrow> int" where
  "pcm x = (case scaled_sample x of Fin y \<Rightarrow> js_trunc y | _ \<Rightarrow> 0)"

lemma length_le_bytes [simp]: "length (le_bytes n v) = n"
  by (induction n arbitrary: v) simp_all

lemma le_value_bytes: "le_value (le_bytes n v) = v mod 256 ^ n"
  by (induction n arbitrary: v) (simp_all add: le_value_def mod_mult2_eq)

lemma le_words_bytes:
  "le_words 2 (length vs) (concat (map (le_bytes 2) vs)) = map (\<lambda>v. v mod 65536) vs"
proof (induction vs)
  case (Cons v vs)
  then show ?case using le_value_bytes [of 2 v] by (simp del: le_bytes.simps)
qed simp

lemma round64_bounded:
  assumes "\<bar>x\<bar> \<le> of_int K" and "K < 2 ^ 50"
  shows "\<exists>y. round64 x = Fin y \<and> \<bar>y\<bar> \<le> of_int K \<and> (0 \<le> x \<longrightarrow> 0 \<le> y) \<and> (x \<le> 0 \<longrightarrow> y \<le> 0)"
proof (cases "x = 0")
  case True
  then show ?thesis using assms by (simp add: r64.rnd_zero)
next
  case False
  define E where "E = max (ilog2 \<bar>x\<bar>) (- 1022)"
  define q where "q = quantum 53 (- 1022) x"
  define y where "y = of_int (round_even (x / q)) * q"
  have "(of_int K :: rat) < of_int (2 ^ 50)" using assms(2) by (simp only: of_int_less_iff)
  then have "\<bar>x\<bar> < 2 powi (49 + 1)" using assms(1) by simp
  then have E49: "E \<le> 49" using ilog2_le [of "\<bar>x\<bar>" 49] False by (simp add: E_def)
  have q: "q = 2 powi (E - 52)" by (simp add: q_def quantum_def E_def)
  have qpos: "0 < q" by (simp add: q)
  define M where "M = (2 :: int) ^ nat (52 - E)"
  have M: "of_int M * q = 1" using E49 powi_int_part [of "52 - E"] powi_split [of 0 "E - 52"] by (simp add: q M_def)
  then have xq: "x / q = x * of_int M" using qpos by (simp add: field_simps)
  have M0: "(0 :: rat) < of_int M" by (simp add: M_def)
  have "\<bar>x / q\<bar> \<le> of_int (K * M)" using assms(1) M0 by (simp add: xq abs_mult)
  then have "\<bar>round_even (x / q)\<bar> \<le> K * M" by (rule round_even_bound)
  then have "(of_int \<bar>round_even (x / q)\<bar> :: rat) \<le> of_int (K * M)" by (simp only: of_int_le_iff)
  then have "\<bar>y\<bar> \<le> of_int (K * M) * q" unfolding y_def abs_mult abs_of_pos [OF qpos] using qpos
    by (intro mult_right_mono) simp_all
  also have "\<dots> = of_int K" using M by (simp add: mult.assoc)
  finally have yK: "\<bar>y\<bar> \<le> of_int K" .
  have "0 \<le> round_even (x / q)" if "0 \<le> x" using that qpos by (intro round_even_nonneg) simp
  moreover have "round_even (x / q) \<le> 0" if "x \<le> 0"
  proof (rule round_even_less)
    have "x / q \<le> 0" using that qpos by (simp add: divide_nonpos_pos)
    also have "0 < of_int 0 + 1 / (2 :: rat)" by simp
    finally show "x / q < of_int 0 + 1 / 2" .
  qed
  ultimately have sgn: "(0 \<le> x \<longrightarrow> 0 \<le> y) \<and> (x \<le> 0 \<longrightarrow> y \<le> 0)"
    using qpos by (simp add: y_def mult_nonpos_nonneg)
  have "\<bar>y\<bar> < 2 powi (49 + 1)" using yK \<open>(of_int K :: rat) < of_int (2 ^ 50)\<close> by simp
  then have "y \<noteq> 0 \<Longrightarrow> ilog2 \<bar>y\<bar> \<le> 49" using ilog2_le [of "\<bar>y\<bar>" 49] by simp
  then have "round64 x = Fin y" using False by (auto simp: round64_def ieee_round_def Let_def q_def y_def)
  then show ?thesis using yK sgn by blast
qed

lemma pcm_range: "- 32768 \<le> pcm x \<and> pcm x \<le> 32767"
proof -
  define s where "s = num_max (Fin (- 1)) (num_min (Fin 1) x)"
  have "s = NaN \<or> (\<exists>z. s = Fin z \<and> - 1 \<le> z \<and> z \<le> 1)"
    by (cases x) (auto simp: s_def num_max_def num_min_def split: if_splits)
  then consider "s = NaN" | z where "s = Fin z" "- 1 \<le> z" "z \<le> 1" by blast
  then show ?thesis
  proof cases
    case 1
    then show ?thesis by (simp add: pcm_def scaled_sample_def Let_def s_def [symmetric])
  next
    case (2 z)
    show ?thesis
    proof (cases "z < 0")
      case True
      then obtain y where y: "round64 (z * 32768) = Fin y" "\<bar>y\<bar> \<le> 32768" "y \<le> 0"
        using round64_bounded [of "z * 32768" 32768] 2 by (auto simp: abs_mult)
      have "pcm x = js_trunc y" using True y(1) 2(1) by (simp add: pcm_def scaled_sample_def Let_def s_def [symmetric])
      moreover have "\<lfloor>- y\<rfloor> \<le> 32768" "0 \<le> \<lfloor>- y\<rfloor>" using y(2,3) by (simp_all add: floor_le_iff)
      moreover have "js_trunc y = - \<lfloor>- y\<rfloor>" using y(3) by (cases "y = 0") (simp_all add: js_trunc_def)
      ultimately show ?thesis by linarith
    next
      case False
      then obtain y where y: "round64 (z * 32767) = Fin y" "\<bar>y\<bar> \<le> 32767" "0 \<le> y"
        using round64_bounded [of "z * 32767" 32767] 2 by (auto simp: abs_mult)
      have "pcm x = js_trunc y" using False y(1) 2(1) by (simp add: pcm_def scaled_sample_def Let_def s_def [symmetric])
      moreover have "\<lfloor>y\<rfloor> \<le> 32767" "0 \<le> \<lfloor>y\<rfloor>" using y(2,3) by (simp_all add: floor_le_iff)
      ultimately show ?thesis using y(3) by (auto simp: js_trunc_def)
    qed
  qed
qed

lemma signed_pcm: "signed_word 16 (to_uint16 (scaled_sample x) mod 65536) = pcm x"
proof -
  have r: "signed_word 16 (nat (p mod 65536)) = p" if "- 32768 \<le> p" "p \<le> 32767" for p :: int
  proof (cases "0 \<le> p")
    case True
    then show ?thesis using that by (simp add: signed_word_def)
  next
    case False
    have "p mod 65536 = (p + 65536) mod 65536" by simp
    also have "\<dots> = p + 65536" using that False by (intro mod_pos_pos_trivial) simp_all
    finally have "p mod 65536 = p + 65536" .
    then show ?thesis using False that by (simp add: signed_word_def)
  qed
  show ?thesis using pcm_range [of x] r [of "pcm x"] r [of 0]
    by (auto simp: to_uint16_def pcm_def nat_mod_distrib split: num.splits)
qed


lemma le_words_concat:
  "length xs = n \<Longrightarrow> le_words 2 n (concat (map (\<lambda>x. le_bytes 2 (f x)) xs)) = map (\<lambda>x. f x mod 65536) xs"
  using le_words_bytes [of "map f xs"] by (simp add: comp_def)

lemma le_value_4: "v < 2 ^ 32 \<Longrightarrow> le_value (le_bytes 4 v) = v"
  by (simp add: le_value_bytes)

lemma le_value_2: "v < 2 ^ 16 \<Longrightarrow> le_value (le_bytes 2 v) = v"
  by (simp add: le_value_bytes)

text \<open>C19: The WAV encoder writes a file that reads back: for audio of less than two gigabytes every header field is what a
  reader expects, the sample rate comes out, and so does each sample as the whole number it was scaled to,
  which always lies in the 16-bit range: no sample wraps around, not for values outside \<open>[-1, 1]\<close>, infinities
  or \<open>NaN\<close>.\<close>

theorem encodeWav_reads_back:
  assumes "36 + 2 * length samples < 2 ^ 32" and "2 * rate < 2 ^ 32"
  shows "read_wav (encodeWav samples rate) = Some (rate, map pcm samples)
    \<and> list_all (\<lambda>p. - 32768 \<le> p \<and> p \<le> 32767) (map pcm samples)"
proof -
  let ?data = "concat (map (\<lambda>x. le_bytes 2 (to_uint16 (scaled_sample x))) samples)"
  define n where "n = length samples"
  have len: "length ?data = 2 * n" unfolding n_def by (induction samples) (simp_all del: le_bytes.simps)
  have lits: "length (js ''RIFF'') = 4" "length (js ''WAVE'') = 4" "length (js ''fmt '') = 4" "length (js ''data'') = 4"
    "js ''WAVEfmt '' = js ''WAVE'' @ js ''fmt ''" by code_simp+
  have wav: "encodeWav samples rate = js ''RIFF'' @ le_bytes 4 (36 + 2 * n) @ js ''WAVE'' @ js ''fmt '' @ le_bytes 4 16 @ le_bytes 2 1
      @ le_bytes 2 1 @ le_bytes 4 rate @ le_bytes 4 (2 * rate) @ le_bytes 2 2 @ le_bytes 2 16 @ js ''data'' @ le_bytes 4 (2 * n) @ ?data"
    by (simp add: encodeWav_def Let_def n_def mult.commute del: le_bytes.simps)
  have vals: "le_value (le_bytes 4 (36 + 2 * n)) = 36 + 2 * n" "le_value (le_bytes 4 (2 * n)) = 2 * n" "le_value (le_bytes 4 rate) = rate"
    "le_value (le_bytes 4 (2 * rate)) = 2 * rate" "le_value (le_bytes 4 16) = 16" "le_value (le_bytes 2 1) = 1" "le_value (le_bytes 2 2) = 2"
    "le_value (le_bytes 2 16) = 16"
    using assms by (simp_all add: le_value_4 le_value_2 n_def del: le_bytes.simps)
  have "map (signed_word 16) (le_words 2 n ?data) = map pcm samples"
    using signed_pcm by (simp add: le_words_concat n_def)
  then have "read_wav (encodeWav samples rate) = Some (rate, map pcm samples)"
    unfolding read_wav_def wav wav_field_def by (simp add: slice_def lits vals vals(6) [simplified] len del: le_bytes.simps)
  then show ?thesis using pcm_range by (simp add: list_all_iff)
qed

theorem encodeWav_reads_back_witness:
  "read_wav (encodeWav [Fin 1, Fin (- 1), PInf, NaN, Fin (1 / 2)] 24000) = Some (24000, [32767, - 32768, 32767, 0, 16383])"
proof -
  have "map pcm [Fin 1, Fin (- 1), PInf, NaN, Fin (1 / 2)] = [32767, - 32768, 32767, 0, 16383]" by code_simp
  then show ?thesis using encodeWav_reads_back [of "[Fin 1, Fin (- 1), PInf, NaN, Fin (1 / 2)]" 24000] by simp
qed

section \<open>Matrices\<close>

lemma float32_exact: "fround (float32 w) = float32 w"
proof -
  define e where "e = w div 2 ^ 23 mod 2 ^ 8"
  define m where "m = w mod 2 ^ 23"
  have e: "e < 256" and m: "m < 2 ^ 23" by (simp_all add: e_def m_def)
  have keep: "round32 (of_int k * 2 powi (i - 23)) = Fin (of_int k * 2 powi (i - 23))" if k: "\<bar>k\<bar> < 2 ^ 24" and i: "- 126 \<le> i" "i \<le> 127" for k i
  proof -
    have "representable 24 (- 126) (of_int k * 2 powi (i - 23))"
      unfolding representable_def using k i by (intro exI [of _ k] exI [of _ i]) simp
    moreover have "ilog2 \<bar>of_int k * 2 powi (i - 23)\<bar> \<le> 127" if "k \<noteq> 0"
    proof (rule ilog2_le)
      have "(of_int \<bar>k\<bar> :: rat) < of_int (2 ^ 24)" using k by (simp only: of_int_less_iff)
      then have "\<bar>of_int k * 2 powi (i - 23)\<bar> < (2 ^ 24) * (2 :: rat) powi (i - 23)" by (simp add: abs_mult)
      also have "\<dots> = 2 powi (i + 1)" using powi_split [of "i + 1" "i - 23"] powi_int_part [of 24] by simp
      also have "\<dots> \<le> (2 :: rat) powi (127 + 1)" using i(2) by (intro power_int_increasing) simp_all
      finally show "\<bar>of_int k * 2 powi (i - 23)\<bar> < (2 :: rat) powi (127 + 1)" .
    qed (use that in simp)
    ultimately show ?thesis unfolding round32_def by (intro ieee_round_keeps) auto
  qed
  have fin: "fround (Fin v) = Fin v" "fround (Fin (- v)) = Fin (- v)"
    if "v = of_int k * 2 powi (i - 23)" "\<bar>k\<bar> < 2 ^ 24" "- 126 \<le> i" "i \<le> 127" for v k i
    using keep [OF that(2-4)] keep [of "- k", OF _ that(3,4)] that(1,2) by simp_all
  show ?thesis
  proof (cases "e = 255 \<or> e = 0")
    case True
    then show ?thesis
      using fin [of _ "int m" "- 126"] m
      by (auto simp: float_bits_def Let_def e_def [symmetric, simplified] m_def [symmetric, simplified])
  next
    case False
    then show ?thesis
      using fin [of _ "int (2 ^ 23 + m)" "int e - 127"] m e
      by (auto simp: float_bits_def Let_def e_def [symmetric, simplified] m_def [symmetric, simplified])
  qed
qed

lemma length_le_words [simp]: "length (le_words k n bs) = n"
  by (induction n arbitrary: bs) simp_all

lemma nth_le_words: "i < n \<Longrightarrow> le_words k n bs ! i = le_value (slice bs (k * i) (k * i + k))"
proof (induction n arbitrary: bs i)
  case (Suc n)
  show ?case
  proof (cases i)
    case 0
    then show ?thesis by (simp add: slice_def)
  next
    case (Suc j)
    then show ?thesis using Suc.prems Suc.IH [of j "drop k bs"] by (simp add: slice_def add.commute)
  qed
qed simp

lemma nth_concat_rows:
  "r < n \<Longrightarrow> c < m \<Longrightarrow> concat (map (\<lambda>r. map (f r) [0..<m]) [0..<n]) ! (r * m + c) = f r c"
proof (induction n)
  case (Suc n)
  have len: "length (concat (map (\<lambda>r. map (f r) [0..<m]) [0..<n])) = n * m" for n by (induction n) simp_all
  show ?case
  proof (cases "r = n")
    case True
    then show ?thesis using Suc.prems len [of n] by (simp add: nth_append)
  next
    case False
    then have "r < n" using Suc.prems by simp
    then have "Suc r * m \<le> n * m" by (intro mult_le_mono) simp_all
    then have "r * m + c < n * m" using Suc.prems(2) by simp
    then show ?thesis using Suc \<open>r < n\<close> len [of n] by (simp add: nth_append)
  qed
qed simp


text \<open>A NumPy file: the magic bytes, the version, the length of the header (two bytes before version 2, four from
  it on), the header and the content.\<close>

definition header_bytes :: "nat \<Rightarrow> nat" where
  "header_bytes v = (if 2 \<le> v then 4 else 2)"

definition npy_file :: "nat \<Rightarrow> nat list \<Rightarrow> nat list \<Rightarrow> nat list" where
  "npy_file v hdr content = NPY_MAGIC @ [v, 0] @ le_bytes (header_bytes v) (length hdr) @ hdr @ content"

lemma parseNpy_file:
  assumes "parse_header (trim (decode hdr)) = Inr h" and "length hdr < 256 ^ header_bytes v"
  shows "parseNpy decode (npy_file v hdr rest) = parse_body h rest"
proof -
  let ?n = "header_bytes v"
  have m: "length NPY_MAGIC = 6" by code_simp
  have v: "le_value (le_bytes ?n (length hdr)) = length hdr" using assms(2) by (simp add: le_value_bytes)
  let ?buf = "npy_file v hdr rest"
  let ?pre = "NPY_MAGIC @ [v, 0] @ le_bytes ?n (length hdr)"
  have u: "getUint 8 ?n ?buf = Inr (length hdr)" using m v by (simp add: npy_file_def getUint_def slice_def del: le_bytes.simps)
  have pre: "length ?pre = 8 + ?n" "length (?pre @ hdr) = 8 + ?n + length hdr" "?buf = ?pre @ hdr @ rest" "?buf = (?pre @ hdr) @ rest"
    using m by (simp_all add: npy_file_def del: le_bytes.simps)
  have s: "slice ?buf (8 + ?n) (8 + ?n + length hdr) = hdr" "drop (8 + ?n + length hdr) ?buf = rest"
    unfolding slice_def using pre by (metis append_eq_conv_conj add_diff_cancel_left', metis append_eq_conv_conj)
  have t: "?buf ! 6 = v" "take 6 ?buf = NPY_MAGIC" using m by (simp_all add: npy_file_def nth_append)
  have l: "6 < length ?buf" using m by (simp add: npy_file_def)
  have n: "(if 2 \<le> v then 4 else 2) = ?n" by (simp add: header_bytes_def)
  show ?thesis unfolding parseNpy_def Let_def t using l u s assms(1) by (simp add: n del: append.simps drop_append)
qed

text \<open>C20: A voice matrix is read right: for every NumPy file, of any version, of little-endian single-precision numbers
  (\<open><f4\<close>) with \<open>R\<close> rows and \<open>C\<close> columns, stored by rows or by columns, the result has \<open>R * C\<close> numbers and
  that shape, and at \<open>r * C + c\<close> stands the value of the four bytes that the file has for row \<open>r\<close> and
  column \<open>c\<close>.\<close>

theorem parseNpy_matrix:
  assumes "parse_header (trim (decode hdr)) = Inr h" and "length hdr < 256 ^ header_bytes v" and "descr h = js ''<f4''"
    and "shape h = [Some R, Some C]" and "length content = 4 * (R * C)" and "r < R" and "c < C"
  shows "\<exists>a. parseNpy decode (npy_file v hdr content) = Inr a
    \<and> npy_shape a = [Some R, Some C] \<and> length (npy_floats a) = R * C
    \<and> npy_floats a ! (r * C + c)
      = (let i = 4 * (if fortranOrder h then c * R + r else r * C + c) in float32 (le_value (slice content i (i + 4))))"
proof -
  let ?xs = "map float32 (le_words 4 (R * C) content)"
  have f4: "strip_order (js ''<f4'') = js ''f4''" by code_simp
  have d: "read_data (descr h) content = Inr (NpyFloat32 ?xs)"
    using assms(3,5) f4 by (simp add: read_data_def typed_words_def)
  have bound: "c * R + r < R * C" "r * C + c < R * C"
    using mult_le_mono1 [of "Suc c" C R] mult_le_mono1 [of "Suc r" R C] assms(6,7) by (simp_all add: mult.commute)
  have len: "length (concat (map (\<lambda>r. map (f r) [0..<m]) [0..<n])) = n * m" for f :: "nat \<Rightarrow> nat \<Rightarrow> num" and m n by (induction n) simp_all
  have at: "?xs ! i = float32 (le_value (slice content (4 * i) (4 * i + 4)))" if "i < R * C" for i
    using that by (simp add: nth_le_words)
  have "to_c_order R C ?xs ! (r * C + c) = fround (?xs ! (c * R + r))"
    unfolding to_c_order_def nth_concat_rows [OF assms(6,7)] using bound(1) by simp
  then have t: "to_c_order R C ?xs ! (r * C + c) = ?xs ! (c * R + r)" "length (to_c_order R C ?xs) = R * C"
    using bound(1) len by (simp_all add: to_c_order_def float32_exact)
  show ?thesis
    unfolding parseNpy_file [where decode = decode, OF assms(1,2)] parse_body_def d
    using assms(4) at [OF bound(1)] at [OF bound(2)] t by (auto simp: reorder_def as_float32_def npy_values_def Let_def)
qed

text \<open>Arrays of whole numbers are misread: an array of 32-bit integers stored by rows is returned as a view of its
  bytes as floating-point numbers, so that the number 1 comes out as the smallest positive one, and an
  array of bytes that is not empty cannot be read at all, though both types are accepted.\<close>

theorem parseNpy_integers_misread:
  "parse_body \<lparr>descr = js ''<i4'', shape = [Some 1], fortranOrder = False\<rparr> [1, 0, 0, 0]
     = Inr \<lparr>npy_floats = [Fin (2 powi - 149)], npy_shape = [Some 1], npy_dtype = js ''i4''\<rparr>
   \<and> parse_body \<lparr>descr = js ''|u1'', shape = sh, fortranOrder = False\<rparr> (b # bs) = Inl RangeError"
proof -
  have i4: "strip_order (js ''<i4'') = js ''i4''" "le_words 4 1 [1, 0, 0, 0] = [1]" "float32 1 = Fin (2 powi - 149)"
    by (code_simp, code_simp, simp add: float_bits_def Let_def)
  have "strip_order (js ''|u1'') = js ''u1''" by code_simp
  then have "parse_body \<lparr>descr = js ''|u1'', shape = sh, fortranOrder = False\<rparr> (b # bs) = Inl RangeError"
    by (simp add: parse_body_def read_data_def reorder_def as_float32_def)
  moreover have "parse_body \<lparr>descr = js ''<i4'', shape = [Some 1], fortranOrder = False\<rparr> [1, 0, 0, 0]
     = Inr \<lparr>npy_floats = [Fin (2 powi - 149)], npy_shape = [Some 1], npy_dtype = js ''i4''\<rparr>"
    using i4 by (simp add: parse_body_def read_data_def reorder_def as_float32_def typed_words_def)
  ultimately show ?thesis by simp
qed

text \<open>The mark of the byte order is removed without being read: the big-endian number 1 is accepted and comes out as
  the value its bytes have the other way round.\<close>

theorem parseNpy_big_endian_misread:
  "parse_body \<lparr>descr = js ''>f4'', shape = [Some 1], fortranOrder = False\<rparr> [63, 128, 0, 0]
     = Inr \<lparr>npy_floats = [float32 32831], npy_shape = [Some 1], npy_dtype = js ''f4''\<rparr>
   \<and> float32 32831 \<noteq> Fin 1 \<and> float32 (le_value (rev [63, 128, 0, 0])) = Fin 1"
proof -
  have "strip_order (js ''>f4'') = js ''f4''" "le_words 4 1 [63, 128, 0, 0] = [32831]" "float32 32831 \<noteq> Fin 1"
    "float32 (le_value (rev [63, 128, 0, 0])) = Fin 1"
    by (code_simp, code_simp, simp add: float_bits_def Let_def, simp add: float_bits_def Let_def le_value_def)
  then show ?thesis by (simp add: parse_body_def read_data_def reorder_def as_float32_def typed_words_def)
qed

definition npy_text :: jsstr where
  "npy_text = js '''descr':'<f4','shape':(1,2)''"

theorem parseNpy_matrix_witness:
  "\<exists>a. parseNpy id (npy_file 1 npy_text [0, 0, 128, 63, 0, 0, 0, 192]) = Inr a \<and> npy_floats a ! 1 = Fin (- 2)"
proof -
  let ?h = "\<lparr>descr = js ''<f4'', shape = [Some 1, Some 2], fortranOrder = False\<rparr>"
  have h: "parse_header (trim (id npy_text)) = Inr ?h" by code_simp
  have "length npy_text < 256 ^ header_bytes 1" "float32 (le_value (slice [0, 0, 128, 63, 0, 0, 0, 192] 4 (4 + 4))) = Fin (- 2)"
    by code_simp+
  then show ?thesis
    using parseNpy_matrix [where decode = id and hdr = npy_text and v = 1 and h = ?h and R = 1 and C = 2 and r = 0 and c = 1
        and content = "[0, 0, 128, 63, 0, 0, 0, 192]", OF h] by (auto simp: Let_def)
qed

end
