(* ===== verification/KittenTts.thy ===== *)
theory KittenTts
  imports KittenText KittenChunking KittenLoader KittenArrays Tensors
begin

text \<open>
  The Kitten speech model (\<open>src/text-cleaner.js\<close>, \<open>src/phonemizer.js\<close> and \<open>src/kitten-tts.js\<close> inside
  \<open>kitten-tts.browser.js\<close>): the symbol table and the token ids, the split at punctuation around the
  phonemizer, and the class \<open>KittenTTS\<close> from loading to \<open>generate\<close> and \<open>stream\<close>.

  The vendored phonemizer, JSZip and ONNX Runtime are parameters: the phonemes of a text, the entries of an
  archive, and the creation and the run of a session. The choice of the ONNX package and its thread and path
  settings are not modelled. The names that objects inherit (\<open>toString\<close> and the like) are not used as voices.
\<close>

section \<open>Symbols and token ids\<close>

definition punctuation_symbols :: jsstr where
  "punctuation_symbols = [59, 58, 44, 46, 33, 63, 161, 191, 8212, 8230, 34, 171, 187, 34, 34, 32]"

definition letters :: jsstr where
  "letters = js ''ABCDEFGHIJKLMNOPQRSTUVWXYZabcdefghijklmnopqrstuvwxyz''"

definition letters_ipa :: jsstr where
  "letters_ipa = [593, 592, 594, 230, 595, 665, 946, 596, 597, 231, 599, 598, 240, 676, 601, 600, 602, 603, 604, 605, 606, 607, 644, 609,
     608, 610, 667, 614, 615, 295, 613, 668, 616, 618, 669, 621, 620, 619, 622, 671, 625, 623, 624, 331, 627, 626, 628, 248, 629, 632,
     952, 339, 630, 664, 633, 634, 638, 635, 640, 641, 637, 642, 643, 648, 679, 649, 650, 651, 11377, 652, 611, 612, 653, 967, 654,
     655, 657, 656, 658, 660, 673, 661, 674, 448, 449, 450, 451, 712, 716, 720, 721, 700, 692, 688, 689, 690, 695, 736, 740, 734,
     8595, 8593, 8594, 8599, 8600, 39, 809, 39, 7547]"

definition SYMBOLS :: jsstr where
  "SYMBOLS = 36 # punctuation_symbols @ letters @ letters_ipa"

text \<open>\<open>SYMBOL_TO_ID\<close>: a symbol that occurs twice keeps its last index.\<close>

definition SYMBOL_TO_ID :: "nat \<rightharpoonup> nat" where
  "SYMBOL_TO_ID c = map_of (rev (zip SYMBOLS [0..<length SYMBOLS])) c"

definition basic_english_tokenize :: "unicode \<Rightarrow> jsstr \<Rightarrow> jsstr list" where
  "basic_english_tokenize uc text =
     (let w = (\<lambda>c. ucd_LMN uc c \<or> c = 95)
      in map (m_text text) (rx_all True (RxAlt (rx_plus (RxCls w)) (RxCls (\<lambda>c. \<not> w c \<and> \<not> js_space c))) text 0))"

text \<open>A character of two code units is in no table.\<close>

definition symbol_id :: "jsstr \<Rightarrow> nat option" where
  "symbol_id ch = (case ch of [c] \<Rightarrow> SYMBOL_TO_ID c | _ \<Rightarrow> None)"

definition textToIds :: "jsstr \<Rightarrow> nat list" where
  "textToIds text = List.map_filter symbol_id (code_points text)"

definition clean :: "jsstr \<Rightarrow> nat list" where
  "clean phonemes = [0] @ textToIds phonemes @ [10, 0]"

definition vocabSize :: nat where
  "vocabSize = length SYMBOLS"

section \<open>Phonemes\<close>

definition PUNCTUATION :: "nat list" where
  "PUNCTUATION = [59, 58, 44, 46, 33, 63, 161, 191, 8212, 8230, 34, 171, 187, 34, 34, 40, 41, 123, 125, 91, 93]"

definition PUNCTUATION_PATTERN :: rx where
  "PUNCTUATION_PATTERN = rx_plus (RxGrp 1 (rx_seq [rx_star (RxCls js_space), rx_plus (RxCls (one_of PUNCTUATION)), rx_star (RxCls js_space)]))"

text \<open>The loop over the matches; the flag says whether a piece is punctuation.\<close>

fun split_at_matches :: "jsstr \<Rightarrow> nat \<Rightarrow> rmatch list \<Rightarrow> (bool \<times> jsstr) list" where
  "split_at_matches text prev [] = (if prev < length text then [(False, drop prev text)] else [])"
| "split_at_matches text prev (m # ms) =
     (if prev < fst m then [(False, slice text prev (fst m))] else [])
     @ (if m_text text m \<noteq> [] then [(True, m_text text m)] else [])
     @ split_at_matches text (fst m + length (m_text text m)) ms"

definition splitPreserve :: "rx \<Rightarrow> jsstr \<Rightarrow> (bool \<times> jsstr) list" where
  "splitPreserve r text = split_at_matches text 0 (rx_all False r text 0)"

text \<open>The phonemes of one piece: \<open>ce\<close> is the vendored phonemizer's function.\<close>

definition piece_phonemes :: "(jsstr \<Rightarrow> jsstr list result) \<Rightarrow> bool \<times> jsstr \<Rightarrow> jsstr result" where
  "piece_phonemes ce chunk =
     (if fst chunk then Inr (snd chunk)
      else bindR (ce (snd chunk)) (\<lambda>ws.
        Inr (map (\<lambda>c. if c = 10 then 32 else c) (filter (\<lambda>c. c \<noteq> 95) (join_with (js '' '') ws)))))"

definition phonemize :: "(jsstr \<Rightarrow> jsstr list result) \<Rightarrow> jsstr \<Rightarrow> jsstr result" where
  "phonemize ce text =
     bindR (foldR (\<lambda>processed chunk. bindR (piece_phonemes ce chunk) (\<lambda>p. Inr (processed @ p))) []
       (splitPreserve PUNCTUATION_PATTERN text)) (\<lambda>processed. Inr (trim processed))"

section \<open>The class\<close>

definition SAMPLE_RATE :: nat where
  "SAMPLE_RATE = 24000"

definition AUDIO_TRIM :: int where
  "AUDIO_TRIM = 5000"

definition DEFAULT_VOICE_ALIASES :: "(jsstr \<times> jsstr) list" where
  "DEFAULT_VOICE_ALIASES = map (\<lambda>(a, b). (js a, js b)) [(''Bella'', ''expr-voice-2-f''), (''Jasper'', ''expr-voice-2-m''),
     (''Luna'', ''expr-voice-3-f''), (''Bruno'', ''expr-voice-3-m''), (''Rosie'', ''expr-voice-4-f''), (''Hugo'', ''expr-voice-4-m''),
     (''Kiki'', ''expr-voice-5-f''), (''Leo'', ''expr-voice-5-m'')]"

record kitten_inputs =
  input_ids :: "nat list"
  style :: "num list"
  styleDim :: "nat option"
  speed :: num

text \<open>A session run on the three input tensors gives its outputs by name, in order, or throws.\<close>

type_synonym kitten_session = "nat list \<Rightarrow> num list \<Rightarrow> nat option \<Rightarrow> num \<Rightarrow> (jsstr \<times> num list) list result"

record platform =
  pl_unicode :: unicode
  pl_phonemes :: "jsstr \<Rightarrow> jsstr list result"
  pl_unzip :: "nat list \<Rightarrow> zip_entry list result"
  pl_decode :: "nat list \<Rightarrow> jsstr"
  pl_session :: "nat list \<Rightarrow> kitten_session result"

record kitten_tts =
  kt_session :: kitten_session
  kt_voices :: "(jsstr \<times> npy_array) list"
  kt_sampleRate :: nat
  kt_aliases :: "jsstr \<rightharpoonup> jsstr"
  kt_aliasNames :: "jsstr list"
  kt_speedPriors :: "jsstr \<rightharpoonup> num"

definition new_kitten :: "kitten_session \<Rightarrow> (jsstr \<times> npy_array) list \<Rightarrow> kitten_config_file \<Rightarrow> kitten_tts" where
  "new_kitten session voices config =
     \<lparr>kt_session = session, kt_voices = voices,
      kt_sampleRate = (if sample_rate config \<noteq> 0 then sample_rate config else SAMPLE_RATE),
      kt_aliases = map_of DEFAULT_VOICE_ALIASES ++ map_of (rev (voice_aliases config)),
      kt_aliasNames = remdups (map fst DEFAULT_VOICE_ALIASES @ map fst (voice_aliases config)),
      kt_speedPriors = speed_priors config\<rparr>"

definition from_pretrained :: "platform \<Rightarrow> kitten_env \<Rightarrow> jsstr \<Rightarrow> kitten_tts cache_proc" where
  "from_pretrained P env modelId =
     bindP (downloadModel env modelId) (\<lambda>d.
     bindP (liftP (pl_session P (modelBuffer d))) (\<lambda>session.
     bindP (liftP (loadNpz (pl_unzip P) (pl_decode P) (voicesBuffer d))) (\<lambda>voices.
       retP (new_kitten session voices (dl_config d)))))"

definition list_voices :: "kitten_tts \<Rightarrow> jsstr list" where
  "list_voices t = kt_aliasNames t"

definition availableVoices :: "kitten_tts \<Rightarrow> jsstr list" where
  "availableVoices t = remdups (map fst (kt_voices t))"

definition num_truthy :: "num \<Rightarrow> bool" where
  "num_truthy x \<longleftrightarrow> x \<noteq> NaN \<and> x \<noteq> Fin 0"

definition resolve_voice_name :: "kitten_tts \<Rightarrow> jsstr \<Rightarrow> jsstr" where
  "resolve_voice_name t v = (case kt_aliases t v of Some a \<Rightarrow> if a \<noteq> [] then a else v | None \<Rightarrow> v)"

text \<open>The style row: \<open>refId\<close> is the number of tokens, or the last row when there are fewer. A dimension that is missing
  or not a number makes the bounds of the slice \<open>NaN\<close>, so that it is empty.\<close>

definition style_row :: "npy_array \<Rightarrow> nat \<Rightarrow> num list" where
  "style_row a tokens =
     (case npy_shape a of
        Some numStyles # Some rowLen # _ \<Rightarrow>
          (let refId = min (int tokens) (int numStyles - 1)
           in subarray (npy_floats a) (refId * int rowLen) ((refId + 1) * int rowLen))
      | _ \<Rightarrow> [])"

definition style_dim :: "npy_array \<Rightarrow> nat option" where
  "style_dim a = (case npy_shape a of _ # d # _ \<Rightarrow> d | _ \<Rightarrow> None)"

definition prepareInputs :: "platform \<Rightarrow> kitten_tts \<Rightarrow> jsstr \<Rightarrow> jsstr \<Rightarrow> num \<Rightarrow> bool \<Rightarrow> kitten_inputs result" where
  "prepareInputs P t chunk voiceName spd cln =
     (let processedText = (if cln then process (pl_unicode P) kitten_config chunk else chunk) in
      bindR (phonemize (pl_phonemes P) processedText) (\<lambda>ph.
        (let tokenIds = clean (join_with (js '' '') (basic_english_tokenize (pl_unicode P) ph));
             v = resolve_voice_name t voiceName
         in case map_of (rev (kt_voices t)) v of
              None \<Rightarrow> Inl (Error (js ''Voice '' @ [39] @ v @ [39] @ js '' not found. Available: '' @ join_with (js '', '') (availableVoices t)))
            | Some entry \<Rightarrow>
                Inr \<lparr>input_ids = tokenIds, style = style_row entry (length tokenIds), styleDim = style_dim entry,
                     speed = (case kt_speedPriors t v of Some p \<Rightarrow> if num_truthy p then num_mul spd p else spd | None \<Rightarrow> spd)\<rparr>)))"

definition runInference :: "kitten_tts \<Rightarrow> kitten_inputs \<Rightarrow> num list result" where
  "runInference t inp =
     bindR (kt_session t (input_ids inp) (style inp) (styleDim inp) (fround (speed inp))) (\<lambda>results.
       case results of
         [] \<Rightarrow> Inl TypeError
       | (_, audioData) # _ \<Rightarrow> Inr (map fround (subarray audioData 0 (max 0 (int (length audioData) - AUDIO_TRIM)))))"

definition chunk_audio :: "platform \<Rightarrow> kitten_tts \<Rightarrow> jsstr \<Rightarrow> num \<Rightarrow> bool \<Rightarrow> jsstr \<Rightarrow> num list result" where
  "chunk_audio P t voice spd cln chunk = bindR (prepareInputs P t chunk voice spd cln) (runInference t)"

text \<open>The loop of \<open>generate\<close>: the audio is copied into one array chunk by chunk.\<close>

fun collect_audio :: "(jsstr \<Rightarrow> num list result) \<Rightarrow> jsstr list \<Rightarrow> num list list result" where
  "collect_audio f [] = Inr []"
| "collect_audio f (chunk # chunks) = bindR (f chunk) (\<lambda>a. bindR (collect_audio f chunks) (\<lambda>as. Inr (a # as)))"

fun set_all :: "num list \<Rightarrow> nat \<Rightarrow> num list list \<Rightarrow> num list result" where
  "set_all combined offset [] = Inr combined"
| "set_all combined offset (c # cs) = bindR (array_set combined c offset) (\<lambda>combined'. set_all combined' (offset + length c) cs)"

definition generate :: "platform \<Rightarrow> kitten_tts \<Rightarrow> jsstr \<Rightarrow> jsstr \<Rightarrow> num \<Rightarrow> bool \<Rightarrow> raw_audio result" where
  "generate P t text voice spd cln =
     bindR (collect_audio (chunk_audio P t voice spd cln) (chunkText text)) (\<lambda>audioChunks.
       (let totalLen = foldl (\<lambda>s a. s + length a) 0 audioChunks
        in bindR (set_all (replicate totalLen (Fin 0)) 0 audioChunks) (\<lambda>combined.
             Inr \<lparr>audio_data = combined, sampling_rate = SAMPLE_RATE\<rparr>)))"

text \<open>\<open>stream\<close>: what it yields until it ends or throws.\<close>

fun stream_chunks :: "(jsstr \<Rightarrow> num list result) \<Rightarrow> jsstr list \<Rightarrow> (jsstr \<times> raw_audio) list \<times> js_error option" where
  "stream_chunks f [] = ([], None)"
| "stream_chunks f (chunk # chunks) =
     (case f chunk of
        Inl e \<Rightarrow> ([], Some e)
      | Inr a \<Rightarrow> (let (ys, e) = stream_chunks f chunks in ((chunk, \<lparr>audio_data = a, sampling_rate = SAMPLE_RATE\<rparr>) # ys, e)))"

definition stream :: "platform \<Rightarrow> kitten_tts \<Rightarrow> jsstr \<Rightarrow> jsstr \<Rightarrow> num \<Rightarrow> bool \<Rightarrow> (jsstr \<times> raw_audio) list \<times> js_error option" where
  "stream P t text voice spd cln = stream_chunks (chunk_audio P t voice spd cln) (chunkText text)"

section \<open>Splitting keeps the text\<close>

lemma split_matches_concat:
  "prev \<le> i \<Longrightarrow> prev \<le> length s \<Longrightarrow> concat (map snd (split_at_matches s prev (rx_all u r s i))) = drop prev s"
proof (induction u r s i arbitrary: prev rule: rx_all.induct)
  case (1 u r s i)
  have a: "i < advance u s i" by (rule advance_gt)
  show ?case
  proof (cases "length s < i")
    case True
    then show ?thesis by (subst rx_all.simps) auto
  next
    case False
    show ?thesis
    proof (cases "rx_exec u r s i")
      case None
      have "rx_all u r s i = rx_all u r s (advance u s i)" using False None by (subst rx_all.simps) simp
      then show ?thesis using "1.IH"(1) [OF False None, of prev] "1.prems" a by simp
    next
      case (Some m)
      then obtain e c where m: "rx_exec u r s i = Some (e, c)" by (cases m) simp
      have e: "i \<le> e" "e \<le> length s" using rx_exec_bounds [OF m] False by simp_all
      let ?next = "if e \<le> i then advance u s i else e"
      have all: "rx_all u r s i = (i, e, c) # rx_all u r s ?next" using False m by (subst rx_all.simps) simp
      have len: "i + length (m_text s (i, e, c)) = e" using e by (simp add: m_text_def length_slice)
      have ih: "concat (map snd (split_at_matches s e (rx_all u r s ?next))) = drop e s"
        using "1.IH"(2) [OF False m refl, of e] a e by simp
      have "slice s prev i @ m_text s (i, e, c) @ drop e s = drop prev s"
        using e "1.prems" slice_append [of i e "length s" s] slice_append [of prev i "length s" s] False
        by (simp add: m_text_def slice_def)
      then show ?thesis using all ih len "1.prems"(1) by (auto simp: slice_def)
    qed
  qed
qed

text \<open>Nothing of the text is lost on the way to the phonemizer: the pieces that the text is split into around its
  punctuation, spoken and punctuation together, are the text.\<close>

theorem splitPreserve_lossless: "concat (map snd (splitPreserve r s)) = s"
  using split_matches_concat [of 0 0 s False r] by (simp add: splitPreserve_def)

section \<open>Streaming and generating agree\<close>

lemma collect_stream:
  "collect_audio f chunks = (case stream_chunks f chunks of (ys, None) \<Rightarrow> Inr (map (audio_data \<circ> snd) ys) | (ys, Some e) \<Rightarrow> Inl e)"
  by (induction chunks) (auto split: sum.splits prod.splits option.splits)

lemma foldl_lengths: "foldl (\<lambda>s a. s + length a) n as = n + length (concat as)"
  by (induction as arbitrary: n) simp_all

lemma set_all_concat:
  "length pre = offset \<Longrightarrow> set_all (pre @ replicate (length (concat as)) (Fin 0)) offset as = Inr (pre @ concat as)"
proof (induction as arbitrary: pre offset)
  case (Cons a as)
  have "array_set (pre @ replicate (length (concat (a # as))) (Fin 0)) a offset = Inr ((pre @ a) @ replicate (length (concat as)) (Fin 0))"
    using Cons.prems by (simp add: array_set_def)
  then show ?case using Cons.IH [of "pre @ a" "offset + length a"] Cons.prems by simp
qed simp

text \<open>The two interfaces of the model say the same: \<open>generate\<close> returns exactly the audio that \<open>stream\<close> yields, chunk
  after chunk, at the same sample rate, and throws exactly what \<open>stream\<close> throws.\<close>

lemma generate_stream:
  "generate P t text voice spd cln =
     (case stream P t text voice spd cln of
        (ys, None) \<Rightarrow> Inr \<lparr>audio_data = concat (map (audio_data \<circ> snd) ys), sampling_rate = SAMPLE_RATE\<rparr>
      | (ys, Some e) \<Rightarrow> Inl e)"
  using set_all_concat [of "[]" 0]
  by (auto simp: generate_def stream_def collect_stream foldl_lengths Let_def simp del: length_concat split: prod.splits option.splits)

section \<open>The inputs of the model\<close>

lemma symbol_id_bound: "symbol_id ch = Some i \<Longrightarrow> i < vocabSize"
proof -
  assume "symbol_id ch = Some i"
  then obtain c where "map_of (rev (zip SYMBOLS [0..<length SYMBOLS])) c = Some i"
    by (auto simp: symbol_id_def SYMBOL_TO_ID_def split: list.splits)
  then have "(c, i) \<in> set (zip SYMBOLS [0..<length SYMBOLS])" using map_of_SomeD by fastforce
  then show "i < vocabSize" using set_zip_rightD by (fastforce simp: vocabSize_def)
qed

lemma clean_bound: "list_all (\<lambda>i. i < vocabSize) (clean ph)"
proof -
  have "10 < vocabSize" by code_simp
  then show ?thesis using symbol_id_bound by (auto simp: clean_def textToIds_def list_all_iff List.map_filter_def)
qed

text \<open>A voice is a matrix with at least one row.\<close>

definition voice_matrix :: "npy_array \<Rightarrow> bool" where
  "voice_matrix a \<longleftrightarrow> length (npy_shape a) = 2 \<and> list_all (\<lambda>x. x \<noteq> None) (npy_shape a) \<and> 0 < the (npy_shape a ! 0)
     \<and> length (npy_floats a) = the (npy_shape a ! 0) * the (npy_shape a ! 1)"

lemma style_row_matrix:
  assumes "voice_matrix a"
  shows "\<exists>n d r. npy_shape a = [Some n, Some d] \<and> 0 < n \<and> r = min tokens (n - 1)
    \<and> style_row a tokens = slice (npy_floats a) (r * d) (r * d + d) \<and> length (style_row a tokens) = d \<and> style_dim a = Some d"
proof -
  obtain n d where a: "npy_shape a = [Some n, Some d]" "0 < n" "length (npy_floats a) = n * d"
    using assms by (cases "npy_shape a"; cases "tl (npy_shape a)") (auto simp: voice_matrix_def)
  define r where "r = min tokens (n - 1)"
  have r: "int r = min (int tokens) (int n - 1)" "r < n" using a(2) by (auto simp: r_def)
  have "Suc r * d \<le> n * d" using r(2) by (intro mult_le_mono) simp_all
  then have b: "r * d + d \<le> n * d" by (simp add: add.commute)
  have inside: "rel_index xs (int k) = k" if "k \<le> length xs" for k and xs :: "num list" using that by (simp add: rel_index_def)
  have "rel_index (npy_floats a) (int (r * d)) = r * d" "rel_index (npy_floats a) (int (r * d + d)) = r * d + d"
    using b a(3) inside [of "r * d" "npy_floats a"] inside [of "r * d + d" "npy_floats a"] by linarith+
  then have "style_row a tokens = slice (npy_floats a) (r * d) (r * d + d)"
    unfolding style_row_def a(1) by (simp add: r(1) [symmetric] subarray_def Let_def algebra_simps)
  then show ?thesis using a b r(2) by (intro exI [of _ n] exI [of _ d] exI [of _ r]) (auto simp: style_dim_def length_slice r_def)
qed

text \<open>C21: What the model is run on is well-formed: the token ids start with the padding symbol, end in an ellipsis and the
  padding symbol and are all below the size of the symbol table; and when every voice is a matrix with a
  row, the style is one whole row of the voice asked for (the voice its alias names, or else the voice of
  that name): the row whose number is the number of tokens, or the last row when there are not that
  many, and its length is the stated one.\<close>

theorem prepareInputs_well_formed:
  assumes "prepareInputs P t chunk voice spd cln = Inr inp" and "list_all (voice_matrix \<circ> snd) (kt_voices t)"
  shows "(\<exists>ids. input_ids inp = 0 # ids @ [10, 0]) \<and> list_all (\<lambda>i. i < vocabSize) (input_ids inp)
    \<and> (\<exists>name a n d r. name = (if kt_aliases t voice \<in> {None, Some []} then voice else the (kt_aliases t voice))
        \<and> (name, a) \<in> set (kt_voices t) \<and> npy_shape a = [Some n, Some d] \<and> 0 < n
        \<and> r = min (length (input_ids inp)) (n - 1)
        \<and> style inp = slice (npy_floats a) (r * d) (r * d + d) \<and> length (style inp) = d \<and> styleDim inp = Some d)"
proof -
  obtain ph a where p: "input_ids inp = clean ph" "map_of (rev (kt_voices t)) (resolve_voice_name t voice) = Some a"
      "style inp = style_row a (length (input_ids inp))" "styleDim inp = style_dim a"
    using assms(1) by (auto simp: prepareInputs_def Let_def bindR_Inr split: option.splits)
  have v: "(resolve_voice_name t voice, a) \<in> set (kt_voices t)" using map_of_SomeD [OF p(2)] by simp
  then have "voice_matrix a" using assms(2) by (auto simp: list_all_iff)
  moreover have "resolve_voice_name t voice = (if kt_aliases t voice \<in> {None, Some []} then voice else the (kt_aliases t voice))"
    by (auto simp: resolve_voice_name_def split: option.splits)
  ultimately show ?thesis using style_row_matrix [of a "length (input_ids inp)"] v p clean_bound [of ph] by (auto simp: clean_def)
qed

section \<open>A small model\<close>

definition small_platform :: platform where
  "small_platform = \<lparr>pl_unicode = ascii_unicode, pl_phonemes = (\<lambda>s. Inr [s]), pl_unzip = (\<lambda>b. Inr []), pl_decode = id,
     pl_session = (\<lambda>b. Inr (\<lambda>ids st d sp. Inr []))\<rparr>"

definition small_voice :: npy_array where
  "small_voice = \<lparr>npy_floats = [Fin 1, Fin 2], npy_shape = [Some 2, Some 1], npy_dtype = js ''f4''\<rparr>"

definition small_kitten :: kitten_tts where
  "small_kitten = new_kitten (\<lambda>ids st d sp. Inr []) [(js ''expr-voice-5-m'', small_voice)] tiny_config"

theorem prepareInputs_well_formed_witness:
  "\<exists>inp. prepareInputs small_platform small_kitten (js ''h'') (js ''Leo'') (Fin 1) False = Inr inp
     \<and> list_all (\<lambda>i. i < vocabSize) (input_ids inp) \<and> (\<exists>ids. input_ids inp = 0 # ids @ [10, 0])"
proof -
  have "phonemize (pl_phonemes small_platform) (js ''h'') = Inr (js ''h'')"
    "map_of (rev (kt_voices small_kitten)) (resolve_voice_name small_kitten (js ''Leo'')) = Some small_voice"
    "list_all (voice_matrix \<circ> snd) (kt_voices small_kitten)" by code_simp+
  then show ?thesis
    using prepareInputs_well_formed [of small_platform small_kitten "js ''h''" "js ''Leo''" "Fin 1" False]
    by (simp add: prepareInputs_def Let_def)
qed

end
