(* ===== verification/KittenWorker.thy ===== *)
theory KittenWorker
  imports KittenTts "HOL-Library.Sublist"
begin

text \<open>
  The Kitten worker (\<open>worker.js\<close>): it loads the model once, streams the audio of each request, stops a request
  that is cancelled or too long, and reports what happened.

  A run of the worker is a sequence of steps, each the synchronous code between two awaits, in any order:
  the arrival of a message, the settling of a load, the resumption of a handler. How a load ends is left
  open; what the model streams for a text and a voice, and the text of an error, are parameters.

  The specification is sequential: \<open>request_messages\<close> says what one request is answered with. The worker, which
  interleaves its requests, refines it.
\<close>

section \<open>State and messages\<close>

definition MAX_TEXT_CHARS :: nat where
  "MAX_TEXT_CHARS = 720"

definition MAX_AUDIO_SECONDS :: nat where
  "MAX_AUDIO_SECONDS = 24"

definition DEFAULT_VOICE :: jsstr where
  "DEFAULT_VOICE = js ''Jasper''"

text \<open>What the model streams: chunks, each with audio or without, and then the end or a throw.\<close>

type_synonym script = "raw_audio option list \<times> js_error option"

datatype worker_message =
    WReady
  | WStarted jsstr
  | WAudio jsstr nat "num list"
  | WDone jsstr nat nat
  | WError jsstr jsstr

text \<open>A load of the model: under way, arrived (\<open>then\<close> has run, \<open>finally\<close> has not), or settled.\<close>

datatype load = Fetching | Arrived "unit result" | Settled "unit result"

text \<open>Where a handler is: waiting for a load (or, with none, for the model that is there), inside the stream with
  what is left of it, the samples sent and the sample rate, leaving with what was thrown, or done.\<close>

datatype handler_phase =
    Waiting "nat option"
  | Streaming script nat nat
  | Rejected js_error
  | Ended

record client_request =
  msg_type :: jsstr
  msg_requestId :: jsstr
  msg_text :: jsstr
  msg_voice :: jsstr

record handler =
  hd_id :: jsstr
  hd_message :: client_request
  hd_cancelled :: bool
  hd_phase :: handler_phase

record worker =
  model_loaded :: bool
  preparing :: "nat option"
  loads :: "load list"
  requestCounter :: nat
  activeRequests :: "jsstr \<rightharpoonup> nat"
  handlers :: "handler list"
  prepares :: "handler_phase list"
  sent :: "worker_message list"

definition initial_worker :: worker where
  "initial_worker = \<lparr>model_loaded = False, preparing = None, loads = [], requestCounter = 0, activeRequests = Map.empty,
     handlers = [], prepares = [], sent = []\<rparr>"

section \<open>Operations\<close>

definition post :: "worker_message \<Rightarrow> worker \<Rightarrow> worker" where
  "post m w = w\<lparr>sent := sent w @ [m]\<rparr>"

definition set_handler :: "nat \<Rightarrow> handler_phase \<Rightarrow> worker \<Rightarrow> worker" where
  "set_handler i p w = w\<lparr>handlers := (handlers w)[i := (handlers w ! i)\<lparr>hd_phase := p\<rparr>]\<rparr>"

text \<open>\<open>prepare\<close> up to what its caller waits for: the model, or the load that is under way, begun here if there is none.\<close>

definition prepare :: "worker \<Rightarrow> nat option \<times> worker" where
  "prepare w =
     (if model_loaded w then (None, w)
      else (case preparing w of
              Some l \<Rightarrow> (Some l, w)
            | None \<Rightarrow> (Some (length (loads w)), w\<lparr>preparing := Some (length (loads w)), loads := loads w @ [Fetching]\<rparr>)))"

definition load_then :: "nat \<Rightarrow> unit result \<Rightarrow> worker \<Rightarrow> worker" where
  "load_then l r w = w\<lparr>model_loaded := (model_loaded w \<or> r = Inr ()), loads := (loads w)[l := Arrived r]\<rparr>"

definition load_finally :: "nat \<Rightarrow> unit result \<Rightarrow> worker \<Rightarrow> worker" where
  "load_finally l r w = w\<lparr>preparing := None, loads := (loads w)[l := Settled r]\<rparr>"

text \<open>The checks of \<open>synthesize\<close> before its \<open>try\<close>.\<close>

definition text_check :: "jsstr \<Rightarrow> unit result" where
  "text_check t =
     (if t = [] then Inl (Error (js ''Kitten TTS received empty text.''))
      else if MAX_TEXT_CHARS < length t then Inl (Error (js ''Kitten TTS phrase is too long; split it into shorter phrases.''))
      else Inr ())"

definition request_id :: "client_request \<Rightarrow> worker \<Rightarrow> jsstr \<times> worker" where
  "request_id m w =
     (if msg_requestId m \<noteq> [] then (msg_requestId m, w)
      else (js ''kitten-'' @ nat_str (Suc (requestCounter w)), w\<lparr>requestCounter := Suc (requestCounter w)\<rparr>))"

definition synthesize_start :: "client_request \<Rightarrow> worker \<Rightarrow> worker" where
  "synthesize_start m w0 =
     (let (rid, w) = request_id m w0; h = \<lparr>hd_id = rid, hd_message = m, hd_cancelled = False, hd_phase = Ended\<rparr> in
      case text_check (trim (msg_text m)) of
        Inl e \<Rightarrow> w\<lparr>handlers := handlers w @ [h\<lparr>hd_phase := Rejected e\<rparr>]\<rparr>
      | Inr _ \<Rightarrow>
          (let (l, w') = prepare (w\<lparr>activeRequests := (activeRequests w)(rid \<mapsto> length (handlers w))\<rparr>)
           in w'\<lparr>handlers := handlers w' @ [h\<lparr>hd_phase := Waiting l\<rparr>]\<rparr>))"

text \<open>What the \<open>finally\<close> of \<open>synthesize\<close> does on every way out of its \<open>try\<close>.\<close>

definition leave :: "nat \<Rightarrow> handler_phase \<Rightarrow> worker \<Rightarrow> worker" where
  "leave i p w =
     (let rid = hd_id (handlers w ! i)
      in set_handler i p (w\<lparr>activeRequests := (activeRequests w)(rid := None)\<rparr>))"

definition request_voice :: "client_request \<Rightarrow> jsstr" where
  "request_voice m = (if msg_voice m \<noteq> [] then msg_voice m else DEFAULT_VOICE)"

text \<open>The model is there: the request starts to stream. \<open>tts\<close> is what the model streams for a text and a voice.\<close>

definition synthesize_begin :: "(jsstr \<Rightarrow> jsstr \<Rightarrow> script) \<Rightarrow> nat \<Rightarrow> worker \<Rightarrow> worker" where
  "synthesize_begin tts i w =
     (let h = handlers w ! i; m = hd_message h
      in set_handler i (Streaming (tts (trim (msg_text m)) (request_voice m)) 0 24000) (post (WStarted (hd_id h)) w))"

definition too_long :: js_error where
  "too_long = Error (js ''Kitten TTS produced an unusually long utterance; playback was stopped for safety.'')"

text \<open>One turn of the loop over the stream.\<close>

definition stream_chunk :: "nat \<Rightarrow> raw_audio option \<Rightarrow> script \<Rightarrow> nat \<Rightarrow> nat \<Rightarrow> worker \<Rightarrow> worker" where
  "stream_chunk i chunk rest samples rate w =
     (if hd_cancelled (handlers w ! i) then leave i Ended w
      else
        (case chunk of
           None \<Rightarrow> set_handler i (Streaming rest samples rate) w
         | Some audio \<Rightarrow>
             if audio_data audio = [] then set_handler i (Streaming rest samples rate) w
             else
               (let rate' = (if sampling_rate audio \<noteq> 0 then sampling_rate audio else rate);
                    samples' = samples + length (audio_data audio)
                in if rate' * MAX_AUDIO_SECONDS < samples' then leave i (Rejected too_long) w
                   else set_handler i (Streaming rest samples' rate')
                     (post (WAudio (hd_id (handlers w ! i)) rate' (audio_data audio)) w))))"

definition stream_end :: "nat \<Rightarrow> nat \<Rightarrow> nat \<Rightarrow> worker \<Rightarrow> worker" where
  "stream_end i samples rate w =
     leave i Ended (if hd_cancelled (handlers w ! i) then w else post (WDone (hd_id (handlers w ! i)) rate samples) w)"

text \<open>The \<open>catch\<close> of the message listener: it names the id the message came with.\<close>

definition report :: "(js_error \<Rightarrow> jsstr) \<Rightarrow> nat \<Rightarrow> js_error \<Rightarrow> worker \<Rightarrow> worker" where
  "report message_of i e w = set_handler i Ended (post (WError (msg_requestId (hd_message (handlers w ! i))) (message_of e)) w)"

definition cancel_request :: "jsstr \<Rightarrow> worker \<Rightarrow> worker" where
  "cancel_request rid w =
     (case activeRequests w rid of
        None \<Rightarrow> w
      | Some i \<Rightarrow> w\<lparr>handlers := (handlers w)[i := (handlers w ! i)\<lparr>hd_cancelled := True\<rparr>]\<rparr>)"

definition on_message :: "client_request \<Rightarrow> worker \<Rightarrow> worker" where
  "on_message m w =
     (if msg_type m = js ''prepare'' then (let (l, w') = prepare w in w'\<lparr>prepares := prepares w' @ [Waiting l]\<rparr>)
      else if msg_type m = js ''synthesize'' then synthesize_start m w
      else if msg_type m = js ''cancel'' then cancel_request (msg_requestId m) w
      else w)"

section \<open>Runs\<close>

text \<open>What a waiting caller finds: the model, or the result of the load it waits for.\<close>

definition load_result :: "worker \<Rightarrow> nat option \<Rightarrow> unit result option" where
  "load_result w l =
     (case l of None \<Rightarrow> Some (Inr ())
      | Some k \<Rightarrow> if k < length (loads w) then (case loads w ! k of Settled r \<Rightarrow> Some r | _ \<Rightarrow> None) else None)"

definition phase_at :: "worker \<Rightarrow> nat \<Rightarrow> handler_phase" where
  "phase_at w i = hd_phase (handlers w ! i)"

inductive worker_step :: "(jsstr \<Rightarrow> jsstr \<Rightarrow> script) \<Rightarrow> (js_error \<Rightarrow> jsstr) \<Rightarrow> worker \<Rightarrow> worker \<Rightarrow> bool"
  for tts message_of where
  arrived: "k < length (loads w) \<Longrightarrow> loads w ! k = Fetching \<Longrightarrow> worker_step tts message_of w (load_then k r w)"
| settled: "k < length (loads w) \<Longrightarrow> loads w ! k = Arrived r \<Longrightarrow> worker_step tts message_of w (load_finally k r w)"
| began: "i < length (handlers w) \<Longrightarrow> phase_at w i = Waiting l \<Longrightarrow> load_result w l = Some (Inr ()) \<Longrightarrow>
    worker_step tts message_of w (synthesize_begin tts i w)"
| load_failed: "i < length (handlers w) \<Longrightarrow> phase_at w i = Waiting l \<Longrightarrow> load_result w l = Some (Inl e) \<Longrightarrow>
    worker_step tts message_of w (leave i (Rejected e) w)"
| chunk: "i < length (handlers w) \<Longrightarrow> phase_at w i = Streaming (c # cs, fin) samples rate \<Longrightarrow>
    worker_step tts message_of w (stream_chunk i c (cs, fin) samples rate w)"
| ended: "i < length (handlers w) \<Longrightarrow> phase_at w i = Streaming ([], None) samples rate \<Longrightarrow>
    worker_step tts message_of w (stream_end i samples rate w)"
| threw: "i < length (handlers w) \<Longrightarrow> phase_at w i = Streaming ([], Some e) samples rate \<Longrightarrow>
    worker_step tts message_of w (leave i (Rejected e) w)"
| reported: "i < length (handlers w) \<Longrightarrow> phase_at w i = Rejected e \<Longrightarrow> worker_step tts message_of w (report message_of i e w)"
| ready: "i < length (prepares w) \<Longrightarrow> prepares w ! i = Waiting l \<Longrightarrow> load_result w l = Some (Inr ()) \<Longrightarrow>
    worker_step tts message_of w (post WReady (w\<lparr>prepares := (prepares w)[i := Ended]\<rparr>))"
| not_ready: "i < length (prepares w) \<Longrightarrow> prepares w ! i = Waiting l \<Longrightarrow> load_result w l = Some (Inl e) \<Longrightarrow>
    worker_step tts message_of w (post (WError [] (message_of e)) (w\<lparr>prepares := (prepares w)[i := Ended]\<rparr>))"

inductive worker_run :: "(jsstr \<Rightarrow> jsstr \<Rightarrow> script) \<Rightarrow> (js_error \<Rightarrow> jsstr) \<Rightarrow> client_request list \<Rightarrow> worker \<Rightarrow> bool"
  for tts message_of where
  wrun_start: "worker_run tts message_of [] initial_worker"
| wrun_receive: "worker_run tts message_of ms w \<Longrightarrow> worker_run tts message_of (ms @ [m]) (on_message m w)"
| wrun_step: "worker_run tts message_of ms w \<Longrightarrow> worker_step tts message_of w w' \<Longrightarrow> worker_run tts message_of ms w'"

inductive_cases worker_stepE: "worker_step tts message_of w w'"

section \<open>What one request is answered with\<close>

fun speak :: "jsstr \<Rightarrow> (js_error \<Rightarrow> jsstr) \<Rightarrow> raw_audio option list \<Rightarrow> js_error option \<Rightarrow> nat \<Rightarrow> nat \<Rightarrow> worker_message list" where
  "speak rid message_of [] None samples rate = [WDone rid rate samples]"
| "speak rid message_of [] (Some e) samples rate = [WError rid (message_of e)]"
| "speak rid message_of (None # cs) fin samples rate = speak rid message_of cs fin samples rate"
| "speak rid message_of (Some a # cs) fin samples rate =
     (if audio_data a = [] then speak rid message_of cs fin samples rate
      else
        (let rate' = (if sampling_rate a \<noteq> 0 then sampling_rate a else rate); samples' = samples + length (audio_data a)
         in if rate' * 24 < samples' then [WError rid (message_of too_long)]
            else WAudio rid rate' (audio_data a) # speak rid message_of cs fin samples' rate'))"

definition request_messages ::
  "(jsstr \<Rightarrow> jsstr \<Rightarrow> script) \<Rightarrow> (js_error \<Rightarrow> jsstr) \<Rightarrow> unit result \<Rightarrow> client_request \<Rightarrow> worker_message list" where
  "request_messages tts message_of loaded m =
     (let rid = msg_requestId m; t = trim (msg_text m) in
      case text_check t of
        Inl e \<Rightarrow> [WError rid (message_of e)]
      | Inr _ \<Rightarrow>
          (case loaded of
             Inl e \<Rightarrow> [WError rid (message_of e)]
           | Inr _ \<Rightarrow> (case tts t (request_voice m) of (cs, fin) \<Rightarrow> WStarted rid # speak rid message_of cs fin 0 24000)))"

end
