(* ===== verification/KittenRequests.thy ===== *)
theory KittenRequests
  imports KittenWorker
begin

text \<open>
  What a client sees of the Kitten worker, over every interleaving of its requests, loads and cancellations.

  \<open>worker_inv\<close> is the simulation relation: of each handler, what has been sent for its id and what its phase will still
  send make up the answer \<open>request_messages\<close> specifies. From it follow the refinement and the 24 second bound;
  \<open>loads_ok\<close> is the invariant of the loads.
\<close>

section \<open>Fields after an operation\<close>

named_theorems worker_simps \<open>fields of the worker after an operation\<close>

lemma post_fields [worker_simps]:
  "handlers (post m w) = handlers w" "loads (post m w) = loads w" "sent (post m w) = sent w @ [m]" "prepares (post m w) = prepares w"
  "activeRequests (post m w) = activeRequests w" "model_loaded (post m w) = model_loaded w" "preparing (post m w) = preparing w"
  by (simp_all add: post_def)

lemma set_handler_fields [worker_simps]:
  "handlers (set_handler i p w) = (handlers w)[i := (handlers w ! i)\<lparr>hd_phase := p\<rparr>]" "loads (set_handler i p w) = loads w"
  "sent (set_handler i p w) = sent w" "prepares (set_handler i p w) = prepares w" "activeRequests (set_handler i p w) = activeRequests w"
  "model_loaded (set_handler i p w) = model_loaded w" "preparing (set_handler i p w) = preparing w"
  by (simp_all add: set_handler_def)

lemma leave_fields [worker_simps]:
  "handlers (leave i p w) = (handlers w)[i := (handlers w ! i)\<lparr>hd_phase := p\<rparr>]" "loads (leave i p w) = loads w"
  "sent (leave i p w) = sent w" "prepares (leave i p w) = prepares w" "model_loaded (leave i p w) = model_loaded w"
  "preparing (leave i p w) = preparing w"
  by (simp_all add: leave_def Let_def worker_simps)

lemma load_fields [worker_simps]:
  "handlers (load_then l r w) = handlers w" "sent (load_then l r w) = sent w" "prepares (load_then l r w) = prepares w"
  "loads (load_then l r w) = (loads w)[l := Arrived r]" "handlers (load_finally l r w) = handlers w" "sent (load_finally l r w) = sent w"
  "prepares (load_finally l r w) = prepares w" "loads (load_finally l r w) = (loads w)[l := Settled r]"
  by (simp_all add: load_then_def load_finally_def)

lemma prepare_fields:
  assumes "prepare w = (l, w')"
  shows "handlers w' = handlers w" "sent w' = sent w" "prepares w' = prepares w" "activeRequests w' = activeRequests w"
    "loads w' = loads w \<or> loads w' = loads w @ [Fetching]"
  using assms by (auto simp: prepare_def split: if_splits option.splits)

section \<open>The worker refines its specification\<close>

definition message_id :: "worker_message \<Rightarrow> jsstr" where
  "message_id m = (case m of WReady \<Rightarrow> [] | WStarted r \<Rightarrow> r | WAudio r _ _ \<Rightarrow> r | WDone r _ _ \<Rightarrow> r | WError r _ \<Rightarrow> r)"

definition messages_for :: "jsstr \<Rightarrow> worker \<Rightarrow> worker_message list" where
  "messages_for rid w = filter (\<lambda>m. message_id m = rid) (sent w)"

definition load_ended :: "worker \<Rightarrow> unit result \<Rightarrow> bool" where
  "load_ended w r \<longleftrightarrow> r = Inr () \<or> Settled r \<in> set (loads w)"

fun track :: "(jsstr \<Rightarrow> jsstr \<Rightarrow> script) \<Rightarrow> (js_error \<Rightarrow> jsstr) \<Rightarrow> worker \<Rightarrow> handler \<Rightarrow> handler_phase \<Rightarrow> bool" where
  "track tts message_of w h (Waiting l) \<longleftrightarrow> messages_for (hd_id h) w = [] \<and> text_check (trim (msg_text (hd_message h))) = Inr ()"
| "track tts message_of w h (Streaming (cs, fin) n rt) \<longleftrightarrow>
     messages_for (hd_id h) w @ speak (hd_id h) message_of cs fin n rt = request_messages tts message_of (Inr ()) (hd_message h)"
| "track tts message_of w h (Rejected e) \<longleftrightarrow>
     (\<exists>r. load_ended w r \<and> messages_for (hd_id h) w @ [WError (hd_id h) (message_of e)] = request_messages tts message_of r (hd_message h))"
| "track tts message_of w h Ended \<longleftrightarrow>
     (\<exists>r. load_ended w r \<and> prefix (messages_for (hd_id h) w) (request_messages tts message_of r (hd_message h))
        \<and> (\<not> hd_cancelled h \<longrightarrow> messages_for (hd_id h) w = request_messages tts message_of r (hd_message h)))"

definition on_track :: "(jsstr \<Rightarrow> jsstr \<Rightarrow> script) \<Rightarrow> (js_error \<Rightarrow> jsstr) \<Rightarrow> worker \<Rightarrow> handler \<Rightarrow> bool" where
  "on_track tts message_of w h = track tts message_of w h (hd_phase h)"

definition synth_messages :: "client_request list \<Rightarrow> client_request list" where
  "synth_messages ms = filter (\<lambda>m. msg_type m = js ''synthesize'') ms"

definition own_id :: "handler \<Rightarrow> bool" where
  "own_id h \<longleftrightarrow> hd_id h = msg_requestId (hd_message h) \<and> hd_id h \<noteq> []"

definition worker_inv :: "(jsstr \<Rightarrow> jsstr \<Rightarrow> script) \<Rightarrow> (js_error \<Rightarrow> jsstr) \<Rightarrow> client_request list \<Rightarrow> worker \<Rightarrow> bool" where
  "worker_inv tts message_of ms w \<longleftrightarrow>
     map hd_message (handlers w) = synth_messages ms
     \<and> (\<forall>h\<in>set (handlers w). own_id h \<and> on_track tts message_of w h)
     \<and> distinct (map hd_id (handlers w))
     \<and> (\<forall>rid. rid \<noteq> [] \<longrightarrow> rid \<notin> hd_id ` set (handlers w) \<longrightarrow> messages_for rid w = [])"

lemma on_track_mono:
  assumes "on_track tts mo w h" and "messages_for (hd_id h) w' = messages_for (hd_id h) w" and "\<And>r. load_ended w r \<Longrightarrow> load_ended w' r"
  shows "on_track tts mo w' h"
  using assms unfolding on_track_def by (cases "(tts, mo, w, h, hd_phase h)" rule: track.cases) auto

lemma inv_parts:
  assumes "worker_inv tts mo ms w"
  shows "map hd_message (handlers w) = synth_messages ms" "\<And>h. h \<in> set (handlers w) \<Longrightarrow> own_id h"
    "\<And>h. h \<in> set (handlers w) \<Longrightarrow> on_track tts mo w h" "distinct (map hd_id (handlers w))"
    "\<And>rid. rid \<noteq> [] \<Longrightarrow> rid \<notin> hd_id ` set (handlers w) \<Longrightarrow> messages_for rid w = []"
  using assms unfolding worker_inv_def by blast+

lemma inv_other:
  assumes "worker_inv tts mo ms w" and "handlers w' = handlers w" and "\<And>rid. rid \<noteq> [] \<Longrightarrow> messages_for rid w' = messages_for rid w"
    and "\<And>r. load_ended w r \<Longrightarrow> load_ended w' r"
  shows "worker_inv tts mo ms w'"
proof -
  note p = inv_parts [OF assms(1)]
  have "on_track tts mo w' h" if "h \<in> set (handlers w)" for h
    using p(2) [OF that] on_track_mono [OF p(3) [OF that] assms(3) assms(4)] unfolding own_id_def by blast
  then show ?thesis using p assms(3) unfolding worker_inv_def assms(2) by simp
qed

lemma inv_update:
  assumes "worker_inv tts mo ms w" and "i < length (handlers w)" and "handlers w' = (handlers w)[i := h']"
    and "hd_message h' = hd_message (handlers w ! i)" and "hd_id h' = hd_id (handlers w ! i)"
    and "sent w' = sent w @ new" and "\<forall>m\<in>set new. message_id m = hd_id h'" and "\<And>r. load_ended w r \<Longrightarrow> load_ended w' r"
    and "on_track tts mo w' h'"
  shows "worker_inv tts mo ms w'"
proof -
  note p = inv_parts [OF assms(1)]
  have maps: "map hd_message (handlers w') = map hd_message (handlers w)" "map hd_id (handlers w') = map hd_id (handlers w)"
    using assms(2-5) by (simp_all add: map_update list_update_same_conv)
  then have ids: "hd_id ` set (handlers w') = hd_id ` set (handlers w)" by (metis list.set_map)
  have other: "messages_for rid w' = messages_for rid w" if "rid \<noteq> hd_id h'" for rid
    using assms(6,7) that by (auto simp: messages_for_def filter_empty_conv)
  have "own_id h \<and> on_track tts mo w' h" if h: "h \<in> set (handlers w')" for h
  proof (cases "h = h'")
    case True
    have "own_id (handlers w ! i)" using p(2) assms(2) by simp
    then show ?thesis using True assms(4,5,9) unfolding own_id_def by metis
  next
    case False
    obtain j where "j < length (handlers w')" "handlers w' ! j = h" using h by (auto simp: in_set_conv_nth)
    then have j: "j < length (handlers w)" "handlers w ! j = h" "j \<noteq> i" using False assms(2,3) by (auto simp: nth_list_update split: if_splits)
    then have "hd_id h \<noteq> hd_id h'" using assms(2,5) nth_eq_iff_index_eq [OF p(4), of j i] by simp
    moreover have "h \<in> set (handlers w)" using j by auto
    ultimately show ?thesis using p(2,3) on_track_mono [OF _ other assms(8)] by blast
  qed
  moreover have "messages_for rid w' = []" if "rid \<noteq> []" "rid \<notin> hd_id ` set (handlers w')" for rid
  proof -
    have "hd_id h' \<in> hd_id ` set (handlers w)" using assms(2,5) by auto
    then have "rid \<noteq> hd_id h'" using that ids by auto
    then show ?thesis using other that ids p(5) by auto
  qed
  ultimately show ?thesis using maps p(1,4) unfolding worker_inv_def by simp
qed

lemma handler_on_track: "worker_inv tts mo ms w \<Longrightarrow> i < length (handlers w) \<Longrightarrow> on_track tts mo w (handlers w ! i)"
  using inv_parts(3) by simp

lemma handler_id:
  "worker_inv tts mo ms w \<Longrightarrow> i < length (handlers w) \<Longrightarrow> msg_requestId (hd_message (handlers w ! i)) = hd_id (handlers w ! i)"
  using inv_parts(2) [of tts mo ms w "handlers w ! i"] by (simp add: own_id_def)

lemma messages_for_post: "sent w' = sent w @ new \<Longrightarrow> \<forall>m\<in>set new. message_id m = rid \<Longrightarrow> messages_for rid w' = messages_for rid w @ new"
  by (simp add: messages_for_def filter_id_conv)

lemma load_ended_same: "loads w' = loads w \<Longrightarrow> load_ended w r \<Longrightarrow> load_ended w' r"
  by (simp add: load_ended_def)

text \<open>A step of one handler: its phase changes and it may post a message of its own.\<close>

lemma inv_phase:
  assumes "worker_inv tts mo ms w" and "i < length (handlers w)"
    and "handlers w' = (handlers w)[i := (handlers w ! i)\<lparr>hd_phase := p\<rparr>]" and "sent w' = sent w @ new"
    and "\<forall>m\<in>set new. message_id m = hd_id (handlers w ! i)" and "loads w' = loads w"
    and "messages_for (hd_id (handlers w ! i)) w' = messages_for (hd_id (handlers w ! i)) w @ new \<Longrightarrow>
      on_track tts mo w' ((handlers w ! i)\<lparr>hd_phase := p\<rparr>)"
  shows "worker_inv tts mo ms w'"
  using assms load_ended_same [OF assms(6)] messages_for_post [OF assms(4,5)]
  by (intro inv_update [OF assms(1,2,3) _ _ assms(4)]) simp_all

lemma inv_chunk:
  assumes "worker_inv tts mo ms w" and "i < length (handlers w)" and "phase_at w i = Streaming (c # cs, fin) n rt"
  shows "worker_inv tts mo ms (stream_chunk i c (cs, fin) n rt w)"
proof -
  let ?h = "handlers w ! i"
  have t: "messages_for (hd_id ?h) w @ speak (hd_id ?h) mo (c # cs) fin n rt = request_messages tts mo (Inr ()) (hd_message ?h)"
    using handler_on_track [OF assms(1,2)] assms(3) by (simp add: on_track_def phase_at_def Let_def)
  have skip: "worker_inv tts mo ms (set_handler i (Streaming (cs, fin) n rt) w)"
    if "speak (hd_id ?h) mo (c # cs) fin n rt = speak (hd_id ?h) mo cs fin n rt"
    using t that
    by (intro inv_phase [OF assms(1,2), where new = "[]" and p = "Streaming (cs, fin) n rt"]) (simp_all add: worker_simps on_track_def)
  show ?thesis
  proof (cases "hd_cancelled ?h")
    case True
    have "worker_inv tts mo ms (leave i Ended w)"
      using t True
      by (intro inv_phase [OF assms(1,2), where new = "[]" and p = Ended])
        (auto simp: worker_simps on_track_def load_ended_def intro!: exI [of _ "Inr ()"] intro: prefixI [OF sym])
    then show ?thesis using True by (simp add: stream_chunk_def)
  next
    case False
    show ?thesis
    proof (cases "c = None \<or> audio_data (the c) = []")
      case True
      then show ?thesis using False skip by (cases c) (auto simp: stream_chunk_def)
    next
      case a: False
      then obtain a where a: "c = Some a" "audio_data a \<noteq> []" by auto
      define rate' where "rate' = (if sampling_rate a \<noteq> 0 then sampling_rate a else rt)"
      define n' where "n' = n + length (audio_data a)"
      show ?thesis
      proof (cases "rate' * MAX_AUDIO_SECONDS < n'")
        case True
        then have "speak (hd_id ?h) mo (c # cs) fin n rt = [WError (hd_id ?h) (mo too_long)]"
          using a by (simp add: Let_def MAX_AUDIO_SECONDS_def rate'_def n'_def)
        then have "worker_inv tts mo ms (leave i (Rejected too_long) w)"
          using t
          by (intro inv_phase [OF assms(1,2), where new = "[]" and p = "Rejected too_long"])
            (auto simp: worker_simps on_track_def load_ended_def intro!: exI [of _ "Inr ()"])
        then show ?thesis using False a True by (simp add: stream_chunk_def Let_def rate'_def n'_def)
      next
        case short: False
        let ?w' = "set_handler i (Streaming (cs, fin) n' rate') (post (WAudio (hd_id ?h) rate' (audio_data a)) w)"
        have "speak (hd_id ?h) mo (c # cs) fin n rt = WAudio (hd_id ?h) rate' (audio_data a) # speak (hd_id ?h) mo cs fin n' rate'"
          using a short by (simp add: Let_def MAX_AUDIO_SECONDS_def rate'_def n'_def)
        then have "worker_inv tts mo ms ?w'"
          using t
          by (intro inv_phase [OF assms(1,2), where new = "[WAudio (hd_id ?h) rate' (audio_data a)]" and p = "Streaming (cs, fin) n' rate'"])
            (simp_all add: worker_simps on_track_def message_id_def)
        then show ?thesis using False a short by (simp add: stream_chunk_def Let_def rate'_def n'_def)
      qed
    qed
  qed
qed

lemma inv_step:
  assumes "worker_inv tts mo ms w" and "worker_step tts mo w w'"
  shows "worker_inv tts mo ms w'"
  using assms(2)
proof cases
  case (arrived k r)
  have "Settled x \<in> set ((loads w)[k := Arrived r])" if "Settled x \<in> set (loads w)" for x
    using that arrived(2,3) by (metis in_set_conv_nth length_list_update load.distinct(3) nth_list_update_neq)
  then show ?thesis using arrived assms(1)
    by (intro inv_other [OF assms(1)]) (auto simp: worker_simps messages_for_def load_ended_def)
next
  case (settled k r)
  have "Settled x \<in> set ((loads w)[k := Settled r])" if "Settled x \<in> set (loads w)" for x
    using that settled(2,3) by (metis in_set_conv_nth length_list_update load.distinct(5) nth_list_update_neq)
  then show ?thesis using settled assms(1)
    by (intro inv_other [OF assms(1)]) (auto simp: worker_simps messages_for_def load_ended_def)
next
  case (began i l)
  let ?h = "handlers w ! i"
  note t = handler_on_track [OF assms(1) began(2)] handler_id [OF assms(1) began(2)]
  obtain cs fin where scr: "tts (trim (msg_text (hd_message ?h))) (request_voice (hd_message ?h)) = (cs, fin)" by (metis surj_pair)
  show ?thesis using began t scr
    by (intro inv_phase [OF assms(1) began(2), where new = "[WStarted (hd_id ?h)]" and p = "Streaming (cs, fin) 0 24000"])
      (auto simp: synthesize_begin_def Let_def worker_simps message_id_def on_track_def phase_at_def request_messages_def)
next
  case (load_failed i l e)
  have "load_ended w (Inl e)" using load_failed(4) by (auto simp: load_result_def load_ended_def split: option.splits if_splits load.splits) (metis nth_mem)
  then show ?thesis using load_failed handler_on_track [OF assms(1) load_failed(2)] handler_id [OF assms(1) load_failed(2)]
    by (intro inv_phase [OF assms(1) load_failed(2), where new = "[]" and p = "Rejected e"])
      (auto simp: worker_simps on_track_def phase_at_def request_messages_def Let_def load_ended_def messages_for_def intro!: exI [of _ "Inl e"])
next
  case (reported i e)
  then show ?thesis using handler_on_track [OF assms(1) reported(2)] handler_id [OF assms(1) reported(2)]
    by (intro inv_phase [OF assms(1) reported(2), where new = "[WError (hd_id (handlers w ! i)) (mo e)]" and p = Ended])
      (auto simp: report_def worker_simps message_id_def on_track_def phase_at_def Let_def load_ended_def)
next
  case (threw i e n rt)
  then show ?thesis using handler_on_track [OF assms(1) threw(2)]
    by (intro inv_phase [OF assms(1) threw(2), where new = "[]" and p = "Rejected e"])
      (auto simp: worker_simps on_track_def phase_at_def Let_def load_ended_def messages_for_def)
next
  case (ended i n rt)
  let ?h = "handlers w ! i"
  show ?thesis using ended handler_on_track [OF assms(1) ended(2)]
    by (intro inv_phase [OF assms(1) ended(2), where new = "if hd_cancelled ?h then [] else [WDone (hd_id ?h) rt n]" and p = Ended])
      (auto simp: stream_end_def worker_simps message_id_def on_track_def phase_at_def Let_def load_ended_def
        intro!: exI [of _ "Inr ()"] intro: prefixI [OF sym])
next
  case (chunk i c cs fin n rt)
  show ?thesis unfolding chunk(1) by (rule inv_chunk [OF assms(1) chunk(2,3)])
next
  case (ready i l)
  then show ?thesis by (intro inv_other [OF assms(1)]) (auto simp: worker_simps messages_for_def load_ended_def message_id_def)
next
  case (not_ready i l e)
  then show ?thesis by (intro inv_other [OF assms(1)]) (auto simp: worker_simps messages_for_def load_ended_def message_id_def)
qed

lemma inv_start:
  assumes "worker_inv tts mo ms w" and "msg_requestId m \<noteq> []" and "msg_requestId m \<notin> hd_id ` set (handlers w)" and "msg_type m = js ''synthesize''"
    and "handlers w' = handlers w @ [h]" and "hd_message h = m" and "hd_id h = msg_requestId m" and "sent w' = sent w"
    and "\<And>r. load_ended w r \<Longrightarrow> load_ended w' r" and "messages_for (hd_id h) w' = [] \<Longrightarrow> on_track tts mo w' h"
  shows "worker_inv tts mo (ms @ [m]) w'"
proof -
  note p = inv_parts [OF assms(1)]
  have same: "messages_for rid w' = messages_for rid w" for rid using assms(8) by (simp add: messages_for_def)
  have "on_track tts mo w' h'" if "h' \<in> set (handlers w)" for h'
    using on_track_mono [OF p(3) [OF that] same assms(9)] .
  moreover have "on_track tts mo w' h" using assms(2,3,7,10) p(5) same by simp
  moreover have "own_id h" using assms(2,6,7) by (simp add: own_id_def)
  ultimately show ?thesis using assms(3-7) same p unfolding worker_inv_def by (auto simp: synth_messages_def)
qed

lemma load_ended_prepare: "prepare w = (l, w') \<Longrightarrow> load_ended w r \<Longrightarrow> load_ended w' r"
  using prepare_fields(5) [of w l w'] by (auto simp: load_ended_def)

lemma inv_receive:
  assumes "worker_inv tts mo ms w" and "distinct (map msg_requestId (synth_messages (ms @ [m])))"
    and "[] \<notin> msg_requestId ` set (synth_messages (ms @ [m]))"
  shows "worker_inv tts mo (ms @ [m]) (on_message m w)"
proof (cases "msg_type m = js ''synthesize''")
  case False
  then have same: "synth_messages (ms @ [m]) = synth_messages ms" by (simp add: synth_messages_def)
  have prep: "worker_inv tts mo ms (w'\<lparr>prepares := ps\<rparr>)" if "prepare w = (l, w')" for l w' ps
    using prepare_fields [OF that] load_ended_prepare [OF that] by (intro inv_other [OF assms(1)]) (auto simp: messages_for_def load_ended_def)
  have cancel: "worker_inv tts mo ms (cancel_request rid w)" for rid
  proof (cases "activeRequests w rid")
    case (Some i)
    show ?thesis
    proof (cases "i < length (handlers w)")
      case True
      note t = handler_on_track [OF assms(1) True]
      have "on_track tts mo (cancel_request rid w) ((handlers w ! i)\<lparr>hd_cancelled := True\<rparr>)"
        using t Some unfolding on_track_def
        by (cases "(tts, mo, w, handlers w ! i, hd_phase (handlers w ! i))" rule: track.cases)
          (auto simp: cancel_request_def messages_for_def load_ended_def)
      then show ?thesis using Some
        by (intro inv_update [OF assms(1) True, where h' = "(handlers w ! i)\<lparr>hd_cancelled := True\<rparr>" and new = "[]"])
          (simp_all add: cancel_request_def load_ended_def)
    next
      case False
      then show ?thesis using Some assms(1) by (simp add: cancel_request_def list_update_beyond)
    qed
  qed (simp add: cancel_request_def assms(1))
  have "worker_inv tts mo ms (on_message m w)"
    using False prep cancel assms(1) by (auto simp: on_message_def split: prod.splits)
  then show ?thesis using same by (simp add: worker_inv_def)
next
  case True
  have new: "synth_messages (ms @ [m]) = synth_messages ms @ [m]" using True by (simp add: synth_messages_def)
  have rid: "msg_requestId m \<noteq> []" using assms(3) new by auto
  note p = inv_parts [OF assms(1)]
  have "hd_id ` set (handlers w) = msg_requestId ` hd_message ` set (handlers w)" using p(2) by (force simp: own_id_def image_iff)
  also have "\<dots> = msg_requestId ` set (synth_messages ms)" using p(1) by (metis list.set_map)
  finally have "hd_id ` set (handlers w) = msg_requestId ` set (synth_messages ms)" .
  then have fresh: "msg_requestId m \<notin> hd_id ` set (handlers w)" using assms(2) new by simp
  have on: "on_message m w = synthesize_start m w" using True by (simp add: on_message_def)
  have other: "js ''prepare'' \<noteq> js ''synthesize''" by simp
  show ?thesis
  proof (cases "text_check (trim (msg_text m))")
    case (Inl e)
    show ?thesis unfolding on using Inl rid
      by (intro inv_start [OF assms(1) rid fresh True])
        (auto simp: synthesize_start_def request_id_def Let_def on_track_def request_messages_def load_ended_def intro!: exI [of _ "Inr ()"])
  next
    case (Inr u)
    obtain l w1 where p: "prepare (w\<lparr>activeRequests := (activeRequests w)(msg_requestId m \<mapsto> length (handlers w))\<rparr>) = (l, w1)" by (metis surj_pair)
    show ?thesis unfolding on using Inr rid prepare_fields [OF p] load_ended_prepare [OF p] p
      by (intro inv_start [OF assms(1) rid fresh True])
        (auto simp: synthesize_start_def request_id_def Let_def on_track_def load_ended_def)
  qed
qed

definition own_ids :: "client_request list \<Rightarrow> bool" where
  "own_ids ms \<longleftrightarrow> distinct (map msg_requestId (synth_messages ms)) \<and> [] \<notin> set (map msg_requestId (synth_messages ms))"

lemma inv_run: "worker_run tts mo ms w \<Longrightarrow> own_ids ms \<Longrightarrow> worker_inv tts mo ms w"
proof (induction rule: worker_run.induct)
  case wrun_start
  show ?case by (simp add: worker_inv_def initial_worker_def synth_messages_def messages_for_def)
next
  case (wrun_receive ms w m)
  have "own_ids ms" using wrun_receive.prems by (auto simp: own_ids_def synth_messages_def split: if_splits)
  then show ?case using wrun_receive by (intro inv_receive) (auto simp: own_ids_def)
next
  case (wrun_step ms w w')
  show ?case by (rule inv_step [OF wrun_step.IH [OF wrun_step.prems] wrun_step.hyps(2)])
qed

lemma track_prefix:
  assumes "on_track tts mo w h"
  shows "\<exists>r. load_ended w r \<and> prefix (messages_for (hd_id h) w) (request_messages tts mo r (hd_message h))
    \<and> (hd_phase h = Ended \<longrightarrow> \<not> hd_cancelled h \<longrightarrow> messages_for (hd_id h) w = request_messages tts mo r (hd_message h))"
proof (cases "hd_phase h")
  case (Waiting l)
  then show ?thesis using assms by (auto simp: on_track_def load_ended_def)
next
  case (Streaming s n rt)
  obtain cs fin where "s = (cs, fin)" by (metis surj_pair)
  then have "prefix (messages_for (hd_id h) w) (request_messages tts mo (Inr ()) (hd_message h))"
    using assms Streaming by (simp add: on_track_def) (metis prefixI)
  then show ?thesis using Streaming by (auto simp: load_ended_def)
next
  case (Rejected e)
  then obtain r where "load_ended w r" "messages_for (hd_id h) w @ [WError (hd_id h) (mo e)] = request_messages tts mo r (hd_message h)"
    using assms by (auto simp: on_track_def)
  then show ?thesis using Rejected by (metis handler_phase.distinct(11) prefixI)
next
  case Ended
  then show ?thesis using assms by (auto simp: on_track_def)
qed

text \<open>C2: The worker answers each request as if it served it alone: when the ids of the requests differ, then in every run,
  however requests, loads and cancellations are interleaved, the messages sent for a request are the first
  ones of its specified answer, and all of them once its handler has ended without a cancellation. The
  answer is: an error for a bad text or a failed load; or a start, the audio of the stream chunk by chunk,
  and one end or one error, after which nothing is sent.\<close>

theorem worker_refines_requests:
  assumes "worker_run tts message_of ms w" and "own_ids ms" and "h \<in> set (handlers w)"
  shows "hd_message h \<in> set ms \<and> (\<exists>r. load_ended w r \<and> prefix (messages_for (hd_id h) w) (request_messages tts message_of r (hd_message h))
    \<and> (hd_phase h = Ended \<longrightarrow> \<not> hd_cancelled h \<longrightarrow> messages_for (hd_id h) w = request_messages tts message_of r (hd_message h)))"
proof -
  note p = inv_parts [OF inv_run [OF assms(1,2)]]
  have t: "on_track tts message_of w h" by (rule p(3) [OF assms(3)])
  have "hd_message h \<in> set (map hd_message (handlers w))" using assms(3) by simp
  then have m: "hd_message h \<in> set ms" unfolding p(1) by (simp add: synth_messages_def)
  then show ?thesis using track_prefix [OF t] by blast
qed

section \<open>At most 24 seconds\<close>

definition samples_in :: "worker_message list \<Rightarrow> nat" where
  "samples_in ms = sum_list (map (\<lambda>m. case m of WAudio _ _ d \<Rightarrow> length d | _ \<Rightarrow> 0) ms)"

lemma speak_bounded:
  "speak rid mo cs fin n rt = before @ WAudio x rate d # after \<Longrightarrow> n + samples_in before + length d \<le> 24 * rate"
proof (induction rid mo cs fin n rt arbitrary: before rule: speak.induct)
  case (4 rid mo a cs fin n rt)
  define rate' where "rate' = (if sampling_rate a \<noteq> 0 then sampling_rate a else rt)"
  show ?case
  proof (cases "audio_data a = []")
    case True
    then show ?thesis using 4 by simp
  next
    case False
    show ?thesis
    proof (cases "rate' * 24 < n + length (audio_data a)")
      case True
      then show ?thesis using "4.prems" False by (auto simp: Let_def rate'_def Cons_eq_append_conv)
    next
      case short: False
      then have e: "WAudio rid rate' (audio_data a) # speak rid mo cs fin (n + length (audio_data a)) rate' = before @ WAudio x rate d # after"
        using "4.prems" False by (simp add: Let_def rate'_def)
      show ?thesis
      proof (cases before)
        case Nil
        then show ?thesis using e short by (simp add: samples_in_def)
      next
        case (Cons b bs)
        then have "speak rid mo cs fin (n + length (audio_data a)) rate' = bs @ WAudio x rate d # after" "b = WAudio rid rate' (audio_data a)"
          using e by simp_all
        then show ?thesis using "4.IH"(2) [OF False rate'_def refl, of bs] short Cons by (simp add: samples_in_def)
      qed
    qed
  qed
qed (auto simp: Cons_eq_append_conv)

text \<open>C26: No request plays for more than 24 seconds: when the ids of the requests differ, then in every run, at every
  audio message of a request the samples sent for it so far, this message included, last at most 24
  seconds at the rate of the message.\<close>

theorem worker_audio_bounded:
  assumes "worker_run tts message_of ms w" and "own_ids ms" and "rid \<noteq> []"
    and "messages_for rid w = before @ WAudio rid rate d # after"
  shows "samples_in before + length d \<le> 24 * rate"
proof -
  note p = inv_parts [OF inv_run [OF assms(1,2)]]
  have "messages_for rid w \<noteq> []" using assms(4) by simp
  then obtain h where h: "h \<in> set (handlers w)" "hd_id h = rid" using p(5) [OF assms(3)] by auto
  have "\<exists>r. prefix (messages_for rid w) (request_messages tts message_of r (hd_message h))"
    using track_prefix [OF p(3) [OF h(1)]] h(2) by blast
  then obtain r rest where r: "request_messages tts message_of r (hd_message h) = before @ WAudio rid rate d # after @ rest"
    using assms(4) by (auto simp: prefix_def)
  then obtain cs fin x bs where s: "speak x message_of cs fin 0 24000 = bs @ WAudio rid rate d # after @ rest" "before = WStarted x # bs"
    by (auto simp: request_messages_def Let_def Cons_eq_append_conv split: sum.splits prod.splits)
  show ?thesis using speak_bounded [OF s(1)] s(2) by (simp add: samples_in_def)
qed

section \<open>One load at a time\<close>

definition failed :: "load \<Rightarrow> bool" where
  "failed l \<longleftrightarrow> (\<exists>e. l = Settled (Inl e))"

text \<open>What is left of the loads once those that failed are gone: none; one that is under way; or the one that succeeded.\<close>

fun load_state :: "bool \<Rightarrow> nat option \<Rightarrow> nat \<Rightarrow> load list \<Rightarrow> bool" where
  "load_state there p n [] \<longleftrightarrow> \<not> there \<and> p = None"
| "load_state there p n [Fetching] \<longleftrightarrow> \<not> there \<and> p = Some n"
| "load_state there p n [Arrived r] \<longleftrightarrow> (there \<longleftrightarrow> r = Inr ()) \<and> p = Some n"
| "load_state there p n [Settled r] \<longleftrightarrow> there \<and> r = Inr () \<and> p = None"
| "load_state there p n (l # k # ls) \<longleftrightarrow> False"

definition loads_ok :: "worker \<Rightarrow> bool" where
  "loads_ok w \<longleftrightarrow> (\<exists>fs ls. loads w = fs @ ls \<and> list_all failed fs \<and> load_state (model_loaded w) (preparing w) (length fs) ls)"

lemma loads_ok_same: "loads_ok w \<Longrightarrow> loads w' = loads w \<Longrightarrow> preparing w' = preparing w \<Longrightarrow> model_loaded w' = model_loaded w \<Longrightarrow> loads_ok w'"
  by (simp add: loads_ok_def)

lemma load_state_single: "load_state there p n ls \<Longrightarrow> ls = [] \<or> (\<exists>l. ls = [l])"
  by (cases "(there, p, n, ls)" rule: load_state.cases) auto

lemma load_at:
  assumes "loads_ok w" and "k < length (loads w)" and "\<not> failed (loads w ! k)"
  obtains fs where "loads w = fs @ [loads w ! k]" "list_all failed fs" "k = length fs"
    "load_state (model_loaded w) (preparing w) k [loads w ! k]"
proof -
  obtain fs ls where f: "loads w = fs @ ls" "list_all failed fs" "load_state (model_loaded w) (preparing w) (length fs) ls"
    using assms(1) unfolding loads_ok_def by blast
  have k: "\<not> k < length fs" using assms(3) f(1,2) by (auto simp: nth_append list_all_length)
  then obtain l where "ls = [l]" using load_state_single [OF f(3)] f(1) assms(2) by auto
  then have "k = length fs" "ls = [loads w ! k]" using k f(1) assms(2) by (auto simp: nth_append)
  then show thesis using that f by simp
qed

lemma loads_okI: "loads w = fs @ ls \<Longrightarrow> list_all failed fs \<Longrightarrow> load_state (model_loaded w) (preparing w) (length fs) ls \<Longrightarrow> loads_ok w"
  unfolding loads_ok_def by blast

lemma loads_ok_prepare:
  assumes "loads_ok w" and "prepare w = (l, w')"
  shows "loads_ok w'"
proof (cases "model_loaded w \<or> preparing w \<noteq> None")
  case True
  then show ?thesis using assms by (auto simp: prepare_def split: if_splits)
next
  case False
  obtain fs ls where f: "loads w = fs @ ls" "list_all failed fs" "load_state (model_loaded w) (preparing w) (length fs) ls"
    using assms(1) unfolding loads_ok_def by blast
  then have "ls = []" using False by (cases "(model_loaded w, preparing w, length fs, ls)" rule: load_state.cases) auto
  then show ?thesis using f False assms(2) by (intro loads_okI [of _ fs "[Fetching]"]) (auto simp: prepare_def)
qed

lemma loads_ok_step:
  assumes "worker_step tts mo w w'" and "loads_ok w"
  shows "loads_ok w'"
  using assms(1)
proof cases
  case (arrived k r)
  obtain fs where "loads w = fs @ [Fetching]" "list_all failed fs" "k = length fs" "load_state (model_loaded w) (preparing w) k [Fetching]"
    by (rule load_at [OF assms(2) arrived(2), unfolded arrived(3)]) (auto simp: failed_def)
  then show ?thesis using arrived by (intro loads_okI [of _ fs "[Arrived r]"]) (auto simp: load_then_def)
next
  case (settled k r)
  obtain fs where f: "loads w = fs @ [Arrived r]" "list_all failed fs" "k = length fs" "load_state (model_loaded w) (preparing w) k [Arrived r]"
    by (rule load_at [OF assms(2) settled(2), unfolded settled(3)]) (auto simp: failed_def)
  show ?thesis
  proof (cases r)
    case (Inl e)
    then show ?thesis using f settled by (intro loads_okI [of _ "fs @ [Settled r]" "[]"]) (auto simp: load_finally_def failed_def)
  next
    case (Inr u)
    then show ?thesis using f settled by (intro loads_okI [of _ fs "[Settled r]"]) (auto simp: load_finally_def)
  qed
qed (rule loads_ok_same [OF assms(2)]; auto simp: worker_simps synthesize_begin_def stream_chunk_def stream_end_def report_def Let_def split: option.splits)+

lemma loads_ok_message: "loads_ok w \<Longrightarrow> loads_ok (on_message m w)"
proof -
  assume ok: "loads_ok w"
  have p: "loads_ok w'" if "prepare w1 = (l, w')" "loads w1 = loads w" "preparing w1 = preparing w" "model_loaded w1 = model_loaded w" for w1 l w'
    by (rule loads_ok_prepare [OF loads_ok_same [OF ok that(2-4)] that(1)])
  have start: "loads_ok (synthesize_start m w)"
    by (auto simp: synthesize_start_def request_id_def Let_def split: prod.splits sum.splits if_splits
        intro: loads_ok_same [OF ok] loads_ok_same [OF p])
  have "loads_ok (cancel_request (msg_requestId m) w)"
    by (rule loads_ok_same [OF ok]) (simp_all add: cancel_request_def split: option.splits)
  then show ?thesis using ok start by (auto simp: on_message_def split: prod.splits intro: loads_ok_same [OF p])
qed

lemma loads_ok_run: "worker_run tts mo ms w \<Longrightarrow> loads_ok w"
proof (induction rule: worker_run.induct)
  case wrun_start
  show ?case by (rule loads_okI [of _ "[]" "[]"]) (simp_all add: initial_worker_def)
qed (auto intro: loads_ok_message loads_ok_step)

lemma unloaded_state:
  assumes "loads_ok w" and "list_all failed (loads w)"
  shows "\<not> model_loaded w \<and> preparing w = None"
proof -
  obtain fs ls where f: "loads w = fs @ ls" "load_state (model_loaded w) (preparing w) (length fs) ls"
    using assms(1) unfolding loads_ok_def by blast
  then show ?thesis using assms(2)
    by (cases "(model_loaded w, preparing w, length fs, ls)" rule: load_state.cases) (auto simp: failed_def)
qed

text \<open>The messages that need the model: to prepare it, or to speak a text that passes the checks.\<close>

definition needs_model :: "client_request \<Rightarrow> bool" where
  "needs_model m \<longleftrightarrow> msg_type m = js ''prepare''
     \<or> msg_type m = js ''synthesize'' \<and> text_check (trim (msg_text m)) = Inr ()"

lemma prepare_begins:
  "\<not> model_loaded w \<Longrightarrow> preparing w = None \<Longrightarrow> loads (snd (prepare w)) = loads w @ [Fetching]"
  by (simp add: prepare_def)

text \<open>C25: The model is loaded once: in every run, of the loads begun all but the last have failed, so no two loads are
  ever under way together; once a load has succeeded the model is there and no further load is begun by
  any message; and as long as every load begun has failed, or none has been begun, the next message that
  needs the model begins exactly one more load, so that a failed load is tried again.\<close>

theorem worker_loads_once:
  assumes "worker_run tts message_of ms w"
  shows "list_all failed (butlast (loads w))
    \<and> (Settled (Inr ()) \<in> set (loads w) \<longrightarrow> model_loaded w \<and> loads (on_message m w) = loads w)
    \<and> (list_all failed (loads w) \<and> needs_model m \<longrightarrow> loads (on_message m w) = loads w @ [Fetching])"
proof -
  obtain fs ls where f: "loads w = fs @ ls" "list_all failed fs" "load_state (model_loaded w) (preparing w) (length fs) ls"
    using loads_ok_run [OF assms] unfolding loads_ok_def by blast
  have "list_all failed (butlast (loads w))" using load_state_single [OF f(3)] f(1,2) by (auto simp: list_all_iff dest: in_set_butlastD)
  moreover have "model_loaded w" if "Settled (Inr ()) \<in> set (loads w)"
  proof -
    have "Settled (Inr ()) \<in> set ls" using that f(1,2) by (auto simp: list_all_iff failed_def)
    then show ?thesis using f(3) load_state_single [OF f(3)] by auto
  qed
  moreover have "loads (on_message m w) = loads w" if "model_loaded w"
    using that by (auto simp: on_message_def synthesize_start_def request_id_def prepare_def Let_def cancel_request_def split: prod.splits sum.splits option.splits)
  moreover have "loads (on_message m w) = loads w @ [Fetching]" if "list_all failed (loads w)" "needs_model m"
    using unloaded_state [OF loads_ok_run [OF assms] that(1)] that(2)
    by (auto simp: needs_model_def on_message_def synthesize_start_def request_id_def prepare_def Let_def)
  ultimately show ?thesis by blast
qed

section \<open>A run of the worker\<close>

text \<open>A request that streams one chunk of audio, from its message to its end.\<close>

definition demo_tts :: "jsstr \<Rightarrow> jsstr \<Rightarrow> script" where
  "demo_tts t v = ([Some \<lparr>audio_data = [Fin 0, Fin 1], sampling_rate = 8000\<rparr>, None], None)"

definition demo_text :: "js_error \<Rightarrow> jsstr" where
  "demo_text e = []"

definition demo_request :: client_request where
  "demo_request = \<lparr>msg_type = js ''synthesize'', msg_requestId = js ''a'', msg_text = js '' Hi '', msg_voice = []\<rparr>"

definition demo_waiting :: worker where
  "demo_waiting = on_message demo_request initial_worker"

definition demo_loaded :: worker where
  "demo_loaded = load_finally 0 (Inr ()) (load_then 0 (Inr ()) demo_waiting)"

definition demo_begun :: worker where
  "demo_begun = synthesize_begin demo_tts 0 demo_loaded"

definition demo_spoken :: worker where
  "demo_spoken = stream_chunk 0 (Some \<lparr>audio_data = [Fin 0, Fin 1], sampling_rate = 8000\<rparr>) ([None], None) 0 24000 demo_begun"

definition demo_done :: worker where
  "demo_done = stream_end 0 2 8000 (stream_chunk 0 None ([], None) 2 8000 demo_spoken)"

lemma demo_waiting_is:
  "demo_waiting = \<lparr>model_loaded = False, preparing = Some 0, loads = [Fetching], requestCounter = 0, activeRequests = [js ''a'' \<mapsto> 0],
     handlers = [\<lparr>hd_id = js ''a'', hd_message = demo_request, hd_cancelled = False, hd_phase = Waiting (Some 0)\<rparr>], prepares = [], sent = []\<rparr>"
proof -
  have "text_check (trim (js '' Hi '')) = Inr ()" by code_simp
  then show ?thesis
    by (simp add: demo_waiting_def on_message_def demo_request_def synthesize_start_def request_id_def prepare_def initial_worker_def Let_def)
qed

lemmas demo_steps = demo_loaded_def demo_begun_def demo_spoken_def demo_done_def demo_waiting_is load_then_def load_finally_def
  synthesize_begin_def stream_chunk_def stream_end_def demo_tts_def set_handler_def post_def leave_def Let_def

lemma demo_handlers:
  "loads demo_waiting = [Fetching]" "loads demo_loaded = [Settled (Inr ())]" "length (handlers demo_loaded) = 1"
  "phase_at demo_loaded 0 = Waiting (Some 0)" "length (handlers demo_begun) = 1"
  "phase_at demo_begun 0 = Streaming ([Some \<lparr>audio_data = [Fin 0, Fin 1], sampling_rate = 8000\<rparr>, None], None) 0 24000"
  "length (handlers demo_spoken) = 1" "phase_at demo_spoken 0 = Streaming ([None], None) 2 8000"
  by (simp_all add: demo_steps phase_at_def MAX_AUDIO_SECONDS_def)

lemma demo_run_loaded: "worker_run tts message_of [demo_request] demo_loaded"
proof -
  have "worker_run tts message_of [demo_request] demo_waiting"
    using wrun_receive [OF wrun_start, of tts message_of demo_request] by (simp add: demo_waiting_def)
  then have "worker_run tts message_of [demo_request] (load_then 0 (Inr ()) demo_waiting)"
    by (rule wrun_step) (rule worker_step.arrived; simp add: demo_handlers)
  then show ?thesis
    unfolding demo_loaded_def by (rule wrun_step) (rule worker_step.settled; simp add: demo_handlers load_then_def)
qed

lemma demo_run_begun: "worker_run demo_tts demo_text [demo_request] demo_begun"
  using demo_run_loaded unfolding demo_begun_def
  by (rule wrun_step) (rule worker_step.began [where l = "Some 0"]; simp add: demo_handlers load_result_def)

lemma demo_run_spoken: "worker_run demo_tts demo_text [demo_request] demo_spoken"
  using demo_run_begun unfolding demo_spoken_def by (rule wrun_step) (rule worker_step.chunk; simp add: demo_handlers)

lemma demo_run_done: "worker_run demo_tts demo_text [demo_request] demo_done"
proof -
  have "worker_run demo_tts demo_text [demo_request] (stream_chunk 0 None ([], None) 2 8000 demo_spoken)"
    using demo_run_spoken by (rule wrun_step) (rule worker_step.chunk; simp add: demo_handlers)
  then show ?thesis unfolding demo_done_def
    by (rule wrun_step) (rule worker_step.ended; simp add: demo_steps phase_at_def MAX_AUDIO_SECONDS_def)
qed

lemma demo_own_ids: "own_ids [demo_request]"
  by (simp add: own_ids_def synth_messages_def demo_request_def js_def)

lemma demo_done_is:
  "handlers demo_done = [\<lparr>hd_id = js ''a'', hd_message = demo_request, hd_cancelled = False, hd_phase = Ended\<rparr>]"
  "sent demo_done = [WStarted (js ''a''), WAudio (js ''a'') 8000 [Fin 0, Fin 1], WDone (js ''a'') 8000 2]"
  "loads demo_done = [Settled (Inr ())]"
  by (simp_all add: demo_steps MAX_AUDIO_SECONDS_def)

theorem worker_refines_requests_witness:
  "\<exists>r. load_ended demo_done r \<and> messages_for (js ''a'') demo_done = request_messages demo_tts demo_text r demo_request
    \<and> messages_for (js ''a'') demo_done = [WStarted (js ''a''), WAudio (js ''a'') 8000 [Fin 0, Fin 1], WDone (js ''a'') 8000 2]"
  using worker_refines_requests [OF demo_run_done demo_own_ids, of "hd (handlers demo_done)"]
  by (auto simp: demo_done_is messages_for_def message_id_def)

theorem worker_audio_bounded_witness:
  "worker_run demo_tts demo_text [demo_request] demo_done \<and> samples_in [WStarted (js ''a'')] + length [Fin 0, Fin 1] \<le> 24 * 8000"
  using worker_audio_bounded [OF demo_run_done demo_own_ids, of "js ''a''" "[WStarted (js ''a'')]" 8000 "[Fin 0, Fin 1]" "[WDone (js ''a'') 8000 2]"] demo_run_done
  by (simp add: demo_done_is messages_for_def message_id_def)

text \<open>The load of that request fails; the next message loads again.\<close>

definition demo_failed :: worker where
  "demo_failed = load_finally 0 (Inl Cancelled) (load_then 0 (Inl Cancelled) demo_waiting)"

lemma demo_run_failed: "worker_run tts message_of [demo_request] demo_failed"
proof -
  have "worker_run tts message_of [demo_request] demo_waiting"
    using wrun_receive [OF wrun_start, of tts message_of demo_request] by (simp add: demo_waiting_def)
  then have "worker_run tts message_of [demo_request] (load_then 0 (Inl Cancelled) demo_waiting)"
    by (rule wrun_step) (rule worker_step.arrived; simp add: demo_handlers)
  then show ?thesis
    unfolding demo_failed_def by (rule wrun_step) (rule worker_step.settled; simp add: demo_handlers load_then_def)
qed

theorem worker_loads_once_witness:
  "model_loaded demo_done \<and> loads (on_message demo_request demo_done) = loads demo_done
   \<and> loads (on_message demo_request demo_failed) = [Settled (Inl Cancelled), Fetching]"
proof -
  have "text_check (trim (js '' Hi '')) = Inr ()" by code_simp
  then have "needs_model demo_request" by (simp add: needs_model_def demo_request_def)
  moreover have "loads demo_failed = [Settled (Inl Cancelled)]" by (simp add: demo_failed_def demo_waiting_is load_then_def load_finally_def)
  ultimately show ?thesis
    using worker_loads_once [OF demo_run_done, of demo_request] worker_loads_once [OF demo_run_failed [of demo_tts demo_text], of demo_request]
    by (simp add: demo_done_is failed_def)
qed

end
