(* ===== verification/KittenCancel.thy ===== *)
theory KittenCancel
  imports KittenRequests
begin

text \<open>
  Cancellation in the Kitten worker. A handler that waits or streams is found in \<open>activeRequests\<close> by its id, so a
  cancel message reaches it; from then on it stays \<open>quiet\<close>, whatever the other requests do.
\<close>

section \<open>A cancelled request is silent\<close>

definition silent :: "worker_message \<Rightarrow> bool" where
  "silent m \<longleftrightarrow> (case m of WAudio _ _ _ \<Rightarrow> False | WDone _ _ _ \<Rightarrow> False | _ \<Rightarrow> True)"

fun live :: "handler_phase \<Rightarrow> bool" where
  "live (Waiting _) \<longleftrightarrow> True"
| "live (Streaming _ _ _) \<longleftrightarrow> True"
| "live _ \<longleftrightarrow> False"

definition quiet :: "handler \<Rightarrow> bool" where
  "quiet h \<longleftrightarrow> hd_cancelled h \<or> \<not> live (hd_phase h)"

text \<open>The request of a handler that is waiting or streaming can be found by its id.\<close>

definition findable :: "worker \<Rightarrow> bool" where
  "findable w \<longleftrightarrow> (\<forall>i<length (handlers w). live (phase_at w i) \<longrightarrow> activeRequests w (hd_id (handlers w ! i)) = Some i)"

text \<open>A handler's step changes its phase, posts under its own id and, if it leaves its request, deletes that.\<close>

definition own_step :: "nat \<Rightarrow> worker \<Rightarrow> worker \<Rightarrow> bool" where
  "own_step j w w' \<longleftrightarrow> (\<exists>p new. j < length (handlers w) \<and> handlers w' = (handlers w)[j := (handlers w ! j)\<lparr>hd_phase := p\<rparr>]
     \<and> sent w' = sent w @ new \<and> (\<forall>m\<in>set new. message_id m = hd_id (handlers w ! j))
     \<and> (quiet (handlers w ! j) \<longrightarrow> list_all silent new) \<and> (live p \<longrightarrow> live (phase_at w j))
     \<and> (activeRequests w' = activeRequests w \<or> activeRequests w' = (activeRequests w)(hd_id (handlers w ! j) := None) \<and> \<not> live p))"

lemma own_stepI:
  "j < length (handlers w) \<Longrightarrow> handlers w' = (handlers w)[j := (handlers w ! j)\<lparr>hd_phase := p\<rparr>] \<Longrightarrow> sent w' = sent w @ new \<Longrightarrow>
    \<forall>m\<in>set new. message_id m = hd_id (handlers w ! j) \<Longrightarrow> (quiet (handlers w ! j) \<Longrightarrow> list_all silent new) \<Longrightarrow>
    live p \<longrightarrow> live (phase_at w j) \<Longrightarrow>
    activeRequests w' = activeRequests w \<or> activeRequests w' = (activeRequests w)(hd_id (handlers w ! j) := None) \<and> \<not> live p \<Longrightarrow>
    own_step j w w'"
  unfolding own_step_def by blast

lemma active_fields:
  "activeRequests (set_handler i p w) = activeRequests w" "activeRequests (post m w) = activeRequests w"
  "activeRequests (leave i p w) = (activeRequests w)(hd_id (handlers w ! i) := None)"
  "activeRequests (load_then l r w) = activeRequests w" "activeRequests (load_finally l r w) = activeRequests w"
  by (simp_all add: worker_simps leave_def Let_def load_then_def load_finally_def)

lemmas step_simps = worker_simps active_fields message_id_def silent_def quiet_def phase_at_def Let_def

lemma chunk_own_step:
  assumes "i < length (handlers w)" and "phase_at w i = Streaming (c # cs, fin) n rt"
  shows "own_step i w (stream_chunk i c (cs, fin) n rt w)"
proof -
  let ?h = "handlers w ! i"
  have stay: "own_step i w (set_handler i (Streaming (cs, fin) n rt) w)"
    using assms by (intro own_stepI [where p = "Streaming (cs, fin) n rt" and new = "[]"]) (simp_all add: step_simps)
  have go: "own_step i w (leave i p w)" if "\<not> live p" for p
    using assms that by (intro own_stepI [where p = p and new = "[]"]) (simp_all add: step_simps)
  have say: "own_step i w (set_handler i (Streaming (cs, fin) n' rate) (post (WAudio (hd_id ?h) rate d) w))" if "\<not> hd_cancelled ?h" for n' rate d
    using assms that by (intro own_stepI [where p = "Streaming (cs, fin) n' rate" and new = "[WAudio (hd_id ?h) rate d]"]) (simp_all add: step_simps)
  show ?thesis using stay go say by (simp add: stream_chunk_def Let_def split: option.splits)
qed

text \<open>Every step is that of one handler, or leaves handlers and requests as they are and posts under no id.\<close>

lemma step_kinds:
  assumes "worker_inv tts mo ms w" and "worker_step tts mo w w'"
  shows "(\<exists>j. own_step j w w') \<or> (handlers w' = handlers w \<and> activeRequests w' = activeRequests w
    \<and> (\<exists>new. sent w' = sent w @ new \<and> (\<forall>m\<in>set new. message_id m = [])))"
  using assms(2)
proof cases
  case (began i l)
  let ?h = "handlers w ! i"
  have "own_step i w w'" using began
    by (intro own_stepI [where p = "Streaming (tts (trim (msg_text (hd_message ?h))) (request_voice (hd_message ?h))) 0 24000"
          and new = "[WStarted (hd_id ?h)]"]) (simp_all add: step_simps synthesize_begin_def)
  then show ?thesis by blast
next
  case (load_failed i l e)
  then have "own_step i w w'" by (intro own_stepI [where p = "Rejected e" and new = "[]"]) (simp_all add: step_simps)
  then show ?thesis by blast
next
  case (chunk i c cs fin n rt)
  then show ?thesis using chunk_own_step by blast
next
  case (ended i n rt)
  let ?h = "handlers w ! i"
  have "own_step i w w'" using ended
    by (intro own_stepI [where p = Ended and new = "if hd_cancelled ?h then [] else [WDone (hd_id ?h) rt n]"])
      (auto simp: step_simps stream_end_def)
  then show ?thesis by blast
next
  case (threw i e n rt)
  then have "own_step i w w'" by (intro own_stepI [where p = "Rejected e" and new = "[]"]) (simp_all add: step_simps)
  then show ?thesis by blast
next
  case (reported i e)
  then have "own_step i w w'" using handler_id [OF assms(1) reported(2)]
    by (intro own_stepI [where p = Ended and new = "[WError (hd_id (handlers w ! i)) (mo e)]"]) (simp_all add: step_simps report_def)
  then show ?thesis by blast
qed (simp_all add: step_simps)

lemma distinct_ids: "worker_inv tts mo ms w \<Longrightarrow> i < length (handlers w) \<Longrightarrow> j < length (handlers w) \<Longrightarrow>
  hd_id (handlers w ! i) = hd_id (handlers w ! j) \<longleftrightarrow> i = j"
  using nth_eq_iff_index_eq [OF inv_parts(4), of tts mo ms w i j] by simp

lemma findable_own_step:
  assumes "worker_inv tts mo ms w" and "own_step j w w'" and "findable w"
  shows "findable w'"
proof -
  obtain p new where j: "j < length (handlers w)" and h: "handlers w' = (handlers w)[j := (handlers w ! j)\<lparr>hd_phase := p\<rparr>]"
    and p: "live p \<longrightarrow> live (phase_at w j)"
    and a: "activeRequests w' = activeRequests w \<or> activeRequests w' = (activeRequests w)(hd_id (handlers w ! j) := None) \<and> \<not> live p"
    using assms(2) unfolding own_step_def by blast
  have "activeRequests w' (hd_id (handlers w' ! i)) = Some i" if "i < length (handlers w)" "live (phase_at w' i)" for i
    using that h j p a assms(3) distinct_ids [OF assms(1) that(1) j] unfolding findable_def phase_at_def
    by (cases "i = j") auto
  then show ?thesis using h unfolding findable_def by simp
qed

lemma findable_same: "findable w \<Longrightarrow> handlers w' = handlers w \<Longrightarrow> activeRequests w' = activeRequests w \<Longrightarrow> findable w'"
  by (simp add: findable_def phase_at_def)

lemma findable_step: "worker_inv tts mo ms w \<Longrightarrow> worker_step tts mo w w' \<Longrightarrow> findable w \<Longrightarrow> findable w'"
  using step_kinds findable_own_step findable_same by metis

text \<open>A message: what it adds to the handlers, and that it cancels only the request it names.\<close>

definition add_handler :: "client_request \<Rightarrow> worker \<Rightarrow> worker \<Rightarrow> bool" where
  "add_handler m w w' \<longleftrightarrow> (\<exists>h. handlers w' = handlers w @ [h] \<and> sent w' = sent w \<and> hd_id h = msg_requestId m
     \<and> (activeRequests w' = (activeRequests w)(hd_id h \<mapsto> length (handlers w)) \<or> activeRequests w' = activeRequests w \<and> \<not> live (hd_phase h)))"

lemma start_adds:
  assumes "msg_requestId m \<noteq> []"
  shows "add_handler m w (synthesize_start m w)"
proof (cases "text_check (trim (msg_text m))")
  case (Inl e)
  then show ?thesis using assms by (simp add: add_handler_def synthesize_start_def request_id_def)
next
  case (Inr u)
  obtain l w1 where p: "prepare (w\<lparr>activeRequests := (activeRequests w)(msg_requestId m \<mapsto> length (handlers w))\<rparr>) = (l, w1)" by (metis surj_pair)
  show ?thesis using Inr assms prepare_fields [OF p] p by (simp add: add_handler_def synthesize_start_def request_id_def)
qed

lemma message_kinds:
  assumes "msg_type m = js ''synthesize'' \<Longrightarrow> msg_requestId m \<noteq> []"
  shows "(msg_type m = js ''synthesize'' \<and> add_handler m w (on_message m w))
    \<or> (\<exists>i. activeRequests w (msg_requestId m) = Some i \<and> on_message m w = w\<lparr>handlers := (handlers w)[i := (handlers w ! i)\<lparr>hd_cancelled := True\<rparr>]\<rparr>)
    \<or> (handlers (on_message m w) = handlers w \<and> sent (on_message m w) = sent w \<and> activeRequests (on_message m w) = activeRequests w)"
proof (cases "msg_type m = js ''synthesize''")
  case True
  then show ?thesis using start_adds [OF assms] by (simp add: on_message_def)
next
  case False
  then show ?thesis using prepare_fields by (auto simp: on_message_def cancel_request_def split: prod.splits option.splits)
qed

lemma cancelled_at:
  "i < length hs \<Longrightarrow> (hs :: handler list)[j := (hs ! j)\<lparr>hd_cancelled := True\<rparr>] ! i = (if i = j then (hs ! i)\<lparr>hd_cancelled := True\<rparr> else hs ! i)"
  by simp

lemma findable_message:
  assumes "worker_inv tts mo ms w" and "findable w" and "own_ids (ms @ [m])"
  shows "findable (on_message m w)"
proof -
  have rid: "msg_type m = js ''synthesize'' \<Longrightarrow> msg_requestId m \<noteq> []" using assms(3) by (auto simp: own_ids_def synth_messages_def)
  have fresh: "hd_id (handlers w ! i) \<noteq> msg_requestId m" if "msg_type m = js ''synthesize''" "i < length (handlers w)" for i
  proof -
    have "hd_message (handlers w ! i) \<in> set (synth_messages ms)" using inv_parts(1) [OF assms(1)] that(2) by (metis length_map nth_map nth_mem)
    then have "hd_id (handlers w ! i) \<in> set (map msg_requestId (synth_messages ms))" unfolding handler_id [OF assms(1) that(2), symmetric] by simp
    then show ?thesis using that(1) assms(3) by (auto simp: own_ids_def synth_messages_def)
  qed
  have "msg_type m = js ''synthesize'' \<and> add_handler m w (on_message m w)
    \<or> (\<exists>i. activeRequests w (msg_requestId m) = Some i \<and> on_message m w = w\<lparr>handlers := (handlers w)[i := (handlers w ! i)\<lparr>hd_cancelled := True\<rparr>]\<rparr>)
    \<or> handlers (on_message m w) = handlers w \<and> sent (on_message m w) = sent w \<and> activeRequests (on_message m w) = activeRequests w"
    using message_kinds rid by blast
  then show ?thesis
  proof (elim disjE conjE exE)
    assume t: "msg_type m = js ''synthesize''" and "add_handler m w (on_message m w)"
    then obtain h where "handlers (on_message m w) = handlers w @ [h]" "hd_id h = msg_requestId m"
      "activeRequests (on_message m w) = (activeRequests w)(hd_id h \<mapsto> length (handlers w))
        \<or> activeRequests (on_message m w) = activeRequests w \<and> \<not> live (hd_phase h)"
      unfolding add_handler_def by blast
    then show ?thesis using assms(2) fresh [OF t] unfolding findable_def phase_at_def
      by (auto simp: nth_append less_Suc_eq)
  next
    fix i assume "activeRequests w (msg_requestId m) = Some i"
      "on_message m w = w\<lparr>handlers := (handlers w)[i := (handlers w ! i)\<lparr>hd_cancelled := True\<rparr>]\<rparr>"
    then show ?thesis using assms(2) unfolding findable_def phase_at_def
      by (auto simp: cancelled_at split: if_splits)
  qed (rule findable_same [OF assms(2)])
qed

lemma own_ids_prefix: "own_ids (ms @ ms') \<Longrightarrow> own_ids ms"
  by (auto simp: own_ids_def synth_messages_def)

lemma findable_run: "worker_run tts mo ms w \<Longrightarrow> own_ids ms \<Longrightarrow> findable w"
proof (induction rule: worker_run.induct)
  case wrun_start
  show ?case by (simp add: findable_def initial_worker_def)
next
  case (wrun_receive ms w m)
  note ids = own_ids_prefix [OF wrun_receive.prems]
  show ?case by (rule findable_message [OF inv_run [OF wrun_receive.hyps ids] wrun_receive.IH [OF ids] wrun_receive.prems])
next
  case (wrun_step ms w w')
  show ?case by (rule findable_step [OF inv_run [OF wrun_step.hyps(1) wrun_step.prems] wrun_step.hyps(2) wrun_step.IH [OF wrun_step.prems]])
qed

text \<open>What follows a state: further messages and steps.\<close>

inductive worker_later :: "(jsstr \<Rightarrow> jsstr \<Rightarrow> script) \<Rightarrow> (js_error \<Rightarrow> jsstr) \<Rightarrow> worker \<Rightarrow> client_request list \<Rightarrow> worker \<Rightarrow> bool"
  for tts message_of w where
  later_now: "worker_later tts message_of w [] w"
| later_receive: "worker_later tts message_of w ms w' \<Longrightarrow> worker_later tts message_of w (ms @ [m]) (on_message m w')"
| later_step: "worker_later tts message_of w ms w' \<Longrightarrow> worker_step tts message_of w' w'' \<Longrightarrow> worker_later tts message_of w ms w''"

lemma later_run: "worker_later tts mo w ms' w' \<Longrightarrow> worker_run tts mo ms w \<Longrightarrow> worker_run tts mo (ms @ ms') w'"
proof (induction rule: worker_later.induct)
  case (later_receive ms' w' m)
  show ?case using wrun_receive [OF later_receive.IH [OF later_receive.prems], of m] by simp
qed (auto intro: worker_run.intros)

text \<open>\<open>hushed\<close>: a quiet handler stays quiet and no audio and no end is sent for it.\<close>

definition hushed :: "nat \<Rightarrow> worker \<Rightarrow> worker \<Rightarrow> bool" where
  "hushed i w w' \<longleftrightarrow> i < length (handlers w') \<and> hd_id (handlers w' ! i) = hd_id (handlers w ! i) \<and> quiet (handlers w' ! i)
     \<and> (\<exists>new. messages_for (hd_id (handlers w ! i)) w' = messages_for (hd_id (handlers w ! i)) w @ new \<and> list_all silent new)"

lemma hushed_trans:
  assumes "hushed i w w1" and "hushed i w1 w2"
  shows "hushed i w w2"
proof -
  obtain new new' where "messages_for (hd_id (handlers w ! i)) w1 = messages_for (hd_id (handlers w ! i)) w @ new" "list_all silent new"
    "messages_for (hd_id (handlers w ! i)) w2 = messages_for (hd_id (handlers w ! i)) w1 @ new'" "list_all silent new'"
    using assms unfolding hushed_def by auto
  then have "messages_for (hd_id (handlers w ! i)) w2 = messages_for (hd_id (handlers w ! i)) w @ new @ new'" "list_all silent (new @ new')" by simp_all
  then show ?thesis using assms unfolding hushed_def by auto
qed

lemma hushed_own_step:
  assumes "worker_inv tts mo ms w" and "own_step j w w'" and "i < length (handlers w)" and "quiet (handlers w ! i)"
  shows "hushed i w w'"
proof -
  obtain p new where j: "j < length (handlers w)" and h: "handlers w' = (handlers w)[j := (handlers w ! j)\<lparr>hd_phase := p\<rparr>]"
    and s: "sent w' = sent w @ new" and ids: "\<forall>m\<in>set new. message_id m = hd_id (handlers w ! j)"
    and q: "quiet (handlers w ! j) \<longrightarrow> list_all silent new" and p: "live p \<longrightarrow> live (phase_at w j)"
    using assms(2) unfolding own_step_def by blast
  show ?thesis
  proof (cases "i = j")
    case True
    then show ?thesis using messages_for_post [OF s ids] h j q p assms(4) unfolding hushed_def by (auto simp: quiet_def phase_at_def)
  next
    case False
    then have "hd_id (handlers w ! i) \<noteq> hd_id (handlers w ! j)" using distinct_ids [OF assms(1,3) j] by simp
    then have "messages_for (hd_id (handlers w ! i)) w' = messages_for (hd_id (handlers w ! i)) w" using s ids by (auto simp: messages_for_def filter_empty_conv)
    then show ?thesis using False h assms(3,4) unfolding hushed_def by simp
  qed
qed

lemma hushed_step:
  assumes "worker_inv tts mo ms w" and "worker_step tts mo w w'" and "i < length (handlers w)" and "quiet (handlers w ! i)"
  shows "hushed i w w'"
  using step_kinds [OF assms(1,2)]
proof (elim disjE conjE exE)
  fix new assume "handlers w' = handlers w" "sent w' = sent w @ new" "\<forall>m\<in>set new. message_id m = []"
  moreover have "hd_id (handlers w ! i) \<noteq> []" using inv_parts(2) [OF assms(1), of "handlers w ! i"] assms(3) by (metis nth_mem own_id_def)
  ultimately show ?thesis using assms(3,4) unfolding hushed_def by (auto simp: messages_for_def filter_empty_conv)
qed (rule hushed_own_step [OF assms(1) _ assms(3,4)])

lemma hushed_message:
  assumes "own_ids (ms @ [m])" and "i < length (handlers w)" and "quiet (handlers w ! i)"
  shows "hushed i w (on_message m w)"
proof -
  have rid: "msg_type m = js ''synthesize'' \<Longrightarrow> msg_requestId m \<noteq> []" using assms(1) by (auto simp: own_ids_def synth_messages_def)
  show ?thesis using message_kinds [of m w] rid assms(2,3) unfolding hushed_def add_handler_def
    by (auto simp: messages_for_def nth_append cancelled_at quiet_def split: if_splits)
qed

lemma hushed_later:
  assumes "worker_later tts mo w ms' w'" and "worker_run tts mo ms w" and "own_ids (ms @ ms')" and "i < length (handlers w)" and "quiet (handlers w ! i)"
  shows "hushed i w w'"
  using assms
proof (induction rule: worker_later.induct)
  case later_now
  then show ?case by (simp add: hushed_def)
next
  case (later_receive ms' w' m)
  have "own_ids (ms @ ms')" using own_ids_prefix [of "ms @ ms'" "[m]"] later_receive.prems by simp
  then have h: "hushed i w w'" using later_receive by blast
  show ?case using hushed_trans [OF h hushed_message [of "ms @ ms'"]] h later_receive.prems by (simp add: hushed_def)
next
  case (later_step ms' w' w'')
  then have h: "hushed i w w'" by blast
  show ?case using hushed_trans [OF h hushed_step [OF inv_run [OF later_run [OF later_step.hyps(1)]] later_step.hyps(2)]] h later_step.prems
    by (simp add: hushed_def)
qed

text \<open>C10: A cancelled request falls silent: when the ids of the requests differ and a request of the run is cancelled by
  its id, at whatever point of its life, then nothing that follows, in any order, sends audio or an end for
  it: what is still sent for its id can only be that it started or that it failed.\<close>

theorem worker_cancel_silences:
  assumes "worker_run tts message_of ms w" and "own_ids (ms @ c # ms')" and "m \<in> set (synth_messages ms)"
    and "msg_type c = js ''cancel''" and "msg_requestId c = msg_requestId m"
    and "worker_later tts message_of (on_message c w) ms' w'"
  shows "\<exists>new. messages_for (msg_requestId m) w' = messages_for (msg_requestId m) w @ new \<and> list_all silent new"
proof -
  have ids: "own_ids (ms @ [c])" "own_ids ms" using own_ids_prefix [of "ms @ [c]" ms'] own_ids_prefix [of ms] assms(2) by simp_all
  note inv = inv_run [OF assms(1) ids(2)]
  obtain i where i: "i < length (handlers w)" "hd_message (handlers w ! i) = m" using inv_parts(1) [OF inv] assms(3)
    by (metis in_set_conv_nth length_map nth_map)
  then have id: "hd_id (handlers w ! i) = msg_requestId m" using handler_id [OF inv i(1)] by simp
  have c: "on_message c w = cancel_request (msg_requestId m) w" using assms(4,5) by (simp add: on_message_def)
  then have w1: "length (handlers (on_message c w)) = length (handlers w)" "sent (on_message c w) = sent w"
    "hd_id (handlers (on_message c w) ! i) = msg_requestId m"
    using id i(1) by (auto simp: cancel_request_def cancelled_at split: option.splits)
  have "quiet (handlers (on_message c w) ! i)"
    using findable_run [OF assms(1) ids(2)] i(1) id c unfolding findable_def phase_at_def quiet_def
    by (cases "live (hd_phase (handlers w ! i))") (auto simp: cancel_request_def cancelled_at split: option.splits)
  then have "hushed i (on_message c w) w'"
    using hushed_later [OF assms(6) wrun_receive [OF assms(1)]] assms(2) i(1) w1(1) by simp
  then show ?thesis using w1 unfolding hushed_def by (simp add: messages_for_def)
qed

section \<open>A cancelled run\<close>

definition demo_cancel :: client_request where
  "demo_cancel = \<lparr>msg_type = js ''cancel'', msg_requestId = js ''a'', msg_text = [], msg_voice = []\<rparr>"

text \<open>Cancelled after it has begun, the request ends at its next chunk.\<close>

definition demo_stopped :: worker where
  "demo_stopped = stream_chunk 0 (Some \<lparr>audio_data = [Fin 0, Fin 1], sampling_rate = 8000\<rparr>) ([None], None) 0 24000 (on_message demo_cancel demo_begun)"

lemma demo_stopped_later: "worker_later demo_tts demo_text (on_message demo_cancel demo_begun) [] demo_stopped"
proof -
  have "worker_step demo_tts demo_text (on_message demo_cancel demo_begun) demo_stopped" unfolding demo_stopped_def
    by (rule worker_step.chunk; simp add: demo_cancel_def on_message_def cancel_request_def demo_steps phase_at_def)
  then show ?thesis by (rule later_step [OF later_now])
qed

theorem worker_cancel_silences_witness:
  "\<exists>new. messages_for (js ''a'') demo_stopped = messages_for (js ''a'') demo_begun @ new \<and> list_all silent new"
proof -
  have "own_ids ([demo_request] @ demo_cancel # [])" "demo_request \<in> set (synth_messages [demo_request])"
    by (simp_all add: own_ids_def synth_messages_def demo_request_def demo_cancel_def js_def)
  then show ?thesis
    using worker_cancel_silences [OF demo_run_begun _ _ _ _ demo_stopped_later, of demo_request] by (simp add: demo_cancel_def demo_request_def)
qed

end
