(* ===== verification/KittenProgress.thy ===== *)
theory KittenProgress
  imports KittenCancel
begin

text \<open>
  The Kitten worker always finishes. \<open>work\<close> counts what is left to do and falls with every step; \<open>waits_ok\<close> says that
  whatever is waited for has been begun, so a worker that can make no step has nothing left to do; with the
  refinement of the requests, it has answered everything.
\<close>

section \<open>Work left\<close>

definition request_script :: "(jsstr \<Rightarrow> jsstr \<Rightarrow> script) \<Rightarrow> client_request \<Rightarrow> script" where
  "request_script tts m = tts (trim (msg_text m)) (request_voice m)"

fun phase_work :: "(jsstr \<Rightarrow> jsstr \<Rightarrow> script) \<Rightarrow> client_request \<Rightarrow> handler_phase \<Rightarrow> nat" where
  "phase_work tts m (Waiting _) = length (fst (request_script tts m)) + 3"
| "phase_work tts m (Streaming s _ _) = length (fst s) + 2"
| "phase_work tts m (Rejected _) = 1"
| "phase_work tts m Ended = 0"

definition handler_work :: "(jsstr \<Rightarrow> jsstr \<Rightarrow> script) \<Rightarrow> handler \<Rightarrow> nat" where
  "handler_work tts h = phase_work tts (hd_message h) (hd_phase h)"

fun load_work :: "load \<Rightarrow> nat" where
  "load_work Fetching = 2" | "load_work (Arrived _) = 1" | "load_work (Settled _) = 0"

fun prepare_work :: "handler_phase \<Rightarrow> nat" where
  "prepare_work (Waiting _) = 1" | "prepare_work _ = 0"

definition work :: "(jsstr \<Rightarrow> jsstr \<Rightarrow> script) \<Rightarrow> worker \<Rightarrow> nat" where
  "work tts w = sum_list (map (handler_work tts) (handlers w)) + sum_list (map load_work (loads w)) + sum_list (map prepare_work (prepares w))"

lemma sum_list_update_less:
  fixes f :: "'a \<Rightarrow> nat"
  assumes "i < length xs" and "f x < f (xs ! i)"
  shows "sum_list (map f (xs[i := x])) < sum_list (map f xs)"
proof -
  have "xs = take i xs @ xs ! i # drop (Suc i) xs" by (rule id_take_nth_drop [OF assms(1)])
  then have "sum_list (map f xs) = sum_list (map f (take i xs)) + f (xs ! i) + sum_list (map f (drop (Suc i) xs))"
    by (metis (no_types, lifting) add.assoc list.simps(9) map_append sum_list.Cons sum_list_append)
  moreover have "sum_list (map f (xs[i := x])) = sum_list (map f (take i xs)) + f x + sum_list (map f (drop (Suc i) xs))"
    using assms(1) by (simp add: upd_conv_take_nth_drop)
  ultimately show ?thesis using assms(2) by simp
qed

lemma work_phase:
  assumes "i < length (handlers w)" and "handlers w' = (handlers w)[i := (handlers w ! i)\<lparr>hd_phase := p\<rparr>]" and "loads w' = loads w"
    and "prepares w' = prepares w" and "phase_work tts (hd_message (handlers w ! i)) p < phase_work tts (hd_message (handlers w ! i)) (phase_at w i)"
  shows "work tts w' < work tts w"
  using assms sum_list_update_less [of i "handlers w" "handler_work tts" "(handlers w ! i)\<lparr>hd_phase := p\<rparr>"]
  by (simp add: work_def handler_work_def phase_at_def)

lemma work_chunk:
  assumes "i < length (handlers w)" and "phase_at w i = Streaming (c # cs, fin) n rt"
  shows "work tts (stream_chunk i c (cs, fin) n rt w) < work tts w"
proof -
  have "work tts (set_handler i (Streaming (cs, fin) n' r) (post m w)) < work tts w" "work tts (set_handler i (Streaming (cs, fin) n' r) w) < work tts w" for n' r m
    using assms by (auto intro!: work_phase [where p = "Streaming (cs, fin) n' r"] simp: worker_simps)
  moreover have "work tts (leave i p w) < work tts w" if "p = Ended \<or> p = Rejected too_long" for p
    using assms that by (intro work_phase [where p = p]) (auto simp: worker_simps)
  ultimately show ?thesis by (simp add: stream_chunk_def Let_def split: option.splits)
qed

lemma work_load:
  assumes "k < length (loads w)" and "loads w' = (loads w)[k := l]" and "load_work l < load_work (loads w ! k)"
    and "handlers w' = handlers w" and "prepares w' = prepares w"
  shows "work tts w' < work tts w"
  using sum_list_update_less [of k "loads w" load_work l] assms by (simp add: work_def)

lemma work_prepare:
  assumes "i < length (prepares w)" and "prepares w ! i = Waiting l" and "prepares w' = (prepares w)[i := Ended]" and "loads w' = loads w"
    and "handlers w' = handlers w"
  shows "work tts w' < work tts w"
  using sum_list_update_less [of i "prepares w" prepare_work Ended] assms by (simp add: work_def)

lemma step_works:
  assumes "worker_step tts mo w w'"
  shows "work tts w' < work tts w"
  using assms
proof cases
  case (arrived k r)
  then show ?thesis by (intro work_load [where k = k and l = "Arrived r"]) (simp_all add: worker_simps)
next
  case (settled k r)
  then show ?thesis by (intro work_load [where k = k and l = "Settled r"]) (simp_all add: worker_simps)
next
  case (began i l)
  let ?p = "Streaming (request_script tts (hd_message (handlers w ! i))) 0 24000"
  show ?thesis using began
    by (intro work_phase [where i = i and p = ?p]) (simp_all add: synthesize_begin_def Let_def worker_simps request_script_def)
next
  case (load_failed i l e)
  then show ?thesis by (intro work_phase [where i = i and p = "Rejected e"]) (simp_all add: worker_simps)
next
  case (chunk i c cs fin n rt)
  then show ?thesis using work_chunk by blast
next
  case (ended i n rt)
  then show ?thesis by (intro work_phase [where i = i and p = Ended]) (simp_all add: worker_simps stream_end_def)
next
  case (threw i e n rt)
  then show ?thesis by (intro work_phase [where i = i and p = "Rejected e"]) (simp_all add: worker_simps)
next
  case (reported i e)
  then show ?thesis by (intro work_phase [where i = i and p = Ended]) (simp_all add: worker_simps report_def)
next
  case (ready i l)
  then show ?thesis by (intro work_prepare [where i = i and l = l]) (simp_all add: worker_simps)
next
  case (not_ready i l e)
  then show ?thesis by (intro work_prepare [where i = i and l = l]) (simp_all add: worker_simps)
qed

section \<open>Nothing is left waiting\<close>

text \<open>Every load that is waited for was begun, and a prepare message is waiting or answered.\<close>

fun waits_in :: "nat \<Rightarrow> handler_phase \<Rightarrow> bool" where
  "waits_in n (Waiting (Some k)) \<longleftrightarrow> k < n"
| "waits_in n p \<longleftrightarrow> True"

definition plain :: "handler_phase \<Rightarrow> bool" where
  "plain p \<longleftrightarrow> p = Ended \<or> (\<exists>l. p = Waiting l)"

definition waits_ok :: "worker \<Rightarrow> bool" where
  "waits_ok w \<longleftrightarrow> list_all (\<lambda>h. waits_in (length (loads w)) (hd_phase h)) (handlers w)
     \<and> list_all (\<lambda>p. waits_in (length (loads w)) p \<and> plain p) (prepares w)"

lemma waits_in_mono: "waits_in n p \<Longrightarrow> n \<le> n' \<Longrightarrow> waits_in n' p"
  by (cases "(n, p)" rule: waits_in.cases) auto

lemma waits_post: "waits_ok (post m w) \<longleftrightarrow> waits_ok w"
  by (simp add: waits_ok_def worker_simps)

lemma waits_set:
  assumes "waits_ok w" and "prepare_work p = 0"
  shows "waits_ok (set_handler i p w)" "waits_ok (leave i p w)"
proof -
  have "waits_in n p" for n using assms(2) by (cases p) auto
  then show "waits_ok (set_handler i p w)" "waits_ok (leave i p w)" using assms(1)
    unfolding waits_ok_def list_all_iff by (auto simp: worker_simps dest!: set_update_subset_insert [THEN subsetD])
qed

lemma waits_answered:
  "waits_ok w \<Longrightarrow> handlers w' = handlers w \<Longrightarrow> loads w' = loads w \<Longrightarrow> prepares w' = (prepares w)[i := Ended] \<Longrightarrow> waits_ok w'"
  unfolding waits_ok_def list_all_iff plain_def by (auto dest!: set_update_subset_insert [THEN subsetD])

lemma waits_step:
  assumes "worker_step tts mo w w'" and "waits_ok w"
  shows "waits_ok w'"
  using assms(1)
proof cases
  case (arrived k r)
  then show ?thesis using assms(2) by (simp add: waits_ok_def worker_simps)
next
  case (settled k r)
  then show ?thesis using assms(2) by (simp add: waits_ok_def worker_simps)
next
  case (ready i l)
  show ?thesis unfolding ready(1) by (rule waits_answered [OF assms(2), where i = i]) (simp_all add: worker_simps)
next
  case (not_ready i l e)
  show ?thesis unfolding not_ready(1) by (rule waits_answered [OF assms(2), where i = i]) (simp_all add: worker_simps)
qed (use assms(2) in \<open>simp_all add: waits_set waits_post synthesize_begin_def stream_chunk_def stream_end_def report_def Let_def split: option.splits\<close>)

lemma prepare_waits:
  assumes "prepare w = (l, w')" and "loads_ok w"
  shows "waits_in (length (loads w')) (Waiting l)" "length (loads w) \<le> length (loads w')"
proof -
  obtain fs ls where f: "loads w = fs @ ls" "load_state (model_loaded w) (preparing w) (length fs) ls"
    using assms(2) unfolding loads_ok_def by blast
  have "k < length (loads w)" if "preparing w = Some k" for k
    using f that by (cases "(model_loaded w, preparing w, length fs, ls)" rule: load_state.cases) auto
  then show "waits_in (length (loads w')) (Waiting l)" "length (loads w) \<le> length (loads w')"
    using assms(1) by (cases "preparing w"; auto simp: prepare_def split: if_splits)+
qed

lemma waits_grow:
  "waits_ok w \<Longrightarrow> length (loads w) \<le> length (loads w') \<Longrightarrow> handlers w' = handlers w @ hs \<Longrightarrow> prepares w' = prepares w @ ps \<Longrightarrow>
    list_all (\<lambda>h. waits_in (length (loads w')) (hd_phase h)) hs \<Longrightarrow> list_all (\<lambda>p. waits_in (length (loads w')) p \<and> plain p) ps \<Longrightarrow> waits_ok w'"
  unfolding waits_ok_def list_all_iff by (auto intro: waits_in_mono)

lemma waits_message:
  assumes "waits_ok w" and "loads_ok w"
  shows "waits_ok (on_message m w)"
proof -
  have prep: "waits_ok (w'\<lparr>prepares := prepares w' @ [Waiting l]\<rparr>)" if p: "prepare w = (l, w')" for l w'
    using prepare_waits [OF p assms(2)] prepare_fields [OF p]
    by (intro waits_grow [OF assms(1), where hs = "[]" and ps = "[Waiting l]"]) (simp_all add: plain_def)
  have cancel: "waits_ok (cancel_request rid w)" for rid
    using assms(1) unfolding cancel_request_def waits_ok_def list_all_length by (auto simp: cancelled_at split: option.splits)
  have start: "waits_ok (synthesize_start m w)"
  proof (cases "text_check (trim (msg_text m))")
    case (Inl e)
    then show ?thesis
      by (intro waits_grow [OF assms(1), where hs = "[\<lparr>hd_id = fst (request_id m w), hd_message = m, hd_cancelled = False, hd_phase = Rejected e\<rparr>]" and ps = "[]"])
        (auto simp: synthesize_start_def request_id_def Let_def)
  next
    case (Inr u)
    define rid where "rid = fst (request_id m w)"
    define w0 where "w0 = (snd (request_id m w))\<lparr>activeRequests := (activeRequests w)(rid \<mapsto> length (handlers w))\<rparr>"
    have w0: "loads w0 = loads w" "handlers w0 = handlers w" "prepares w0 = prepares w" "loads_ok w0"
      using assms(2) by (auto simp: w0_def request_id_def intro: loads_ok_same)
    obtain l w1 where p: "prepare w0 = (l, w1)" by (metis surj_pair)
    have "synthesize_start m w = w1\<lparr>handlers := handlers w1 @ [\<lparr>hd_id = rid, hd_message = m, hd_cancelled = False, hd_phase = Waiting l\<rparr>]\<rparr>"
      using Inr p by (auto simp: synthesize_start_def Let_def w0_def rid_def request_id_def)
    then show ?thesis using prepare_waits [OF p w0(4)] prepare_fields [OF p] w0
      by (intro waits_grow [OF assms(1), where hs = "[\<lparr>hd_id = rid, hd_message = m, hd_cancelled = False, hd_phase = Waiting l\<rparr>]" and ps = "[]"]) simp_all
  qed
  show ?thesis using assms(1) prep cancel start by (simp add: on_message_def split: prod.splits)
qed

lemma waits_run: "worker_run tts mo ms w \<Longrightarrow> waits_ok w"
proof (induction rule: worker_run.induct)
  case wrun_start
  show ?case by (simp add: waits_ok_def initial_worker_def)
qed (auto intro: waits_message waits_step dest: loads_ok_run)

text \<open>A worker that can make no step has nothing left to do.\<close>

definition at_rest :: "worker \<Rightarrow> bool" where
  "at_rest w \<longleftrightarrow> list_all (\<lambda>h. hd_phase h = Ended) (handlers w) \<and> list_all (\<lambda>p. p = Ended) (prepares w)
     \<and> list_all (\<lambda>l. load_work l = 0) (loads w)"

lemma stuck_loads:
  assumes "\<nexists>w'. worker_step tts mo w w'" and "k < length (loads w)"
  shows "\<exists>r. loads w ! k = Settled r"
  using assms worker_step.arrived worker_step.settled by (cases "loads w ! k") blast+

lemma stuck_waits:
  assumes "\<nexists>w'. worker_step tts mo w w'" and "waits_in (length (loads w)) (Waiting l)"
  shows "load_result w l = Some (Inr ()) \<or> (\<exists>e. load_result w l = Some (Inl e))"
proof (cases l)
  case (Some k)
  then obtain r where "loads w ! k = Settled r" "k < length (loads w)" using assms stuck_loads by (metis waits_in.simps(1))
  then show ?thesis using Some by (cases r) (auto simp: load_result_def)
qed (simp add: load_result_def)

lemma stuck_handler:
  assumes "\<nexists>w'. worker_step tts mo w w'" and "waits_ok w" and "i < length (handlers w)"
  shows "phase_at w i = Ended"
proof (cases "phase_at w i")
  case (Waiting l)
  then have "waits_in (length (loads w)) (Waiting l)" using assms(2,3) by (metis waits_ok_def list_all_length phase_at_def)
  then show ?thesis using stuck_waits [OF assms(1)] assms(1,3) Waiting worker_step.began worker_step.load_failed by metis
next
  case (Streaming s n rt)
  obtain cs fin where s: "s = (cs, fin)" by (metis surj_pair)
  show ?thesis
  proof (cases cs)
    case Nil
    then show ?thesis using assms(1,3) Streaming s worker_step.ended worker_step.threw by (cases fin) blast+
  next
    case (Cons c cs')
    then show ?thesis using assms(1,3) Streaming s worker_step.chunk by blast
  qed
next
  case (Rejected e)
  then show ?thesis using assms(1,3) worker_step.reported by blast
qed

lemma stuck_at_rest:
  assumes "\<nexists>w'. worker_step tts mo w w'" and "waits_ok w"
  shows "at_rest w"
proof -
  have "prepares w ! i = Ended" if i: "i < length (prepares w)" for i
  proof -
    have p: "waits_in (length (loads w)) (prepares w ! i)" "plain (prepares w ! i)" using assms(2) i by (simp_all add: waits_ok_def list_all_length)
    show ?thesis using p stuck_waits [OF assms(1)] assms(1) i worker_step.ready worker_step.not_ready unfolding plain_def by metis
  qed
  moreover have "load_work (loads w ! k) = 0" if "k < length (loads w)" for k using stuck_loads [OF assms(1) that] by auto
  ultimately show ?thesis using stuck_handler [OF assms] by (simp add: at_rest_def list_all_length phase_at_def)
qed

section \<open>Every preparation is answered\<close>

text \<open>The answers to prepare messages carry no request id.\<close>

definition answers_prepare :: "worker_message \<Rightarrow> bool" where
  "answers_prepare m \<longleftrightarrow> message_id m = []"

definition prepare_messages :: "client_request list \<Rightarrow> client_request list" where
  "prepare_messages ms = filter (\<lambda>m. msg_type m = js ''prepare'') ms"

definition prepares_answered :: "worker \<Rightarrow> nat" where
  "prepares_answered w = length (filter answers_prepare (sent w))"

definition prepares_open :: "worker \<Rightarrow> nat" where
  "prepares_open w = length (filter (\<lambda>p. p \<noteq> Ended) (prepares w))"

lemma prepares_same:
  "prepares w' = prepares w \<Longrightarrow> sent w' = sent w @ new \<Longrightarrow> list_all (\<lambda>m. message_id m \<noteq> []) new \<Longrightarrow>
    prepares_answered w' + prepares_open w' = prepares_answered w + prepares_open w"
  by (auto simp: prepares_answered_def prepares_open_def answers_prepare_def list_all_iff filter_empty_conv)

lemma count_ended:
  "i < length ps \<Longrightarrow> ps ! i \<noteq> Ended \<Longrightarrow> Suc (length (filter (\<lambda>p. p \<noteq> Ended) (ps[i := Ended]))) = length (filter (\<lambda>p. p \<noteq> Ended) ps)"
proof (induction ps arbitrary: i)
  case (Cons p ps)
  then show ?case by (cases i) auto
qed simp

lemma prepares_step:
  assumes "worker_step tts mo w w'" and "worker_inv tts mo ms w"
  shows "prepares_answered w' + prepares_open w' = prepares_answered w + prepares_open w"
proof -
  have id: "hd_id (handlers w ! i) \<noteq> []" "msg_requestId (hd_message (handlers w ! i)) \<noteq> []" if "i < length (handlers w)" for i
    using inv_parts(2) [OF assms(2), of "handlers w ! i"] that unfolding own_id_def by (metis nth_mem)+
  from assms(1) show ?thesis
  proof cases
    case (ready i l)
    then show ?thesis using count_ended [of i "prepares w"]
      by (simp add: prepares_answered_def prepares_open_def worker_simps answers_prepare_def message_id_def)
  next
    case (not_ready i l e)
    then show ?thesis using count_ended [of i "prepares w"]
      by (simp add: prepares_answered_def prepares_open_def worker_simps answers_prepare_def message_id_def)
  next
    case (began i l)
    show ?thesis
      by (rule prepares_same [where new = "[WStarted (hd_id (handlers w ! i))]"])
        (use began id in \<open>simp_all add: synthesize_begin_def Let_def worker_simps message_id_def\<close>)
  next
    case (chunk i c cs fin n rt)
    define new where "new = drop (length (sent w)) (sent w')"
    have "prepares w' = prepares w \<and> sent w' = sent w @ new \<and> list_all (\<lambda>m. message_id m \<noteq> []) new"
      using chunk id by (auto simp: new_def stream_chunk_def Let_def worker_simps message_id_def split: option.splits)
    then show ?thesis using prepares_same by blast
  next
    case (ended i n rt)
    define new where "new = drop (length (sent w)) (sent w')"
    have "prepares w' = prepares w \<and> sent w' = sent w @ new \<and> list_all (\<lambda>m. message_id m \<noteq> []) new"
      using ended id by (auto simp: new_def stream_end_def worker_simps message_id_def)
    then show ?thesis using prepares_same by blast
  next
    case (reported i e)
    show ?thesis
      by (rule prepares_same [where new = "[WError (msg_requestId (hd_message (handlers w ! i))) (mo e)]"])
        (use reported id in \<open>simp_all add: report_def worker_simps message_id_def\<close>)
  qed (rule prepares_same [where new = "[]"]; simp add: worker_simps)+
qed

lemma prepares_message:
  "prepares_answered (on_message m w) + prepares_open (on_message m w)
     = prepares_answered w + prepares_open w + (if msg_type m = js ''prepare'' then 1 else 0)"
proof -
  have start: "prepares (synthesize_start m w) = prepares w \<and> sent (synthesize_start m w) = sent w"
    by (auto simp: synthesize_start_def request_id_def Let_def split: prod.splits sum.splits dest: prepare_fields)
  have "prepares (cancel_request rid w) = prepares w \<and> sent (cancel_request rid w) = sent w" for rid
    by (simp add: cancel_request_def split: option.splits)
  then show ?thesis using start
    by (auto simp: on_message_def prepares_answered_def prepares_open_def prepare_fields split: prod.splits)
qed

lemma prepares_run:
  "worker_run tts mo ms w \<Longrightarrow> own_ids ms \<Longrightarrow> prepares_answered w + prepares_open w = length (prepare_messages ms)"
proof (induction rule: worker_run.induct)
  case wrun_start
  show ?case by (simp add: prepares_answered_def prepares_open_def prepare_messages_def initial_worker_def)
next
  case (wrun_receive ms w m)
  then show ?case using own_ids_prefix [OF wrun_receive.prems] prepares_message [of m w] by (simp add: prepare_messages_def)
next
  case (wrun_step ms w w')
  then show ?case using prepares_step [OF wrun_step.hyps(2) inv_run [OF wrun_step.hyps(1) wrun_step.prems]] by simp
qed

text \<open>Everything has been answered: no load is under way; every synthesis asked for has a handler, and unless it
  was cancelled, the messages sent for it are its whole specified answer, from a load that has ended; and
  there are as many answers to prepare messages as prepare messages.\<close>

definition all_answered ::
  "(jsstr \<Rightarrow> jsstr \<Rightarrow> script) \<Rightarrow> (js_error \<Rightarrow> jsstr) \<Rightarrow> client_request list \<Rightarrow> worker \<Rightarrow> bool" where
  "all_answered tts message_of ms w \<longleftrightarrow>
     list_all (\<lambda>l. \<exists>r. l = Settled r) (loads w)
     \<and> map hd_message (handlers w) = synth_messages ms
     \<and> list_all (\<lambda>h. hd_cancelled h \<or> (\<exists>r. load_ended w r
          \<and> messages_for (msg_requestId (hd_message h)) w = request_messages tts message_of r (hd_message h))) (handlers w)
     \<and> length (filter (\<lambda>m. message_id m = []) (sent w)) = length (prepare_messages ms)"

lemma rest_answered:
  assumes "worker_run tts mo ms w" and "own_ids ms" and "at_rest w"
  shows "all_answered tts mo ms w"
proof -
  note p = inv_parts [OF inv_run [OF assms(1,2)]]
  have rest: "\<And>h. h \<in> set (handlers w) \<Longrightarrow> hd_phase h = Ended" "\<And>x. x \<in> set (prepares w) \<Longrightarrow> x = Ended"
    "\<And>l. l \<in> set (loads w) \<Longrightarrow> load_work l = 0" using assms(3) by (simp_all add: at_rest_def list_all_iff)
  have "\<exists>r. l = Settled r" if "l \<in> set (loads w)" for l using rest(3) [OF that] by (cases l) auto
  moreover have "hd_cancelled h \<or> (\<exists>r. load_ended w r
      \<and> messages_for (msg_requestId (hd_message h)) w = request_messages tts mo r (hd_message h))" if h: "h \<in> set (handlers w)" for h
    using track_prefix [OF p(3) [OF h]] rest(1) [OF h] p(2) [OF h] by (auto simp: own_id_def)
  moreover have "filter (\<lambda>x. x \<noteq> Ended) (prepares w) = []" using rest(2) by (auto simp: filter_empty_conv)
  then have "length (filter (\<lambda>m. message_id m = []) (sent w)) = length (prepare_messages ms)"
    using prepares_run [OF assms(1,2)] by (simp add: prepares_answered_def prepares_open_def answers_prepare_def [abs_def])
  ultimately show ?thesis using p(1) unfolding all_answered_def list_all_iff by blast
qed

text \<open>C9: The worker comes to rest, and then it has answered: when the ids of the requests differ, between two messages
  it makes only finitely many steps, at most as many as the loads under way, the chunks still to stream
  and the answers still to give; and it can stop only where no load is under way, every synthesis that
  was not cancelled has been sent its whole specified answer, and every prepare message has been
  answered. A cancelled synthesis may end with a part of its answer.\<close>

theorem worker_comes_to_rest:
  assumes "worker_run tts message_of ms w" and "own_ids ms" and "(worker_step tts message_of ^^ n) w w'"
  shows "n \<le> work tts w \<and> (all_answered tts message_of ms w' \<or> (\<exists>w''. worker_step tts message_of w' w''))"
proof -
  have steps: "worker_run tts message_of ms w' \<and> n + work tts w' \<le> work tts w"
    using assms(3)
  proof (induction n arbitrary: w')
    case 0
    then show ?case using assms(1) by simp
  next
    case (Suc n)
    then obtain v where v: "(worker_step tts message_of ^^ n) w v" "worker_step tts message_of v w'" by auto
    then show ?case using Suc.IH [OF v(1)] step_works [OF v(2)] wrun_step [OF _ v(2)] by auto
  qed
  then show ?thesis using stuck_at_rest [OF _ waits_run] rest_answered [OF _ assms(2)] by force
qed

theorem worker_comes_to_rest_witness:
  "2 \<le> work demo_tts demo_spoken \<and> all_answered demo_tts demo_text [demo_request] demo_done"
proof -
  let ?w = "stream_chunk 0 None ([], None) 2 8000 demo_spoken"
  have 1: "worker_step demo_tts demo_text demo_spoken ?w" by (rule worker_step.chunk; simp add: demo_handlers)
  have 2: "worker_step demo_tts demo_text ?w demo_done" unfolding demo_done_def
    by (rule worker_step.ended; simp add: demo_steps phase_at_def MAX_AUDIO_SECONDS_def)
  have steps: "(worker_step demo_tts demo_text ^^ 2) demo_spoken demo_done"
    using 1 2 by (auto simp: numeral_2_eq_2)
  have "prepares demo_done = []" by (simp add: demo_steps MAX_AUDIO_SECONDS_def)
  then have "\<nexists>w''. worker_step demo_tts demo_text demo_done w''"
    by (auto simp: demo_done_is phase_at_def elim!: worker_stepE)
  then show ?thesis using worker_comes_to_rest [OF demo_run_spoken demo_own_ids steps] by simp
qed

end
