(* ===== verification/Spec2Isabelle.thy ===== *)
theory Spec2Isabelle
  imports Host TokenizerSandbox Soundness KittenSpeech KittenProgress
begin

text \<open>
  A verification library for the browser voice of samosa-chat: the JavaScript under
  \<open>src/assets/voice/browser/tts\<close> that turns the text of a chat into audio. The program has two voices.

  \<^bold>\<open>MOSS\<close> (\<open>moss/\<close>). \<open>browser_onnx_host.js\<close> runs in a frame, takes requests from the page by message, and answers
  each with audio chunks that the page acknowledges and one response. It uses \<open>browser_model_store.js\<close>, which
  keeps the model files in the origin-private file system, and \<open>browser_onnx_runtime.js\<close>, which normalises and
  chunks the text, tokenizes it in a second, sandboxed frame (\<open>tokenizer_sandbox.js\<close>), generates audio codes frame
  by frame with an autoregressive model, and decodes them with a streaming codec.

  \<^bold>\<open>Kitten\<close> (\<open>kitten/\<close>). \<open>worker.js\<close> is a web worker that loads one model, streams the audio of each request from
  \<open>KittenTTS\<close> in \<open>kitten-tts.browser.js\<close> (download and cache, NumPy voice files, text preprocessing, phonemes and
  symbols, inference, WAV output), and can cancel.

  \<^bold>\<open>How programs are modelled.\<close> Strings are lists of UTF-16 code units (\<open>jsstr\<close>), numbers are rationals with \<open>NaN\<close> and
  the infinities, rounded to double or single precision where the code rounds. What throws returns a value of the
  type \<open>'a result\<close>, with the error on the left. Asynchronous methods of the runtime that run one at a time are
  state-passing procedures (\<open>ProcLogic\<close>), whose state is kept when they throw. The host page, the tokenizer with its
  frame, and the Kitten worker, which interleave, are step relations: each step is the synchronous code between
  two awaits, and every order of steps is a run. Code that is not in the repository's own sources (ONNX Runtime,
  SentencePiece, JSZip, the phonemizer, Unicode tables, the network, storage and the clock) enters as parameters.
  Loops are structural or have a measure. Fuel is used in one place: \<open>rx_rep\<close> of \<open>JsRegex\<close> bounds the rounds of a
  repetition by what is left of the input plus the rounds that are required, which is enough, since a
  round beyond those that consumes nothing is refused.

  \<^bold>\<open>Foundations.\<close>
  \<^item> \<open>Prelude\<close>: strings, results, slices, typed arrays; the lemmas all theories share.
  \<^item> \<open>JsRegex\<close>, \<open>JsReplace\<close>: a backtracking matcher for the regular expressions of the code, with global matching and
    replacement.
  \<^item> \<open>Numbers\<close>: IEEE rounding and arithmetic. \<open>Uri\<close>: percent encoding. \<open>ProcLogic\<close>: procedures, what they keep.

  \<^bold>\<open>MOSS.\<close>
  \<^item> \<open>Host\<close> (\<open>browser_onnx_host.js\<close>): every request is answered exactly once, no acknowledgement is lost, a cancel
    reaches its request and silences it.
  \<^item> \<open>ModelStore\<close> (\<open>browser_model_store.js\<close>): a returned installation is complete; paths stay inside their directory;
    keys round-trip; a broken download leaves a file that counts as present.
  \<^item> \<open>TtsNormalizer\<close>, \<open>TextChunking\<close>, \<open>RuntimePaths\<close>, \<open>Profile\<close>, \<open>Sampling\<close>, \<open>Tensors\<close>, \<open>CodecStream\<close>: the parts of
    \<open>browser_onnx_runtime.js\<close> up to its class, in the order of the file.
  \<^item> \<open>TokenizerSandbox\<close>, \<open>Base64\<close>: the two ends of the tokenizer frame; a call is carried exactly once and answered with
    the tokens of its own text; model bytes arrive unchanged.
  \<^item> \<open>RuntimeState\<close>, \<open>RuntimeLoading\<close>: the state of \<open>BrowserOnnxTtsRuntime\<close>, configuration and loading; loading is done
    once.
  \<^item> \<open>Generation\<close>, \<open>Synthesis\<close>: the generation loop, decoding, streaming and the voice-clone request.
  \<^item> \<open>Delivery\<close>: frames generated, fed back, decoded and handed to the caller are the same, in order.
  \<^item> \<open>Soundness\<close>: the invariant of the runtime over its whole interface; every chunk of the text is spoken; the
    prompt is well-shaped; two configurations in which generation or warm-up always fails.

  \<^bold>\<open>Kitten.\<close>
  \<^item> \<open>KittenLoader\<close>: a model is downloaded once, under Node and in the browser (one locale, two interpretations).
  \<^item> \<open>KittenArrays\<close>: NumPy matrices are read right; WAV files read back.
  \<^item> \<open>KittenNumbers\<close>, \<open>KittenText\<close>: number words read back as the number; texts that come out wrong. \<open>KittenSpeech\<close>: the
    number pass against a description of its own: numbers are replaced by their words, and nothing else changes.
  \<^item> \<open>KittenChunking\<close>, \<open>KittenTts\<close>: chunks lose nothing, inputs of the model are well-formed, \<open>generate\<close> and \<open>stream\<close> agree.
  \<^item> \<open>KittenWorker\<close>: the worker and its specification \<open>request_messages\<close>, which answers one request alone.
    \<open>KittenRequests\<close>: the worker refines it; the 24 second bound; one load at a time. \<open>KittenCancel\<close>: cancellation
    silences. \<open>KittenProgress\<close>: the worker comes to rest, and every request that was not cancelled is answered.
  \<^item> This theory: the worker and the model together. What the client hears is what \<open>generate\<close> returns.

  \<^bold>\<open>Interfaces.\<close> Where a client relies on a provider the contract is a locale, interpreted on the definitions of
  the code in the theory of the provider.

  \<^bold>\<open>Not modelled.\<close> The gateway and inference engine in C and C++, the page \<open>app.html\<close>, and the vendored libraries
  bundled into \<open>kitten-tts.browser.js\<close> and \<open>tokenizer_sandbox.js\<close>. Of the modelled classes: \<open>KittenTTS.release\<close>,
  \<open>RawAudio.save\<close> and \<open>toAudioBuffer\<close>, which only hand over to the session, the file system and the Web Audio API.
  Objects used as dictionaries are maps; names inherited from \<open>Object.prototype\<close> are not considered. In the Kitten
  worker the text, voice and id of a message are strings, an absent one the empty string.

  \<^bold>\<open>Simplified.\<close> The methods of \<open>BrowserOnnxTtsRuntime\<close> run one after the other, each as a whole. The host does let requests
  overlap; what can go wrong then is shown on one case, \<open>configure_during_load\<close> of \<open>RuntimeLoading\<close>, where a
  configuration that arrives during a load leaves a prepared runtime without its sessions. \<open>Promise.all\<close> over two
  downloads (\<open>bothP\<close>) runs them in order, which differs only for colliding cache keys. \<open>parent.postMessage\<close> is taken
  not to throw. The base64 round trip is for inputs
  below the largest buffer. The page of the tokenizer frame can be replaced when its \<open>src\<close> is assigned again:
  calls under way are then lost, which \<open>TokenizerSandbox\<close> has as a step and \<open>tokenizer_call_lost\<close> shows.
\<close>

section \<open>The Kitten worker with its model\<close>

text \<open>What \<open>stream\<close> yields to the worker, which asks for the default speed and for cleaning.\<close>

definition kitten_script :: "platform \<Rightarrow> kitten_tts \<Rightarrow> jsstr \<Rightarrow> jsstr \<Rightarrow> script" where
  "kitten_script P t text voice = (case stream P t text voice (Fin 1) True of (ys, e) \<Rightarrow> (map (Some \<circ> snd) ys, e))"

definition audio_in :: "worker_message list \<Rightarrow> num list" where
  "audio_in ms = concat (map (\<lambda>m. case m of WAudio _ _ d \<Rightarrow> d | _ \<Rightarrow> []) ms)"

definition chunk_samples :: "raw_audio option \<Rightarrow> num list" where
  "chunk_samples c = (case c of None \<Rightarrow> [] | Some a \<Rightarrow> audio_data a)"

lemma speak_done:
  "speak rid mo cs fin n rt = before @ WDone x rate m # after \<Longrightarrow>
    after = [] \<and> fin = None \<and> audio_in before = concat (map chunk_samples cs) \<and> m = n + length (audio_in before)"
proof (induction rid mo cs fin n rt arbitrary: before rule: speak.induct)
  case (4 rid mo a cs fin n rt)
  define rate' where "rate' = (if sampling_rate a \<noteq> 0 then sampling_rate a else rt)"
  show ?case
  proof (cases "audio_data a = []")
    case True
    then show ?thesis using 4 by (simp add: chunk_samples_def)
  next
    case False
    then have short: "\<not> rate' * 24 < n + length (audio_data a)"
      using "4.prems" by (auto simp: Let_def rate'_def Cons_eq_append_conv split: if_splits)
    then obtain bs where "before = WAudio rid rate' (audio_data a) # bs"
      "speak rid mo cs fin (n + length (audio_data a)) rate' = bs @ WDone x rate m # after"
      using "4.prems" False by (auto simp: Let_def rate'_def Cons_eq_append_conv)
    then show ?thesis using "4.IH"(2) [OF False rate'_def refl short, of bs]
      by (simp add: audio_in_def chunk_samples_def)
  qed
qed (auto simp: Cons_eq_append_conv audio_in_def chunk_samples_def)

text \<open>C8: What the client hears is what the model generates: when the worker streams from the model, then in every run
  whose requests have different ids, once a request is reported done its audio messages, put together, are exactly
  the audio that \<open>generate\<close> gives for the request's text and voice, and the report counts its samples.\<close>

theorem worker_speaks_generated_audio:
  assumes "worker_run (kitten_script P t) message_of ms w" and "own_ids ms" and "rid \<noteq> []"
    and "messages_for rid w = before @ WDone rid rate n # after"
  shows "\<exists>m a. m \<in> set ms \<and> msg_requestId m = rid \<and> generate P t (trim (msg_text m)) (request_voice m) (Fin 1) True = Inr a
    \<and> audio_in before = audio_data a \<and> n = length (audio_data a) \<and> after = []"
proof -
  note p = inv_parts [OF inv_run [OF assms(1,2)]]
  have "messages_for rid w \<noteq> []" using assms(4) by simp
  then obtain h where h: "h \<in> set (handlers w)" "hd_id h = rid" using p(5) [OF assms(3)] by auto
  let ?m = "hd_message h"
  have "?m \<in> set (map hd_message (handlers w))" using h(1) by simp
  then have m: "?m \<in> set ms" "msg_requestId ?m = rid" using p(2) [OF h(1)] h(2) unfolding p(1) by (simp_all add: synth_messages_def own_id_def)
  obtain r rest where "request_messages (kitten_script P t) message_of r ?m = before @ WDone rid rate n # after @ rest"
    using track_prefix [OF p(3) [OF h(1)]] h(2) assms(4) by (auto simp: prefix_def)
  then obtain cs fin bs where s: "kitten_script P t (trim (msg_text ?m)) (request_voice ?m) = (cs, fin)"
      "speak rid message_of cs fin 0 24000 = bs @ WDone rid rate n # after @ rest" "before = WStarted rid # bs"
    using m(2) by (auto simp: request_messages_def Let_def Cons_eq_append_conv split: sum.splits prod.splits)
  note d = speak_done [OF s(2)]
  obtain ys where ys: "stream P t (trim (msg_text ?m)) (request_voice ?m) (Fin 1) True = (ys, None)" "cs = map (Some \<circ> snd) ys"
    using s(1) d by (auto simp: kitten_script_def split: prod.splits)
  have "concat (map chunk_samples cs) = concat (map (audio_data \<circ> snd) ys)" by (simp add: ys(2) chunk_samples_def comp_def)
  then show ?thesis using m d s(3) generate_stream [of P t "trim (msg_text ?m)" "request_voice ?m" "Fin 1" True] ys(1)
    by (intro exI [of _ ?m]) (simp add: audio_in_def)
qed

section \<open>A spoken request\<close>

text \<open>A model whose session gives 5002 samples of silence, of which the trimming leaves two.\<close>

definition silent_kitten :: kitten_tts where
  "silent_kitten = new_kitten (\<lambda>ids st d sp. Inr [(js ''waveform'', replicate 5002 (Fin 0))]) [(js ''expr-voice-2-m'', small_voice)] tiny_config"

lemma silent_inference: "runInference silent_kitten inp = Inr [Fin 0, Fin 0]"
proof -
  have "fround (Fin 0) = Fin 0" by code_simp
  moreover have "subarray (replicate 5002 (Fin 0)) 0 2 = [Fin 0, Fin 0]"
    by (simp add: subarray_def rel_index_def slice_def numeral_2_eq_2)
  ultimately show ?thesis by (simp add: runInference_def silent_kitten_def new_kitten_def AUDIO_TRIM_def)
qed

lemma spelled_phonemes: "\<exists>ph. phonemize (pl_phonemes small_platform) s = Inr ph"
proof -
  have "\<exists>ph. foldR (\<lambda>processed chunk. bindR (piece_phonemes (\<lambda>s. Inr [s]) chunk) (\<lambda>p. Inr (processed @ p))) acc cs = Inr ph" for acc cs
    by (induction cs arbitrary: acc) (simp_all add: piece_phonemes_def)
  from this [of "[]" "splitPreserve PUNCTUATION_PATTERN s"] show ?thesis by (auto simp: phonemize_def small_platform_def)
qed

lemma silent_chunk: "chunk_audio small_platform silent_kitten (js ''Jasper'') (Fin 1) True chunk = Inr [Fin 0, Fin 0]"
proof -
  have al: "map_of DEFAULT_VOICE_ALIASES (js ''Jasper'') = Some (js ''expr-voice-2-m'')" "js ''expr-voice-2-m'' \<noteq> []" by code_simp+
  have "resolve_voice_name silent_kitten (js ''Jasper'') = js ''expr-voice-2-m''"
    unfolding resolve_voice_name_def silent_kitten_def new_kitten_def by (simp only: kitten_tts.simps) (simp add: al tiny_config_def)
  then have "map_of (rev (kt_voices silent_kitten)) (resolve_voice_name silent_kitten (js ''Jasper'')) = Some small_voice"
    by (simp add: silent_kitten_def new_kitten_def)
  moreover obtain ph where "phonemize (pl_phonemes small_platform) (process (pl_unicode small_platform) kitten_config chunk) = Inr ph"
    using spelled_phonemes by blast
  ultimately show ?thesis by (simp add: chunk_audio_def prepareInputs_def silent_inference Let_def)
qed

lemma silent_script:
  "kitten_script small_platform silent_kitten (trim (js '' Hi '')) (js ''Jasper'') = ([Some \<lparr>audio_data = [Fin 0, Fin 0], sampling_rate = 24000\<rparr>], None)"
proof -
  have "chunkText (trim (js '' Hi '')) = [js ''Hi,'']" by code_simp
  then show ?thesis by (simp add: kitten_script_def stream_def silent_chunk SAMPLE_RATE_def)
qed

definition heard :: worker where
  "heard = stream_end 0 2 24000 (stream_chunk 0 (Some \<lparr>audio_data = [Fin 0, Fin 0], sampling_rate = 24000\<rparr>) ([], None) 0 24000
     (synthesize_begin (kitten_script small_platform silent_kitten) 0 demo_loaded))"

lemma silent_begin:
  "synthesize_begin (kitten_script small_platform silent_kitten) 0 demo_loaded =
    set_handler 0 (Streaming ([Some \<lparr>audio_data = [Fin 0, Fin 0], sampling_rate = 24000\<rparr>], None) 0 24000) (post (WStarted (js ''a'')) demo_loaded)"
proof -
  have "msg_text demo_request = js '' Hi ''" "request_voice demo_request = js ''Jasper''"
    by (simp_all add: demo_request_def request_voice_def DEFAULT_VOICE_def)
  then have "kitten_script small_platform silent_kitten (trim (msg_text demo_request)) (request_voice demo_request)
      = ([Some \<lparr>audio_data = [Fin 0, Fin 0], sampling_rate = 24000\<rparr>], None)"
    using silent_script by (simp only:)
  moreover have "handlers demo_loaded ! 0 = \<lparr>hd_id = js ''a'', hd_message = demo_request, hd_cancelled = False, hd_phase = Waiting (Some 0)\<rparr>"
    by (simp add: demo_loaded_def demo_waiting_is load_then_def load_finally_def)
  ultimately show ?thesis by (simp add: synthesize_begin_def Let_def)
qed

lemma heard_run: "worker_run (kitten_script small_platform silent_kitten) demo_text [demo_request] heard"
proof -
  have "worker_run (kitten_script small_platform silent_kitten) demo_text [demo_request] (synthesize_begin (kitten_script small_platform silent_kitten) 0 demo_loaded)"
    using demo_run_loaded by (rule wrun_step) (rule worker_step.began [where l = "Some 0"]; simp add: demo_handlers load_result_def)
  then have "worker_run (kitten_script small_platform silent_kitten) demo_text [demo_request]
      (stream_chunk 0 (Some \<lparr>audio_data = [Fin 0, Fin 0], sampling_rate = 24000\<rparr>) ([], None) 0 24000
        (synthesize_begin (kitten_script small_platform silent_kitten) 0 demo_loaded))"
    unfolding silent_begin by (rule wrun_step) (rule worker_step.chunk; simp add: demo_steps phase_at_def)
  then show ?thesis unfolding heard_def silent_begin
    by (rule wrun_step) (rule worker_step.ended; simp add: demo_steps phase_at_def MAX_AUDIO_SECONDS_def)
qed

theorem worker_speaks_generated_audio_witness:
  "\<exists>a. generate small_platform silent_kitten (trim (msg_text demo_request)) (request_voice demo_request) (Fin 1) True = Inr a \<and> audio_data a = [Fin 0, Fin 0]"
proof -
  have "messages_for (js ''a'') heard = [WStarted (js ''a''), WAudio (js ''a'') 24000 [Fin 0, Fin 0]] @ WDone (js ''a'') 24000 2 # []"
    unfolding heard_def silent_begin by (simp add: demo_steps MAX_AUDIO_SECONDS_def messages_for_def message_id_def)
  from worker_speaks_generated_audio [OF heard_run demo_own_ids _ this] show ?thesis by (auto simp: audio_in_def js_def)
qed

end
